(* ===== verification/Balerix_Prelude.thy ===== *)
theory Balerix_Prelude
  imports Main "HOL-Library.Word" "HOL-Library.List_Lexorder" "HOL-Library.Char_ord"
    "HOL-Library.Sublist" "HOL-Library.Product_Lexorder" "HOL-Library.Multiset"
begin

text \<open>
  The prelude of the balerix development: what the Rust language and its standard library give
  the modelled crates, as total executable functions, and the generic lemmas the components
  share.

  \<^item> \<open>Result<T, E>\<close> is the sum \<open>'e + 'a\<close> (\<open>Inl\<close> is \<open>Err\<close>); \<open>rbind\<close> is the \<open>?\<close> operator and
    \<open>rfold\<close> a \<open>for\<close> loop whose body may return early.
  \<^item> \<open>String\<close> and \<open>&str\<close> are \<open>char list\<close>, one \<open>char\<close> per UTF-8 byte, ordered lexicographically
    (Rust's \<open>Ord\<close> on strings), with \<open>split\<close>, \<open>split_once\<close>, \<open>strip_prefix\<close> and their kin.
  \<^item> \<open>BTreeMap\<close> is an association list with strictly ascending keys, so that iteration order is
    part of the model; \<open>BTreeSet\<close> is a strictly ascending list. The locale \<open>ordered_map\<close> is the
    interface the components use, interpreted here on the association lists.
  \<^item> \<open>u32\<close> and \<open>u64\<close> are words, with \<open>saturating_add\<close>, \<open>saturating_mul\<close> and \<open>checked_shl\<close>.
\<close>

named_theorems result_simps \<open>equations of the Result combinators\<close>
named_theorems bt_simps \<open>equations of the BTreeMap operations\<close>

type_synonym u8 = "8 word"
type_synonym i32 = "32 word"
type_synonym u32 = "32 word"
type_synonym u64 = "64 word"

text \<open>\<open>Instant\<close> and \<open>Duration\<close> in nanoseconds; subtraction saturates at zero, as \<open>duration_since\<close> does.\<close>

type_synonym instant = nat
type_synonym duration = nat

section \<open>Results and loops that return early\<close>

fun rbind :: "'e + 'a \<Rightarrow> ('a \<Rightarrow> 'e + 'b) \<Rightarrow> 'e + 'b" where
  "rbind (Inl e) f = Inl e"
| "rbind (Inr a) f = f a"

fun map_err :: "('e \<Rightarrow> 'f) \<Rightarrow> 'e + 'a \<Rightarrow> 'f + 'a" where
  "map_err f (Inl e) = Inl (f e)"
| "map_err f (Inr a) = Inr a"

definition ok_or :: "'e \<Rightarrow> 'a option \<Rightarrow> 'e + 'a" where
  "ok_or e x = (case x of None \<Rightarrow> Inl e | Some a \<Rightarrow> Inr a)"

fun rfold :: "('a \<Rightarrow> 's \<Rightarrow> 'e + 's) \<Rightarrow> 'a list \<Rightarrow> 's \<Rightarrow> 'e + 's" where
  "rfold f [] s = Inr s"
| "rfold f (x # xs) s = rbind (f x s) (rfold f xs)"

definition is_ok :: "'e + 'a \<Rightarrow> bool" where
  "is_ok r = (case r of Inl _ \<Rightarrow> False | Inr _ \<Rightarrow> True)"

section \<open>Iterators\<close>

text \<open>\<open>Iterator::find_map\<close> and \<open>Iterator::position\<close>.\<close>

fun find_map :: "('a \<Rightarrow> 'b option) \<Rightarrow> 'a list \<Rightarrow> 'b option" where
  "find_map f [] = None"
| "find_map f (x # xs) = (case f x of None \<Rightarrow> find_map f xs | Some y \<Rightarrow> Some y)"

fun position :: "('a \<Rightarrow> bool) \<Rightarrow> 'a list \<Rightarrow> nat option" where
  "position P [] = None"
| "position P (x # xs) = (if P x then Some 0 else map_option Suc (position P xs))"

section \<open>Strings\<close>

definition str_starts_with :: "'a list \<Rightarrow> 'a list \<Rightarrow> bool" where
  "str_starts_with s p = prefix p s"

definition str_ends_with :: "'a list \<Rightarrow> 'a list \<Rightarrow> bool" where
  "str_ends_with s p = suffix p s"

definition str_contains :: "'a list \<Rightarrow> 'a list \<Rightarrow> bool" where
  "str_contains s p = sublist p s"

fun strip_prefix :: "'a list \<Rightarrow> 'a list \<Rightarrow> 'a list option" where
  "strip_prefix [] s = Some s"
| "strip_prefix (p # ps) [] = None"
| "strip_prefix (p # ps) (c # cs) = (if p = c then strip_prefix ps cs else None)"

definition strip_suffix :: "'a list \<Rightarrow> 'a list \<Rightarrow> 'a list option" where
  "strip_suffix p s =
     (if suffix p s then Some (take (length s - length p) s) else None)"

fun split_once :: "'a \<Rightarrow> 'a list \<Rightarrow> ('a list \<times> 'a list) option" where
  "split_once d [] = None"
| "split_once d (c # cs) =
     (if c = d then Some ([], cs)
      else case split_once d cs of None \<Rightarrow> None | Some (a, b) \<Rightarrow> Some (c # a, b))"

fun split_on :: "'a \<Rightarrow> 'a list \<Rightarrow> 'a list list" where
  "split_on d [] = [[]]"
| "split_on d (c # cs) =
     (if c = d then [] # split_on d cs
      else case split_on d cs of [] \<Rightarrow> [[c]] | p # ps \<Rightarrow> (c # p) # ps)"

fun join_with :: "'a \<Rightarrow> 'a list list \<Rightarrow> 'a list" where
  "join_with d [] = []"
| "join_with d [p] = p"
| "join_with d (p # q # ps) = p @ d # join_with d (q # ps)"

text \<open>\<open>str::splitn\<close>: at most \<open>n\<close> parts, the last holding the rest.\<close>

fun splitn :: "nat \<Rightarrow> char \<Rightarrow> string \<Rightarrow> string list" where
  "splitn 0 d s = []"
| "splitn (Suc 0) d s = [s]"
| "splitn (Suc (Suc n)) d s =
     (case split_once d s of None \<Rightarrow> [s] | Some (a, b) \<Rightarrow> a # splitn (Suc n) d b)"

definition is_ascii_lowercase :: "char \<Rightarrow> bool" where
  "is_ascii_lowercase c = (CHR ''a'' \<le> c \<and> c \<le> CHR ''z'')"

definition is_ascii_uppercase :: "char \<Rightarrow> bool" where
  "is_ascii_uppercase c = (CHR ''A'' \<le> c \<and> c \<le> CHR ''Z'')"

definition is_ascii_digit :: "char \<Rightarrow> bool" where
  "is_ascii_digit c = (CHR ''0'' \<le> c \<and> c \<le> CHR ''9'')"

definition is_ascii_alphanumeric :: "char \<Rightarrow> bool" where
  "is_ascii_alphanumeric c = (is_ascii_lowercase c \<or> is_ascii_uppercase c \<or> is_ascii_digit c)"

definition is_ascii_control :: "char \<Rightarrow> bool" where
  "is_ascii_control c = (of_char c < (32::nat) \<or> of_char c = (127::nat))"

text \<open>
  \<open>str::trim\<close>: the UTF-8 encodings of the characters with the Unicode property White\_Space are
  removed at both ends.
\<close>

definition whitespace_encodings :: "string list" where
  "whitespace_encodings =
     map (\<lambda>n. [char_of n]) [9::nat, 10, 11, 12, 13, 32]
     @ [[CHR 0xC2, CHR 0x85], [CHR 0xC2, CHR 0xA0], [CHR 0xE1, CHR 0x9A, CHR 0x80]]
     @ map (\<lambda>n. [CHR 0xE2, CHR 0x80, char_of n]) ([128::nat..<139] @ [168, 169, 175])
     @ [[CHR 0xE2, CHR 0x81, CHR 0x9F], [CHR 0xE3, CHR 0x80, CHR 0x80]]"

lemma whitespace_encodings_nonempty: "w \<in> set whitespace_encodings \<Longrightarrow> 0 < length w"
  by (auto simp: whitespace_encodings_def)

function trim_start :: "string \<Rightarrow> string" where
  "trim_start s =
     (case find (\<lambda>w. prefix w s) whitespace_encodings of
        None \<Rightarrow> s
      | Some w \<Rightarrow> trim_start (drop (length w) s))"
  by pat_completeness auto
termination
proof (relation "measure length")
  fix s w assume "find (\<lambda>w. prefix w s) whitespace_encodings = Some w"
  then have "w \<in> set whitespace_encodings" "prefix w s" by (auto simp: find_Some_iff)
  then show "(drop (length w) s, s) \<in> measure length"
    using whitespace_encodings_nonempty[of w] prefix_length_le[of w s]
    by (simp del: length_greater_0_conv)
qed simp

function trim_end :: "string \<Rightarrow> string" where
  "trim_end s =
     (case find (\<lambda>w. suffix w s) whitespace_encodings of
        None \<Rightarrow> s
      | Some w \<Rightarrow> trim_end (take (length s - length w) s))"
  by pat_completeness auto
termination
proof (relation "measure length")
  fix s w assume "find (\<lambda>w. suffix w s) whitespace_encodings = Some w"
  then have "w \<in> set whitespace_encodings" "suffix w s" by (auto simp: find_Some_iff)
  then show "(take (length s - length w) s, s) \<in> measure length"
    using whitespace_encodings_nonempty[of w] suffix_length_le[of w s]
    by (simp del: length_greater_0_conv)
qed simp

declare trim_start.simps [simp del] trim_end.simps [simp del]

definition str_trim :: "string \<Rightarrow> string" where
  "str_trim s = trim_end (trim_start s)"

text \<open>\<open>str::lines\<close>: a line ends in a newline, or in a carriage return and a newline.\<close>

definition str_lines :: "string \<Rightarrow> string list" where
  "str_lines s =
     (let parts = split_on (CHR 0x0A) s
      in map (\<lambda>l. case strip_suffix [CHR 0x0D] l of Some l' \<Rightarrow> l' | None \<Rightarrow> l) (butlast parts)
         @ (if last parts = [] then [] else [last parts]))"

text \<open>The part of a text before the first occurrence of a pattern: the head of \<open>str::split\<close>.\<close>

fun str_before :: "string \<Rightarrow> string \<Rightarrow> string" where
  "str_before p [] = []"
| "str_before p (c # s) = (if prefix p (c # s) then [] else c # str_before p s)"

text \<open>A character between apostrophes, as the error messages print one.\<close>

definition quoted :: "char \<Rightarrow> string" where
  "quoted c = [CHR 0x27, c, CHR 0x27]"

text \<open>Decimal digits of a natural number, what \<open>format!\<close> writes for an integer.\<close>

fun nat_digits :: "nat \<Rightarrow> string" where
  "nat_digits n = (if n < 10 then [char_of (48 + n)]
                   else nat_digits (n div 10) @ [char_of (48 + n mod 10)])"

declare nat_digits.simps [simp del]

definition int_digits :: "int \<Rightarrow> string" where
  "int_digits i = (if i < 0 then CHR ''-'' # nat_digits (nat (- i)) else nat_digits (nat i))"

section \<open>BTreeMap and BTreeSet\<close>

type_synonym ('k, 'v) btree = "('k \<times> 'v) list"

definition bt_wf :: "('k::linorder, 'v) btree \<Rightarrow> bool" where
  "bt_wf m = sorted_wrt (<) (map fst m)"

definition bt_get :: "('k, 'v) btree \<Rightarrow> 'k \<Rightarrow> 'v option" where
  "bt_get m k = map_of m k"

definition bt_keys :: "('k, 'v) btree \<Rightarrow> 'k list" where
  "bt_keys m = map fst m"

definition bt_contains :: "('k, 'v) btree \<Rightarrow> 'k \<Rightarrow> bool" where
  "bt_contains m k = (bt_get m k \<noteq> None)"

fun bt_insert :: "'k::linorder \<Rightarrow> 'v \<Rightarrow> ('k, 'v) btree \<Rightarrow> ('k, 'v) btree" where
  "bt_insert k v [] = [(k, v)]"
| "bt_insert k v ((a, b) # m) =
     (if k < a then (k, v) # (a, b) # m
      else if k = a then (k, v) # m
      else (a, b) # bt_insert k v m)"

definition bt_remove :: "'k \<Rightarrow> ('k, 'v) btree \<Rightarrow> ('k, 'v) btree" where
  "bt_remove k m = filter (\<lambda>e. fst e \<noteq> k) m"

definition bt_retain :: "('k \<Rightarrow> bool) \<Rightarrow> ('k, 'v) btree \<Rightarrow> ('k, 'v) btree" where
  "bt_retain P m = filter (\<lambda>e. P (fst e)) m"

definition bt_map_if :: "('k \<Rightarrow> bool) \<Rightarrow> ('v \<Rightarrow> 'v) \<Rightarrow> ('k, 'v) btree \<Rightarrow> ('k, 'v) btree" where
  "bt_map_if P f m = map (\<lambda>(k, v). (k, if P k then f v else v)) m"

text \<open>\<open>get_mut\<close>: the value is updated in place when the key is there.\<close>

definition bt_get_mut :: "'k::linorder \<Rightarrow> ('v \<Rightarrow> 'v) \<Rightarrow> ('k, 'v) btree \<Rightarrow> ('k, 'v) btree" where
  "bt_get_mut k f m = (case bt_get m k of None \<Rightarrow> m | Some v \<Rightarrow> bt_insert k (f v) m)"

text \<open>\<open>entry(k).or_insert(d)\<close> followed by an update of the entry.\<close>

definition bt_entry :: "'k::linorder \<Rightarrow> 'v \<Rightarrow> ('v \<Rightarrow> 'v) \<Rightarrow> ('k, 'v) btree \<Rightarrow> ('k, 'v) btree" where
  "bt_entry k d f m = bt_insert k (f (case bt_get m k of None \<Rightarrow> d | Some v \<Rightarrow> v)) m"

text \<open>\<open>collect\<close> of an iterator of pairs: a later pair replaces an earlier one of its key.\<close>

definition bt_collect :: "('k::linorder \<times> 'v) list \<Rightarrow> ('k, 'v) btree" where
  "bt_collect kvs = fold (\<lambda>(k, v) m. bt_insert k v m) kvs []"

definition bs_collect :: "'k::linorder list \<Rightarrow> 'k list" where
  "bs_collect xs = sort (remdups xs)"

section \<open>Machine integers\<close>

definition u64_max :: u64 where
  "u64_max = - 1"

definition u32_max :: u32 where
  "u32_max = - 1"

definition saturating_add :: "u64 \<Rightarrow> u64 \<Rightarrow> u64" where
  "saturating_add a b = (if unat a + unat b < 2 ^ 64 then a + b else u64_max)"

definition saturating_mul :: "u64 \<Rightarrow> u64 \<Rightarrow> u64" where
  "saturating_mul a b = (if unat a * unat b < 2 ^ 64 then a * b else u64_max)"

definition checked_shl :: "u64 \<Rightarrow> u32 \<Rightarrow> u64 option" where
  "checked_shl a n = (if unat n < 64 then Some (push_bit (unat n) a) else None)"

definition from_secs :: "nat \<Rightarrow> duration" where
  "from_secs n = n * 1000000000"

definition from_millis :: "nat \<Rightarrow> duration" where
  "from_millis n = n * 1000000"

section \<open>Lemmas on results and loops\<close>

lemma rbind_Inr [result_simps]: "rbind r f = Inr b \<longleftrightarrow> (\<exists>a. r = Inr a \<and> f a = Inr b)"
  by (cases r) auto

lemma rbind_Inl [result_simps]:
  "rbind r f = Inl e \<longleftrightarrow> r = Inl e \<or> (\<exists>a. r = Inr a \<and> f a = Inl e)"
  by (cases r) auto

lemma map_err_Inr [result_simps, simp]: "map_err f r = Inr a \<longleftrightarrow> r = Inr a"
  by (cases r) auto

lemma map_err_Inl [result_simps]: "map_err f r = Inl e \<longleftrightarrow> (\<exists>e'. r = Inl e' \<and> e = f e')"
  by (cases r) auto

lemma ok_or_Inr [result_simps, simp]: "ok_or e x = Inr a \<longleftrightarrow> x = Some a"
  by (auto simp: ok_or_def split: option.splits)

lemma ok_or_Inl [result_simps, simp]: "ok_or e x = Inl e' \<longleftrightarrow> x = None \<and> e' = e"
  by (auto simp: ok_or_def split: option.splits)

lemma is_ok_simps [simp]: "is_ok (Inr a)" "\<not> is_ok (Inl e)"
  by (simp_all add: is_ok_def)

lemma is_ok_iff: "is_ok r \<longleftrightarrow> (\<exists>a. r = Inr a)"
  by (cases r) auto

text \<open>A loop that returned ran every iteration, each from the state the one before left.\<close>

lemma rfold_append [simp]: "rfold f (xs @ ys) s = rbind (rfold f xs s) (rfold f ys)"
proof (induction xs arbitrary: s)
  case (Cons x xs)
  then show ?case by (cases "f x s") auto
qed simp

lemma rfold_invariant:
  assumes "rfold f xs s = Inr t" and "I s"
    and "\<And>x s s'. x \<in> set xs \<Longrightarrow> I s \<Longrightarrow> f x s = Inr s' \<Longrightarrow> I s'"
  shows "I t"
  using assms
proof (induction xs arbitrary: s)
  case (Cons x xs)
  from Cons.prems(1) obtain s' where s': "f x s = Inr s'" "rfold f xs s' = Inr t"
    by (auto simp: rbind_Inr)
  have "I s'" by (rule Cons.prems(3)[OF _ Cons.prems(2) s'(1)]) simp
  then show ?case using Cons.IH[OF s'(2)] Cons.prems(3) by (meson list.set_intros(2))
qed simp

lemma rfold_unit_Inr:
  "rfold (\<lambda>x _. f x) xs () = Inr () \<longleftrightarrow> (\<forall>x \<in> set xs. f x = Inr ())"
  by (induction xs) (auto simp: rbind_Inr)

text \<open>
  Every element of a loop that returned had its iteration, and what holds from one iteration to
  the next holds from that iteration to the end.
\<close>

lemma rfold_iteration:
  assumes "rfold f xs s = Inr t" "x \<in> set xs"
    and step: "\<And>y s s'. y \<in> set xs \<Longrightarrow> f y s = Inr s' \<Longrightarrow> R s s'"
    and refl: "\<And>s. R s s" and trans: "\<And>a b c. R a b \<Longrightarrow> R b c \<Longrightarrow> R a c"
  shows "\<exists>s1 s2. f x s1 = Inr s2 \<and> R s2 t"
  using assms(1,2) step
proof (induction xs arbitrary: s)
  case (Cons y ys)
  obtain s' where s': "f y s = Inr s'" "rfold f ys s' = Inr t"
    using Cons.prems(1) by (auto simp: rbind_Inr)
  have step': "R a b" if "z \<in> set ys" "f z a = Inr b" for z a b
    using that Cons.prems(3)[of z] by simp
  show ?case
  proof (cases "x = y")
    case True
    have "R s' t"
    proof (rule rfold_invariant[where I = "R s'", OF s'(2) refl])
      fix z a b assume "z \<in> set ys" "R s' a" "f z a = Inr b"
      then show "R s' b" using step' trans by blast
    qed
    then show ?thesis using True s'(1) by blast
  next
    case False
    then show ?thesis using Cons.IH[OF s'(2)] Cons.prems(2) step' by simp
  qed
qed simp

section \<open>Lemmas on iterators\<close>

lemma position_None: "position P xs = None \<longleftrightarrow> (\<forall>x \<in> set xs. \<not> P x)"
  by (induction xs) auto

lemma position_Some:
  "position P xs = Some i \<longleftrightarrow> i < length xs \<and> P (xs ! i) \<and> (\<forall>j < i. \<not> P (xs ! j))"
proof (induction xs arbitrary: i)
  case (Cons x xs)
  then show ?case by (cases i) (auto simp: All_less_Suc2)
qed simp

lemma position_append_last:
  "\<forall>x \<in> set xs. \<not> P x \<Longrightarrow> P y \<Longrightarrow> position P (xs @ [y]) = Some (length xs)"
  by (induction xs) auto

lemma find_map_None: "find_map f xs = None \<longleftrightarrow> (\<forall>x \<in> set xs. f x = None)"
  by (induction xs) (auto split: option.splits)

lemma find_map_constant:
  "(\<forall>x \<in> set xs. f x = None \<or> f x = Some y) \<Longrightarrow> (\<exists>x \<in> set xs. f x = Some y) \<Longrightarrow> find_map f xs = Some y"
  by (induction xs) (auto split: option.splits)

section \<open>Lemmas on strings\<close>

lemma split_on_nonempty [simp]: "split_on d s \<noteq> []"
  by (induction s) (auto split: list.splits)

lemma join_split [simp]: "join_with d (split_on d s) = s"
proof (induction s)
  case (Cons c s)
  obtain p ps where ps: "split_on d s = p # ps" by (cases "split_on d s") auto
  then show ?case using Cons by (cases ps) auto
qed simp

lemma split_on_no_delim: "p \<in> set (split_on d s) \<Longrightarrow> d \<notin> set p"
proof (induction s arbitrary: p)
  case (Cons c s)
  obtain q qs where "split_on d s = q # qs" by (cases "split_on d s") auto
  with Cons show ?case by (auto split: if_splits)
qed simp

lemma split_on_single: "d \<notin> set s \<Longrightarrow> split_on d s = [s]"
  by (induction s) auto

lemma split_on_prepend: "d \<notin> set p \<Longrightarrow> split_on d (p @ d # s) = p # split_on d s"
  by (induction p) auto

lemma split_join:
  "ps \<noteq> [] \<Longrightarrow> (\<forall>p \<in> set ps. d \<notin> set p) \<Longrightarrow> split_on d (join_with d ps) = ps"
  by (induction d ps rule: join_with.induct) (auto simp: split_on_single split_on_prepend)

lemma join_append:
  "xs \<noteq> [] \<Longrightarrow> ys \<noteq> [] \<Longrightarrow> join_with d (xs @ ys) = join_with d xs @ d # join_with d ys"
  by (induction d xs rule: join_with.induct) (auto simp: neq_Nil_conv)

text \<open>An empty part is a delimiter at either end, or two in a row.\<close>

lemma split_on_empty_part:
  assumes "[] \<in> set (split_on d s)" "s \<noteq> []"
  shows "prefix [d] s \<or> suffix [d] s \<or> sublist [d, d] s"
proof -
  obtain xs ys where parts: "split_on d s = xs @ [] # ys"
    using assms(1) by (meson split_list)
  then have s: "s = join_with d (xs @ [] # ys)" by (metis join_split)
  consider "xs = []" "ys \<noteq> []" | "xs \<noteq> []" "ys = []" | "xs \<noteq> []" "ys \<noteq> []"
    using s assms(2) by (cases "xs = []"; cases "ys = []") auto
  then show ?thesis
  proof cases
    case 1
    then show ?thesis using s by (auto simp: neq_Nil_conv)
  next
    case 2
    then show ?thesis using s join_append[of xs "[[]]" d] by (simp add: suffix_def)
  next
    case 3
    then have "s = join_with d xs @ [d, d] @ join_with d ys"
      using s join_append[of xs "[] # ys" d] join_append[of "[[]]" ys d] by simp
    then show ?thesis unfolding sublist_def by blast
  qed
qed

lemma split_on_append: 
  "split_on d (x @ d # y) = split_on d x @ split_on d y"
proof (induction x)
  case (Cons c x)
  obtain p ps where "split_on d x = p # ps" by (cases "split_on d x") auto
  with Cons show ?case by auto
qed simp

lemma split_on_double: "[] \<in> set (split_on d (x @ [d, d] @ y))"
  using split_on_append[of d x "d # y"] by simp

lemma split_on_empty_part_iff:
  "s \<noteq> [] \<Longrightarrow> [] \<in> set (split_on d s) \<longleftrightarrow> prefix [d] s \<or> suffix [d] s \<or> sublist [d, d] s"
proof
  assume "prefix [d] s \<or> suffix [d] s \<or> sublist [d, d] s"
  then consider y where "s = [] @ d # y" | x where "s = x @ d # []"
    | x y where "s = x @ [d, d] @ y"
    by (auto simp: prefix_def suffix_def sublist_def)
  then show "[] \<in> set (split_on d s)"
    by cases (simp_all add: split_on_append split_on_double del: append.simps(1))
qed (rule split_on_empty_part)

lemma split_once_Some:
  "split_once d s = Some (a, b) \<longleftrightarrow> s = a @ d # b \<and> d \<notin> set a"
proof (induction s arbitrary: a)
  case (Cons c s)
  show ?case
  proof (cases "c = d")
    case True
    then show ?thesis by (cases a) auto
  next
    case False
    have "split_once d (c # s) = Some (a, b) \<longleftrightarrow>
        (\<exists>a'. split_once d s = Some (a', b) \<and> a = c # a')"
      using False by (auto split: option.split)
    also have "\<dots> \<longleftrightarrow> (\<exists>a'. s = a' @ d # b \<and> d \<notin> set a' \<and> a = c # a')"
      by (simp add: Cons.IH conj_assoc)
    finally show ?thesis using False by (cases a) auto
  qed
qed simp

lemma split_once_None: "split_once d s = None \<longleftrightarrow> d \<notin> set s"
  by (induction s) (auto split: option.splits)

lemma split_once_append: "d \<notin> set a \<Longrightarrow> split_once d (a @ d # b) = Some (a, b)"
  by (simp add: split_once_Some)

lemma split_once_absent: "d \<notin> set s \<Longrightarrow> split_once d s = None"
  by (simp add: split_once_None)

lemma delim_unique:
  "(d::char) \<notin> set a \<Longrightarrow> d \<notin> set a' \<Longrightarrow> a @ d # b = a' @ d # b' \<longleftrightarrow> a = a' \<and> b = b'"
proof
  assume d: "d \<notin> set a" "d \<notin> set a'" and eq: "a @ d # b = a' @ d # b'"
  have "Some (a, b) = Some (a', b')"
    by (simp only: split_once_append[OF d(1), symmetric] split_once_append[OF d(2), symmetric] eq)
  then show "a = a' \<and> b = b'" by simp
qed simp

lemma strip_prefix_Some: "strip_prefix p s = Some r \<longleftrightarrow> s = p @ r"
  by (induction p s rule: strip_prefix.induct) auto

lemma strip_prefix_None: "strip_prefix p s = None \<longleftrightarrow> \<not> prefix p s"
  by (induction p s rule: strip_prefix.induct) auto

lemma strip_suffix_Some: "strip_suffix p s = Some r \<longleftrightarrow> s = r @ p"
  by (auto simp: strip_suffix_def suffix_def)

lemma strip_suffix_None: "strip_suffix p s = None \<longleftrightarrow> \<not> suffix p s"
  by (auto simp: strip_suffix_def)

lemma str_contains_char: "str_contains s [c] \<longleftrightarrow> c \<in> set s"
  by (auto simp: str_contains_def sublist_def in_set_conv_decomp)

section \<open>The interface of ordered maps\<close>

text \<open>
  What the components rely on of a \<open>BTreeMap\<close>: lookup after every update, and keys that come
  out strictly ascending and are exactly the keys present.
\<close>

locale ordered_map =
  fixes get :: "'m \<Rightarrow> 'k::linorder \<Rightarrow> 'v option"
    and insert :: "'k \<Rightarrow> 'v \<Rightarrow> 'm \<Rightarrow> 'm"
    and remove :: "'k \<Rightarrow> 'm \<Rightarrow> 'm"
    and keys :: "'m \<Rightarrow> 'k list"
    and wf :: "'m \<Rightarrow> bool"
  assumes wf_insert: "wf m \<Longrightarrow> wf (insert k v m)"
    and wf_remove: "wf m \<Longrightarrow> wf (remove k m)"
    and get_insert: "wf m \<Longrightarrow> get (insert k v m) k' = (if k' = k then Some v else get m k')"
    and get_remove: "wf m \<Longrightarrow> get (remove k m) k' = (if k' = k then None else get m k')"
    and keys_ascending: "wf m \<Longrightarrow> sorted_wrt (<) (keys m)"
    and keys_present: "wf m \<Longrightarrow> set (keys m) = {k. get m k \<noteq> None}"
begin

lemma keys_determined:
  assumes "wf m" "wf m'" "\<And>k. get m k = get m' k"
  shows "keys m = keys m'"
proof (rule strict_sorted_equal)
  show "sorted_wrt (<) (keys m)" "sorted_wrt (<) (keys m')"
    using assms by (auto intro: keys_ascending)
  show "set (keys m) = set (keys m')" using assms by (simp add: keys_present)
qed

lemma keys_insert: "wf m \<Longrightarrow> set (keys (insert k v m)) = Set.insert k (set (keys m))"
  by (auto simp: keys_present wf_insert get_insert)

lemma keys_remove: "wf m \<Longrightarrow> set (keys (remove k m)) = set (keys m) - {k}"
  by (auto simp: keys_present wf_remove get_remove)

lemma wf_insert_all: "wf m \<Longrightarrow> wf (fold (\<lambda>(k, v). insert k v) kvs m)"
  by (induction kvs arbitrary: m) (auto simp: wf_insert)

lemma get_insert_all:
  "wf m \<Longrightarrow> get (fold (\<lambda>(k, v). insert k v) kvs m) k =
     (case map_of (rev kvs) k of Some v \<Rightarrow> Some v | None \<Rightarrow> get m k)"
proof (induction kvs arbitrary: m)
  case (Cons kv kvs)
  obtain a b where "kv = (a, b)" by (cases kv)
  with Cons show ?case
    by (auto simp: wf_insert get_insert map_add_def split: option.split)
qed simp

end

section \<open>Association lists implement ordered maps\<close>

lemma bt_get_insert [bt_simps, simp]:
  "bt_get (bt_insert k v m) k' = (if k' = k then Some v else bt_get m k')"
  by (induction k v m rule: bt_insert.induct) (auto simp: bt_get_def)

lemma bt_get_remove [bt_simps, simp]:
  "bt_get (bt_remove k m) k' = (if k' = k then None else bt_get m k')"
  by (induction m) (auto simp: bt_get_def bt_remove_def)

lemma bt_get_retain [bt_simps, simp]:
  "bt_get (bt_retain P m) k = (if P k then bt_get m k else None)"
  by (induction m) (auto simp: bt_get_def bt_retain_def)

lemma bt_get_map_if [bt_simps, simp]:
  "bt_get (bt_map_if P f m) k = (if P k then map_option f (bt_get m k) else bt_get m k)"
  by (induction m) (auto simp: bt_get_def bt_map_if_def)

lemma bt_get_get_mut [bt_simps, simp]:
  "bt_get (bt_get_mut k f m) k' = (if k' = k then map_option f (bt_get m k) else bt_get m k')"
  by (auto simp: bt_get_mut_def split: option.split)

lemma bt_get_entry [bt_simps, simp]:
  "bt_get (bt_entry k d f m) k' =
     (if k' = k then Some (f (case bt_get m k of None \<Rightarrow> d | Some v \<Rightarrow> v)) else bt_get m k')"
  by (simp add: bt_entry_def)

lemma bt_get_Nil [simp]: "bt_get [] k = None"
  by (simp add: bt_get_def)

lemma bt_keys_insert: "set (map fst (bt_insert k v m)) = insert k (set (map fst m))"
  by (induction k v m rule: bt_insert.induct) auto

lemma bt_insert_subset: "set (bt_insert k v m) \<subseteq> insert (k, v) (set m)"
  by (induction m) (auto split: if_splits)

lemma bt_wf_map_values: "bt_wf (map (\<lambda>(k, v). (k, f k v)) m) \<longleftrightarrow> bt_wf m"
  by (simp add: bt_wf_def comp_def case_prod_unfold)

lemma bt_wf_Nil [simp]: "bt_wf []"
  by (simp add: bt_wf_def)

lemma bt_wf_insert [simp]: "bt_wf m \<Longrightarrow> bt_wf (bt_insert k v m)"
  unfolding bt_wf_def
proof (induction k v m rule: bt_insert.induct)
  case (2 k v a b m)
  then show ?case using bt_keys_insert[of k v m] by (auto; fastforce)
qed simp

lemma bt_wf_filter: "bt_wf m \<Longrightarrow> bt_wf (filter P m)"
  by (induction m) (auto simp: bt_wf_def)

lemma bt_wf_remove [simp]: "bt_wf m \<Longrightarrow> bt_wf (bt_remove k m)"
  by (simp add: bt_remove_def bt_wf_filter)

lemma bt_wf_retain [simp]: "bt_wf m \<Longrightarrow> bt_wf (bt_retain P m)"
  by (simp add: bt_retain_def bt_wf_filter)

lemma bt_wf_map_if [simp]: "bt_wf (bt_map_if P f m) \<longleftrightarrow> bt_wf m"
proof -
  have "map fst (bt_map_if P f m) = map fst m" by (simp add: bt_map_if_def case_prod_beta)
  then show ?thesis by (simp add: bt_wf_def)
qed

lemma bt_wf_get_mut [simp]: "bt_wf m \<Longrightarrow> bt_wf (bt_get_mut k f m)"
  by (simp add: bt_get_mut_def split: option.split)

lemma bt_wf_entry [simp]: "bt_wf m \<Longrightarrow> bt_wf (bt_entry k d f m)"
  by (simp add: bt_entry_def)

lemma bt_keys_set [simp]: "set (bt_keys m) = {k. bt_get m k \<noteq> None}"
  by (auto simp: bt_keys_def bt_get_def map_of_eq_None_iff)

lemma bt_get_SomeD: "bt_get m k = Some v \<Longrightarrow> (k, v) \<in> set m"
  by (simp add: bt_get_def map_of_SomeD)

lemma bt_wf_distinct: "bt_wf m \<Longrightarrow> distinct (map fst m)"
  by (simp add: bt_wf_def strict_sorted_iff)

lemma bt_get_iff: "bt_wf m \<Longrightarrow> bt_get m k = Some v \<longleftrightarrow> (k, v) \<in> set m"
  by (simp add: bt_get_def bt_wf_distinct)

interpretation bt: ordered_map bt_get bt_insert bt_remove bt_keys bt_wf
proof unfold_locales
  fix m :: "('k::linorder \<times> 'v) list"
  assume "bt_wf m"
  then show "sorted_wrt (<) (bt_keys m)" by (simp add: bt_wf_def bt_keys_def)
qed simp_all

lemma bt_get_collect: "bt_get (bt_collect kvs) k = map_of (rev kvs) k"
  by (simp add: bt_collect_def bt.get_insert_all split: option.split)

lemma bt_wf_collect [simp]: "bt_wf (bt_collect kvs)"
  by (simp add: bt_collect_def bt.wf_insert_all)

text \<open>Two maps with the same lookups are the same list: iteration order is determined.\<close>

lemma alist_of_keys:
  "distinct (map fst m) \<Longrightarrow> map (\<lambda>k. (k, the (map_of m k))) (map fst m) = m"
proof -
  assume d: "distinct (map fst m)"
  have "map (\<lambda>e. (fst e, the (map_of m (fst e)))) m = map (\<lambda>e. e) m"
    using d by (intro map_cong) auto
  then show ?thesis by (simp add: comp_def)
qed

lemma bt_eqI:
  assumes "bt_wf m" "bt_wf m'" "\<And>k. bt_get m k = bt_get m' k"
  shows "m = m'"
proof -
  have keys: "map fst m = map fst m'"
    using bt.keys_determined[OF assms(1,2)] assms(3) by (simp add: bt_keys_def)
  have "map_of m = map_of m'" using assms(3) by (auto simp: bt_get_def)
  then have "map (\<lambda>k. (k, the (map_of m k))) (map fst m)
      = map (\<lambda>k. (k, the (map_of m' k))) (map fst m')"
    by (simp only: keys)
  then show ?thesis
    by (simp only: alist_of_keys[OF bt_wf_distinct[OF assms(1)]]
        alist_of_keys[OF bt_wf_distinct[OF assms(2)]])
qed

lemma map_of_rev_distinct:
  assumes "distinct (map fst m)" shows "map_of (rev m) = map_of m"
proof
  fix k
  have d: "distinct (map fst (rev m))" using assms by (simp add: rev_map[symmetric])
  show "map_of (rev m) k = map_of m k"
    using map_of_eq_Some_iff[OF assms] map_of_eq_Some_iff[OF d]
    by (cases "map_of m k"; cases "map_of (rev m) k") (auto, metis+)
qed

lemma bt_get_collect_distinct:
  "distinct (map fst kvs) \<Longrightarrow> bt_get (bt_collect kvs) k = map_of kvs k"
  by (simp add: bt_get_collect map_of_rev_distinct)

lemma bt_collect_id: "bt_wf m \<Longrightarrow> bt_collect m = m"
proof (rule bt_eqI)
  fix k
  assume "bt_wf m"
  then show "bt_get (bt_collect m) k = bt_get m k"
    by (simp add: bt_get_collect_distinct[OF bt_wf_distinct]) (simp add: bt_get_def)
qed simp_all

lemma map_of_filter_pairs:
  "distinct (map fst m) \<Longrightarrow>
     map_of (filter (\<lambda>(k, v). P k v) m) k =
       (case map_of m k of None \<Rightarrow> None | Some v \<Rightarrow> if P k v then Some v else None)"
  by (induction m) (auto split: option.splits dest: map_of_SomeD simp: map_of_eq_None_iff image_iff)

lemma map_of_map_snd: "map_of (map (\<lambda>(k, v). (k, f k v)) m) k = map_option (f k) (map_of m k)"
  by (induction m) auto

lemma distinct_map_filter_fst:
  "distinct (map fst m) \<Longrightarrow> distinct (map fst (map (\<lambda>(k, v). (k, f k v)) (filter P m)))"
  by (induction m) (auto simp: case_prod_beta)

text \<open>
  A loop that converts each entry of a map and inserts the result under the same key: it returns
  exactly when every conversion does, with the map of the converted values.
\<close>

lemma rfold_insert:
  assumes "\<And>kv acc acc'. step kv acc = Inr acc' \<longleftrightarrow>
      (\<exists>w. conv kv = Some w \<and> acc' = bt_insert (fst kv) w acc)"
  shows "rfold step m acc = Inr r \<longleftrightarrow>
    (\<forall>kv \<in> set m. conv kv \<noteq> None)
    \<and> r = fold (\<lambda>(k, v). bt_insert k v) (map (\<lambda>kv. (fst kv, the (conv kv))) m) acc"
proof (induction m arbitrary: acc)
  case (Cons kv m)
  then show ?case by (auto simp: rbind_Inr assms)
qed auto

lemma rfold_insert_map:
  assumes "\<And>kv acc acc'. step kv acc = Inr acc' \<longleftrightarrow>
      (\<exists>w. conv kv = Some w \<and> acc' = bt_insert (fst kv) w acc)"
    and "bt_wf m"
  shows "rfold step m [] = Inr r \<longleftrightarrow>
    (\<forall>kv \<in> set m. conv kv \<noteq> None) \<and> r = map (\<lambda>kv. (fst kv, the (conv kv))) m"
proof -
  have "bt_wf (map (\<lambda>kv. (fst kv, the (conv kv))) m)"
    using assms(2) by (simp add: bt_wf_def comp_def)
  then have "fold (\<lambda>(k, v). bt_insert k v) (map (\<lambda>kv. (fst kv, the (conv kv))) m) []
      = map (\<lambda>kv. (fst kv, the (conv kv))) m"
    using bt_collect_id by (simp only: bt_collect_def)
  then show ?thesis by (simp only: rfold_insert[OF assms(1)])
qed

text \<open>The same for a loop body written with the \<open>?\<close> operator.\<close>

lemma rfold_insert_result:
  assumes "bt_wf m"
  shows "rfold (\<lambda>e acc. rbind (f e) (\<lambda>w. Inr (bt_insert (fst e) w acc))) m [] = Inr r \<longleftrightarrow>
    (\<forall>e \<in> set m. is_ok (f e)) \<and> r = map (\<lambda>e. (fst e, projr (f e))) m"
proof -
  let ?conv = "\<lambda>e. case f e of Inr w \<Rightarrow> Some w | Inl _ \<Rightarrow> None"
  have step: "rbind (f e) (\<lambda>w. Inr (bt_insert (fst e) w acc)) = Inr acc' \<longleftrightarrow>
      (\<exists>w. ?conv e = Some w \<and> acc' = bt_insert (fst e) w acc)" for e acc acc'
    by (cases "f e") auto
  have "?conv e \<noteq> None \<longleftrightarrow> is_ok (f e)" for e by (cases "f e") auto
  moreover have "is_ok (f e) \<Longrightarrow> the (?conv e) = projr (f e)" for e by (cases "f e") auto
  ultimately have "(\<forall>e \<in> set m. ?conv e \<noteq> None) \<and> r = map (\<lambda>e. (fst e, the (?conv e))) m \<longleftrightarrow>
      (\<forall>e \<in> set m. is_ok (f e)) \<and> r = map (\<lambda>e. (fst e, projr (f e))) m"
    by (metis (mono_tags, lifting) map_cong)
  then show ?thesis using rfold_insert_map[OF step assms] by simp
qed

lemma bs_collect_set [simp]: "set (bs_collect xs) = set xs"
  by (simp add: bs_collect_def)

lemma bs_collect_ascending: "sorted_wrt (<) (bs_collect xs)"
  by (simp add: bs_collect_def strict_sorted_iff)

lemma bs_collect_distinct [simp]: "distinct (bs_collect xs)"
  by (simp add: bs_collect_def)

section \<open>Lemmas on machine integers\<close>

lemma unat_u64_max: "unat u64_max = 2 ^ 64 - 1"
  by (simp add: u64_max_def unsigned_minus_1_eq_mask mask_eq_exp_minus_1)

lemma unat_saturating_add: "unat (saturating_add a b) = min (unat a + unat b) (2 ^ 64 - 1)"
  by (auto simp: saturating_add_def unat_u64_max unat_word_ariths)

lemma unat_saturating_mul: "unat (saturating_mul a b) = min (unat a * unat b) (2 ^ 64 - 1)"
  by (auto simp: saturating_mul_def unat_u64_max unat_word_ariths)

lemma unat_shl_one:
  assumes "n < 64" shows "unat (push_bit n (1::u64)) = 2 ^ n"
proof -
  have "(2::nat) ^ n < 2 ^ 64" using assms by (rule power_strict_increasing) simp
  then have "unat (word_of_nat (2 ^ n) :: u64) = 2 ^ n"
    using assms by (simp only: unsigned_of_nat) (simp add: take_bit_nat_eq_self)
  then show ?thesis by simp
qed

section \<open>Weights of maps\<close>

text \<open>
  The values of a map, each weighed by a multiset or a number, before and after an update of one entry: what
  conservation arguments over a map of queues use.
\<close>

definition bt_weight :: "('k \<Rightarrow> 'v \<Rightarrow> 'a) \<Rightarrow> ('k, 'v) btree \<Rightarrow> 'a::comm_monoid_add" where
  "bt_weight w m = (\<Sum>(k, v) \<leftarrow> m. w k v)"

lemma bt_weight_simps [simp]:
  "bt_weight w [] = 0" "bt_weight w ((k, v) # m) = w k v + bt_weight w m"
  by (simp_all add: bt_weight_def)

lemma bt_weight_remove:
  "bt_wf m \<Longrightarrow> bt_weight w m = (case bt_get m k of None \<Rightarrow> 0 | Some v \<Rightarrow> w k v) + bt_weight w (bt_remove k m)"
proof (induction m)
  case (Cons e m)
  obtain k' v where e: "e = (k', v)" by (cases e)
  have wf: "bt_wf m" using Cons.prems by (simp add: bt_wf_def)
  show ?case
  proof (cases "k' = k")
    case True
    then have "bt_remove k (e # m) = m" "bt_get (e # m) k = Some v"
      using bt_wf_distinct[OF Cons.prems] e by (auto simp: bt_remove_def filter_id_conv bt_get_def)
    then show ?thesis using True e by simp
  next
    case False
    then have "bt_remove k (e # m) = e # bt_remove k m" "bt_get (e # m) k = bt_get m k"
      using e by (simp_all add: bt_remove_def bt_get_def)
    then show ?thesis using Cons.IH[OF wf] e by (simp add: ac_simps)
  qed
qed (simp add: bt_remove_def)

lemma bt_remove_insert: "bt_remove k (bt_insert k v m) = bt_remove k m"
  by (induction m) (auto simp: bt_remove_def)

lemma bt_weight_insert:
  "bt_wf m \<Longrightarrow> bt_weight w (bt_insert k v m) = w k v + bt_weight w (bt_remove k m)"
  using bt_weight_remove[of "bt_insert k v m" w k] by (simp add: bt_remove_insert)

lemma bt_weight_map_values:
  "bt_weight w (map (\<lambda>(k, v). (k, f k v)) m) = bt_weight (\<lambda>k v. w k (f k v)) m"
  by (simp add: bt_weight_def comp_def case_prod_unfold)

lemma bt_weight_split: "bt_weight (\<lambda>k v. f k v + g k v) m = bt_weight f m + bt_weight g m"
  by (induction m) (auto simp: ac_simps)

lemma bt_weight_concat:
  "bt_weight (\<lambda>k v. mset (f k v)) m = mset (concat (map (\<lambda>(k, v). f k v) m))"
  by (induction m) auto

end
