(* ===== verification/Names.thy ===== *)
theory Names
  imports Balerix_Prelude
begin

text \<open>
  Validated identifiers (crates/balerix-core/src/name.rs) and crew references
  (crates/balerix-core/src/agent.rs): the naming rule, the three newtypes (values of type
  \<open>string\<close> that passed \<open>try_name\<close>), \<open>AgentId\<close> and \<open>CrewRef\<close> with their written forms, their
  parsers and the derived lexicographic order. The lemmas characterise the rule, show that
  writing and parsing are inverse, and that the prefix test the status code uses to find a
  crew's agents is exact.
\<close>

section \<open>The naming rule\<close>

record name_error =
  ne_kind :: string
  ne_value :: string
  ne_reason :: string

definition name_byte :: "char \<Rightarrow> bool" where
  "name_byte b = (is_ascii_lowercase b \<or> is_ascii_digit b \<or> b = CHR ''-'')"

definition validate_name :: "string \<Rightarrow> string + unit" where
  "validate_name s =
     (if s = [] then Inl ''empty''
      else if length s > 63 then Inl ''longer than 63 characters''
      else if \<not> list_all name_byte s
        then Inl (''contains characters other than a-z, 0-9 and '' @ quoted (CHR ''-''))
      else if str_starts_with s ''-'' \<or> str_ends_with s ''-''
        then Inl (''starts or ends with '' @ quoted (CHR ''-''))
      else Inr ())"

definition try_name :: "string \<Rightarrow> string \<Rightarrow> name_error + string" where
  "try_name kind value =
     (case validate_name value of
        Inr _ \<Rightarrow> Inr value
      | Inl reason \<Rightarrow> Inl \<lparr>ne_kind = kind, ne_value = value, ne_reason = reason\<rparr>)"

type_synonym fleet_name = string
type_synonym crew_name = string
type_synonym agent_name = string

definition FleetName :: "string \<Rightarrow> name_error + fleet_name" where
  "FleetName s = try_name ''fleet'' s"

definition CrewName :: "string \<Rightarrow> name_error + crew_name" where
  "CrewName s = try_name ''crew'' s"

definition AgentName :: "string \<Rightarrow> name_error + agent_name" where
  "AgentName s = try_name ''agent'' s"

abbreviation valid_name :: "string \<Rightarrow> bool" where
  "valid_name s \<equiv> validate_name s = Inr ()"

section \<open>Agent ids and crew references\<close>

datatype agent_id = AgentId (fleet_of: fleet_name) (crew_of: crew_name) (agent_of: agent_name)

datatype crew_ref = CrewRef (cr_fleet: fleet_name) (cr_crew: crew_name)

text \<open>The derived \<open>Ord\<close> compares the fields in declaration order.\<close>

instantiation agent_id :: linorder
begin

definition less_eq_agent_id :: "agent_id \<Rightarrow> agent_id \<Rightarrow> bool" where
  "less_eq_agent_id a b =
     ((fleet_of a, crew_of a, agent_of a) \<le> (fleet_of b, crew_of b, agent_of b))"

definition less_agent_id :: "agent_id \<Rightarrow> agent_id \<Rightarrow> bool" where
  "less_agent_id a b =
     ((fleet_of a, crew_of a, agent_of a) < (fleet_of b, crew_of b, agent_of b))"

instance
  by standard (auto simp: less_eq_agent_id_def less_agent_id_def intro: agent_id.expand)

end

instantiation crew_ref :: linorder
begin

definition less_eq_crew_ref :: "crew_ref \<Rightarrow> crew_ref \<Rightarrow> bool" where
  "less_eq_crew_ref a b = ((cr_fleet a, cr_crew a) \<le> (cr_fleet b, cr_crew b))"

definition less_crew_ref :: "crew_ref \<Rightarrow> crew_ref \<Rightarrow> bool" where
  "less_crew_ref a b = ((cr_fleet a, cr_crew a) < (cr_fleet b, cr_crew b))"

instance
  by standard (auto simp: less_eq_crew_ref_def less_crew_ref_def intro: crew_ref.expand)

end

definition agent_id_display :: "agent_id \<Rightarrow> string" where
  "agent_id_display i = fleet_of i @ ''/'' @ crew_of i @ ''/'' @ agent_of i"

definition agent_id_parse :: "string \<Rightarrow> name_error + agent_id" where
  "agent_id_parse s =
     (case splitn 4 (CHR ''/'') s of
        [f, c, a] \<Rightarrow>
          rbind (FleetName f) (\<lambda>f. rbind (CrewName c) (\<lambda>c. rbind (AgentName a) (\<lambda>a.
            Inr (AgentId f c a))))
      | _ \<Rightarrow> Inl \<lparr>ne_kind = ''agent id'', ne_value = s,
                  ne_reason = ''expected exactly fleet/crew/agent''\<rparr>)"

definition crew_ref_of :: "agent_id \<Rightarrow> crew_ref" where
  "crew_ref_of i = CrewRef (fleet_of i) (crew_of i)"

definition crew_ref_display :: "crew_ref \<Rightarrow> string" where
  "crew_ref_display c = cr_fleet c @ ''/'' @ cr_crew c"

definition crew_ref_parse :: "string \<Rightarrow> name_error + crew_ref" where
  "crew_ref_parse s =
     (let err = \<lparr>ne_kind = ''crew ref'', ne_value = s, ne_reason = ''expected fleet/crew''\<rparr>
      in case split_once (CHR ''/'') s of
           None \<Rightarrow> Inl err
         | Some (f, c) \<Rightarrow>
             if str_contains c ''/'' then Inl err
             else rbind (FleetName f) (\<lambda>f. rbind (CrewName c) (\<lambda>c. Inr (CrewRef f c))))"

definition agent_id_ok :: "agent_id \<Rightarrow> bool" where
  "agent_id_ok i = (valid_name (fleet_of i) \<and> valid_name (crew_of i) \<and> valid_name (agent_of i))"

definition crew_ref_ok :: "crew_ref \<Rightarrow> bool" where
  "crew_ref_ok c = (valid_name (cr_fleet c) \<and> valid_name (cr_crew c))"

section \<open>Lemmas\<close>

lemma try_name_Inr [simp]: "try_name k s = Inr n \<longleftrightarrow> valid_name s \<and> n = s"
  by (auto simp: try_name_def split: sum.splits)

lemma name_newtypes_Inr [simp]:
  "FleetName s = Inr n \<longleftrightarrow> valid_name s \<and> n = s"
  "CrewName s = Inr n \<longleftrightarrow> valid_name s \<and> n = s"
  "AgentName s = Inr n \<longleftrightarrow> valid_name s \<and> n = s"
  by (simp_all add: FleetName_def CrewName_def AgentName_def)

lemma slash_not_name_byte: "\<not> name_byte (CHR ''/'')"
  by (simp add: name_byte_def is_ascii_lowercase_def is_ascii_digit_def)

lemma valid_name_iff:
  "valid_name s \<longleftrightarrow> 0 < length s \<and> length s \<le> 63 \<and> list_all name_byte s
     \<and> hd s \<noteq> CHR ''-'' \<and> last s \<noteq> CHR ''-''"
proof -
  have "str_starts_with s ''-'' \<longleftrightarrow> s \<noteq> [] \<and> hd s = CHR ''-''"
    by (cases s) (auto simp: str_starts_with_def)
  moreover have "str_ends_with s ''-'' \<longleftrightarrow> s \<noteq> [] \<and> last s = CHR ''-''"
    by (cases s rule: rev_cases) (auto simp: str_ends_with_def suffix_def)
  ultimately show ?thesis by (auto simp: validate_name_def)
qed

lemma valid_name_no_slash: "valid_name s \<Longrightarrow> CHR ''/'' \<notin> set s"
  using slash_not_name_byte by (auto simp: valid_name_iff list_all_iff)

lemma splitn_4:
  "splitn 4 d s = [f, c, a] \<longleftrightarrow>
     s = f @ d # c @ d # a \<and> d \<notin> set f \<and> d \<notin> set c \<and> d \<notin> set a"
proof -
  have four: "(4::nat) = Suc (Suc (Suc (Suc 0)))" by simp
  show ?thesis
    unfolding four
  proof
    assume "splitn (Suc (Suc (Suc (Suc 0)))) d s = [f, c, a]"
    then show "s = f @ d # c @ d # a \<and> d \<notin> set f \<and> d \<notin> set c \<and> d \<notin> set a"
      by (auto simp: split_once_Some split_once_None split: option.splits)
  qed (auto simp: split_once_append split_once_absent)
qed

lemma agent_id_parse_Inr [simp]:
  "agent_id_parse s = Inr i \<longleftrightarrow> agent_id_ok i \<and> s = agent_id_display i"
proof
  assume "agent_id_parse s = Inr i"
  then obtain f c a where "splitn 4 (CHR ''/'') s = [f, c, a]"
    and "valid_name f" "valid_name c" "valid_name a" "i = AgentId f c a"
    by (auto simp: agent_id_parse_def rbind_Inr split: list.splits)
  then show "agent_id_ok i \<and> s = agent_id_display i"
    by (simp add: splitn_4 agent_id_ok_def agent_id_display_def)
next
  assume "agent_id_ok i \<and> s = agent_id_display i"
  moreover from this have "splitn 4 (CHR ''/'') s = [fleet_of i, crew_of i, agent_of i]"
    by (simp add: splitn_4 agent_id_ok_def agent_id_display_def valid_name_no_slash)
  ultimately show "agent_id_parse s = Inr i"
    by (simp add: agent_id_parse_def agent_id_ok_def rbind_Inr)
qed

lemma crew_ref_parse_Inr:
  "crew_ref_parse s = Inr c \<longleftrightarrow> crew_ref_ok c \<and> s = crew_ref_display c"
proof
  assume "crew_ref_parse s = Inr c"
  then show "crew_ref_ok c \<and> s = crew_ref_display c"
    by (auto simp: crew_ref_parse_def Let_def rbind_Inr crew_ref_ok_def crew_ref_display_def
        split_once_Some split: option.splits if_splits)
next
  assume "crew_ref_ok c \<and> s = crew_ref_display c"
  then show "crew_ref_parse s = Inr c"
    by (simp add: crew_ref_parse_def crew_ref_ok_def crew_ref_display_def rbind_Inr
        split_once_append valid_name_no_slash str_contains_char)
qed

lemma agent_id_display_inj:
  "agent_id_ok i \<Longrightarrow> agent_id_ok j \<Longrightarrow> agent_id_display i = agent_id_display j \<longleftrightarrow> i = j"
  by (metis agent_id_parse_Inr sum.inject(2))

lemma agent_id_ok_crew [simp]: "agent_id_ok i \<Longrightarrow> crew_ref_ok (crew_ref_of i)"
  by (simp add: agent_id_ok_def crew_ref_ok_def crew_ref_of_def)

text \<open>
  The keys of a status that belong to a crew are found by the prefix \<open>fleet/crew/\<close>: for
  validated ids the test is exact, because no name contains a slash.
\<close>

lemma crew_prefix_exact:
  assumes "agent_id_ok i" "crew_ref_ok c"
  shows "str_starts_with (agent_id_display i) (crew_ref_display c @ ''/'') \<longleftrightarrow> crew_ref_of i = c"
proof -
  have ns: "CHR ''/'' \<notin> set (fleet_of i)" "CHR ''/'' \<notin> set (crew_of i)"
      "CHR ''/'' \<notin> set (cr_fleet c)" "CHR ''/'' \<notin> set (cr_crew c)"
    using assms by (auto simp: agent_id_ok_def crew_ref_ok_def valid_name_no_slash)
  have "str_starts_with (agent_id_display i) (crew_ref_display c @ ''/'') \<longleftrightarrow>
      (\<exists>r. fleet_of i @ CHR ''/'' # crew_of i @ CHR ''/'' # agent_of i
        = cr_fleet c @ CHR ''/'' # cr_crew c @ CHR ''/'' # r)"
    by (auto simp: str_starts_with_def prefix_def agent_id_display_def crew_ref_display_def)
  also have "\<dots> \<longleftrightarrow> fleet_of i = cr_fleet c \<and> crew_of i = cr_crew c"
    using ns by (simp add: delim_unique)
  finally show ?thesis by (cases c) (simp add: crew_ref_of_def)
qed

text \<open>
  Agent ids: a string parses exactly when it is the written form \<open>fleet/crew/agent\<close> of three
  valid names, and then to those names. Parsing after writing and writing after parsing are both
  the identity, so the string keys of a status stand for agent ids one to one.
\<close>

theorem agent_id_written_form:
  "agent_id_parse s = Inr i \<longleftrightarrow>
     valid_name (fleet_of i) \<and> valid_name (crew_of i) \<and> valid_name (agent_of i)
     \<and> s = join_with (CHR ''/'') [fleet_of i, crew_of i, agent_of i]"
  by (auto simp: agent_id_ok_def agent_id_display_def)

end
