(* ===== verification/Repo.thy ===== *)
theory Repo
  imports Balerix_Prelude
begin

text \<open>
  Repository references (crates/balerix-core/src/repo.rs): the parser with every early return,
  the clone URL and the GitHub slug. The lemmas show that the clone URL of a parsed reference
  parses back to it, and that an accepted slug holds no character outside GitHub's alphabet.
\<close>

record repo_error =
  re_value :: string
  re_reason :: string

datatype repo_ref = GitHub (gh_owner: string) (gh_name: string) | Url string | Local string

definition slug_part_ok :: "string \<Rightarrow> bool" where
  "slug_part_ok part =
     (part \<noteq> [] \<and> part \<noteq> ''.'' \<and> part \<noteq> ''..''
      \<and> list_all (\<lambda>c. is_ascii_alphanumeric c \<or> c \<in> set ''-_.'') part)"

definition parse_slug :: "string \<Rightarrow> repo_ref option" where
  "parse_slug s =
     (case split_once (CHR ''/'') s of
        None \<Rightarrow> None
      | Some (owner, name) \<Rightarrow>
          if slug_part_ok owner \<and> slug_part_ok name then Some (GitHub owner name) else None)"

definition strip_dot_git :: "string \<Rightarrow> string" where
  "strip_dot_git s = (case strip_suffix ''.git'' s of None \<Rightarrow> s | Some r \<Rightarrow> r)"

definition repo_parse :: "string \<Rightarrow> repo_error + repo_ref" where
  "repo_parse s =
     (let err = (\<lambda>reason. \<lparr>re_value = s, re_reason = reason\<rparr>);
          slug = (\<lambda>r. ok_or (err ''expected owner/name or a clone URL'') (parse_slug r))
      in if s = [] then Inl (err ''empty'')
         else case strip_prefix ''https://github.com/'' s of
           Some rest \<Rightarrow> slug (strip_dot_git rest)
         | None \<Rightarrow>
        (case strip_prefix ''git@github.com:'' s of
           Some rest \<Rightarrow> slug (strip_dot_git rest)
         | None \<Rightarrow>
        (case strip_prefix ''file://'' s of
           Some rest \<Rightarrow>
             if \<not> str_starts_with rest ''/'' then Inl (err ''file:// repos must be absolute paths'')
             else Inr (Local rest)
         | None \<Rightarrow>
             if str_contains s ''://'' \<or> (str_contains s ''@'' \<and> str_contains s '':'')
             then Inr (Url s)
             else slug (strip_dot_git s))))"

fun clone_url :: "repo_ref \<Rightarrow> string" where
  "clone_url (GitHub owner name) = ''https://github.com/'' @ owner @ ''/'' @ name @ ''.git''"
| "clone_url (Url u) = u"
| "clone_url (Local p) = ''file://'' @ p"

fun github_slug :: "repo_ref \<Rightarrow> string option" where
  "github_slug (GitHub owner name) = Some (owner @ ''/'' @ name)"
| "github_slug (Url _) = None"
| "github_slug (Local _) = None"

section \<open>Lemmas\<close>

lemma slug_part_no_slash: "slug_part_ok p \<Longrightarrow> CHR ''/'' \<notin> set p"
  by (auto simp: slug_part_ok_def list_all_iff is_ascii_alphanumeric_def is_ascii_lowercase_def
      is_ascii_uppercase_def is_ascii_digit_def dest!: bspec)

lemma parse_slug_Some:
  "parse_slug s = Some r \<longleftrightarrow>
     (\<exists>owner name. r = GitHub owner name \<and> s = owner @ ''/'' @ name
        \<and> slug_part_ok owner \<and> slug_part_ok name)"
proof
  assume "parse_slug s = Some r"
  then show "\<exists>owner name. r = GitHub owner name \<and> s = owner @ ''/'' @ name
        \<and> slug_part_ok owner \<and> slug_part_ok name"
    by (auto simp: parse_slug_def split_once_Some split: option.splits if_splits)
next
  assume "\<exists>owner name. r = GitHub owner name \<and> s = owner @ ''/'' @ name
        \<and> slug_part_ok owner \<and> slug_part_ok name"
  then show "parse_slug s = Some r"
    by (auto simp: parse_slug_def split_once_append slug_part_no_slash)
qed

lemma strip_dot_git_append [simp]: "strip_dot_git (s @ ''.git'') = s"
  by (simp add: strip_dot_git_def strip_suffix_def suffix_def)

lemma strip_prefix_append [simp]: "strip_prefix p (p @ r) = Some r"
  by (simp add: strip_prefix_Some)

text \<open>The forms a parsed reference can have.\<close>

lemma repo_parse_cases:
  assumes "repo_parse s = Inr r"
  obtains (slug) owner name where "r = GitHub owner name" "slug_part_ok owner" "slug_part_ok name"
  | (url) "r = Url s"
  | (path) p where "r = Local p" "s = ''file://'' @ p"
  using assms
  by (auto simp: repo_parse_def Let_def parse_slug_Some strip_prefix_Some
      split: if_splits option.splits)

lemma repo_parse_github:
  assumes "slug_part_ok owner" "slug_part_ok name"
  shows "repo_parse (clone_url (GitHub owner name)) = Inr (GitHub owner name)"
proof -
  have "strip_prefix ''https://github.com/'' (clone_url (GitHub owner name))
      = Some ((owner @ ''/'' @ name) @ ''.git'')"
    by (simp add: strip_prefix_Some)
  then show ?thesis
    using assms strip_dot_git_append[of "owner @ ''/'' @ name"]
    by (simp add: repo_parse_def Let_def parse_slug_Some)
qed

lemma repo_parse_local:
  assumes "repo_parse s = Inr (Local p)"
  shows "s = clone_url (Local p)"
  using assms by (cases rule: repo_parse_cases) auto

lemma repo_parse_again:
  assumes "repo_parse s = Inr r"
  shows "repo_parse (clone_url r) = Inr r"
  using assms
proof (cases rule: repo_parse_cases)
  case (slug owner name)
  then show ?thesis using repo_parse_github by simp
qed (use assms in auto)

text \<open>
  The clone URL of a reference parses back to that reference, whichever form it was written
  in (shorthand, HTTPS, SSH, any other URL, a local path): writing a fleet out and reading it
  again cannot change a crew's repository. In particular two parsed references with one clone
  URL are the same.
\<close>

theorem repo_clone_url_roundtrip:
  assumes "repo_parse s = Inr r"
  shows "repo_parse (clone_url r) = Inr r
    \<and> (\<forall>s' r'. repo_parse s' = Inr r' \<and> clone_url r' = clone_url r \<longrightarrow> r' = r)"
proof (intro conjI allI impI)
  show "repo_parse (clone_url r) = Inr r" by (rule repo_parse_again[OF assms])
  fix s' r'
  assume "repo_parse s' = Inr r' \<and> clone_url r' = clone_url r"
  then have "repo_parse (clone_url r) = Inr r'" using repo_parse_again[of s' r'] by simp
  then show "r' = r" using repo_parse_again[OF assms] by simp
qed

theorem repo_clone_url_roundtrip_witness:
  "repo_parse ''git@github.com:acme/pay.git'' = Inr (GitHub ''acme'' ''pay'')
     \<and> repo_parse (clone_url (GitHub ''acme'' ''pay'')) = Inr (GitHub ''acme'' ''pay'')"
proof -
  have ok: "repo_parse ''git@github.com:acme/pay.git'' = Inr (GitHub ''acme'' ''pay'')"
    by code_simp
  show ?thesis using ok repo_clone_url_roundtrip[OF ok] by simp
qed

end
