(* ===== verification/Rules.thy ===== *)
theory Rules
  imports Names
begin

text \<open>
  Two textual rules shared by the fleet file's client-side and daemon-side checks: branch names
  (crates/balerix-api/src/branch.rs) and exact tool versions
  (crates/balerix-core/src/version.rs).
\<close>

section \<open>Branch names\<close>

text \<open>The \<open>Debug\<close> form of one of the characters git refuses.\<close>

definition debug_char :: "char \<Rightarrow> string" where
  "debug_char c = (if c = CHR 0x5C then [CHR 0x27, CHR 0x5C, CHR 0x5C, CHR 0x27] else quoted c)"

definition branch_char :: "char \<Rightarrow> string + unit" where
  "branch_char c =
     (if is_ascii_control c then Inl ''contains a control character''
      else if c = CHR '' '' then Inl ''contains a space''
      else if c \<in> set (CHR 0x5C # ''~^:?*['') then Inl (''contains '' @ debug_char c)
      else Inr ())"

definition branch_component :: "string \<Rightarrow> string + unit" where
  "branch_component component =
     (if str_starts_with component ''.'' then Inl (''a component starts with '' @ quoted (CHR ''.''))
      else if str_ends_with component ''.lock''
        then Inl ''a component ends with \".lock\"''
      else Inr ())"

text \<open>The two characters that open a reflog expression.\<close>

definition reflog_operator :: string where
  "reflog_operator = [CHR ''@'', CHR 0x7B]"

definition check_branch_name :: "string \<Rightarrow> string + unit" where
  "check_branch_name name =
     (if name = [] then Inl ''empty''
      else if length name > 255 then Inl ''longer than 255 bytes''
      else if name = ''@'' then Inl ''is \"@\"''
      else if str_starts_with name ''-'' then Inl (''starts with '' @ quoted (CHR ''-''))
      else if str_starts_with name ''refs/'' then Inl ''starts with \"refs/\"''
      else if str_starts_with name ''/'' then Inl (''starts with '' @ quoted (CHR ''/''))
      else if str_ends_with name ''/'' then Inl (''ends with '' @ quoted (CHR ''/''))
      else if str_ends_with name ''.'' then Inl (''ends with '' @ quoted (CHR ''.''))
      else if str_contains name ''//'' then Inl ''contains \"//\"''
      else if str_contains name ''..'' then Inl ''contains \"..\"''
      else if str_contains name reflog_operator then Inl (''contains '' @ [CHR 0x22] @ reflog_operator @ [CHR 0x22])
      else rbind (rfold (\<lambda>c _. branch_char c) name ()) (\<lambda>_.
             rfold (\<lambda>p _. branch_component p) (split_on (CHR ''/'') name) ()))"

section \<open>Exact versions\<close>

definition numeric_part :: "string \<Rightarrow> bool" where
  "numeric_part p = (p \<noteq> [] \<and> list_all is_ascii_digit p)"

definition is_exact_version :: "string \<Rightarrow> bool" where
  "is_exact_version v =
     (if str_ends_with v ''.x'' \<or> str_contains v ''*'' \<or> str_contains v '':'' then False
      else if \<not> list_ex is_ascii_digit v then False
      else let numeric_parts = length (filter numeric_part (split_on (CHR ''.'') v));
               total_parts = length (split_on (CHR ''.'') v)
           in \<not> (numeric_parts = total_parts \<and> total_parts < 3))"

section \<open>Lemmas\<close>

lemma branch_char_Inr:
  "branch_char c = Inr () \<longleftrightarrow>
     \<not> is_ascii_control c \<and> c \<noteq> CHR '' '' \<and> c \<notin> set (CHR 0x5C # ''~^:?*['')"
  by (simp add: branch_char_def)

lemma branch_component_Inr:
  "branch_component p = Inr () \<longleftrightarrow> \<not> str_starts_with p ''.'' \<and> \<not> str_ends_with p ''.lock''"
  by (simp add: branch_component_def)

lemmas str_test_defs = str_starts_with_def str_ends_with_def str_contains_def

lemma branch_components:
  assumes "check_branch_name name = Inr ()" "p \<in> set (split_on (CHR ''/'') name)"
  shows "p \<noteq> [] \<and> \<not> prefix ''.'' p \<and> \<not> suffix ''.lock'' p"
proof -
  have "[] \<notin> set (split_on (CHR ''/'') name)"
    using assms(1) split_on_empty_part[of "CHR ''/''" name]
    by (auto simp: check_branch_name_def str_test_defs split: if_splits)
  moreover have "branch_component p = Inr ()"
    using assms by (auto simp: check_branch_name_def rfold_unit_Inr rbind_Inr split: if_splits)
  ultimately show ?thesis using assms(2) by (auto simp: branch_component_Inr str_test_defs)
qed

text \<open>Every byte of a valid name is one that the branch rule accepts anywhere.\<close>

lemma name_byte_branch_char:
  assumes "name_byte c \<or> c = CHR ''/''"
  shows "branch_char c = Inr () \<and> c \<noteq> CHR ''.'' \<and> c \<noteq> CHR ''@''"
  using assms
  by (auto simp: branch_char_Inr is_ascii_control_def less_eq_char_def name_byte_def
      is_ascii_lowercase_def is_ascii_digit_def)

lemma sublist_set: "sublist p s \<Longrightarrow> set p \<subseteq> set s"
  by (auto simp: sublist_def)

lemma valid_name_bytes: "valid_name s \<Longrightarrow> c \<in> set s \<Longrightarrow> name_byte c"
  by (simp add: valid_name_iff list_all_iff)

lemma valid_name_not_dot: "valid_name p \<Longrightarrow> CHR ''.'' \<notin> set p"
  using name_byte_branch_char[of "CHR ''.''"] valid_name_bytes[of p "CHR ''.''"] by auto

lemma set_join_with: "set (join_with d ps) \<subseteq> insert d (\<Union> (set ` set ps))"
  by (induction d ps rule: join_with.induct) auto

text \<open>Validated names joined by slashes form an acceptable branch, outside \<open>refs/\<close>.\<close>

lemma joined_names_branch:
  assumes ps: "ps \<noteq> []" "\<forall>p \<in> set ps. valid_name p"
    and n: "n = join_with (CHR ''/'') ps" "length n \<le> 255"
    and start: "\<not> prefix ''refs/'' n" "\<not> prefix ''-'' n"
  shows "check_branch_name n = Inr ()"
proof -
  have parts: "split_on (CHR ''/'') n = ps"
    using ps n(1) split_join valid_name_no_slash by metis
  have bytes: "name_byte c \<or> c = CHR ''/''" if "c \<in> set n" for c
    using that ps(2) n(1) set_join_with valid_name_bytes by fastforce
  have chars: "CHR ''.'' \<notin> set n" "CHR ''@'' \<notin> set n"
    using bytes name_byte_branch_char[of "CHR ''.''"] name_byte_branch_char[of "CHR ''@''"]
    by auto
  have ne: "n \<noteq> []" using parts ps(2) by (auto simp: valid_name_iff)
  have "[] \<notin> set (split_on (CHR ''/'') n)" using parts ps(2) by (auto simp: valid_name_iff)
  then have slashes: "\<not> prefix ''/'' n" "\<not> suffix ''/'' n" "\<not> sublist ''//'' n"
    using split_on_empty_part_iff[OF ne, of "CHR ''/''"] by auto
  have dots: "\<not> suffix ''.'' n" "\<not> sublist ''..'' n" "\<not> sublist reflog_operator n" "n \<noteq> ''@''"
    using chars by (auto simp: suffix_def reflog_operator_def dest!: sublist_set)
  have "branch_component p = Inr ()" if "p \<in> set ps" for p
    using that ps(2) valid_name_not_dot[of p]
    by (auto simp: branch_component_Inr str_test_defs prefix_def suffix_def)
  then show ?thesis
    using ne n(2) start slashes dots bytes name_byte_branch_char
    by (simp add: check_branch_name_def str_test_defs rbind_Inr rfold_unit_Inr parts)
qed

text \<open>
  The branch an agent gets when its settings name none, \<open>balerix/<fleet>/<crew>/<agent>\<close>, always
  passes the branch rule.
\<close>

lemma default_branch_ok:
  assumes "agent_id_ok i"
  shows "check_branch_name (''balerix/'' @ agent_id_display i) = Inr ()"
proof (rule joined_names_branch[of "[''balerix'', fleet_of i, crew_of i, agent_of i]"])
  have v: "valid_name (fleet_of i)" "valid_name (crew_of i)" "valid_name (agent_of i)"
    using assms by (simp_all add: agent_id_ok_def)
  have "valid_name ''balerix''" by code_simp
  then show "\<forall>p \<in> set [''balerix'', fleet_of i, crew_of i, agent_of i]. valid_name p"
    using v by simp
  show "length (''balerix/'' @ agent_id_display i) \<le> 255"
    using v by (simp add: agent_id_display_def valid_name_iff)
qed (simp_all add: agent_id_display_def)

text \<open>
  What an accepted branch name guarantees its users (a git argument vector, \<open>origin/<branch>\<close>
  and revision syntax): it is not empty, at most 255 bytes, no flag, not \<open>@\<close> and not under
  \<open>refs/\<close>; it holds no control character, space, \<open>..\<close>, the reflog operator or revision operator; and every
  slash-separated component is non-empty, starts with no dot and does not end in \<open>.lock\<close>.
\<close>

theorem accepted_branch_safe:
  assumes "check_branch_name n = Inr ()"
  shows "n \<noteq> [] \<and> length n \<le> 255 \<and> hd n \<noteq> CHR ''-'' \<and> n \<noteq> ''@'' \<and> \<not> prefix ''refs/'' n
    \<and> \<not> sublist ''..'' n \<and> \<not> sublist reflog_operator n
    \<and> (\<forall>c \<in> set n. \<not> is_ascii_control c \<and> c \<notin> set (CHR 0x5C # '' ~^:?*[''))
    \<and> (\<forall>p \<in> set (split_on (CHR ''/'') n). p \<noteq> [] \<and> \<not> prefix ''.'' p \<and> \<not> suffix ''.lock'' p)"
proof (intro conjI ballI)
  show "hd n \<noteq> CHR ''-''"
    using assms by (cases n) (auto simp: check_branch_name_def str_test_defs split: if_splits)
  have chars: "branch_char c = Inr ()" if "c \<in> set n" for c
    using that assms
    by (auto simp: check_branch_name_def rbind_Inr rfold_unit_Inr split: if_splits)
  show "\<not> is_ascii_control c" "c \<notin> set (CHR 0x5C # '' ~^:?*['')" if "c \<in> set n" for c
    using chars[OF that] by (auto simp: branch_char_Inr)
qed (use assms branch_components[OF assms] in
      \<open>auto simp: check_branch_name_def str_test_defs split: if_splits\<close>)

theorem accepted_branch_safe_witness:
  "check_branch_name ''feature/login-2'' = Inr () \<and> hd ''feature/login-2'' \<noteq> CHR ''-''"
proof -
  have ok: "check_branch_name ''feature/login-2'' = Inr ()" by code_simp
  show ?thesis using ok accepted_branch_safe[OF ok] by blast
qed

lemma numeric_part_chars: "numeric_part p \<Longrightarrow> c \<in> set p \<Longrightarrow> is_ascii_digit c"
  by (simp add: numeric_part_def list_all_iff)

lemma numeric_version_chars:
  assumes "\<forall>p \<in> set (split_on (CHR ''.'') v). numeric_part p" "c \<in> set v"
  shows "is_ascii_digit c \<or> c = CHR ''.''"
proof -
  have "c \<in> set (join_with (CHR ''.'') (split_on (CHR ''.'') v))" using assms(2) by simp
  then show ?thesis
    using assms(1) set_join_with[of "CHR ''.''" "split_on (CHR ''.'') v"]
    by (auto dest: numeric_part_chars)
qed

text \<open>
  The version rule on dotted numbers: \<open>22\<close> and \<open>22.11\<close>, which mise would resolve to
  whatever is newest, are refused, and exactly the numbers with three parts or more are taken.
\<close>

theorem numeric_version_exact:
  assumes "\<forall>p \<in> set (split_on (CHR ''.'') v). numeric_part p"
  shows "is_exact_version v \<longleftrightarrow> 3 \<le> length (split_on (CHR ''.'') v)"
proof -
  obtain p ps where parts: "split_on (CHR ''.'') v = p # ps"
    by (cases "split_on (CHR ''.'') v") auto
  have p: "numeric_part p" using assms parts by simp
  have "p \<noteq> []" using p by (simp add: numeric_part_def)
  moreover have "v = join_with (CHR ''.'') (p # ps)" by (metis join_split parts)
  ultimately have "hd p \<in> set v" by (cases ps) auto
  then have digit: "list_ex is_ascii_digit v"
    using p \<open>p \<noteq> []\<close> numeric_part_chars by (auto simp: list_ex_iff intro!: bexI[of _ "hd p"])
  have "CHR ''x'' \<notin> set v" "CHR ''*'' \<notin> set v" "CHR '':'' \<notin> set v"
    using numeric_version_chars[OF assms, of "CHR ''x''"]
      numeric_version_chars[OF assms, of "CHR ''*''"] numeric_version_chars[OF assms, of "CHR '':''"]
    by (auto simp: is_ascii_digit_def)
  then have plain: "\<not> suffix ''.x'' v" "\<not> sublist ''*'' v" "\<not> sublist '':'' v"
    by (auto simp: suffix_def dest!: sublist_set)
  have "filter numeric_part (split_on (CHR ''.'') v) = split_on (CHR ''.'') v"
    using assms by (simp add: filter_id_conv)
  then show ?thesis using digit plain by (auto simp: is_exact_version_def str_test_defs)
qed

theorem numeric_version_exact_witness:
  "\<not> is_exact_version ''22.11'' \<and> is_exact_version ''22.11.0''"
proof -
  have a: "\<forall>p \<in> set (split_on (CHR ''.'') ''22.11''). numeric_part p" by code_simp
  have b: "\<forall>p \<in> set (split_on (CHR ''.'') ''22.11.0''). numeric_part p" by code_simp
  show ?thesis using numeric_version_exact[OF a] numeric_version_exact[OF b] by simp
qed

end
