(* ===== verification/Json.thy ===== *)
theory Json
  imports Balerix_Prelude
begin

text \<open>
  JSON values as the crates hold them (\<open>serde_json::Value\<close>): an object is a \<open>BTreeMap\<close>, a number
  is carried as its text, since the modelled code only compares numbers. \<open>json_pointer\<close> walks the
  reference tokens of a JSON pointer through objects and arrays.
\<close>

datatype json =
    JNull
  | JBool bool
  | JNumber string
  | JString string
  | JArray "json list"
  | JObject "(string \<times> json) list"

definition is_null :: "json \<Rightarrow> bool" where
  "is_null v = (v = JNull)"

fun is_object :: "json \<Rightarrow> bool" where
  "is_object (JObject _) = True"
| "is_object _ = False"

fun is_string :: "json \<Rightarrow> bool" where
  "is_string (JString _) = True"
| "is_string _ = False"

fun as_object :: "json \<Rightarrow> (string, json) btree option" where
  "as_object (JObject m) = Some m"
| "as_object _ = None"

fun as_str :: "json \<Rightarrow> string option" where
  "as_str (JString s) = Some s"
| "as_str _ = None"

text \<open>\<open>Value::get\<close> with a string key: defined on objects only.\<close>

fun json_get :: "json \<Rightarrow> string \<Rightarrow> json option" where
  "json_get (JObject m) k = bt_get m k"
| "json_get _ k = None"

definition empty_object :: json where
  "empty_object = JObject []"

fun digits_value :: "nat \<Rightarrow> string \<Rightarrow> nat" where
  "digits_value n [] = n"
| "digits_value n (c # cs) = digits_value (10 * n + (of_char c - 48)) cs"

text \<open>An array token is a decimal index without leading zeros.\<close>

definition array_index :: "string \<Rightarrow> nat option" where
  "array_index t =
     (if t = [] \<or> \<not> list_all is_ascii_digit t \<or> (hd t = CHR ''0'' \<and> length t \<noteq> 1) then None
      else Some (digits_value 0 t))"

fun json_pointer :: "json \<Rightarrow> string list \<Rightarrow> json option" where
  "json_pointer v [] = Some v"
| "json_pointer v (t # ts) =
     (case v of
        JObject m \<Rightarrow> (case bt_get m t of None \<Rightarrow> None | Some w \<Rightarrow> json_pointer w ts)
      | JArray xs \<Rightarrow>
          (case array_index t of
             None \<Rightarrow> None
           | Some i \<Rightarrow> if i < length xs then json_pointer (xs ! i) ts else None)
      | _ \<Rightarrow> None)"

text \<open>\<open>Value::pointer\<close>: the tokens of a pointer follow its slashes, with \<open>~1\<close> and \<open>~0\<close> unescaped.\<close>

fun str_replace2 :: "char \<Rightarrow> char \<Rightarrow> char \<Rightarrow> string \<Rightarrow> string" where
  "str_replace2 a b c (x # y # s) = (if x = a \<and> y = b then c # str_replace2 a b c s else x # str_replace2 a b c (y # s))"
| "str_replace2 a b c s = s"

definition pointer_token :: "string \<Rightarrow> string" where
  "pointer_token t = str_replace2 (CHR ''~'') (CHR ''0'') (CHR ''~'') (str_replace2 (CHR ''~'') (CHR ''1'') (CHR ''/'') t)"

definition json_at :: "json \<Rightarrow> string \<Rightarrow> json option" where
  "json_at v p =
     (if p = [] then Some v
      else if hd p \<noteq> CHR ''/'' then None
      else json_pointer v (map pointer_token (tl (split_on (CHR ''/'') p))))"

text \<open>Objects are maps: ascending keys at every depth.\<close>

fun json_wf :: "json \<Rightarrow> bool" where
  "json_wf (JObject m) = (bt_wf m \<and> list_all (\<lambda>(k, v). json_wf v) m)"
| "json_wf (JArray xs) = list_all json_wf xs"
| "json_wf _ = True"

section \<open>Lemmas\<close>

lemma size_object_value: "(k, v) \<in> set m \<Longrightarrow> size v < size (JObject m)"
  by (induction m) auto

lemma size_array_value: "v \<in> set xs \<Longrightarrow> size v < size (JArray xs)"
  by (induction xs) auto

lemma is_null_simps [simp]:
  "is_null JNull" "\<not> is_null (JBool b)" "\<not> is_null (JNumber n)" "\<not> is_null (JString s)"
  "\<not> is_null (JArray xs)" "\<not> is_null (JObject m)"
  by (simp_all add: is_null_def)

lemma is_object_iff: "is_object v \<longleftrightarrow> (\<exists>m. v = JObject m)"
  by (cases v) auto

lemma as_object_Some [simp]: "as_object v = Some m \<longleftrightarrow> v = JObject m"
  by (cases v) auto

lemma as_str_Some [simp]: "as_str v = Some s \<longleftrightarrow> v = JString s"
  by (cases v) auto

lemma json_get_Some: "json_get v k = Some w \<longleftrightarrow> (\<exists>m. v = JObject m \<and> bt_get m k = Some w)"
  by (cases v) auto

lemma json_wf_value: "json_wf (JObject m) \<Longrightarrow> bt_get m k = Some v \<Longrightarrow> json_wf v"
  by (auto simp: list_all_iff dest: bt_get_SomeD)

end
