(* ===== verification/Merge.thy ===== *)
theory Merge
  imports Json
begin

text \<open>
  The layered merge of settings blocks (crates/balerix-config/src/merge.rs) and the restricted
  surface of a plugin-applied fleet file (crates/balerix-config/src/restricted.rs). The lemmas
  give the lookup law of a merge, that no null entry survives it, and the main result: layers
  that pass the restricted check cannot change what the layers below them say about a refused
  key.
\<close>

section \<open>Definitions\<close>

function (sequential) strip_nulls :: "json \<Rightarrow> json" where
  "strip_nulls (JObject m) =
     JObject (bt_collect (map (\<lambda>(k, v). (k, strip_nulls v)) (filter (\<lambda>(k, v). \<not> is_null v) m)))"
| "strip_nulls (JArray a) = JArray (map strip_nulls a)"
| "strip_nulls other = other"
  by pat_completeness auto
termination
  by (relation "measure size") (auto dest: size_object_value size_array_value)

function (sequential) merge :: "json \<Rightarrow> json \<Rightarrow> json" where
  "merge (JObject b) (JObject ov) =
     JObject (fold (\<lambda>(k, v). bt_insert k v)
       (map (\<lambda>(k, v). (k, case bt_get b k of Some bv \<Rightarrow> merge bv v | None \<Rightarrow> strip_nulls v))
            (filter (\<lambda>(k, v). \<not> is_null v) ov))
       (bt_collect (map (\<lambda>(k, bv). (k, strip_nulls bv))
            (filter (\<lambda>(k, bv). \<not> bt_contains ov k \<and> \<not> is_null bv) b))))"
| "merge base JNull = strip_nulls base"
| "merge base ov = strip_nulls ov"
  by pat_completeness auto
termination
  by (relation "measure (\<lambda>(b, v). size v)") (auto dest: size_object_value)

definition merge_layers :: "json list \<Rightarrow> json" where
  "merge_layers layers = foldl merge (JObject []) layers"

definition REFUSED_KEYS :: "string list" where
  "REFUSED_KEYS = [''claude.binary'', ''claude.args'', ''env'', ''sandbox'']"

definition REFUSED_SETTINGS :: "string list" where
  "REFUSED_SETTINGS = [''env'', ''apiKeyHelper'', ''disableAllHooks'']"

definition refused_paths :: "string list list" where
  "refused_paths =
     map (split_on (CHR ''.'')) (REFUSED_KEYS @ map (\<lambda>key. ''claude.settings.'' @ key) REFUSED_SETTINGS)"

record config_invalid =
  ci_path :: string
  ci_message :: string

definition WHY :: string where
  "WHY = ''not allowed in a plugin-applied fleet file; the host'' @ [CHR 0x27]
         @ ''s default applies''"

text \<open>
  The inner loop over the depths of one key: stops when the pointer finds nothing, refuses at
  the full depth or at an ancestor that is no mapping.
\<close>

fun check_depths :: "string \<Rightarrow> json \<Rightarrow> string list \<Rightarrow> nat list \<Rightarrow> config_invalid + unit" where
  "check_depths path layer segments [] = Inr ()"
| "check_depths path layer segments (depth # ds) =
     (let prefix = take depth segments
      in case json_pointer layer prefix of
           None \<Rightarrow> Inr ()
         | Some found \<Rightarrow>
             if depth = length segments \<or> \<not> is_object found
             then Inl \<lparr>ci_path = path @ ''.'' @ join_with (CHR ''.'') prefix, ci_message = WHY\<rparr>
             else check_depths path layer segments ds)"

definition check_layer :: "string \<Rightarrow> json \<Rightarrow> config_invalid + unit" where
  "check_layer path layer =
     rfold (\<lambda>segments _. check_depths path layer segments [1..<Suc (length segments)])
       refused_paths ()"

section \<open>Lookup laws\<close>

lemma json_get_object [simp]: "json_get (JObject m) = bt_get m"
  by (rule ext) simp

lemma strip_nulls_get:
  assumes "bt_wf m"
  shows "json_get (strip_nulls (JObject m)) k =
    (case bt_get m k of None \<Rightarrow> None | Some v \<Rightarrow> if is_null v then None else Some (strip_nulls v))"
proof -
  let ?kvs = "map (\<lambda>(k, v). (k, strip_nulls v)) (filter (\<lambda>(k, v). \<not> is_null v) m)"
  have "distinct (map fst ?kvs)"
    using bt_wf_distinct[OF assms] by (rule distinct_map_filter_fst)
  then have "json_get (strip_nulls (JObject m)) k = map_of ?kvs k"
    by (simp add: bt_get_collect_distinct)
  then show ?thesis
    using bt_wf_distinct[OF assms]
    by (simp add: map_of_map_snd map_of_filter_pairs bt_get_def split: option.split)
qed

text \<open>
  The lookup law of a merge of two mappings: a key the overlay does not hold comes from the base,
  a null in the overlay deletes, anything else is merged onto what the base has there.
\<close>

lemma merge_get:
  assumes "bt_wf b" "bt_wf m"
  shows "json_get (merge (JObject b) (JObject m)) k =
    (case bt_get m k of
       Some v \<Rightarrow> if is_null v then None
                else Some (case bt_get b k of Some bv \<Rightarrow> merge bv v | None \<Rightarrow> strip_nulls v)
     | None \<Rightarrow> (case bt_get b k of
                  Some bv \<Rightarrow> if is_null bv then None else Some (strip_nulls bv)
                | None \<Rightarrow> None))"
proof -
  let ?f = "\<lambda>k v. case bt_get b k of Some bv \<Rightarrow> merge bv v | None \<Rightarrow> strip_nulls v"
  let ?over = "map (\<lambda>(k, v). (k, ?f k v)) (filter (\<lambda>(k, v). \<not> is_null v) m)"
  let ?base = "map (\<lambda>(k, bv). (k, strip_nulls bv))
    (filter (\<lambda>(k, bv). \<not> bt_contains m k \<and> \<not> is_null bv) b)"
  have d1: "distinct (map fst ?over)"
    using bt_wf_distinct[OF assms(2)] by (rule distinct_map_filter_fst)
  have d2: "distinct (map fst ?base)"
    using bt_wf_distinct[OF assms(1)] by (rule distinct_map_filter_fst)
  have "json_get (merge (JObject b) (JObject m)) k =
      (case map_of ?over k of Some v \<Rightarrow> Some v | None \<Rightarrow> map_of ?base k)"
    using bt.get_insert_all[of "bt_collect ?base" ?over k]
    by (simp only: merge.simps(1) json_get_object bt_wf_collect bt_get_collect_distinct[OF d2]
        map_of_rev_distinct[OF d1])
  also have "map_of ?over k =
      (case bt_get m k of None \<Rightarrow> None | Some v \<Rightarrow> if is_null v then None else Some (?f k v))"
    using bt_wf_distinct[OF assms(2)]
    by (simp add: map_of_map_snd map_of_filter_pairs bt_get_def split: option.split)
  also have "map_of ?base k =
      (case bt_get b k of None \<Rightarrow> None
       | Some bv \<Rightarrow> if \<not> bt_contains m k \<and> \<not> is_null bv then Some (strip_nulls bv) else None)"
    using bt_wf_distinct[OF assms(1)]
    by (simp add: map_of_map_snd map_of_filter_pairs bt_get_def split: option.split)
  finally show ?thesis by (auto simp: bt_contains_def split: option.splits)
qed

section \<open>Nothing null survives\<close>

fun no_nulls :: "json \<Rightarrow> bool" where
  "no_nulls (JObject m) = list_all (\<lambda>(k, v). \<not> is_null v \<and> no_nulls v) m"
| "no_nulls (JArray xs) = list_all no_nulls xs"
| "no_nulls _ = True"

lemma entries_by_get:
  "bt_wf m \<Longrightarrow> list_all (\<lambda>(k, v). P v) m \<longleftrightarrow> (\<forall>k v. bt_get m k = Some v \<longrightarrow> P v)"
  by (auto simp: list_all_iff bt_get_iff)

lemma strip_nulls_not_null: "\<not> is_null v \<Longrightarrow> \<not> is_null (strip_nulls v)"
  by (cases v) auto

lemma merge_not_null: "\<not> is_null v \<Longrightarrow> \<not> is_null (merge b v)"
  by (cases "(b, v)" rule: merge.cases) (auto intro: strip_nulls_not_null)

lemma strip_nulls_object: obtains m' where "strip_nulls (JObject m) = JObject m'" "bt_wf m'"
  by (rule that[OF strip_nulls.simps(1) bt_wf_collect])

lemma merge_object: obtains m' where "merge (JObject b) (JObject m) = JObject m'" "bt_wf m'"
  by (rule that[OF merge.simps(1) bt.wf_insert_all[OF bt_wf_collect]])

lemma strip_nulls_clean: "json_wf v \<Longrightarrow> json_wf (strip_nulls v) \<and> no_nulls (strip_nulls v)"
proof (induction v rule: strip_nulls.induct)
  case (1 m)
  obtain m' where m': "strip_nulls (JObject m) = JObject m'" "bt_wf m'"
    by (rule strip_nulls_object)
  have wf: "bt_wf m" using "1.prems" by simp
  have "\<not> is_null w \<and> json_wf w \<and> no_nulls w" if w: "bt_get m' k = Some w" for k w
  proof -
    have "json_get (strip_nulls (JObject m)) k = Some w" using m'(1) w by simp
    then obtain v where v: "bt_get m k = Some v" "\<not> is_null v" "w = strip_nulls v"
      by (auto simp: strip_nulls_get[OF wf] simp del: strip_nulls.simps
          split: option.splits if_splits)
    then have "(k, v) \<in> set (filter (\<lambda>(k, v). \<not> is_null v) m)"
      by (auto dest: bt_get_SomeD)
    moreover have "json_wf v" using "1.prems" v(1) by (rule json_wf_value)
    ultimately show ?thesis using "1.IH" v strip_nulls_not_null by blast
  qed
  then show ?case using m' by (simp add: entries_by_get del: strip_nulls.simps)
next
  case (2 a)
  then show ?case by (auto simp: list_all_iff)
qed auto

lemma merge_clean: "json_wf b \<Longrightarrow> json_wf v \<Longrightarrow> json_wf (merge b v) \<and> no_nulls (merge b v)"
proof (induction b v rule: merge.induct)
  case (1 b m)
  obtain m' where m': "merge (JObject b) (JObject m) = JObject m'" "bt_wf m'"
    by (rule merge_object)
  have wf: "bt_wf b" "bt_wf m" using "1.prems" by simp_all
  have "\<not> is_null w \<and> json_wf w \<and> no_nulls w" if w: "bt_get m' k = Some w" for k w
  proof -
    have get: "json_get (merge (JObject b) (JObject m)) k = Some w" using m'(1) w by simp
    show ?thesis
    proof (cases "bt_get m k")
      case None
      with get obtain bv where "bt_get b k = Some bv" "\<not> is_null bv" "w = strip_nulls bv"
        by (auto simp: merge_get[OF wf] simp del: merge.simps split: option.splits if_splits)
      then show ?thesis
        using strip_nulls_clean json_wf_value[OF "1.prems"(1)] strip_nulls_not_null by blast
    next
      case (Some v)
      with get have v: "\<not> is_null v"
        "w = (case bt_get b k of Some bv \<Rightarrow> merge bv v | None \<Rightarrow> strip_nulls v)"
        by (auto simp: merge_get[OF wf] simp del: merge.simps split: if_splits)
      have wfv: "json_wf v" using "1.prems"(2) Some by (rule json_wf_value)
      have mem: "(k, v) \<in> set (filter (\<lambda>(k, v). \<not> is_null v) m)"
        using Some v(1) by (auto dest: bt_get_SomeD)
      show ?thesis
        using v wfv strip_nulls_clean strip_nulls_not_null merge_not_null
          "1.IH"[OF mem refl] json_wf_value[OF "1.prems"(1)]
        by (auto split: option.splits)
    qed
  qed
  then show ?case using m' by (simp add: entries_by_get del: merge.simps)
qed (simp_all add: strip_nulls_clean del: strip_nulls.simps)

lemma merge_layers_clean:
  "list_all json_wf ls \<Longrightarrow> json_wf (merge_layers ls) \<and> no_nulls (merge_layers ls)"
proof (induction ls rule: rev_induct)
  case (snoc l ls)
  then show ?case by (simp add: merge_layers_def merge_clean)
qed (simp add: merge_layers_def)

section \<open>The restricted surface\<close>

text \<open>
  A layer is silent about a key when the walk along the key meets mappings only and ends at a
  mapping that lacks the next segment.
\<close>

fun silent :: "json \<Rightarrow> string list \<Rightarrow> bool" where
  "silent v [] = False"
| "silent v (t # ts) =
     (case json_pointer v [t] of
        None \<Rightarrow> True
      | Some w \<Rightarrow> ts \<noteq> [] \<and> is_object w \<and> silent w ts)"

lemma json_pointer_append:
  "json_pointer v (xs @ ys) =
     (case json_pointer v xs of None \<Rightarrow> None | Some w \<Rightarrow> json_pointer w ys)"
  by (induction v xs rule: json_pointer.induct) (auto split: json.splits option.splits)

text \<open>The loop over depths decides silence, starting from any ancestor already walked to.\<close>

lemma check_depths_silent:
  assumes "json_pointer layer done = Some v" "rest \<noteq> []"
  shows "check_depths path layer (done @ rest)
           [Suc (length done)..<Suc (length (done @ rest))] = Inr () \<longleftrightarrow> silent v rest"
  using assms
proof (induction rest arbitrary: "done" v)
  case (Cons t ts)
  let ?segs = "done @ t # ts"
  have range: "[Suc (length done)..<Suc (length ?segs)]
      = Suc (length done) # [Suc (Suc (length done))..<Suc (length ?segs)]"
    by (simp add: upt_conv_Cons del: upt_Suc)
  have ptr: "json_pointer layer (done @ [t]) = json_pointer v [t]"
    using Cons.prems(1) by (simp add: json_pointer_append)
  let ?more = "[Suc (Suc (length done))..<Suc (length ?segs)]"
  show ?case
    unfolding range
  proof (cases "json_pointer v [t]")
    case None
    then show "check_depths path layer ?segs (Suc (length done) # ?more) = Inr () \<longleftrightarrow> silent v (t # ts)"
      using ptr by (simp del: upt_Suc json_pointer.simps)
  next
    case (Some w)
    then have walked: "json_pointer layer (done @ [t]) = Some w" using ptr by simp
    show "check_depths path layer ?segs (Suc (length done) # ?more) = Inr () \<longleftrightarrow> silent v (t # ts)"
    proof (cases "ts = [] \<or> \<not> is_object w")
      case True
      then show ?thesis
        using Some walked by (auto simp: Let_def simp del: upt_Suc json_pointer.simps)
    next
      case False
      then have "check_depths path layer ?segs (Suc (length done) # ?more)
          = check_depths path layer ((done @ [t]) @ ts)
              [Suc (length (done @ [t]))..<Suc (length ((done @ [t]) @ ts))]"
        using walked by (simp add: Let_def del: upt_Suc json_pointer.simps)
      then show ?thesis
        using Cons.IH[OF walked] False Some by (simp del: upt_Suc json_pointer.simps)
    qed
  qed
qed simp

lemma refused_paths_eq:
  "refused_paths = [[''claude'', ''binary''], [''claude'', ''args''], [''env''], [''sandbox''],
     [''claude'', ''settings'', ''env''], [''claude'', ''settings'', ''apiKeyHelper''],
     [''claude'', ''settings'', ''disableAllHooks'']]"
  by code_simp

lemma refused_path_tokens:
  assumes "segs \<in> set refused_paths"
  shows "segs \<noteq> [] \<and> (\<forall>t \<in> set segs. array_index t = None)"
  using assms unfolding refused_paths_eq
  by (auto simp: array_index_def is_ascii_digit_def)

lemma check_layer_silent:
  "check_layer path layer = Inr () \<longleftrightarrow> (\<forall>segs \<in> set refused_paths. silent layer segs)"
proof -
  have "check_depths path layer segs [1..<Suc (length segs)] = Inr () \<longleftrightarrow> silent layer segs"
    if "segs \<in> set refused_paths" for segs
    using check_depths_silent[of layer "[]" layer segs path] refused_path_tokens[OF that]
    by simp
  moreover have "check_layer path layer = Inr () \<longleftrightarrow>
      (\<forall>segs \<in> set refused_paths. check_depths path layer segs [1..<Suc (length segs)] = Inr ())"
    unfolding check_layer_def by (rule rfold_unit_Inr)
  ultimately show ?thesis by blast
qed

lemma merge_onto_non_object:
  assumes "\<not> is_object b" "is_object l"
  shows "merge b l = strip_nulls l"
  using assms by (cases "(b, l)" rule: merge.cases) auto

lemma pointer_non_object:
  "\<not> is_object v \<Longrightarrow> array_index t = None \<Longrightarrow> json_pointer v (t # ts) = None"
  by (cases v) auto

lemma pointer_object: "json_pointer v (t # ts) =
    (case json_get v t of None \<Rightarrow> None | Some w \<Rightarrow> json_pointer w ts)"
  if "is_object v" for v
  using that by (cases v) auto

text \<open>Below a silent layer's own mapping, stripping its nulls finds nothing at the key.\<close>

lemma strip_nulls_silent:
  assumes "silent l segs" "is_object l" "json_wf l"
  shows "json_pointer (strip_nulls l) segs = None"
  using assms
proof (induction segs arbitrary: l)
  case (Cons t ts)
  obtain m where m: "l = JObject m" using Cons.prems(2) by (auto simp: is_object_iff)
  obtain m' where m': "strip_nulls l = JObject m'" unfolding m by (rule strip_nulls_object)
  have wf: "bt_wf m" using Cons.prems(3) m by simp
  show ?case
  proof (cases "bt_get m t")
    case None
    then show ?thesis using m m' strip_nulls_get[OF wf, of t] by (simp del: strip_nulls.simps)
  next
    case (Some w)
    then have w: "ts \<noteq> []" "is_object w" "silent w ts" using Cons.prems(1) m by auto
    have "json_pointer (strip_nulls w) ts = None"
      using Cons.IH[OF w(3,2)] json_wf_value[of m t w] Cons.prems(3) m Some by simp
    moreover have "bt_get m' t = Some (strip_nulls w)"
      using m m' strip_nulls_get[OF wf, of t] Some w(2)
      by (auto simp: is_object_iff simp del: strip_nulls.simps)
    ultimately show ?thesis using m' by simp
  qed
qed simp

lemma no_nulls_value: "no_nulls (JObject m) \<Longrightarrow> bt_get m k = Some v \<Longrightarrow> \<not> is_null v \<and> no_nulls v"
  by (auto simp: list_all_iff dest: bt_get_SomeD)

lemma strip_nulls_id: "json_wf v \<Longrightarrow> no_nulls v \<Longrightarrow> strip_nulls v = v"
proof (induction v rule: strip_nulls.induct)
  case (1 m)
  have same: "map (\<lambda>(k, v). (k, strip_nulls v)) (filter (\<lambda>(k, v). \<not> is_null v) m) = m"
  proof -
    have "filter (\<lambda>(k, v). \<not> is_null v) m = m"
      using "1.prems"(2) by (auto simp: list_all_iff filter_id_conv)
    moreover have "map (\<lambda>(k, v). (k, strip_nulls v)) m = map (\<lambda>e. e) m"
      using "1.IH" "1.prems" by (intro map_cong) (fastforce simp: list_all_iff)+
    ultimately show ?thesis by simp
  qed
  have "bt_collect m = m" using "1.prems"(1) by (simp add: bt_collect_id)
  then show ?case by (simp only: strip_nulls.simps(1) same)
next
  case (2 a)
  then show ?case by (auto simp: list_all_iff intro: map_idI)
qed auto

lemma clean_entry_kept:
  assumes "json_wf (JObject m)" "no_nulls (JObject m)"
  shows "(case bt_get m t of
            Some v \<Rightarrow> if is_null v then None else Some (strip_nulls v) | None \<Rightarrow> None) = bt_get m t"
proof (cases "bt_get m t")
  case (Some v)
  then show ?thesis
    using no_nulls_value[OF assms(2) Some] strip_nulls_id[OF json_wf_value[OF assms(1) Some]]
    by simp
qed simp

text \<open>A layer silent about a key leaves the key as it is in what lies below.\<close>

lemma merge_silent_entry:
  assumes wf: "json_wf (JObject mb)" "json_wf (JObject m)" "no_nulls (JObject mb)"
    and silent: "silent (JObject m) (t # ts)"
    and IH: "\<And>w bv. bt_get m t = Some w \<Longrightarrow> bt_get mb t = Some bv \<Longrightarrow> is_object w \<Longrightarrow>
       json_pointer (merge bv w) ts = json_pointer bv ts"
  shows "json_pointer (merge (JObject mb) (JObject m)) (t # ts) = json_pointer (JObject mb) (t # ts)"
proof -
  have bt: "bt_wf mb" "bt_wf m" using wf by simp_all
  obtain m' where m': "merge (JObject mb) (JObject m) = JObject m'" by (rule merge_object)
  have get: "bt_get m' t = json_get (merge (JObject mb) (JObject m)) t" using m' by simp
  show ?thesis
  proof (cases "bt_get m t")
    case None
    then have "bt_get m' t = bt_get mb t"
      unfolding get merge_get[OF bt] using clean_entry_kept[of mb t] wf by simp
    then show ?thesis using m' by simp
  next
    case (Some w)
    then have w: "is_object w" "silent w ts" "json_wf w"
      using silent wf(2) json_wf_value[of m t w] by auto
    have nn: "\<not> is_null w" using w(1) by (cases w) auto
    show ?thesis
    proof (cases "bt_get mb t")
      case None
      have "bt_get m' t = Some (strip_nulls w)"
        unfolding get merge_get[OF bt] using Some None nn by simp
      then show ?thesis using m' None strip_nulls_silent[OF w(2,1,3)] by simp
    next
      case bw: (Some bv)
      have "bt_get m' t = Some (merge bv w)"
        unfolding get merge_get[OF bt] using Some bw nn by simp
      then show ?thesis using m' bw IH[OF Some bw w(1)] by simp
    qed
  qed
qed

lemma merge_silent:
  assumes "silent l segs" "is_object l \<or> is_null l" "json_wf l" "json_wf b" "no_nulls b"
    and "\<forall>t \<in> set segs. array_index t = None"
  shows "json_pointer (merge b l) segs = json_pointer b segs"
  using assms
proof (induction segs arbitrary: b l)
  case (Cons t ts)
  show ?case
  proof (cases "is_null l")
    case True
    then have "merge b l = strip_nulls b" by (cases b) (auto simp: is_null_def)
    then show ?thesis using Cons.prems strip_nulls_id by simp
  next
    case False
    then have l: "is_object l" using Cons.prems(2) by simp
    show ?thesis
    proof (cases "is_object b")
      case nb: False
      then show ?thesis
        using merge_onto_non_object[OF nb l] strip_nulls_silent[OF Cons.prems(1) l]
          pointer_non_object Cons.prems by simp
    next
      case True
      obtain m mb where m: "l = JObject m" "b = JObject mb"
        using l True by (auto simp: is_object_iff)
      have "json_pointer (merge bv w) ts = json_pointer bv ts"
        if w: "bt_get m t = Some w" "bt_get mb t = Some bv" "is_object w" for w bv
        using Cons.IH[of w bv] Cons.prems m w json_wf_value[of m t w] json_wf_value[of mb t bv]
          no_nulls_value[of mb t bv] by auto
      then show ?thesis
        using merge_silent_entry[of mb m t ts] Cons.prems(1,3,4,5) m by simp
    qed
  qed
qed simp

lemma restricted_layers_keep:
  assumes "segs \<in> set refused_paths"
    and "list_all json_wf host_layers" "list_all json_wf file_layers"
    and "\<forall>l \<in> set file_layers. (is_object l \<or> is_null l) \<and> (\<exists>path. check_layer path l = Inr ())"
  shows "json_pointer (merge_layers (host_layers @ file_layers)) segs = json_pointer (merge_layers host_layers) segs"
  using assms(3,4)
proof (induction file_layers rule: rev_induct)
  case (snoc l file_layers)
  let ?b = "merge_layers (host_layers @ file_layers)"
  have "list_all json_wf (host_layers @ file_layers)" using assms(2) snoc.prems(1) by simp
  then have b: "json_wf ?b" "no_nulls ?b" using merge_layers_clean by blast+
  have l: "json_wf l" "is_object l \<or> is_null l" "silent l segs"
    using snoc.prems assms(1) by (auto simp: check_layer_silent)
  have "merge_layers (host_layers @ file_layers @ [l]) = merge ?b l" by (simp add: merge_layers_def)
  then have "json_pointer (merge_layers (host_layers @ file_layers @ [l])) segs = json_pointer ?b segs"
    using merge_silent[OF l(3,2,1) b] refused_path_tokens[OF assms(1)] by simp
  then show ?case using snoc by simp
qed simp

section \<open>Properties\<close>

text \<open>
  The merged settings never hold a null entry, at any depth, whatever the layers hold: a null
  is the file format's delete marker and is always consumed by the merge.
\<close>

theorem merge_layers_no_nulls:
  assumes "list_all json_wf layers"
  shows "no_nulls (merge_layers layers) \<and> json_wf (merge_layers layers)"
  using merge_layers_clean[OF assms] by simp

theorem merge_layers_no_nulls_witness:
  "no_nulls (merge_layers [JObject [(''a'', JObject [(''b'', JNull)])], JObject [(''c'', JNull)]])"
proof -
  have "list_all json_wf [JObject [(''a'', JObject [(''b'', JNull)])], JObject [(''c'', JNull)]]"
    by code_simp
  from merge_layers_no_nulls[OF this] show ?thesis by simp
qed

text \<open>
  A plugin-applied fleet file cannot choose what its agents run as: once every layer of the
  file is a mapping (or null) that passes \<open>check_layer\<close>, the merged value at each refused key
  (\<open>claude.binary\<close>, \<open>claude.args\<close>, \<open>env\<close>, \<open>sandbox\<close> and the three \<open>claude.settings\<close> keys) is
  exactly what the host's and the operator's layers below alone give, present or absent.
\<close>

theorem restricted_layers_keep_refused_keys:
  assumes "segs \<in> set refused_paths"
    and "list_all json_wf host_layers" "list_all json_wf file_layers"
    and "\<forall>l \<in> set file_layers. (is_object l \<or> is_null l) \<and> (\<exists>path. check_layer path l = Inr ())"
  shows "json_pointer (merge_layers (host_layers @ file_layers)) segs = json_pointer (merge_layers host_layers) segs"
  by (rule restricted_layers_keep[OF assms])

theorem restricted_layers_keep_refused_keys_witness:
  "json_pointer (merge_layers ([JObject [(''claude'', JObject [(''binary'', JString ''claude'')])]]
       @ [JObject [(''claude'', JObject [(''resume'', JBool True)])], JNull]))
     [''claude'', ''binary''] = Some (JString ''claude'')"
proof -
  let ?host = "[JObject [(''claude'', JObject [(''binary'', JString ''claude'')])]]"
  let ?file_layers = "[JObject [(''claude'', JObject [(''resume'', JBool True)])], JNull]"
  have seg: "[''claude'', ''binary''] \<in> set refused_paths" by (simp add: refused_paths_eq)
  have wf: "list_all json_wf ?host" "list_all json_wf ?file_layers" by code_simp+
  have "check_layer [] l = Inr ()" if "l \<in> set ?file_layers" for l
    using that by (auto simp: check_layer_silent refused_paths_eq bt_get_def)
  then have ok: "\<forall>l \<in> set ?file_layers. (is_object l \<or> is_null l) \<and> (\<exists>path. check_layer path l = Inr ())"
    by auto
  have "json_pointer (merge_layers ?host) [''claude'', ''binary''] = Some (JString ''claude'')"
    by code_simp
  then show ?thesis using restricted_layers_keep_refused_keys[OF seg wf ok] by simp
qed

end
