(* ===== verification/Sandbox.thy ===== *)
theory Sandbox
  imports Json
begin

text \<open>
  What a \<open>sandbox\<close> block may set (crates/balerix-core/src/sandbox.rs): the key allowlists, the
  literal-path rule and the walk that collects the paths a block grants. The lemmas show that an
  accepted block holds allowlisted keys only, that every grant it returns is an absolute literal
  path outside \<open>/proc\<close> and \<open>/dev/fd\<close>, and that no granted path is missing from the result,
  platform overrides included.
\<close>

section \<open>Policies and allowlists\<close>

datatype sandbox_policy = PluginPolicy | FleetPolicy

datatype access = Read | Write | Socket

definition SANDBOX_OSES :: "string list" where
  "SANDBOX_OSES = [''linux'', ''macos'', ''windows'']"

definition UNIX_SOCKET_KEYS :: "string list" where
  "UNIX_SOCKET_KEYS = [''unix_socket'', ''unix_socket_bind'', ''unix_socket_dir'',
     ''unix_socket_dir_bind'', ''unix_socket_subtree'', ''unix_socket_subtree_bind'']"

definition NETWORK_KEYS :: "string list" where
  "NETWORK_KEYS = [''block'', ''allow_http2'', ''network_profile'', ''allow_domain'',
     ''deny_domain'', ''open_port'', ''open_port_range'', ''connect_port'', ''listen_port'',
     ''listen_port_range'', ''no_proxy'', ''upstream_proxy'', ''upstream_bypass'']"

definition SECURITY_KEYS :: "string list" where
  "SECURITY_KEYS = [''ipc_mode'']"

definition IPC_MODE :: string where
  "IPC_MODE = ''shared_memory_only''"

definition ENVIRONMENT_OWNED :: string where
  "ENVIRONMENT_OWNED = ''balerix-owned; set variables through `env` instead''"

definition META_OWNED :: string where
  "META_OWNED = ''balerix-owned''"

definition SIGNAL_MODE_OWNED :: string where
  "SIGNAL_MODE_OWNED = ''balerix-owned; agents stay signal-isolated''"

definition REFUSED_PREFIXES :: "string list" where
  "REFUSED_PREFIXES = [''/proc'', ''/dev/fd'']"

fun refusal :: "sandbox_policy \<Rightarrow> string" where
  "refusal PluginPolicy = ''not accepted in a plugin'' @ [CHR 0x27] @ ''s sandbox block''"
| "refusal FleetPolicy = ''not accepted in a fleet'' @ [CHR 0x27] @ ''s sandbox block''"

definition grant_access :: "string \<Rightarrow> access option" where
  "grant_access key =
     (if key \<in> set [''read'', ''read_file''] then Some Read
      else if key \<in> set [''allow'', ''allow_file'', ''write'', ''write_file''] then Some Write
      else None)"

text \<open>\<open>None\<close>: key not accepted; \<open>Some None\<close>: accepted, grants nothing; \<open>Some (Some a)\<close>: a grant list.\<close>

definition policy_access :: "sandbox_policy \<Rightarrow> string \<Rightarrow> access option option" where
  "policy_access policy key =
     (case grant_access key of
        Some a \<Rightarrow> Some (Some a)
      | None \<Rightarrow>
          if key = ''deny'' then Some None
          else if policy = FleetPolicy \<and> key \<in> set UNIX_SOCKET_KEYS then Some (Some Socket)
          else None)"

record block_grant =
  bg_at :: string
  bg_raw :: string
  bg_path :: string
  bg_access :: access

record sandbox_refusal =
  sr_at :: string
  sr_message :: string

definition path_under :: "sandbox_refusal \<Rightarrow> string \<Rightarrow> string" where
  "path_under r pre =
     (if pre = [] then sr_at r
      else if sr_at r = [] then pre
      else pre @ ''.'' @ sr_at r)"

abbreviation refuse :: "string \<Rightarrow> string \<Rightarrow> sandbox_refusal + 'a" where
  "refuse at message \<equiv> Inl \<lparr>sr_at = at, sr_message = message\<rparr>"

section \<open>Paths and entries\<close>

text \<open>The normal components of an absolute path: empty and \<open>.\<close> components are skipped.\<close>

definition path_components :: "string \<Rightarrow> string list" where
  "path_components p = filter (\<lambda>c. c \<noteq> [] \<and> c \<noteq> ''.'') (split_on (CHR ''/'') p)"

definition path_is_absolute :: "string \<Rightarrow> bool" where
  "path_is_absolute p = str_starts_with p ''/''"

definition path_starts_with :: "string \<Rightarrow> string \<Rightarrow> bool" where
  "path_starts_with p base =
     (path_is_absolute p = path_is_absolute base \<and> prefix (path_components base) (path_components p))"

fun entry_text :: "json \<Rightarrow> string option" where
  "entry_text (JString s) = Some s"
| "entry_text (JObject m) =
     (if list_all (\<lambda>k. k = ''path'' \<or> k = ''when'') (bt_keys m)
      then (case bt_get m ''path'' of None \<Rightarrow> None | Some v \<Rightarrow> as_str v)
      else None)"
| "entry_text _ = None"

definition literal_path :: "string \<Rightarrow> string + string" where
  "literal_path raw =
     (if str_starts_with raw ''~''
        then Inl (raw @ '': `~` is not expanded; name an absolute path'')
      else if str_contains raw ''$''
        then Inl (raw @ '': variables are not expanded; name an absolute path'')
      else if list_ex (\<lambda>c. c \<in> set ''*?[{'') raw
        then Inl (raw @ '': glob patterns (`*`, `?`, `[`, `{`) are not accepted; name a literal path'')
      else if \<not> path_is_absolute raw then Inl (raw @ '': must be an absolute path'')
      else if ''..'' \<in> set (path_components raw) then Inl (raw @ '': must not contain `..`'')
      else if list_ex (path_starts_with raw) REFUSED_PREFIXES
        then Inl (raw @ '': paths under /proc and /dev/fd are not accepted'')
      else Inr raw)"

section \<open>The walk\<close>

definition object :: "json \<Rightarrow> string \<Rightarrow> sandbox_refusal + (string, json) btree" where
  "object v at = ok_or \<lparr>sr_at = at, sr_message = ''expected an object''\<rparr> (as_object v)"

definition keys_in ::
  "sandbox_policy \<Rightarrow> json \<Rightarrow> string \<Rightarrow> string list \<Rightarrow> sandbox_refusal + unit" where
  "keys_in policy value at allowed =
     rbind (object value at) (\<lambda>m.
       case find (\<lambda>k. k \<notin> set allowed) (bt_keys m) of
         Some k \<Rightarrow> refuse (at @ ''.'' @ k) (refusal policy)
       | None \<Rightarrow> Inr ())"

definition walk_security :: "sandbox_policy \<Rightarrow> json \<Rightarrow> string \<Rightarrow> sandbox_refusal + unit" where
  "walk_security policy value at =
     rbind (object value at) (\<lambda>security.
       if bt_contains security ''signal_mode''
       then refuse (at @ ''.signal_mode'') SIGNAL_MODE_OWNED
       else rbind (keys_in policy value at SECURITY_KEYS) (\<lambda>_.
         case bt_get security ''ipc_mode'' of
           Some mode \<Rightarrow>
             if as_str mode \<noteq> Some IPC_MODE
             then refuse (at @ ''.ipc_mode'') (''only \"'' @ IPC_MODE @ ''\" is accepted'')
             else Inr ()
         | None \<Rightarrow> Inr ()))"

definition index_at :: "string \<Rightarrow> nat \<Rightarrow> string" where
  "index_at at i = at @ ''['' @ nat_digits i @ '']''"

definition walk_network :: "sandbox_policy \<Rightarrow> json \<Rightarrow> string \<Rightarrow> sandbox_refusal + unit" where
  "walk_network policy value at =
     rbind (keys_in policy value at NETWORK_KEYS) (\<lambda>_.
       rbind (object value at) (\<lambda>m.
         case bt_get m ''allow_domain'' of
           None \<Rightarrow> Inr ()
         | Some (JArray items) \<Rightarrow>
             (case find (\<lambda>(i, d). \<not> is_string d) (enumerate 0 items) of
                Some (i, _) \<Rightarrow>
                  refuse (index_at (at @ ''.allow_domain'') i)
                    ''expected a domain string; endpoint rules are not accepted''
              | None \<Rightarrow> Inr ())
         | Some _ \<Rightarrow> refuse (at @ ''.allow_domain'') ''expected an array''))"

definition walk_item ::
  "string \<Rightarrow> access option \<Rightarrow> nat \<times> json \<Rightarrow> block_grant list
     \<Rightarrow> sandbox_refusal + block_grant list" where
  "walk_item list_at acc iv grants =
     (let entry_at = index_at list_at (fst iv)
      in rbind (ok_or \<lparr>sr_at = entry_at, sr_message = ''expected a path string or { path, when }''\<rparr>
                  (entry_text (snd iv))) (\<lambda>raw.
         rbind (map_err (\<lambda>m. \<lparr>sr_at = entry_at, sr_message = m\<rparr>) (literal_path raw)) (\<lambda>path.
         case acc of
           Some a \<Rightarrow>
             Inr (grants @ [\<lparr>bg_at = entry_at, bg_raw = raw, bg_path = path, bg_access = a\<rparr>])
         | None \<Rightarrow> Inr grants)))"

definition walk_list ::
  "sandbox_policy \<Rightarrow> string \<Rightarrow> string \<times> json \<Rightarrow> block_grant list
     \<Rightarrow> sandbox_refusal + block_grant list" where
  "walk_list policy at kv grants =
     (let list_at = at @ ''.'' @ fst kv
      in case policy_access policy (fst kv) of
           None \<Rightarrow> refuse list_at (refusal policy)
         | Some acc \<Rightarrow>
             (case snd kv of
                JArray items \<Rightarrow> rfold (walk_item list_at acc) (enumerate 0 items) grants
              | _ \<Rightarrow> refuse list_at ''expected an array''))"

definition walk_filesystem ::
  "sandbox_policy \<Rightarrow> (string, json) btree \<Rightarrow> string \<Rightarrow> block_grant list
     \<Rightarrow> sandbox_refusal + block_grant list" where
  "walk_filesystem policy fs at grants = rfold (walk_list policy at) fs grants"

text \<open>
  One key of the top level or of a \<open>platform_overrides.<os>\<close> patch. A patch refuses a nested
  \<open>platform_overrides\<close>, so the recursion is one level deep: \<open>patch\<close> is the walk of a patch.
\<close>

definition walk_key ::
  "sandbox_policy \<Rightarrow> bool \<Rightarrow> string
     \<Rightarrow> (string \<Rightarrow> (string, json) btree \<Rightarrow> block_grant list \<Rightarrow> sandbox_refusal + block_grant list)
     \<Rightarrow> string \<times> json \<Rightarrow> block_grant list \<Rightarrow> sandbox_refusal + block_grant list" where
  "walk_key policy is_top pre patch kv grants =
     (let key = fst kv; value = snd kv; at = pre @ key
      in if key = ''environment'' \<and> is_top then refuse at ENVIRONMENT_OWNED
         else if key = ''meta'' \<and> is_top then refuse at META_OWNED
         else if key = ''filesystem'' then
           rbind (object value at) (\<lambda>fs. walk_filesystem policy fs at grants)
         else if key = ''network'' then rbind (walk_network policy value at) (\<lambda>_. Inr grants)
         else if key = ''security'' then rbind (walk_security policy value at) (\<lambda>_. Inr grants)
         else if key = ''platform_overrides'' \<and> is_top then
           rbind (object value at) (\<lambda>oses. rfold (\<lambda>(os, p) grants.
             let os_at = at @ ''.'' @ os
             in if os \<notin> set SANDBOX_OSES then refuse os_at (refusal policy)
                else rbind (object p os_at) (\<lambda>m. patch (os_at @ ''.'') m grants)) oses grants)
         else refuse at (refusal policy))"

definition walk_patch ::
  "sandbox_policy \<Rightarrow> string \<Rightarrow> (string, json) btree \<Rightarrow> block_grant list
     \<Rightarrow> sandbox_refusal + block_grant list" where
  "walk_patch policy pre u grants =
     rfold (walk_key policy False pre (\<lambda>_ _ g. Inr g)) u grants"

definition walk_block ::
  "sandbox_policy \<Rightarrow> (string, json) btree \<Rightarrow> sandbox_refusal + block_grant list" where
  "walk_block policy u = rfold (walk_key policy True [] (walk_patch policy)) u []"

fun check_sandbox_block :: "sandbox_policy \<Rightarrow> json \<Rightarrow> sandbox_refusal + block_grant list" where
  "check_sandbox_block policy (JObject u) = walk_block policy u"
| "check_sandbox_block policy _ = refuse [] ''expected a mapping''"

section \<open>What an accepted block grants\<close>

text \<open>The literal-path rule, as a predicate on the accepted path.\<close>

definition literal :: "string \<Rightarrow> bool" where
  "literal p =
     (prefix ''/'' p \<and> CHR ''$'' \<notin> set p \<and> set p \<inter> set ''*?[{'' = {}
      \<and> ''..'' \<notin> set (path_components p)
      \<and> \<not> prefix [''proc''] (path_components p) \<and> \<not> prefix [''dev'', ''fd''] (path_components p))"

lemma literal_path_Inr: "literal_path raw = Inr p \<longleftrightarrow> p = raw \<and> literal raw"
proof -
  have comps: "path_components ''/proc'' = [''proc'']" "path_components ''/dev/fd'' = [''dev'', ''fd'']"
    and abs: "path_is_absolute ''/proc''" "path_is_absolute ''/dev/fd''"
    by code_simp+
  have tilde: "prefix ''/'' raw \<Longrightarrow> \<not> str_starts_with raw ''~''"
    by (auto simp: str_starts_with_def prefix_def)
  show ?thesis
    using tilde
    by (auto simp: literal_path_def literal_def path_is_absolute_def str_contains_char list_ex_iff
        REFUSED_PREFIXES_def path_starts_with_def comps abs[unfolded path_is_absolute_def]
        str_starts_with_def)
qed

text \<open>A grant produced by the walk, and growth of the list of grants.\<close>

definition grant_ok :: "block_grant \<Rightarrow> bool" where
  "grant_ok g = (bg_path g = bg_raw g \<and> literal (bg_raw g))"

definition grows :: "block_grant list \<Rightarrow> block_grant list \<Rightarrow> bool" where
  "grows g g' = (set g \<subseteq> set g' \<and> (list_all grant_ok g \<longrightarrow> list_all grant_ok g'))"

lemma grows_refl [simp]: "grows g g"
  by (simp add: grows_def)

lemma grows_trans: "grows a b \<Longrightarrow> grows b c \<Longrightarrow> grows a c"
  by (auto simp: grows_def)

lemma rfold_grows:
  assumes "rfold f xs g = Inr g'" "\<And>x g g'. x \<in> set xs \<Longrightarrow> f x g = Inr g' \<Longrightarrow> grows g g'"
  shows "grows g g'"
proof (rule rfold_invariant[where I = "grows g", OF assms(1) grows_refl])
  fix x s s' assume "x \<in> set xs" "grows g s" "f x s = Inr s'"
  then show "grows g s'" using assms(2) grows_trans by blast
qed

lemma rfold_reaches:
  assumes "rfold f xs g = Inr g'" "x \<in> set xs"
    and "\<And>x g g'. x \<in> set xs \<Longrightarrow> f x g = Inr g' \<Longrightarrow> grows g g'"
  obtains s1 s2 where "f x s1 = Inr s2" "grows s2 g'"
  using rfold_iteration[OF assms(1,2), of grows] assms(3) grows_trans by auto

lemma object_Inr [simp]: "object v at = Inr m \<longleftrightarrow> v = JObject m"
  by (simp add: object_def)

lemma walk_item_Inr:
  "walk_item at acc (i, v) g = Inr g' \<longleftrightarrow>
     (\<exists>raw. entry_text v = Some raw \<and> literal raw \<and>
       g' = g @ (case acc of None \<Rightarrow> []
                 | Some a \<Rightarrow> [\<lparr>bg_at = index_at at i, bg_raw = raw, bg_path = raw, bg_access = a\<rparr>]))"
  by (auto simp: walk_item_def Let_def rbind_Inr literal_path_Inr split: option.splits)

lemma walk_item_grows: "walk_item at acc iv g = Inr g' \<Longrightarrow> grows g g'"
  by (cases iv) (auto simp: walk_item_Inr grows_def grant_ok_def split: option.splits)

lemma walk_list_Inr:
  "walk_list policy at kv g = Inr g' \<longleftrightarrow>
     (\<exists>acc items. policy_access policy (fst kv) = Some acc \<and> snd kv = JArray items
        \<and> rfold (walk_item (at @ ''.'' @ fst kv) acc) (enumerate 0 items) g = Inr g')"
  by (auto simp: walk_list_def Let_def split: option.splits json.splits)

lemma walk_list_grows: "walk_list policy at kv g = Inr g' \<Longrightarrow> grows g g'"
  by (auto simp: walk_list_Inr elim!: rfold_grows intro: walk_item_grows)

lemma walk_filesystem_grows: "walk_filesystem policy fs at g = Inr g' \<Longrightarrow> grows g g'"
  unfolding walk_filesystem_def by (erule rfold_grows) (rule walk_list_grows)

text \<open>What the walk of a \<open>filesystem\<close> object shows: every list accepted, every entry granted.\<close>

definition granted :: "sandbox_policy \<Rightarrow> (string, json) btree \<Rightarrow> block_grant list \<Rightarrow> bool" where
  "granted policy fs grants =
     (\<forall>(key, v) \<in> set fs. \<exists>acc items. policy_access policy key = Some acc \<and> v = JArray items
        \<and> (\<forall>item \<in> set items. \<exists>raw. entry_text item = Some raw \<and> literal raw
             \<and> (\<forall>a. acc = Some a \<longrightarrow> (\<exists>g \<in> set grants. bg_raw g = raw \<and> bg_access g = a))))"

lemma granted_grows: "granted policy fs g \<Longrightarrow> grows g g' \<Longrightarrow> granted policy fs g'"
  unfolding granted_def grows_def by (fastforce)

lemma walk_items_granted:
  assumes "rfold (walk_item at acc) (enumerate n items) g = Inr g'" "item \<in> set items"
  shows "\<exists>raw. entry_text item = Some raw \<and> literal raw
    \<and> (\<forall>a. acc = Some a \<longrightarrow> (\<exists>gr \<in> set g'. bg_raw gr = raw \<and> bg_access gr = a))"
proof -
  obtain i where "i < length items" "items ! i = item" using assms(2) by (auto simp: in_set_conv_nth)
  then have "(n + i, item) \<in> set (enumerate n items)"
    by (auto simp: in_set_enumerate_eq)
  then obtain s1 s2 where s: "walk_item at acc (n + i, item) s1 = Inr s2" "grows s2 g'"
    using rfold_reaches[OF assms(1)] walk_item_grows by metis
  obtain raw where raw: "entry_text item = Some raw" "literal raw"
    and s2: "s2 = s1 @ (case acc of None \<Rightarrow> []
      | Some a \<Rightarrow> [\<lparr>bg_at = index_at at (n + i), bg_raw = raw, bg_path = raw, bg_access = a\<rparr>])"
    using s(1) by (auto simp: walk_item_Inr)
  have "\<exists>gr \<in> set s2. bg_raw gr = raw \<and> bg_access gr = a" if "acc = Some a" for a
    using s2 that by simp
  then show ?thesis using raw s(2) unfolding grows_def by blast
qed

lemma walk_filesystem_granted:
  assumes "walk_filesystem policy fs at g = Inr g'"
  shows "granted policy fs g'"
  unfolding granted_def
proof clarify
  fix key v assume kv: "(key, v) \<in> set fs"
  obtain s1 s2 where s: "walk_list policy at (key, v) s1 = Inr s2" "grows s2 g'"
    by (rule rfold_reaches[OF assms[unfolded walk_filesystem_def] kv]) (auto intro: walk_list_grows)
  obtain acc items where acc: "policy_access policy key = Some acc" "v = JArray items"
      "rfold (walk_item (at @ ''.'' @ key) acc) (enumerate 0 items) s1 = Inr s2"
    using s(1) by (auto simp: walk_list_Inr)
  show "\<exists>acc items. policy_access policy key = Some acc \<and> v = JArray items
        \<and> (\<forall>item \<in> set items. \<exists>raw. entry_text item = Some raw \<and> literal raw
             \<and> (\<forall>a. acc = Some a \<longrightarrow> (\<exists>g \<in> set g'. bg_raw g = raw \<and> bg_access g = a)))"
    using acc walk_items_granted[OF acc(3)] s(2) unfolding grows_def by (metis subsetD)
qed

section \<open>The keys of an accepted block\<close>

lemma keys_in_Inr:
  "keys_in policy value at allowed = Inr () \<longleftrightarrow>
     (\<exists>m. value = JObject m \<and> set (map fst m) \<subseteq> set allowed)"
  by (auto simp: keys_in_def rbind_Inr bt_keys_def find_None_iff split: option.splits)

definition security_ok :: "json \<Rightarrow> bool" where
  "security_ok v = (\<exists>m. v = JObject m \<and> set (map fst m) \<subseteq> {''ipc_mode''}
     \<and> (\<forall>mode. bt_get m ''ipc_mode'' = Some mode \<longrightarrow> mode = JString IPC_MODE))"

definition network_ok :: "json \<Rightarrow> bool" where
  "network_ok v = (\<exists>m. v = JObject m \<and> set (map fst m) \<subseteq> set NETWORK_KEYS
     \<and> (\<forall>d. bt_get m ''allow_domain'' = Some d \<longrightarrow> (\<exists>items. d = JArray items \<and> list_all is_string items)))"

lemma walk_security_ok: "walk_security policy v at = Inr () \<Longrightarrow> security_ok v"
  by (auto simp: walk_security_def security_ok_def rbind_Inr keys_in_Inr SECURITY_KEYS_def
      split: if_splits option.splits)

lemma find_enumerate_None:
  "find (\<lambda>(i, d). P d) (enumerate n xs) = None \<longleftrightarrow> (\<forall>x \<in> set xs. \<not> P x)"
  by (induction xs arbitrary: n) auto

lemma walk_network_ok:
  assumes "walk_network policy v at = Inr ()" shows "network_ok v"
proof -
  obtain m where m: "v = JObject m" "set (map fst m) \<subseteq> set NETWORK_KEYS"
    using assms by (auto simp: walk_network_def rbind_Inr keys_in_Inr)
  have "\<exists>items. d = JArray items \<and> list_all is_string items"
    if "bt_get m ''allow_domain'' = Some d" for d
    using assms that m(1)
    by (cases d) (auto simp: walk_network_def rbind_Inr list_all_iff find_enumerate_None
        split: option.splits)
  then show ?thesis using m by (auto simp: network_ok_def)
qed

text \<open>What one key of a block or patch shows once the walk accepted it.\<close>

definition entry_ok :: "sandbox_policy \<Rightarrow> string \<times> json \<Rightarrow> block_grant list \<Rightarrow> bool" where
  "entry_ok policy kv grants =
     ((fst kv = ''filesystem'' \<and> (\<exists>fs. snd kv = JObject fs \<and> granted policy fs grants))
      \<or> (fst kv = ''network'' \<and> network_ok (snd kv))
      \<or> (fst kv = ''security'' \<and> security_ok (snd kv)))"

lemma entry_ok_grows: "entry_ok policy kv g \<Longrightarrow> grows g g' \<Longrightarrow> entry_ok policy kv g'"
  using granted_grows by (auto simp: entry_ok_def)

lemma walk_key_patch:
  assumes "walk_key policy False pre patch kv g = Inr g'"
  shows "grows g g' \<and> entry_ok policy kv g'"
  using assms walk_filesystem_grows walk_filesystem_granted walk_network_ok walk_security_ok
  by (auto simp: walk_key_def Let_def entry_ok_def rbind_Inr split: if_splits)

lemma rfold_entries:
  assumes "rfold f u g = Inr g'" "kv \<in> set u"
    and "\<And>kv g g'. kv \<in> set u \<Longrightarrow> f kv g = Inr g' \<Longrightarrow> grows g g' \<and> ok kv g'"
    and "\<And>g g'. ok kv g \<Longrightarrow> grows g g' \<Longrightarrow> ok kv g'"
  shows "ok kv g'"
proof -
  obtain s1 s2 where "f kv s1 = Inr s2" "grows s2 g'"
    by (rule rfold_reaches[OF assms(1,2)]) (use assms(3) in blast)+
  then show ?thesis using assms(2-4) by blast
qed

lemma walk_patch_ok:
  assumes "walk_patch policy pre u g = Inr g'"
  shows "grows g g' \<and> (\<forall>kv \<in> set u. entry_ok policy kv g')"
proof
  show "grows g g'"
    by (rule rfold_grows[OF assms[unfolded walk_patch_def]]) (use walk_key_patch in blast)
  show "\<forall>kv \<in> set u. entry_ok policy kv g'"
    using rfold_entries[OF assms[unfolded walk_patch_def], of _ "entry_ok policy"]
      walk_key_patch entry_ok_grows by blast
qed

definition overrides_ok :: "sandbox_policy \<Rightarrow> json \<Rightarrow> block_grant list \<Rightarrow> bool" where
  "overrides_ok policy v grants =
     (\<exists>oses. v = JObject oses \<and> (\<forall>(os, p) \<in> set oses. os \<in> set SANDBOX_OSES
        \<and> (\<exists>u. p = JObject u \<and> (\<forall>kv \<in> set u. entry_ok policy kv grants))))"

definition top_entry_ok :: "sandbox_policy \<Rightarrow> string \<times> json \<Rightarrow> block_grant list \<Rightarrow> bool" where
  "top_entry_ok policy kv grants =
     (entry_ok policy kv grants
      \<or> (fst kv = ''platform_overrides'' \<and> overrides_ok policy (snd kv) grants))"

lemma overrides_ok_grows: "overrides_ok policy v g \<Longrightarrow> grows g g' \<Longrightarrow> overrides_ok policy v g'"
  unfolding overrides_ok_def using entry_ok_grows by fastforce

lemma top_entry_ok_grows: "top_entry_ok policy kv g \<Longrightarrow> grows g g' \<Longrightarrow> top_entry_ok policy kv g'"
  unfolding top_entry_ok_def using entry_ok_grows overrides_ok_grows by blast

lemma walk_os_ok:
  assumes "(case op of (os, p) \<Rightarrow> \<lambda>grants. let os_at = at @ ''.'' @ os
             in if os \<notin> set SANDBOX_OSES then refuse os_at (refusal policy)
                else rbind (object p os_at) (\<lambda>m. walk_patch policy (os_at @ ''.'') m grants)) g = Inr g'"
  shows "grows g g' \<and> fst op \<in> set SANDBOX_OSES
    \<and> (\<exists>u. snd op = JObject u \<and> (\<forall>kv \<in> set u. entry_ok policy kv g'))"
  using assms walk_patch_ok
  by (cases op) (auto simp: Let_def rbind_Inr split: if_splits)

lemma walk_key_top:
  assumes "walk_key policy True pre (walk_patch policy) kv g = Inr g'"
  shows "grows g g' \<and> top_entry_ok policy kv g'"
proof (cases "fst kv = ''platform_overrides''")
  case False
  then have "walk_key policy False pre (walk_patch policy) kv g = Inr g'"
    using assms by (auto simp: walk_key_def Let_def split: if_splits)
  then show ?thesis using walk_key_patch by (auto simp: top_entry_ok_def)
next
  case True
  let ?at = "pre @ fst kv"
  let ?f = "\<lambda>(os, p) grants. let os_at = ?at @ ''.'' @ os
             in if os \<notin> set SANDBOX_OSES then refuse os_at (refusal policy)
                else rbind (object p os_at) (\<lambda>m. walk_patch policy (os_at @ ''.'') m grants)"
  let ?ok = "\<lambda>op g'. fst op \<in> set SANDBOX_OSES
    \<and> (\<exists>u. snd op = JObject u \<and> (\<forall>kv \<in> set u. entry_ok policy kv g'))"
  obtain oses where oses: "snd kv = JObject oses" "rfold ?f oses g = Inr g'"
    using assms True by (auto simp: walk_key_def Let_def rbind_Inr)
  have "grows g g'" by (rule rfold_grows[OF oses(2)]) (use walk_os_ok in blast)
  moreover have "?ok op g'" if "op \<in> set oses" for op
    by (rule rfold_entries[where ok = ?ok, OF oses(2) that])
       (use walk_os_ok entry_ok_grows in blast)+
  ultimately show ?thesis using True oses(1) by (auto simp: top_entry_ok_def overrides_ok_def)
qed

lemma walk_block_ok:
  assumes "walk_block policy u = Inr g"
  shows "list_all grant_ok g \<and> (\<forall>kv \<in> set u. top_entry_ok policy kv g)"
proof
  have "grows [] g"
    by (rule rfold_grows[OF assms[unfolded walk_block_def]]) (use walk_key_top in blast)
  then show "list_all grant_ok g" by (simp add: grows_def)
  show "\<forall>kv \<in> set u. top_entry_ok policy kv g"
    using rfold_entries[OF assms[unfolded walk_block_def], of _ "top_entry_ok policy"]
      walk_key_top top_entry_ok_grows by blast
qed

section \<open>Properties\<close>

text \<open>
  C18. Every path a checked sandbox block hands to the runtime's root check is literal: as
  written in the block, absolute, with no variable, no glob character and no \<open>..\<close> component, and
  neither \<open>/proc\<close> nor \<open>/dev/fd\<close> is among its ancestors.
\<close>

theorem sandbox_grants_literal:
  assumes "check_sandbox_block policy block = Inr grants" "g \<in> set grants"
  shows "bg_path g = bg_raw g \<and> literal (bg_path g)"
proof -
  obtain u where "block = JObject u" "walk_block policy u = Inr grants"
    using assms(1) by (cases block) auto
  then show ?thesis using walk_block_ok assms(2) by (fastforce simp: list_all_iff grant_ok_def)
qed

theorem sandbox_grants_literal_witness:
  "literal ''/opt/tools''"
proof -
  let ?b = "JObject [(''filesystem'', JObject [(''read'', JArray [JString ''/opt/tools''])])]"
  let ?g = "\<lparr>bg_at = ''filesystem.read[0]'', bg_raw = ''/opt/tools'', bg_path = ''/opt/tools'',
    bg_access = Read\<rparr>"
  have ok: "check_sandbox_block FleetPolicy ?b = Inr [?g]" by code_simp
  show ?thesis using sandbox_grants_literal[OF ok, of ?g] by simp
qed

text \<open>
  An accepted block holds nothing outside the allowlist, at the top level or in a platform
  override, and no path escapes the root check: each key is \<open>filesystem\<close>, \<open>network\<close>, \<open>security\<close> or
  (top level) \<open>platform_overrides\<close>; every \<open>filesystem\<close> list is an accepted one whose every entry
  appears among the returned grants with that list's access; \<open>network\<close> holds allowlisted keys and
  plain domain strings; \<open>security\<close> holds at most \<open>ipc_mode\<close> at its default.
\<close>

theorem sandbox_block_allowlisted:
  assumes "check_sandbox_block policy (JObject u) = Inr grants" "kv \<in> set u"
  shows "entry_ok policy kv grants
    \<or> (fst kv = ''platform_overrides'' \<and> overrides_ok policy (snd kv) grants)"
  using walk_block_ok[of policy u grants] assms by (auto simp: top_entry_ok_def)

theorem sandbox_block_allowlisted_witness:
  "\<exists>g \<in> set [\<lparr>bg_at = ''platform_overrides.linux.filesystem.allow[0]'', bg_raw = ''/srv/cache'',
       bg_path = ''/srv/cache'', bg_access = Write\<rparr>]. bg_raw g = ''/srv/cache''"
proof -
  let ?fs = "[(''allow'', JArray [JObject [(''path'', JString ''/srv/cache'')]])]"
  let ?v = "JObject [(''linux'', JObject [(''filesystem'', JObject ?fs)])]"
  let ?g = "\<lparr>bg_at = ''platform_overrides.linux.filesystem.allow[0]'', bg_raw = ''/srv/cache'',
       bg_path = ''/srv/cache'', bg_access = Write\<rparr>"
  have ok: "check_sandbox_block PluginPolicy (JObject [(''platform_overrides'', ?v)]) = Inr [?g]"
    by code_simp
  show ?thesis
    using sandbox_block_allowlisted[OF ok, of "(''platform_overrides'', ?v)"]
    by (auto simp: entry_ok_def overrides_ok_def granted_def bt_get_def bt_keys_def)
qed

end
