(* ===== verification/Fleet.thy ===== *)
theory Fleet
  imports Names Repo Rules Sandbox
begin

text \<open>
  The fleet: the wire specification with the per-agent settings block
  (crates/balerix-api/src/fleet.rs, settings.rs), the validated domain fleet and the conversions
  between the two (crates/balerix-core/src/fleet.rs), and the agents it resolves to with their
  spec hash (crates/balerix-core/src/agent.rs). The hash function (SHA-256 over serde's JSON
  text) is a parameter. The lemmas show that validation is idempotent through the wire form, what
  a validated fleet guarantees, and that the resolved agents come sorted with one entry per
  declared agent.
\<close>

section \<open>Settings and the wire specification\<close>

record claude_settings =
  cl_settings :: json
  cl_args :: "string list"
  cl_resume :: bool
  cl_binary :: string

datatype runner_settings =
    Tmux
  | Pod json "json option" "(string, string) btree" "json list"

datatype runner_kind = TmuxKind | PodKind

fun runner_kind_of :: "runner_settings \<Rightarrow> runner_kind" where
  "runner_kind_of Tmux = TmuxKind"
| "runner_kind_of (Pod _ _ _ _) = PodKind"

record agent_settings =
  as_claude :: claude_settings
  as_sandbox :: json
  as_tools :: "(string, string) btree"
  as_env :: "(string, string) btree"
  as_runner :: runner_settings
  as_plugins :: "(string, json) btree"
  as_branch :: "string option"

definition default_claude_settings :: claude_settings where
  "default_claude_settings =
     \<lparr>cl_settings = empty_object, cl_args = [], cl_resume = False, cl_binary = ''claude''\<rparr>"

definition default_agent_settings :: agent_settings where
  "default_agent_settings =
     \<lparr>as_claude = default_claude_settings, as_sandbox = empty_object, as_tools = [], as_env = [],
      as_runner = Tmux, as_plugins = [], as_branch = None\<rparr>"

record git_identity =
  gi_name :: string
  gi_email :: string

datatype git_auth = Gh | NoAuth

record git_settings =
  git_push :: bool
  git_auth_of :: git_auth
  git_identity_of :: "git_identity option"

definition default_git_settings :: git_settings where
  "default_git_settings = \<lparr>git_push = True, git_auth_of = Gh, git_identity_of = None\<rparr>"

record crew_spec =
  csp_repo :: string
  csp_ref :: string
  csp_git :: git_settings
  csp_tools :: "(string, string) btree"
  csp_agents :: "(string, agent_settings) btree"

record fleet_spec =
  fsp_name :: string
  fsp_tools :: "(string, string) btree"
  fsp_crews :: "(string, crew_spec) btree"

section \<open>The validated fleet\<close>

record crew =
  crew_repo :: repo_ref
  crew_ref_name :: string
  crew_git :: git_settings
  crew_tools :: "(string, string) btree"
  crew_agents :: "(agent_name, agent_settings) btree"

record fleet =
  fl_name :: fleet_name
  fl_tools :: "(string, string) btree"
  fl_crews :: "(crew_name, crew) btree"

datatype fleet_error =
    InvalidName string name_error
  | InvalidRepo string repo_error
  | EmptyRef string
  | ReservedAgentName string
  | EmptyIdentity string
  | InvalidBranch string string
  | InexactVersion string string string
  | SandboxError string string

definition RESERVED_AGENT_NAME :: string where
  "RESERVED_AGENT_NAME = ''balerix''"

definition check_tools :: "string \<Rightarrow> (string, string) btree \<Rightarrow> fleet_error + unit" where
  "check_tools path tools =
     (case find (\<lambda>(_, v). \<not> is_exact_version v) tools of
        Some (tool, version) \<Rightarrow> Inl (InexactVersion (path @ ''.'' @ tool) tool version)
      | None \<Rightarrow> Inr ())"

definition check_identity :: "string \<Rightarrow> git_settings \<Rightarrow> fleet_error + unit" where
  "check_identity path git =
     (case git_identity_of git of
        None \<Rightarrow> Inr ()
      | Some identity \<Rightarrow>
          rfold (\<lambda>(field, value) _.
              if str_trim value = [] then Inl (EmptyIdentity (path @ ''.git.identity.'' @ field))
              else Inr ())
            [(''name'', gi_name identity), (''email'', gi_email identity)] ())"

text \<open>The body of the loop over a crew's agents.\<close>

definition convert_agent ::
  "string \<Rightarrow> string \<times> agent_settings \<Rightarrow> (agent_name, agent_settings) btree
     \<Rightarrow> fleet_error + (agent_name, agent_settings) btree" where
  "convert_agent path entry agents =
     (let agent_path = path @ ''.agents.'' @ fst entry; settings = snd entry
      in if fst entry = RESERVED_AGENT_NAME then Inl (ReservedAgentName agent_path)
         else rbind (map_err (InvalidName agent_path) (AgentName (fst entry))) (\<lambda>name.
              rbind (case as_branch settings of
                       None \<Rightarrow> Inr ()
                     | Some b \<Rightarrow> map_err (InvalidBranch (agent_path @ ''.branch'')) (check_branch_name b))
                (\<lambda>_.
              rbind (check_tools (agent_path @ ''.tools'') (as_tools settings)) (\<lambda>_.
              rbind (map_err (\<lambda>r. SandboxError (path_under r (agent_path @ ''.sandbox'')) (sr_message r))
                       (check_sandbox_block FleetPolicy (as_sandbox settings))) (\<lambda>_.
              Inr (bt_insert name settings agents))))))"

definition convert_crew :: "string \<Rightarrow> crew_spec \<Rightarrow> fleet_error + crew" where
  "convert_crew path c =
     rbind (map_err (InvalidRepo (path @ ''.repo'')) (repo_parse (csp_repo c))) (\<lambda>repo.
     if csp_ref c = [] then Inl (EmptyRef (path @ ''.ref''))
     else rbind (check_identity path (csp_git c)) (\<lambda>_.
          rbind (check_tools (path @ ''.tools'') (csp_tools c)) (\<lambda>_.
          rbind (rfold (convert_agent path) (csp_agents c) []) (\<lambda>agents.
          Inr \<lparr>crew_repo = repo, crew_ref_name = csp_ref c, crew_git = csp_git c,
               crew_tools = csp_tools c, crew_agents = agents\<rparr>))))"

text \<open>The body of the loop over a specification's crews.\<close>

definition convert_crew_entry ::
  "string \<times> crew_spec \<Rightarrow> (crew_name, crew) btree \<Rightarrow> fleet_error + (crew_name, crew) btree" where
  "convert_crew_entry entry crews =
     (let path = ''crews.'' @ fst entry
      in rbind (map_err (InvalidName path) (CrewName (fst entry))) (\<lambda>n.
         rbind (convert_crew path (snd entry)) (\<lambda>cr. Inr (bt_insert n cr crews))))"

definition fleet_try_from :: "fleet_spec \<Rightarrow> fleet_error + fleet" where
  "fleet_try_from spec =
     rbind (map_err (InvalidName ''name'') (FleetName (fsp_name spec))) (\<lambda>name.
     rbind (check_tools ''tools'' (fsp_tools spec)) (\<lambda>_.
     rbind (rfold convert_crew_entry (fsp_crews spec) []) (\<lambda>crews.
     Inr \<lparr>fl_name = name, fl_tools = fsp_tools spec, fl_crews = crews\<rparr>)))"

definition crew_into_spec :: "crew \<Rightarrow> crew_spec" where
  "crew_into_spec c =
     \<lparr>csp_repo = clone_url (crew_repo c), csp_ref = crew_ref_name c, csp_git = crew_git c,
      csp_tools = crew_tools c, csp_agents = crew_agents c\<rparr>"

definition fleet_into_spec :: "fleet \<Rightarrow> fleet_spec" where
  "fleet_into_spec f =
     \<lparr>fsp_name = fl_name f, fsp_tools = fl_tools f,
      fsp_crews = map (\<lambda>(n, c). (n, crew_into_spec c)) (fl_crews f)\<rparr>"

section \<open>Resolved agents\<close>

record resolved_agent =
  ra_id :: agent_id
  ra_repo :: repo_ref
  ra_ref :: string
  ra_git :: git_settings
  ra_settings :: agent_settings

definition from_fleet :: "fleet \<Rightarrow> resolved_agent list" where
  "from_fleet f =
     concat (map (\<lambda>(crew_name, c).
       map (\<lambda>(agent_name, settings).
         \<lparr>ra_id = AgentId (fl_name f) crew_name agent_name, ra_repo = crew_repo c,
          ra_ref = crew_ref_name c, ra_git = crew_git c, ra_settings = settings\<rparr>) (crew_agents c))
       (fl_crews f))"

definition agent_branch :: "resolved_agent \<Rightarrow> string" where
  "agent_branch a =
     (case as_branch (ra_settings a) of
        Some b \<Rightarrow> b
      | None \<Rightarrow> ''balerix/'' @ agent_id_display (ra_id a))"

definition start_ref :: "resolved_agent \<Rightarrow> string" where
  "start_ref a = (case as_branch (ra_settings a) of Some b \<Rightarrow> b | None \<Rightarrow> ra_ref a)"

definition WORKSPACE_LAYOUT :: u8 where
  "WORKSPACE_LAYOUT = 2"

record hash_input =
  hi_layout :: u8
  hi_repo :: string
  hi_ref :: string
  hi_git :: git_settings
  hi_settings :: agent_settings

type_synonym spec_hash = string

definition hash_content :: "resolved_agent \<Rightarrow> u8 \<Rightarrow> hash_input" where
  "hash_content a layout =
     \<lparr>hi_layout = layout, hi_repo = clone_url (ra_repo a), hi_ref = ra_ref a,
      hi_git = ra_git a, hi_settings = ra_settings a\<rparr>"

definition hash_for_layout :: "(hash_input \<Rightarrow> spec_hash) \<Rightarrow> resolved_agent \<Rightarrow> u8 \<Rightarrow> spec_hash" where
  "hash_for_layout digest a layout = digest (hash_content a layout)"

definition agent_hash :: "(hash_input \<Rightarrow> spec_hash) \<Rightarrow> resolved_agent \<Rightarrow> spec_hash" where
  "agent_hash digest a = hash_for_layout digest a WORKSPACE_LAYOUT"

section \<open>What validation guarantees\<close>

definition tools_ok :: "(string, string) btree \<Rightarrow> bool" where
  "tools_ok tools = list_all (\<lambda>(_, v). is_exact_version v) tools"

definition identity_ok :: "git_settings \<Rightarrow> bool" where
  "identity_ok git =
     (case git_identity_of git of None \<Rightarrow> True
      | Some i \<Rightarrow> str_trim (gi_name i) \<noteq> [] \<and> str_trim (gi_email i) \<noteq> [])"

definition settings_ok :: "agent_settings \<Rightarrow> bool" where
  "settings_ok s =
     ((case as_branch s of None \<Rightarrow> True | Some b \<Rightarrow> check_branch_name b = Inr ())
      \<and> tools_ok (as_tools s) \<and> is_ok (check_sandbox_block FleetPolicy (as_sandbox s)))"

definition agents_ok :: "(agent_name, agent_settings) btree \<Rightarrow> bool" where
  "agents_ok m =
     (bt_wf m \<and> list_all (\<lambda>(n, s). n \<noteq> RESERVED_AGENT_NAME \<and> valid_name n \<and> settings_ok s) m)"

definition crew_ok :: "crew \<Rightarrow> bool" where
  "crew_ok c =
     (repo_parse (clone_url (crew_repo c)) = Inr (crew_repo c) \<and> crew_ref_name c \<noteq> []
      \<and> identity_ok (crew_git c) \<and> tools_ok (crew_tools c) \<and> agents_ok (crew_agents c))"

definition fleet_ok :: "fleet \<Rightarrow> bool" where
  "fleet_ok f =
     (valid_name (fl_name f) \<and> tools_ok (fl_tools f) \<and> bt_wf (fl_crews f)
      \<and> list_all (\<lambda>(n, c). valid_name n \<and> crew_ok c) (fl_crews f))"

text \<open>A specification as \<open>serde\<close> reads it: its maps are maps.\<close>

definition spec_wf :: "fleet_spec \<Rightarrow> bool" where
  "spec_wf spec =
     (bt_wf (fsp_crews spec) \<and> list_all (\<lambda>(_, c). bt_wf (csp_agents c)) (fsp_crews spec))"

lemma check_tools_Inr [simp]: "check_tools path tools = Inr () \<longleftrightarrow> tools_ok tools"
proof -
  have "check_tools path tools = Inr () \<longleftrightarrow> find (\<lambda>(_, v). \<not> is_exact_version v) tools = None"
    by (auto simp: check_tools_def split: option.splits)
  then show ?thesis by (auto simp: tools_ok_def list_all_iff find_None_iff)
qed

lemma check_identity_Inr [simp]: "check_identity path git = Inr () \<longleftrightarrow> identity_ok git"
  by (auto simp: check_identity_def identity_ok_def rbind_Inr split: option.splits)

lemma convert_agent_Inr:
  "convert_agent path entry acc = Inr acc' \<longleftrightarrow>
     (\<exists>s. (if fst entry \<noteq> RESERVED_AGENT_NAME \<and> valid_name (fst entry) \<and> settings_ok (snd entry)
           then Some (snd entry) else None) = Some s \<and> acc' = bt_insert (fst entry) s acc)"
  by (auto simp: convert_agent_def Let_def rbind_Inr settings_ok_def is_ok_iff split: option.splits)

lemma convert_agents_Inr:
  assumes "bt_wf m"
  shows "rfold (convert_agent path) m [] = Inr r \<longleftrightarrow> agents_ok m \<and> r = m"
proof -
  let ?ok = "\<lambda>e. fst e \<noteq> RESERVED_AGENT_NAME \<and> valid_name (fst e) \<and> settings_ok (snd e)"
  let ?conv = "\<lambda>e. if ?ok e then Some (snd e) else None"
  have same: "map (\<lambda>e. (fst e, the (?conv e))) m = m" if "\<forall>e \<in> set m. ?ok e"
    using that by (intro map_idI) auto
  have "rfold (convert_agent path) m [] = Inr r \<longleftrightarrow>
      (\<forall>e \<in> set m. ?conv e \<noteq> None) \<and> r = map (\<lambda>e. (fst e, the (?conv e))) m"
    by (rule rfold_insert_map[OF convert_agent_Inr assms])
  also have "\<dots> \<longleftrightarrow> (\<forall>e \<in> set m. ?ok e) \<and> r = m" using same by auto
  also have "\<dots> \<longleftrightarrow> agents_ok m \<and> r = m"
    using assms by (auto simp: agents_ok_def list_all_iff)
  finally show ?thesis .
qed

lemma convert_crew_Inr:
  assumes "bt_wf (csp_agents c)"
  shows "convert_crew path c = Inr cr \<longleftrightarrow>
    (\<exists>repo. repo_parse (csp_repo c) = Inr repo \<and> csp_ref c \<noteq> [] \<and> identity_ok (csp_git c)
       \<and> tools_ok (csp_tools c) \<and> agents_ok (csp_agents c)
       \<and> cr = \<lparr>crew_repo = repo, crew_ref_name = csp_ref c, crew_git = csp_git c,
               crew_tools = csp_tools c, crew_agents = csp_agents c\<rparr>)"
  by (auto simp: convert_crew_def rbind_Inr convert_agents_Inr[OF assms])

lemma convert_crew_ok:
  assumes "convert_crew path c = Inr cr" "bt_wf (csp_agents c)"
  shows "crew_ok cr"
  using assms repo_parse_again by (auto simp: convert_crew_Inr crew_ok_def)

lemma convert_crew_again: "crew_ok c \<Longrightarrow> convert_crew path (crew_into_spec c) = Inr c"
  by (simp add: crew_into_spec_def convert_crew_Inr crew_ok_def agents_ok_def)

definition conv_crew :: "string \<times> crew_spec \<Rightarrow> crew option" where
  "conv_crew kv =
     (if valid_name (fst kv)
      then (case convert_crew (''crews.'' @ fst kv) (snd kv) of Inl _ \<Rightarrow> None | Inr cr \<Rightarrow> Some cr)
      else None)"

lemma conv_crew_Some:
  "conv_crew kv = Some cr \<longleftrightarrow> valid_name (fst kv) \<and> convert_crew (''crews.'' @ fst kv) (snd kv) = Inr cr"
  by (auto simp: conv_crew_def split: sum.splits)

lemma convert_crew_entry_Inr:
  "convert_crew_entry kv acc = Inr acc' \<longleftrightarrow>
     (\<exists>cr. conv_crew kv = Some cr \<and> acc' = bt_insert (fst kv) cr acc)"
  by (auto simp: convert_crew_entry_def Let_def rbind_Inr conv_crew_Some)

lemma fleet_try_from_Inr:
  assumes "bt_wf (fsp_crews spec)"
  shows "fleet_try_from spec = Inr f \<longleftrightarrow>
    valid_name (fsp_name spec) \<and> tools_ok (fsp_tools spec)
    \<and> (\<forall>kv \<in> set (fsp_crews spec). conv_crew kv \<noteq> None)
    \<and> f = \<lparr>fl_name = fsp_name spec, fl_tools = fsp_tools spec,
           fl_crews = map (\<lambda>kv. (fst kv, the (conv_crew kv))) (fsp_crews spec)\<rparr>"
  unfolding fleet_try_from_def
  by (auto simp: rbind_Inr rfold_insert_map[OF convert_crew_entry_Inr assms])

lemma fleet_try_from_ok:
  assumes "fleet_try_from spec = Inr f" "spec_wf spec"
  shows "fleet_ok f"
proof -
  have wf: "bt_wf (fsp_crews spec)" using assms(2) by (simp add: spec_wf_def)
  have "valid_name (fst kv) \<and> crew_ok (the (conv_crew kv))" if kv: "kv \<in> set (fsp_crews spec)" for kv
  proof -
    obtain cr where "conv_crew kv = Some cr"
      using assms(1) kv by (auto simp only: fleet_try_from_Inr[OF wf] not_None_eq)
    moreover have "bt_wf (csp_agents (snd kv))"
      using assms(2) kv by (auto simp: spec_wf_def list_all_iff)
    ultimately show ?thesis
      using conv_crew_Some[of kv cr] convert_crew_ok[of "''crews.'' @ fst kv" "snd kv" cr] by simp
  qed
  moreover have "bt_wf (map (\<lambda>kv. (fst kv, the (conv_crew kv))) (fsp_crews spec))"
    using wf by (simp add: bt_wf_def comp_def)
  ultimately show ?thesis
    using assms(1) by (auto simp: fleet_try_from_Inr[OF wf] fleet_ok_def list_all_iff)
qed

lemma fleet_roundtrip:
  assumes "fleet_ok f"
  shows "fleet_try_from (fleet_into_spec f) = Inr f"
proof -
  let ?crews = "map (\<lambda>(n, c). (n, crew_into_spec c)) (fl_crews f)"
  have wf: "bt_wf ?crews" using assms by (simp add: fleet_ok_def bt_wf_def comp_def case_prod_beta)
  have conv: "conv_crew (n, crew_into_spec c) = Some c" if "(n, c) \<in> set (fl_crews f)" for n c
    using assms that convert_crew_again by (auto simp: fleet_ok_def list_all_iff conv_crew_Some)
  have "map (\<lambda>kv. (fst kv, the (conv_crew kv))) ?crews = fl_crews f"
    using conv by (auto simp: case_prod_beta intro!: map_idI)
  moreover have "\<forall>kv \<in> set ?crews. conv_crew kv \<noteq> None" using conv by force
  ultimately show ?thesis
    using assms wf by (simp add: fleet_try_from_Inr fleet_into_spec_def fleet_ok_def)
qed

section \<open>Resolved agents, in order\<close>

lemma from_fleet_mem:
  "a \<in> set (from_fleet f) \<longleftrightarrow>
     (\<exists>n c m s. (n, c) \<in> set (fl_crews f) \<and> (m, s) \<in> set (crew_agents c)
        \<and> a = \<lparr>ra_id = AgentId (fl_name f) n m, ra_repo = crew_repo c, ra_ref = crew_ref_name c,
               ra_git = crew_git c, ra_settings = s\<rparr>)"
  by (fastforce simp: from_fleet_def)

lemma sorted_concat_groups:
  assumes "sorted_wrt (\<lambda>x y. fst x < fst y) groups"
    and "\<And>g. g \<in> set groups \<Longrightarrow> sorted_wrt less_in (snd g)"
    and "\<And>g g' x y. g \<in> set groups \<Longrightarrow> g' \<in> set groups \<Longrightarrow> fst g < fst g' \<Longrightarrow>
           x \<in> set (snd g) \<Longrightarrow> y \<in> set (snd g') \<Longrightarrow> less_in x y"
  shows "sorted_wrt less_in (concat (map snd groups))"
  using assms
proof (induction groups)
  case (Cons g groups)
  have "sorted_wrt less_in (concat (map snd groups))"
  proof (rule Cons.IH)
    show "sorted_wrt (\<lambda>x y. fst x < fst y) groups" using Cons.prems(1) by simp
    show "sorted_wrt less_in (snd h)" if "h \<in> set groups" for h using that Cons.prems(2) by simp
    show "less_in x y" if "h \<in> set groups" "h' \<in> set groups" "fst h < fst h'"
        "x \<in> set (snd h)" "y \<in> set (snd h')" for h h' x y
      by (rule Cons.prems(3)[of h h']) (use that in simp_all)
  qed
  moreover have "sorted_wrt less_in (snd g)" by (rule Cons.prems(2)) simp
  moreover have "less_in x y" if "x \<in> set (snd g)" "g' \<in> set groups" "y \<in> set (snd g')" for x y g'
    by (rule Cons.prems(3)[of g g']) (use that Cons.prems(1) in auto)
  ultimately show ?case by (auto simp: sorted_wrt_append)
qed simp

lemma clone_url_inj:
  assumes "repo_parse s = Inr r" "repo_parse s' = Inr r'"
  shows "clone_url r = clone_url r' \<longleftrightarrow> r = r'"
proof
  assume eq: "clone_url r = clone_url r'"
  have "Inr r = (Inr r' :: repo_error + repo_ref)"
    using repo_parse_again[OF assms(1)] repo_parse_again[OF assms(2)] by (simp only: eq)
  then show "r = r'" by simp
qed simp

lemma from_fleet_ascending:
  assumes "fleet_ok f"
  shows "sorted_wrt (<) (map ra_id (from_fleet f))"
proof -
  let ?group = "\<lambda>(n, c). (n, map (\<lambda>(m, s). AgentId (fl_name f) n m) (crew_agents c))"
  have ids: "map ra_id (from_fleet f) = concat (map snd (map ?group (fl_crews f)))"
    by (simp add: from_fleet_def map_concat comp_def case_prod_unfold)
  have crews: "sorted_wrt (\<lambda>x y. fst x < fst y) (map ?group (fl_crews f))"
    using assms by (simp add: fleet_ok_def bt_wf_def sorted_wrt_map case_prod_beta)
  have group: "sorted_wrt (<) (snd g)" if mem: "g \<in> set (map ?group (fl_crews f))" for g
  proof -
    obtain n c where "(n, c) \<in> set (fl_crews f)" and g: "g = ?group (n, c)" using mem by auto
    then have "bt_wf (crew_agents c)"
      using assms by (auto simp: fleet_ok_def crew_ok_def agents_ok_def list_all_iff)
    then show ?thesis
      using g by (simp add: bt_wf_def sorted_wrt_map case_prod_beta less_agent_id_def)
  qed
  show ?thesis
    unfolding ids
    by (rule sorted_concat_groups[OF crews group]) (auto simp: less_agent_id_def)
qed

lemma from_fleet_facts:
  assumes "fleet_ok f" "a \<in> set (from_fleet f)"
  shows "agent_id_ok (ra_id a)" "fleet_of (ra_id a) = fl_name f"
    "agent_of (ra_id a) \<noteq> RESERVED_AGENT_NAME" "settings_ok (ra_settings a)"
    "repo_parse (clone_url (ra_repo a)) = Inr (ra_repo a)"
proof -
  obtain n c m s where mem: "(n, c) \<in> set (fl_crews f)" "(m, s) \<in> set (crew_agents c)"
    and a: "a = \<lparr>ra_id = AgentId (fl_name f) n m, ra_repo = crew_repo c, ra_ref = crew_ref_name c,
               ra_git = crew_git c, ra_settings = s\<rparr>"
    using assms(2) by (auto simp: from_fleet_mem)
  have c: "valid_name n" "crew_ok c" "valid_name (fl_name f)"
    using assms(1) mem(1) by (auto simp: fleet_ok_def list_all_iff)
  then have m: "valid_name m" "m \<noteq> RESERVED_AGENT_NAME" "settings_ok s"
    using mem(2) by (auto simp: crew_ok_def agents_ok_def list_all_iff)
  show "agent_id_ok (ra_id a)" "fleet_of (ra_id a) = fl_name f"
    "agent_of (ra_id a) \<noteq> RESERVED_AGENT_NAME" "settings_ok (ra_settings a)"
    "repo_parse (clone_url (ra_repo a)) = Inr (ra_repo a)"
    using c m by (simp_all add: a agent_id_ok_def crew_ok_def)
qed

section \<open>Properties\<close>

text \<open>A small fleet for the witnesses.\<close>

definition sample_spec :: fleet_spec where
  "sample_spec =
     \<lparr>fsp_name = ''payments'', fsp_tools = [(''node'', ''22.11.0'')],
      fsp_crews = [(''backend'',
        \<lparr>csp_repo = ''acme/pay'', csp_ref = ''main'', csp_git = default_git_settings,
         csp_tools = [], csp_agents = [(''alice'', default_agent_settings),
           (''bob'', default_agent_settings\<lparr>as_branch := Some ''fix/7''\<rparr>)]\<rparr>)]\<rparr>"

definition sample_fleet :: fleet where
  "sample_fleet =
     \<lparr>fl_name = ''payments'', fl_tools = [(''node'', ''22.11.0'')],
      fl_crews = [(''backend'',
        \<lparr>crew_repo = GitHub ''acme'' ''pay'', crew_ref_name = ''main'', crew_git = default_git_settings,
         crew_tools = [], crew_agents = [(''alice'', default_agent_settings),
           (''bob'', default_agent_settings\<lparr>as_branch := Some ''fix/7''\<rparr>)]\<rparr>)]\<rparr>"

lemma sample_spec_wf: "spec_wf sample_spec"
  by code_simp

lemma sample_try_from: "fleet_try_from sample_spec = Inr sample_fleet"
  by code_simp

lemma sample_fleet_ok: "fleet_ok sample_fleet"
  by (rule fleet_try_from_ok[OF sample_try_from sample_spec_wf])

text \<open>
  C17. Validation of a fleet specification: what it accepts satisfies the whole contract (valid
  fleet, crew and agent names, no agent named after the tmux anchor window, parsed repositories,
  a non-empty ref and commit identity, exact versions at all three levels, acceptable branches
  and sandbox blocks), and writing the fleet back to the wire form and validating again gives the
  same fleet.
\<close>

theorem fleet_validation:
  assumes "fleet_try_from spec = Inr f" "spec_wf spec"
  shows "fleet_ok f \<and> fleet_try_from (fleet_into_spec f) = Inr f"
  using fleet_try_from_ok[OF assms] fleet_roundtrip by blast

theorem fleet_validation_witness:
  "fleet_ok sample_fleet \<and> fleet_try_from (fleet_into_spec sample_fleet) = Inr sample_fleet"
  by (rule fleet_validation[OF sample_try_from sample_spec_wf])

text \<open>
  The resolved agents of a validated fleet come out in strictly ascending id order, as the
  planner's ordering relies on, with well-formed ids; and the branch each works on, its own or
  the generated one, passes the branch rule.
\<close>

theorem resolved_agents_ordered:
  assumes "fleet_ok f"
  shows "sorted_wrt (<) (map ra_id (from_fleet f))
    \<and> list_all (\<lambda>a. agent_id_ok (ra_id a) \<and> fleet_of (ra_id a) = fl_name f
         \<and> check_branch_name (agent_branch a) = Inr ()) (from_fleet f)"
proof -
  have "check_branch_name (agent_branch a) = Inr ()" if a: "a \<in> set (from_fleet f)" for a
  proof (cases "as_branch (ra_settings a)")
    case None
    then show ?thesis
      using default_branch_ok[OF from_fleet_facts(1)[OF assms a]] by (simp add: agent_branch_def)
  next
    case (Some b)
    then show ?thesis
      using from_fleet_facts(4)[OF assms a] by (simp add: agent_branch_def settings_ok_def)
  qed
  then show ?thesis
    using from_fleet_ascending[OF assms] from_fleet_facts(1,2)[OF assms] by (simp add: list_all_iff)
qed

theorem resolved_agents_ordered_witness:
  "sorted_wrt (<) (map ra_id (from_fleet sample_fleet)) \<and> length (from_fleet sample_fleet) = 2"
  using resolved_agents_ordered[OF sample_fleet_ok] by (simp add: from_fleet_def sample_fleet_def)

text \<open>
  The spec hash decides restarts. For a digest that does not collide on the two contents, the
  hash of an agent under a workspace layout equals the current hash of another agent exactly when
  the layout is the current one and repository, ref, git settings and the whole settings block
  agree; the agents' names do not enter.
\<close>

theorem spec_hash_exact:
  assumes "inj_on digest {hash_content a layout, hash_content b WORKSPACE_LAYOUT}"
    and "repo_parse s = Inr (ra_repo a)" "repo_parse s' = Inr (ra_repo b)"
  shows "hash_for_layout digest a layout = agent_hash digest b \<longleftrightarrow>
      layout = WORKSPACE_LAYOUT \<and> ra_repo a = ra_repo b \<and> ra_ref a = ra_ref b
      \<and> ra_git a = ra_git b \<and> ra_settings a = ra_settings b"
proof -
  have url: "clone_url (ra_repo a) = clone_url (ra_repo b) \<longleftrightarrow> ra_repo a = ra_repo b"
    by (rule clone_url_inj[OF assms(2,3)])
  have "hash_for_layout digest a layout = agent_hash digest b \<longleftrightarrow>
      hash_content a layout = hash_content b WORKSPACE_LAYOUT"
    using inj_on_eq_iff[OF assms(1)] by (simp add: agent_hash_def hash_for_layout_def)
  then show ?thesis by (simp add: hash_content_def url)
qed

definition sample_digest :: "hash_input \<Rightarrow> spec_hash" where
  "sample_digest h = hi_ref h"

definition sample_agent :: "string \<Rightarrow> resolved_agent" where
  "sample_agent r =
     \<lparr>ra_id = AgentId ''payments'' ''backend'' ''alice'', ra_repo = GitHub ''acme'' ''pay'',
      ra_ref = r, ra_git = default_git_settings, ra_settings = default_agent_settings\<rparr>"

theorem spec_hash_exact_witness:
  "hash_for_layout sample_digest (sample_agent ''main'') WORKSPACE_LAYOUT
     \<noteq> agent_hash sample_digest (sample_agent ''dev'')"
proof -
  have "inj_on sample_digest {hash_content (sample_agent ''main'') WORKSPACE_LAYOUT,
      hash_content (sample_agent ''dev'') WORKSPACE_LAYOUT}"
    by (simp add: inj_on_def sample_digest_def hash_content_def sample_agent_def)
  moreover have "repo_parse ''acme/pay'' = Inr (GitHub ''acme'' ''pay'')" by code_simp
  ultimately show ?thesis
    using spec_hash_exact[of sample_digest "sample_agent ''main''" WORKSPACE_LAYOUT
        "sample_agent ''dev''" "''acme/pay''" "''acme/pay''"]
    by (simp add: sample_agent_def)
qed

end
