(* ===== verification/Status.thy ===== *)
theory Status
  imports Fleet "HOL-Library.Option_ord"
begin

text \<open>
  Fleet and agent status: the wire types (crates/balerix-api/src/status.rs, record.rs), the
  restart policy, the reconciler's steps and the backoff (crates/balerix-core/src/reconcile/mod.rs),
  and the functions that fold step outcomes and signals into a status
  (crates/balerix-core/src/reconcile/status.rs). The abstract specification is per agent: an
  effect on one optional status entry, of which the fold over the string-keyed map is a
  refinement. The lemmas give that refinement, the exact backoff over 64-bit arithmetic, and the
  phase a fleet derives from its agents.
\<close>

section \<open>Wire types\<close>

type_synonym timestamp = u64

definition plus_secs :: "timestamp \<Rightarrow> u64 \<Rightarrow> timestamp" where
  "plus_secs t s = saturating_add t s"

datatype fleet_phase =
    FleetPending | FleetReconciling | FleetReady | FleetDegraded | FleetTerminating | FleetDown
  | FleetUnknown

datatype agent_phase =
    Pending | Materializing | Starting | Ready | Failed | Dead | Stopped | Unknown

datatype activation_state = ActivationPending | Active | Rejected

record plugin_activation =
  pa_state :: activation_state
  pa_message :: string

definition activation_pending :: plugin_activation where
  "activation_pending = \<lparr>pa_state = ActivationPending, pa_message = []\<rparr>"

definition activation_active :: plugin_activation where
  "activation_active = \<lparr>pa_state = Active, pa_message = []\<rparr>"

definition activation_rejected :: "string \<Rightarrow> plugin_activation" where
  "activation_rejected message = \<lparr>pa_state = Rejected, pa_message = message\<rparr>"

record agent_status =
  st_phase :: agent_phase
  st_message :: string
  st_last_event_at :: "timestamp option"
  st_applied_hash :: "spec_hash option"
  st_restarts :: u32
  st_next_restart_at :: "timestamp option"
  st_plugins :: "(string, plugin_activation) btree"
  st_plugin_hello :: u64

definition default_agent_status :: agent_status where
  "default_agent_status =
     \<lparr>st_phase = Pending, st_message = [], st_last_event_at = None, st_applied_hash = None,
      st_restarts = 0, st_next_restart_at = None, st_plugins = [], st_plugin_hello = 0\<rparr>"

definition agent_status_new :: "agent_phase \<Rightarrow> agent_status" where
  "agent_status_new phase = default_agent_status\<lparr>st_phase := phase\<rparr>"

record fleet_status =
  fs_generation :: u64
  fs_observed_generation :: u64
  fs_phase :: fleet_phase
  fs_agents :: "(string, agent_status) btree"

definition default_fleet_status :: fleet_status where
  "default_fleet_status =
     \<lparr>fs_generation = 0, fs_observed_generation = 0, fs_phase = FleetPending, fs_agents = []\<rparr>"

text \<open>\<open>status.entry(id)\<close>, the entry created as \<open>Pending\<close> if absent, updated by \<open>f\<close>.\<close>

definition entry :: "string \<Rightarrow> (agent_status \<Rightarrow> agent_status) \<Rightarrow> fleet_status \<Rightarrow> fleet_status" where
  "entry key f s = s\<lparr>fs_agents := bt_entry key default_agent_status f (fs_agents s)\<rparr>"

record keep =
  keep_repos :: bool
  keep_sessions :: bool

datatype desired = Up | Down keep bool

record fleet_record =
  fr_spec :: fleet_spec
  fr_owner :: "string option"
  fr_generation :: u64
  fr_desired :: desired
  fr_stopped :: "string list"
  fr_status :: fleet_status

definition with_owner :: "fleet_spec \<Rightarrow> string option \<Rightarrow> fleet_record" where
  "with_owner spec owner =
     \<lparr>fr_spec = spec, fr_owner = owner, fr_generation = 0, fr_desired = Up, fr_stopped = [],
      fr_status = default_fleet_status\<rparr>"

definition is_down :: "fleet_record \<Rightarrow> bool" where
  "is_down r =
     ((case fr_desired r of Down _ _ \<Rightarrow> True | Up \<Rightarrow> False) \<and> fs_phase (fr_status r) = FleetDown)"

record fleet_summary =
  sm_name :: string
  sm_phase :: fleet_phase
  sm_generation :: u64
  sm_observed_generation :: u64
  sm_agents :: nat
  sm_managed_by :: "string option"

definition summary :: "fleet_record \<Rightarrow> fleet_summary" where
  "summary r =
     \<lparr>sm_name = fsp_name (fr_spec r), sm_phase = fs_phase (fr_status r),
      sm_generation = fr_generation r,
      sm_observed_generation = fs_observed_generation (fr_status r),
      sm_agents = length (fs_agents (fr_status r)), sm_managed_by = fr_owner r\<rparr>"

section \<open>Policy, steps and backoff\<close>

record reconcile_policy =
  max_restarts :: u32
  backoff_base_secs :: u64
  backoff_cap_secs :: u64

definition default_policy :: reconcile_policy where
  "default_policy = \<lparr>max_restarts = 5, backoff_base_secs = 2, backoff_cap_secs = 300\<rparr>"

datatype step =
    Stop agent_id
  | RemoveAgent agent_id
  | RemoveCrew crew_ref keep
  | EnsureCrew crew_ref
  | Materialize agent_id
  | Start agent_id spec_hash
  | NoteExit agent_id "i32 option"

fun step_agent_id :: "step \<Rightarrow> agent_id option" where
  "step_agent_id (Stop i) = Some i"
| "step_agent_id (RemoveAgent i) = Some i"
| "step_agent_id (Materialize i) = Some i"
| "step_agent_id (Start i _) = Some i"
| "step_agent_id (NoteExit i _) = Some i"
| "step_agent_id (RemoveCrew _ _) = None"
| "step_agent_id (EnsureCrew _) = None"

definition backoff_secs :: "reconcile_policy \<Rightarrow> u32 \<Rightarrow> u64" where
  "backoff_secs policy restarts =
     (if restarts = 0 then 0
      else let factor = (case checked_shl 1 (restarts - 1) of Some x \<Rightarrow> x | None \<Rightarrow> u64_max)
           in min (saturating_mul (backoff_base_secs policy) factor) (backoff_cap_secs policy))"

section \<open>Folding outcomes into the status\<close>

type_synonym step_outcome = "string + unit"

definition exit_message :: "i32 option \<Rightarrow> string" where
  "exit_message code =
     (case code of
        Some c \<Rightarrow> ''exited with status '' @ int_digits (sint c)
      | None \<Rightarrow> ''exited (killed by signal)'')"

text \<open>The body of the \<open>NoteExit\<close> arm: \<open>restarts\<close> is a \<open>u32\<close>, so the increment wraps.\<close>

definition note_exit ::
  "i32 option \<Rightarrow> reconcile_policy \<Rightarrow> timestamp \<Rightarrow> agent_status \<Rightarrow> agent_status" where
  "note_exit code policy now a =
     (let restarts = st_restarts a + 1;
          a = a\<lparr>st_restarts := restarts, st_message := exit_message code\<rparr>
      in if restarts > max_restarts policy
         then a\<lparr>st_phase := Dead, st_next_restart_at := None,
                st_message := st_message a @ ''; gave up after ''
                  @ nat_digits (unat (max_restarts policy)) @ '' restarts''\<rparr>
         else a\<lparr>st_next_restart_at := Some (plus_secs now (backoff_secs policy restarts))\<rparr>)"

definition started :: "spec_hash \<Rightarrow> agent_status \<Rightarrow> agent_status" where
  "started hash a =
     (let a = (if st_applied_hash a \<noteq> Some hash then a\<lparr>st_restarts := 0\<rparr> else a)
      in a\<lparr>st_phase := Starting, st_applied_hash := Some hash, st_next_restart_at := None,
           st_message := []\<rparr>)"

fun apply_step ::
  "fleet_status \<Rightarrow> step \<Rightarrow> step_outcome \<Rightarrow> reconcile_policy \<Rightarrow> timestamp \<Rightarrow> fleet_status" where
  "apply_step s (Stop i) (Inr ()) policy now =
     s\<lparr>fs_agents := bt_get_mut (agent_id_display i)
         (\<lambda>a. a\<lparr>st_phase := Stopped, st_next_restart_at := None\<rparr>) (fs_agents s)\<rparr>"
| "apply_step s (RemoveAgent i) (Inr ()) policy now =
     s\<lparr>fs_agents := bt_remove (agent_id_display i) (fs_agents s)\<rparr>"
| "apply_step s (RemoveCrew c _) (Inr ()) policy now =
     s\<lparr>fs_agents := bt_retain (\<lambda>k. \<not> str_starts_with k (crew_ref_display c @ ''/'')) (fs_agents s)\<rparr>"
| "apply_step s (RemoveCrew c _) (Inl e) policy now =
     s\<lparr>fs_agents := bt_map_if (\<lambda>k. str_starts_with k (crew_ref_display c @ ''/''))
         (\<lambda>a. a\<lparr>st_message := e\<rparr>) (fs_agents s)\<rparr>"
| "apply_step s (EnsureCrew _) _ policy now = s"
| "apply_step s (Materialize i) (Inr ()) policy now =
     entry (agent_id_display i) (\<lambda>a. a\<lparr>st_phase := Materializing, st_message := []\<rparr>) s"
| "apply_step s (Start i hash) (Inr ()) policy now = entry (agent_id_display i) (started hash) s"
| "apply_step s (NoteExit i code) (Inr ()) policy now =
     entry (agent_id_display i) (note_exit code policy now) s"
| "apply_step s (Materialize i) (Inl e) policy now =
     entry (agent_id_display i) (\<lambda>a. a\<lparr>st_phase := Failed, st_message := e\<rparr>) s"
| "apply_step s (Start i _) (Inl e) policy now =
     entry (agent_id_display i) (\<lambda>a. a\<lparr>st_phase := Failed, st_message := e\<rparr>) s"
| "apply_step s (Stop i) (Inl e) policy now =
     entry (agent_id_display i) (\<lambda>a. a\<lparr>st_message := e\<rparr>) s"
| "apply_step s (RemoveAgent i) (Inl e) policy now =
     entry (agent_id_display i) (\<lambda>a. a\<lparr>st_message := e\<rparr>) s"
| "apply_step s (NoteExit i _) (Inl e) policy now =
     entry (agent_id_display i) (\<lambda>a. a\<lparr>st_message := e\<rparr>) s"

definition phases :: "fleet_status \<Rightarrow> agent_phase list" where
  "phases s = map (\<lambda>(_, a). st_phase a) (fs_agents s)"

definition derive_fleet_phase :: "fleet_status \<Rightarrow> bool \<Rightarrow> bool \<Rightarrow> fleet_phase" where
  "derive_fleet_phase s terminating all_ok =
     (if terminating then (if all_ok \<and> fs_agents s = [] then FleetDown else FleetTerminating)
      else if \<not> all_ok \<or> list_ex (\<lambda>p. p = Dead \<or> p = Failed) (phases s) then FleetDegraded
      else if list_ex (\<lambda>p. p = Pending \<or> p = Materializing \<or> p = Starting) (phases s)
        then FleetReconciling
      else if fs_agents s \<noteq> [] \<and> list_all (\<lambda>p. p = Ready \<or> p = Stopped) (phases s) then FleetReady
      else if fs_agents s = [] then FleetPending
      else FleetReconciling)"

definition agent_ready :: "fleet_status \<Rightarrow> agent_id \<Rightarrow> timestamp \<Rightarrow> fleet_status" where
  "agent_ready s i now =
     (if bt_contains (fs_agents s) (agent_id_display i)
      then let s = s\<lparr>fs_agents := bt_get_mut (agent_id_display i)
                 (\<lambda>a. a\<lparr>st_phase := Ready, st_restarts := 0, st_next_restart_at := None,
                        st_last_event_at := Some now, st_message := []\<rparr>) (fs_agents s)\<rparr>;
               terminating = (fs_phase s = FleetTerminating \<or> fs_phase s = FleetDown)
           in s\<lparr>fs_phase := derive_fleet_phase s terminating True\<rparr>
      else s)"

definition set_desired :: "fleet_status \<Rightarrow> u64 \<Rightarrow> fleet_status" where
  "set_desired s generation = s\<lparr>fs_generation := generation\<rparr>"

definition finish_pass :: "fleet_status \<Rightarrow> bool \<Rightarrow> bool \<Rightarrow> fleet_status" where
  "finish_pass s terminating all_ok =
     (let s = s\<lparr>fs_phase := derive_fleet_phase s terminating all_ok\<rparr>
      in if all_ok then s\<lparr>fs_observed_generation := fs_generation s\<rparr> else s)"

section \<open>The abstract status: one optional entry per agent\<close>

definition status_wf :: "fleet_status \<Rightarrow> bool" where
  "status_wf s = bt_wf (fs_agents s)"

definition status_of :: "fleet_status \<Rightarrow> agent_id \<Rightarrow> agent_status option" where
  "status_of s i = bt_get (fs_agents s) (agent_id_display i)"

definition touch :: "(agent_status \<Rightarrow> agent_status) \<Rightarrow> agent_status option \<Rightarrow> agent_status option" where
  "touch f x = Some (f (case x of None \<Rightarrow> default_agent_status | Some a \<Rightarrow> a))"

text \<open>What a step's outcome does to the entry of the agent (or of an agent of the crew) it names.\<close>

fun outcome_effect ::
  "step \<Rightarrow> step_outcome \<Rightarrow> reconcile_policy \<Rightarrow> timestamp \<Rightarrow> agent_status option
     \<Rightarrow> agent_status option" where
  "outcome_effect (Stop _) (Inr _) _ _ =
     map_option (\<lambda>a. a\<lparr>st_phase := Stopped, st_next_restart_at := None\<rparr>)"
| "outcome_effect (RemoveAgent _) (Inr _) _ _ = (\<lambda>_. None)"
| "outcome_effect (RemoveCrew _ _) (Inr _) _ _ = (\<lambda>_. None)"
| "outcome_effect (RemoveCrew _ _) (Inl e) _ _ = map_option (\<lambda>a. a\<lparr>st_message := e\<rparr>)"
| "outcome_effect (EnsureCrew _) _ _ _ = id"
| "outcome_effect (Materialize _) (Inr _) _ _ =
     touch (\<lambda>a. a\<lparr>st_phase := Materializing, st_message := []\<rparr>)"
| "outcome_effect (Start _ hash) (Inr _) _ _ = touch (started hash)"
| "outcome_effect (NoteExit _ code) (Inr _) policy now = touch (note_exit code policy now)"
| "outcome_effect (Materialize _) (Inl e) _ _ = touch (\<lambda>a. a\<lparr>st_phase := Failed, st_message := e\<rparr>)"
| "outcome_effect (Start _ _) (Inl e) _ _ = touch (\<lambda>a. a\<lparr>st_phase := Failed, st_message := e\<rparr>)"
| "outcome_effect (Stop _) (Inl e) _ _ = touch (\<lambda>a. a\<lparr>st_message := e\<rparr>)"
| "outcome_effect (RemoveAgent _) (Inl e) _ _ = touch (\<lambda>a. a\<lparr>st_message := e\<rparr>)"
| "outcome_effect (NoteExit _ _) (Inl e) _ _ = touch (\<lambda>a. a\<lparr>st_message := e\<rparr>)"

text \<open>The agents a step is about.\<close>

definition concerns :: "step \<Rightarrow> agent_id \<Rightarrow> bool" where
  "concerns st i =
     (case st of
        RemoveCrew c _ \<Rightarrow> crew_ref_of i = c
      | EnsureCrew c \<Rightarrow> crew_ref_of i = c
      | _ \<Rightarrow> step_agent_id st = Some i)"

fun step_ok :: "step \<Rightarrow> bool" where
  "step_ok (RemoveCrew c _) = crew_ref_ok c"
| "step_ok (EnsureCrew c) = crew_ref_ok c"
| "step_ok (Stop i) = agent_id_ok i"
| "step_ok (RemoveAgent i) = agent_id_ok i"
| "step_ok (Materialize i) = agent_id_ok i"
| "step_ok (Start i _) = agent_id_ok i"
| "step_ok (NoteExit i _) = agent_id_ok i"

lemma status_of_entry:
  assumes "agent_id_ok i" "agent_id_ok j"
  shows "status_of (entry (agent_id_display j) f s) i =
    (if i = j then touch f (status_of s i) else status_of s i)"
  using assms
  by (simp add: status_of_def entry_def touch_def agent_id_display_inj[OF assms])

lemma status_of_get_mut:
  assumes "agent_id_ok i" "agent_id_ok j"
  shows "status_of (s\<lparr>fs_agents := bt_get_mut (agent_id_display j) f (fs_agents s)\<rparr>) i =
    (if i = j then map_option f (status_of s i) else status_of s i)"
  using assms by (simp add: status_of_def agent_id_display_inj[OF assms])

lemma status_of_apply:
  assumes "agent_id_ok i" "step_ok st"
  shows "status_of (apply_step s st r policy now) i =
    (if concerns st i then outcome_effect st r policy now (status_of s i) else status_of s i)"
  using assms
  by (cases "(s, st, r, policy, now)" rule: apply_step.cases)
    (auto simp: concerns_def status_of_entry status_of_get_mut,
     auto simp: status_of_def agent_id_display_inj crew_prefix_exact)

lemma status_wf_entry [simp]: "status_wf s \<Longrightarrow> status_wf (entry k f s)"
  by (simp add: status_wf_def entry_def)

lemma status_wf_apply [simp]: "status_wf s \<Longrightarrow> status_wf (apply_step s st r policy now)"
  by (cases "(s, st, r, policy, now)" rule: apply_step.cases) (auto simp: status_wf_def entry_def)

lemma apply_step_meta [simp]:
  "fs_generation (apply_step s st r policy now) = fs_generation s"
  "fs_observed_generation (apply_step s st r policy now) = fs_observed_generation s"
  "fs_phase (apply_step s st r policy now) = fs_phase s"
  by (cases "(s, st, r, policy, now)" rule: apply_step.cases; simp add: entry_def)+

text \<open>
  The interface the reconciler's clients use of a status: a run of updates seen at one agent is
  the run of that agent's own effects, whatever else the updates do.
\<close>

locale pointwise_updates =
  fixes upd :: "'x \<Rightarrow> 's \<Rightarrow> 's"
    and view :: "'s \<Rightarrow> 'i \<Rightarrow> 'v"
    and about :: "'x \<Rightarrow> 'i \<Rightarrow> bool"
    and eff :: "'x \<Rightarrow> 'v \<Rightarrow> 'v"
    and good :: "'x \<Rightarrow> bool"
    and valid :: "'i \<Rightarrow> bool"
  assumes view_upd: "good x \<Longrightarrow> valid i \<Longrightarrow>
    view (upd x s) i = (if about x i then eff x (view s i) else view s i)"
begin

lemma view_fold:
  "list_all good xs \<Longrightarrow> valid i \<Longrightarrow>
     view (fold upd xs s) i = fold eff (filter (\<lambda>x. about x i) xs) (view s i)"
  by (induction xs arbitrary: s) (auto simp: view_upd)

lemma view_fold_unrelated:
  "list_all good xs \<Longrightarrow> valid i \<Longrightarrow> list_all (\<lambda>x. \<not> about x i) xs \<Longrightarrow>
     view (fold upd xs s) i = view s i"
  by (simp add: view_fold list_all_iff)

lemma view_upd_swap:
  assumes "good x" "good y" "valid i" "\<not> (about x i \<and> about y i)"
  shows "view (upd x (upd y s)) i = view (upd y (upd x s)) i"
  using assms by (auto simp: view_upd)

end

text \<open>
  A change of the status: a step's outcome folded in by \<open>apply\<close>, or a message written over or
  appended to one agent's entry, as the executor does for the steps it skips.
\<close>

datatype change =
    Outcome step step_outcome timestamp
  | Message agent_id string
  | Note agent_id string

fun change_status :: "reconcile_policy \<Rightarrow> change \<Rightarrow> fleet_status \<Rightarrow> fleet_status" where
  "change_status policy (Outcome st r now) s = apply_step s st r policy now"
| "change_status policy (Message i m) s =
     entry (agent_id_display i) (\<lambda>a. a\<lparr>st_message := m\<rparr>) s"
| "change_status policy (Note i m) s =
     entry (agent_id_display i) (\<lambda>a. a\<lparr>st_message := st_message a @ m\<rparr>) s"

fun change_effect :: "reconcile_policy \<Rightarrow> change \<Rightarrow> agent_status option \<Rightarrow> agent_status option" where
  "change_effect policy (Outcome st r now) = outcome_effect st r policy now"
| "change_effect policy (Message i m) = touch (\<lambda>a. a\<lparr>st_message := m\<rparr>)"
| "change_effect policy (Note i m) = touch (\<lambda>a. a\<lparr>st_message := st_message a @ m\<rparr>)"

fun change_about :: "change \<Rightarrow> agent_id \<Rightarrow> bool" where
  "change_about (Outcome st r now) i = concerns st i"
| "change_about (Message j m) i = (i = j)"
| "change_about (Note j m) i = (i = j)"

fun change_ok :: "change \<Rightarrow> bool" where
  "change_ok (Outcome st r now) = step_ok st"
| "change_ok (Message i m) = agent_id_ok i"
| "change_ok (Note i m) = agent_id_ok i"

interpretation changes: pointwise_updates
  "change_status policy" status_of change_about "change_effect policy" change_ok agent_id_ok
  for policy
proof unfold_locales
  fix x i s
  assume "change_ok x" "agent_id_ok i"
  then show "status_of (change_status policy x s) i =
      (if change_about x i then change_effect policy x (status_of s i) else status_of s i)"
    by (cases x) (auto simp: status_of_apply status_of_entry)
qed

lemma status_wf_change [simp]: "status_wf s \<Longrightarrow> status_wf (change_status policy x s)"
  by (cases x) auto

section \<open>Properties\<close>

lemma unat_min_word: "unat (min a b :: 'a::len word) = min (unat a) (unat b)"
  by (simp add: min_def word_le_nat_alt)

lemma unat_less_power_64: "unat (a :: u64) < 2 ^ 64"
  using unsigned_less[of a] by simp

lemma unat_less_power_32: "unat (a :: u32) < 2 ^ 32"
  using unsigned_less[of a] by simp

lemma unat_pred: "r \<noteq> 0 \<Longrightarrow> unat (r - 1 :: 'a::len word) = unat r - 1"
  by (simp add: unat_minus_one)

text \<open>
  C14. The restart backoff is exact over machine arithmetic: the shift that may fail, the
  saturating product and the cap together give base times two to the restart number, capped, with
  no wrap-around for any policy and any 32-bit restart count.
\<close>

theorem backoff_exact:
  "unat (backoff_secs policy r) =
     (if r = 0 then 0
      else min (unat (backoff_base_secs policy) * 2 ^ (unat r - 1)) (unat (backoff_cap_secs policy)))"
proof (cases "r = 0")
  case False
  let ?b = "unat (backoff_base_secs policy)"
  have cap: "unat (backoff_cap_secs policy) \<le> 2 ^ 64 - 1"
    using unat_less_power_64[of "backoff_cap_secs policy"] by simp
  show ?thesis
  proof (cases "unat r - 1 < 64")
    case True
    then have "unat (backoff_secs policy r) =
        min (min (?b * 2 ^ (unat r - 1)) (2 ^ 64 - 1)) (unat (backoff_cap_secs policy))"
      using False unat_shl_one[OF True]
      by (simp add: backoff_secs_def checked_shl_def unat_pred unat_min_word unat_saturating_mul)
    then show ?thesis using False cap by simp
  next
    case big: False
    then have eq: "unat (backoff_secs policy r) =
        min (min (?b * (2 ^ 64 - 1)) (2 ^ 64 - 1)) (unat (backoff_cap_secs policy))"
      using False
      by (simp add: backoff_secs_def checked_shl_def unat_pred unat_min_word unat_saturating_mul
          unat_u64_max)
    have "(2::nat) ^ 64 \<le> 2 ^ (unat r - 1)" using big by (intro power_increasing) auto
    then have "?b = 0 \<or> (1 \<le> ?b \<and> 2 ^ 64 \<le> ?b * 2 ^ (unat r - 1))"
      by (metis One_nat_def Suc_leI mult_le_mono nat_mult_1 neq0_conv)
    then show ?thesis
    proof
      assume b: "1 \<le> ?b \<and> 2 ^ 64 \<le> ?b * 2 ^ (unat r - 1)"
      then have "2 ^ 64 - 1 \<le> ?b * (2 ^ 64 - 1)" by simp
      then show ?thesis using False eq cap b by simp
    qed (use False eq in simp)
  qed
qed (simp add: backoff_secs_def)

text \<open>
  Folding a step's outcome into the string-keyed status refines the per-agent specification:
  the entry of every valid agent id changes exactly when the step concerns that agent (its own
  step, or one of its crew), by the step's documented effect, and the key order is kept. In
  particular the prefix test of a crew removal never reaches an agent of another crew.
\<close>

theorem apply_refines_agent_effects:
  assumes "status_wf s" "agent_id_ok i" "step_ok st"
  shows "status_wf (apply_step s st r policy now)
    \<and> status_of (apply_step s st r policy now) i =
        (if concerns st i then outcome_effect st r policy now (status_of s i) else status_of s i)"
  using assms status_of_apply by simp

theorem apply_refines_agent_effects_witness:
  "status_of (apply_step
      (entry ''f/c/a'' id (entry ''f/cd/a'' id default_fleet_status))
      (RemoveCrew (CrewRef ''f'' ''c'') \<lparr>keep_repos = False, keep_sessions = False\<rparr>) (Inr ())
      default_policy 7) (AgentId ''f'' ''cd'' ''a'') = Some default_agent_status"
proof -
  have "status_wf (entry ''f/c/a'' id (entry ''f/cd/a'' id default_fleet_status))"
    by (simp add: status_wf_def default_fleet_status_def entry_def)
  moreover have "agent_id_ok (AgentId ''f'' ''cd'' ''a'')" by code_simp
  moreover have "step_ok (RemoveCrew (CrewRef ''f'' ''c'') \<lparr>keep_repos = False, keep_sessions = False\<rparr>)"
    by code_simp
  ultimately show ?thesis
    using apply_refines_agent_effects[of "entry ''f/c/a'' id (entry ''f/cd/a'' id default_fleet_status)"
        "AgentId ''f'' ''cd'' ''a''"
        "RemoveCrew (CrewRef ''f'' ''c'') \<lparr>keep_repos = False, keep_sessions = False\<rparr>"
        "Inr ()" default_policy 7]
    by (simp add: concerns_def crew_ref_of_def status_of_def agent_id_display_def entry_def
        default_fleet_status_def)
qed

text \<open>
  The phase a pass leaves on a fleet: \<open>Down\<close> exactly after a clean terminating pass with no
  agent recorded, \<open>Ready\<close> exactly after a clean pass with every recorded agent ready or held
  stopped and at least one recorded, \<open>Degraded\<close> exactly when the pass was not clean or an agent is
  dead or failed; and the observed generation advances to the desired one exactly on clean passes.
\<close>

theorem pass_phase:
  "(fs_phase (finish_pass s t ok) = FleetDown \<longleftrightarrow> t \<and> ok \<and> fs_agents s = [])
   \<and> (fs_phase (finish_pass s t ok) = FleetReady \<longleftrightarrow>
        \<not> t \<and> ok \<and> phases s \<noteq> [] \<and> set (phases s) \<subseteq> {Ready, Stopped})
   \<and> (fs_phase (finish_pass s t ok) = FleetDegraded \<longleftrightarrow>
        \<not> t \<and> \<not> (ok \<and> Dead \<notin> set (phases s) \<and> Failed \<notin> set (phases s)))
   \<and> fs_observed_generation (finish_pass s t ok) =
        (if ok then fs_generation s else fs_observed_generation s)
   \<and> fs_agents (finish_pass s t ok) = fs_agents s"
proof -
  have "phases s = [] \<longleftrightarrow> fs_agents s = []" by (simp add: phases_def)
  then show ?thesis
    by (auto simp: finish_pass_def derive_fleet_phase_def Let_def list_ex_iff list_all_iff)
qed

text \<open>
  A ready signal changes the named agent's entry only, and only if there is one; it resets
  the restart count and the pending restart, and never reports a fleet \<open>Down\<close>: a fleet that is
  going down stays \<open>Terminating\<close>, since the signalling agent is still recorded.
\<close>

theorem agent_ready_effect:
  assumes "agent_id_ok i" "agent_id_ok j"
  shows "status_of (agent_ready s j now) i =
      (if i = j then map_option (\<lambda>a. a\<lparr>st_phase := Ready, st_restarts := 0,
          st_next_restart_at := None, st_last_event_at := Some now, st_message := []\<rparr>) (status_of s i)
       else status_of s i)
    \<and> (status_of s j \<noteq> None \<longrightarrow> fs_phase (agent_ready s j now) \<noteq> FleetDown
         \<and> (fs_phase (agent_ready s j now) = FleetTerminating \<longleftrightarrow>
              fs_phase s = FleetTerminating \<or> fs_phase s = FleetDown))"
proof (cases "status_of s j")
  case None
  then show ?thesis by (auto simp: agent_ready_def bt_contains_def status_of_def)
next
  case (Some a)
  have ne: "bt_get_mut k f m \<noteq> []" if "bt_get m k \<noteq> None" for k f and m :: "(string, agent_status) btree"
    using that bt_get_get_mut[of k f m k] by (cases "bt_get_mut k f m") auto
  show ?thesis
    using Some ne agent_id_display_inj[OF assms]
    by (simp add: agent_ready_def bt_contains_def status_of_def derive_fleet_phase_def Let_def)
qed

theorem agent_ready_effect_witness:
  "fs_phase (agent_ready
      ((entry ''f/c/a'' id default_fleet_status)\<lparr>fs_phase := FleetTerminating\<rparr>)
      (AgentId ''f'' ''c'' ''a'') 9) = FleetTerminating"
proof -
  have ok: "agent_id_ok (AgentId ''f'' ''c'' ''a'')" by code_simp
  show ?thesis
    using agent_ready_effect[OF ok ok,
        of "(entry ''f/c/a'' id default_fleet_status)\<lparr>fs_phase := FleetTerminating\<rparr>" 9]
    by (simp add: status_of_def agent_id_display_def entry_def)
qed

end
