(* ===== verification/Reconcile.thy ===== *)
theory Reconcile
  imports Status
begin

text \<open>
  The planner (crates/balerix-core/src/reconcile/mod.rs, \<open>plan\<close>) with the observed state it
  reads (crates/balerix-core/src/ports.rs). The spec hash is computed through the digest
  parameter of the fleet theory. The abstract specification is the decision table of the
  function's documentation, one agent at a time; the lemmas show that the plan restricted to an
  agent is its table entry, the order of the step kinds, which crews are ensured and removed, and
  that under repeated passes an agent's restart count stays bounded.
\<close>

section \<open>What the runner reports\<close>

datatype process_state = Running u32 | Exited "i32 option"

record observed_state =
  obs_crews :: "(crew_name, (agent_name, process_state) btree) btree"

definition observed_get :: "observed_state \<Rightarrow> agent_id \<Rightarrow> process_state option" where
  "observed_get ob i =
     (case bt_get (obs_crews ob) (crew_of i) of None \<Rightarrow> None | Some m \<Rightarrow> bt_get m (agent_of i))"

definition observed_set :: "agent_id \<Rightarrow> process_state \<Rightarrow> observed_state \<Rightarrow> observed_state" where
  "observed_set i p ob =
     ob\<lparr>obs_crews := bt_entry (crew_of i) [] (bt_insert (agent_of i) p) (obs_crews ob)\<rparr>"

definition observed_remove :: "agent_id \<Rightarrow> observed_state \<Rightarrow> observed_state" where
  "observed_remove i ob =
     ob\<lparr>obs_crews := bt_get_mut (crew_of i) (bt_remove (agent_of i)) (obs_crews ob)\<rparr>"

definition agent_ids :: "observed_state \<Rightarrow> fleet_name \<Rightarrow> agent_id list" where
  "agent_ids ob fleet =
     concat (map (\<lambda>(crew, agents). map (AgentId fleet crew) (bt_keys agents)) (obs_crews ob))"

section \<open>The planner\<close>

type_synonym plan = "step list"

definition desired_agents_of :: "fleet option \<Rightarrow> (agent_id, resolved_agent) btree" where
  "desired_agents_of desired =
     (case desired of
        None \<Rightarrow> []
      | Some f \<Rightarrow> bt_collect (map (\<lambda>a. (ra_id a, a)) (from_fleet f)))"

definition known_agents_of :: "fleet_name \<Rightarrow> fleet_status \<Rightarrow> observed_state \<Rightarrow> agent_id list" where
  "known_agents_of fleet s ob =
     bs_collect (List.map_filter (\<lambda>k. case agent_id_parse k of Inr i \<Rightarrow> Some i | Inl _ \<Rightarrow> None)
                   (bt_keys (fs_agents s)) @ agent_ids ob fleet)"

text \<open>
  One iteration of the loop over the desired agents: the steps it pushes on \<open>stops\<close> and the
  steps it pushes on \<open>agent_steps\<close>.
\<close>

definition plan_desired ::
  "(hash_input \<Rightarrow> spec_hash) \<Rightarrow> agent_id list \<Rightarrow> fleet_status \<Rightarrow> observed_state \<Rightarrow> timestamp
     \<Rightarrow> agent_id \<times> resolved_agent \<Rightarrow> step list \<times> step list" where
  "plan_desired digest stopped s ob now kv =
     (let i = fst kv; st = bt_get (fs_agents s) (agent_id_display i)
      in if i \<in> set stopped
         then let unsettled = (case st of Some a \<Rightarrow> st_phase a \<noteq> Stopped | None \<Rightarrow> False)
              in if observed_get ob i \<noteq> None \<or> unsettled then ([Stop i], []) else ([], [])
         else let hash = agent_hash digest (snd kv);
                  changed = (Option.bind st st_applied_hash \<noteq> Some hash);
                  dead = (case st of Some a \<Rightarrow> st_phase a = Dead | None \<Rightarrow> False);
                  restart = [Materialize i, Start i hash]
              in case observed_get ob i of
                   Some (Running _) \<Rightarrow> if \<not> changed then ([], []) else ([Stop i], restart)
                 | Some (Exited code) \<Rightarrow>
                     if changed then ([], restart)
                     else if dead then ([], [])
                     else (case Option.bind st st_next_restart_at of
                             None \<Rightarrow> ([], [NoteExit i code])
                           | Some due \<Rightarrow> if due \<le> now then ([], restart) else ([], []))
                 | None \<Rightarrow> if \<not> (dead \<and> \<not> changed) then ([], restart) else ([], []))"

text \<open>The policy argument of the source's \<open>plan\<close> is unused there and left out.\<close>

definition plan ::
  "(hash_input \<Rightarrow> spec_hash) \<Rightarrow> fleet_name \<Rightarrow> fleet option \<Rightarrow> keep \<Rightarrow> agent_id list \<Rightarrow> fleet_status
     \<Rightarrow> observed_state \<Rightarrow> timestamp \<Rightarrow> plan" where
  "plan digest fleet desired keep stopped s ob now =
     (let desired_agents = desired_agents_of desired;
          desired_crews = bs_collect (map crew_ref_of (bt_keys desired_agents));
          known_agents = known_agents_of fleet s ob;
          known_crews = bs_collect (map crew_ref_of known_agents
                          @ map (CrewRef fleet) (bt_keys (obs_crews ob)));
          gone = filter (\<lambda>i. \<not> bt_contains desired_agents i) known_agents;
          stops = map Stop (filter (\<lambda>i. observed_get ob i \<noteq> None) gone);
          remove_agents = (if desired \<noteq> None then map RemoveAgent gone else []);
          remove_crews = map (\<lambda>c. RemoveCrew c keep)
                           (filter (\<lambda>c. c \<notin> set desired_crews) known_crews);
          ensures = map EnsureCrew desired_crews;
          pushes = map (plan_desired digest stopped s ob now) desired_agents;
          stops = stops @ concat (map fst pushes);
          agent_steps = concat (map snd pushes);
          stops = sort_key step_agent_id stops
      in stops @ remove_agents @ remove_crews @ ensures @ agent_steps)"

section \<open>The abstract decision table\<close>

definition known :: "fleet_name \<Rightarrow> fleet_status \<Rightarrow> observed_state \<Rightarrow> agent_id \<Rightarrow> bool" where
  "known fleet s ob i =
     (status_of s i \<noteq> None \<or> (fleet_of i = fleet \<and> observed_get ob i \<noteq> None))"

definition unchanged :: "spec_hash \<Rightarrow> agent_status option \<Rightarrow> bool" where
  "unchanged h st = (case st of Some a \<Rightarrow> st_applied_hash a = Some h | None \<Rightarrow> False)"

definition is_dead :: "agent_status option \<Rightarrow> bool" where
  "is_dead st = (case st of Some a \<Rightarrow> st_phase a = Dead | None \<Rightarrow> False)"

text \<open>The documented table for a desired agent that is not held stopped.\<close>

fun decision ::
  "agent_id \<Rightarrow> spec_hash \<Rightarrow> agent_status option \<Rightarrow> process_state option \<Rightarrow> timestamp \<Rightarrow> step list" where
  "decision i h st (Some (Running _)) now =
     (if unchanged h st then [] else [Stop i, Materialize i, Start i h])"
| "decision i h st (Some (Exited code)) now =
     (if \<not> unchanged h st then [Materialize i, Start i h]
      else if is_dead st then []
      else case Option.bind st st_next_restart_at of
             None \<Rightarrow> [NoteExit i code]
           | Some due \<Rightarrow> if due \<le> now then [Materialize i, Start i h] else [])"
| "decision i h st None now =
     (if is_dead st \<and> unchanged h st then [] else [Materialize i, Start i h])"

text \<open>The documented rows for an agent held stopped and for one no longer desired.\<close>

definition stopped_decision :: "agent_id \<Rightarrow> agent_status option \<Rightarrow> process_state option \<Rightarrow> step list" where
  "stopped_decision i st p =
     (if p \<noteq> None \<or> (case st of Some a \<Rightarrow> st_phase a \<noteq> Stopped | None \<Rightarrow> False) then [Stop i] else [])"

definition gone_decision :: "bool \<Rightarrow> agent_id \<Rightarrow> process_state option \<Rightarrow> step list" where
  "gone_decision up i p =
     (if p \<noteq> None then [Stop i] else []) @ (if up then [RemoveAgent i] else [])"

definition observed_wf :: "observed_state \<Rightarrow> bool" where
  "observed_wf ob = (bt_wf (obs_crews ob) \<and> list_all (\<lambda>(_, m). bt_wf m) (obs_crews ob))"

section \<open>Lemmas on the ingredients\<close>

lemma unchanged_iff: "unchanged h st \<longleftrightarrow> (\<exists>a. st = Some a \<and> st_applied_hash a = Some h)"
  by (simp add: unchanged_def split: option.split)

lemma is_dead_iff: "is_dead st \<longleftrightarrow> (\<exists>a. st = Some a \<and> st_phase a = Dead)"
  by (simp add: is_dead_def split: option.split)

lemma stopped_decision_iff:
  "stopped_decision i st p =
     (if p \<noteq> None \<or> (\<exists>a. st = Some a \<and> st_phase a \<noteq> Stopped) then [Stop i] else [])"
  by (simp add: stopped_decision_def split: option.split)

lemma agent_ids_mem:
  assumes "observed_wf ob"
  shows "i \<in> set (agent_ids ob fleet) \<longleftrightarrow> fleet_of i = fleet \<and> observed_get ob i \<noteq> None"
proof -
  have "i \<in> set (agent_ids ob fleet) \<longleftrightarrow>
      fleet_of i = fleet \<and> (\<exists>m. (crew_of i, m) \<in> set (obs_crews ob) \<and> bt_get m (agent_of i) \<noteq> None)"
    by (cases i) (force simp: agent_ids_def)
  also have "\<dots> \<longleftrightarrow> fleet_of i = fleet \<and> observed_get ob i \<noteq> None"
    using assms
    by (auto simp: observed_get_def observed_wf_def bt_get_iff[symmetric] split: option.splits)
  finally show ?thesis .
qed

lemma set_map_filter_Some: "set (List.map_filter f xs) = {y. \<exists>x \<in> set xs. f x = Some y}"
  by (induction xs) (auto simp: map_filter_simps split: option.splits)

lemma parsed_keys:
  "set (List.map_filter (\<lambda>k. case agent_id_parse k of Inr i \<Rightarrow> Some i | Inl _ \<Rightarrow> None) ks)
     = {i. agent_id_ok i \<and> agent_id_display i \<in> set ks}"
proof -
  have "(case agent_id_parse k of Inr i \<Rightarrow> Some i | Inl _ \<Rightarrow> None) = Some i \<longleftrightarrow>
      agent_id_parse k = Inr i" for k i
    by (cases "agent_id_parse k") (simp_all del: agent_id_parse_Inr)
  then show ?thesis by (auto simp: set_map_filter_Some)
qed

lemma known_agents_mem:
  assumes "agent_id_ok i" "observed_wf ob"
  shows "i \<in> set (known_agents_of fleet s ob) \<longleftrightarrow> known fleet s ob i"
  using assms
  by (simp add: known_agents_of_def known_def status_of_def parsed_keys agent_ids_mem)

lemma known_agents_distinct [simp]: "distinct (known_agents_of fleet s ob)"
  by (simp add: known_agents_of_def)

lemma desired_agents_distinct: "distinct (map fst (desired_agents_of desired))"
  by (simp add: desired_agents_of_def bt_wf_distinct split: option.split)

text \<open>
  Selecting the steps about one key from steps produced entry by entry gives what that key's
  entry produced.
\<close>

lemma filter_concat_key:
  assumes "distinct (map fst m)"
    and "\<And>e x. e \<in> set m \<Longrightarrow> x \<in> set (g e) \<Longrightarrow> key x = Some (fst e)"
  shows "filter (\<lambda>x. key x = Some i) (concat (map g m)) =
    (case map_of m i of None \<Rightarrow> [] | Some v \<Rightarrow> g (i, v))"
  using assms
proof (induction m)
  case (Cons e m)
  have tl: "filter (\<lambda>x. key x = Some i) (concat (map g m)) =
      (case map_of m i of None \<Rightarrow> [] | Some v \<Rightarrow> g (i, v))"
    using Cons by simp
  have hd: "filter (\<lambda>x. key x = Some i) (g e) = (if i = fst e then g e else [])"
    using Cons.prems(2)[of e] by (auto simp: filter_empty_conv filter_id_conv)
  show ?case
  proof (cases "i = fst e")
    case True
    then have "map_of m i = None" using Cons.prems(1) by (simp add: map_of_eq_None_iff)
    then show ?thesis using True hd tl by (cases e) simp
  next
    case False
    then show ?thesis using hd tl by (cases e) simp
  qed
qed simp

lemma filter_map_key:
  assumes "distinct xs" "\<And>x. key (mk x) = Some x"
  shows "filter (\<lambda>x. key x = Some i) (map mk xs) = (if i \<in> set xs then [mk i] else [])"
  using assms(1) by (induction xs) (auto simp: assms(2))

lemma plan_desired_key:
  "x \<in> set (fst (plan_desired digest stopped s ob now e)) \<Longrightarrow> x = Stop (fst e)"
  "x \<in> set (snd (plan_desired digest stopped s ob now e)) \<Longrightarrow>
     step_agent_id x = Some (fst e) \<and> (x = Materialize (fst e) \<or> (\<exists>h. x = Start (fst e) h)
       \<or> (\<exists>c. x = NoteExit (fst e) c))"
  by (auto simp: plan_desired_def Let_def split: if_splits option.splits process_state.splits)

lemma plan_desired_decision:
  "fst (plan_desired digest stopped s ob now (i, a)) @ snd (plan_desired digest stopped s ob now (i, a)) =
     (if i \<in> set stopped then stopped_decision i (status_of s i) (observed_get ob i)
      else decision i (agent_hash digest a) (status_of s i) (observed_get ob i) now)"
proof (cases "i \<in> set stopped")
  case True
  then show ?thesis
    by (auto simp: plan_desired_def Let_def stopped_decision_iff status_of_def split: option.splits)
next
  case False
  have "unchanged h st \<longleftrightarrow> Option.bind st st_applied_hash = Some h" for h st
    by (cases st) (auto simp: unchanged_iff)
  moreover have "is_dead st \<longleftrightarrow> (case st of Some a \<Rightarrow> st_phase a = Dead | None \<Rightarrow> False)" for st
    by (cases st) (auto simp: is_dead_iff)
  ultimately show ?thesis
    using False
    by (cases "observed_get ob i"; cases "the (observed_get ob i)")
      (auto simp: plan_desired_def Let_def status_of_def split: option.splits)
qed

definition agent_decision ::
  "(hash_input \<Rightarrow> spec_hash) \<Rightarrow> fleet_name \<Rightarrow> fleet option \<Rightarrow> agent_id list \<Rightarrow> fleet_status
     \<Rightarrow> observed_state \<Rightarrow> timestamp \<Rightarrow> agent_id \<Rightarrow> step list" where
  "agent_decision digest fleet desired stopped s ob now i =
     (case bt_get (desired_agents_of desired) i of
        Some a \<Rightarrow>
          if i \<in> set stopped then stopped_decision i (status_of s i) (observed_get ob i)
          else decision i (agent_hash digest a) (status_of s i) (observed_get ob i) now
      | None \<Rightarrow>
          if known fleet s ob i then gone_decision (desired \<noteq> None) i (observed_get ob i) else [])"

lemma sort_key_short: "length xs \<le> 1 \<Longrightarrow> sort_key f xs = xs"
  by (cases xs; cases "tl xs") auto

definition gone_agents :: "fleet_name \<Rightarrow> fleet option \<Rightarrow> fleet_status \<Rightarrow> observed_state \<Rightarrow> agent_id list" where
  "gone_agents fleet desired s ob =
     filter (\<lambda>i. \<not> bt_contains (desired_agents_of desired) i) (known_agents_of fleet s ob)"

definition desired_crews_of :: "fleet option \<Rightarrow> crew_ref list" where
  "desired_crews_of desired = bs_collect (map crew_ref_of (bt_keys (desired_agents_of desired)))"

definition known_crews_of :: "fleet_name \<Rightarrow> fleet_status \<Rightarrow> observed_state \<Rightarrow> crew_ref list" where
  "known_crews_of fleet s ob =
     bs_collect (map crew_ref_of (known_agents_of fleet s ob)
       @ map (CrewRef fleet) (bt_keys (obs_crews ob)))"

lemma plan_parts:
  "plan digest fleet desired keep stopped s ob now =
     sort_key step_agent_id
       (map Stop (filter (\<lambda>i. observed_get ob i \<noteq> None) (gone_agents fleet desired s ob))
        @ concat (map (fst \<circ> plan_desired digest stopped s ob now) (desired_agents_of desired)))
     @ (if desired \<noteq> None then map RemoveAgent (gone_agents fleet desired s ob) else [])
     @ map (\<lambda>c. RemoveCrew c keep)
         (filter (\<lambda>c. c \<notin> set (desired_crews_of desired)) (known_crews_of fleet s ob))
     @ map EnsureCrew (desired_crews_of desired)
     @ concat (map (snd \<circ> plan_desired digest stopped s ob now) (desired_agents_of desired))"
  by (simp only: plan_def Let_def gone_agents_def desired_crews_of_def known_crews_of_def map_map)

lemma plan_at_agent:
  assumes "observed_wf ob" "agent_id_ok i"
  shows "filter (\<lambda>x. step_agent_id x = Some i) (plan digest fleet desired keep stopped s ob now)
    = agent_decision digest fleet desired stopped s ob now i"
proof -
  let ?about = "\<lambda>x. step_agent_id x = Some i"
  let ?m = "desired_agents_of desired"
  let ?gone = "gone_agents fleet desired s ob"
  let ?push = "plan_desired digest stopped s ob now"
  let ?stops = "map Stop (filter (\<lambda>i. observed_get ob i \<noteq> None) ?gone)"
  have pushed: "filter ?about (concat (map (fst \<circ> ?push) ?m)) =
      (case map_of ?m i of None \<Rightarrow> [] | Some v \<Rightarrow> (fst \<circ> ?push) (i, v))"
      "filter ?about (concat (map (snd \<circ> ?push) ?m)) =
      (case map_of ?m i of None \<Rightarrow> [] | Some v \<Rightarrow> (snd \<circ> ?push) (i, v))"
    by (rule filter_concat_key[OF desired_agents_distinct], use plan_desired_key in fastforce)+
  have gone: "filter ?about ?stops = (if i \<in> set ?gone \<and> observed_get ob i \<noteq> None then [Stop i] else [])"
      "filter ?about (map RemoveAgent ?gone) = (if i \<in> set ?gone then [RemoveAgent i] else [])"
    by (subst filter_map_key; simp add: gone_agents_def)+
  have mem: "i \<in> set ?gone \<longleftrightarrow> map_of ?m i = None \<and> known fleet s ob i"
    using known_agents_mem[OF assms(2,1)] by (auto simp: gone_agents_def bt_contains_def bt_get_def)
  have stops: "filter ?about (sort_key step_agent_id (?stops @ concat (map (fst \<circ> ?push) ?m))) =
      filter ?about ?stops @ filter ?about (concat (map (fst \<circ> ?push) ?m))"
  proof -
    have "length (fst (?push (i, v))) \<le> 1" for v
      by (simp add: plan_desired_def Let_def split: option.split process_state.split)
    then have "length (filter ?about ?stops @ filter ?about (concat (map (fst \<circ> ?push) ?m))) \<le> 1"
      unfolding gone pushed mem by (auto split: option.split)
    then show ?thesis unfolding filter_sort filter_append by (rule sort_key_short)
  qed
  have eq: "filter ?about (plan digest fleet desired keep stopped s ob now) =
      (filter ?about ?stops @ filter ?about (concat (map (fst \<circ> ?push) ?m)))
      @ (if desired \<noteq> None then filter ?about (map RemoveAgent ?gone) else [])
      @ filter ?about (concat (map (snd \<circ> ?push) ?m))"
    unfolding plan_parts filter_append stops by (simp add: filter_empty_conv)
  show ?thesis
    unfolding eq gone pushed mem
    using plan_desired_decision[of digest stopped s ob now i]
    by (auto simp: agent_decision_def bt_get_def gone_decision_def split: option.split)
qed

section \<open>The order of a plan and its crews\<close>

fun step_rank :: "step \<Rightarrow> nat" where
  "step_rank (Stop _) = 0"
| "step_rank (RemoveAgent _) = 1"
| "step_rank (RemoveCrew _ _) = 2"
| "step_rank (EnsureCrew _) = 3"
| "step_rank (Materialize _) = 4"
| "step_rank (Start _ _) = 4"
| "step_rank (NoteExit _ _) = 4"

definition known_crew :: "fleet_name \<Rightarrow> fleet_status \<Rightarrow> observed_state \<Rightarrow> crew_ref \<Rightarrow> bool" where
  "known_crew fleet s ob c =
     (c \<in> crew_ref_of ` set (known_agents_of fleet s ob)
      \<or> (cr_fleet c = fleet \<and> bt_get (obs_crews ob) (cr_crew c) \<noteq> None))"

definition desired_crew :: "fleet option \<Rightarrow> crew_ref \<Rightarrow> bool" where
  "desired_crew desired c = (\<exists>i. bt_get (desired_agents_of desired) i \<noteq> None \<and> crew_ref_of i = c)"

lemma desired_crews_set: "set (desired_crews_of desired) = {c. desired_crew desired c}"
  by (auto simp: desired_crews_of_def desired_crew_def)

lemma known_crews_set: "set (known_crews_of fleet s ob) = {c. known_crew fleet s ob c}"
proof -
  have "c \<in> CrewRef fleet ` {k. bt_get (obs_crews ob) k \<noteq> None} \<longleftrightarrow>
      cr_fleet c = fleet \<and> bt_get (obs_crews ob) (cr_crew c) \<noteq> None" for c
    by (cases c) auto
  then show ?thesis by (auto simp: known_crews_of_def known_crew_def simp del: bt_get_Nil)
qed

lemma plan_stop_ranks:
  "x \<in> set (concat (map (fst \<circ> plan_desired digest stopped s ob now) m)) \<Longrightarrow> step_rank x = 0"
  "x \<in> set (concat (map (snd \<circ> plan_desired digest stopped s ob now) m)) \<Longrightarrow> step_rank x = 4"
  using plan_desired_key by fastforce+

lemma sorted_const: "(\<And>x. x \<in> set xs \<Longrightarrow> f x = c) \<Longrightarrow> sorted (map f xs)"
  by (induction xs) auto

lemma plan_ranks_sorted: "sorted (map step_rank (plan digest fleet desired keep stopped s ob now))"
  unfolding plan_parts map_append sorted_append
  using plan_stop_ranks[of _ digest stopped s ob now "desired_agents_of desired"]
  by (fastforce intro!: sorted_const)

lemma filter_rank_parts:
  assumes "\<And>x. x \<in> set xs \<Longrightarrow> step_rank x = r'"
  shows "filter (\<lambda>x. step_rank x = r) xs = (if r = r' then xs else [])"
  using assms by (auto simp: filter_empty_conv filter_id_conv)

lemma plan_of_rank:
  "filter (\<lambda>x. step_rank x = 0) (plan digest fleet desired keep stopped s ob now) =
     sort_key step_agent_id
       (map Stop (filter (\<lambda>i. observed_get ob i \<noteq> None) (gone_agents fleet desired s ob))
        @ concat (map (fst \<circ> plan_desired digest stopped s ob now) (desired_agents_of desired)))"
  "filter (\<lambda>x. step_rank x = 4) (plan digest fleet desired keep stopped s ob now) =
     concat (map (snd \<circ> plan_desired digest stopped s ob now) (desired_agents_of desired))"
proof -
  let ?stops = "sort_key step_agent_id
       (map Stop (filter (\<lambda>i. observed_get ob i \<noteq> None) (gone_agents fleet desired s ob))
        @ concat (map (fst \<circ> plan_desired digest stopped s ob now) (desired_agents_of desired)))"
  let ?steps = "concat (map (snd \<circ> plan_desired digest stopped s ob now) (desired_agents_of desired))"
  have "step_rank x = 0" if "x \<in> set ?stops" for x
    using that plan_stop_ranks(1)[of x digest stopped s ob now "desired_agents_of desired"] by auto
  then have stops: "filter (\<lambda>x. step_rank x = r) ?stops = (if r = 0 then ?stops else [])" for r
    by (rule filter_rank_parts)
  have steps: "filter (\<lambda>x. step_rank x = r) ?steps = (if r = 4 then ?steps else [])" for r
    by (rule filter_rank_parts[OF plan_stop_ranks(2)])
  show "filter (\<lambda>x. step_rank x = 0) (plan digest fleet desired keep stopped s ob now) = ?stops"
    "filter (\<lambda>x. step_rank x = 4) (plan digest fleet desired keep stopped s ob now) = ?steps"
    unfolding plan_parts filter_append stops steps by (auto simp: filter_empty_conv)
qed

lemma sorted_concat_keys:
  assumes "sorted_wrt (<) (map fst m)"
    and "\<And>e x. e \<in> set m \<Longrightarrow> x \<in> set (g e) \<Longrightarrow> key x = Some (fst e)"
  shows "sorted (map key (concat (map g m)))"
  using assms
proof (induction m)
  case (Cons e m)
  have "sorted (map key (concat (map g m)))" using Cons by simp
  moreover have "sorted (map key (g e))"
    by (rule sorted_const[where c = "Some (fst e)"]) (use Cons.prems(2) in simp)
  moreover have "key x \<le> key y" if x: "x \<in> set (g e)" and y: "e' \<in> set m" "y \<in> set (g e')" for x y e'
  proof -
    have "key x = Some (fst e)" "key y = Some (fst e')" using Cons.prems(2) x y by simp_all
    then show ?thesis using Cons.prems(1) y(1) by (force simp: less_imp_le)
  qed
  ultimately show ?case by (auto simp: sorted_append)
qed simp

lemma desired_agents_wf: "bt_wf (desired_agents_of desired)"
  by (simp add: desired_agents_of_def split: option.split)

lemma agent_steps_sorted:
  "sorted (map step_agent_id
     (concat (map (snd \<circ> plan_desired digest stopped s ob now) (desired_agents_of desired))))"
  by (rule sorted_concat_keys)
    (use desired_agents_wf[of desired] plan_desired_key(2) in \<open>auto simp: bt_wf_def comp_def\<close>)

lemma plan_crew_steps:
  "RemoveCrew c k \<in> set (plan digest fleet desired keep stopped s ob now) \<longleftrightarrow>
     k = keep \<and> known_crew fleet s ob c \<and> \<not> desired_crew desired c"
  "EnsureCrew c \<in> set (plan digest fleet desired keep stopped s ob now) \<longleftrightarrow> desired_crew desired c"
proof -
  have "RemoveCrew c k \<notin> set (concat (map (f \<circ> plan_desired digest stopped s ob now) m))"
      "EnsureCrew c \<notin> set (concat (map (f \<circ> plan_desired digest stopped s ob now) m))"
    if "f = fst \<or> f = snd" for f m
    using that plan_stop_ranks[of _ digest stopped s ob now m] by fastforce+
  then have "RemoveCrew c k \<notin> set (concat (map (fst \<circ> plan_desired digest stopped s ob now) m))"
      "RemoveCrew c k \<notin> set (concat (map (snd \<circ> plan_desired digest stopped s ob now) m))"
      "EnsureCrew c \<notin> set (concat (map (fst \<circ> plan_desired digest stopped s ob now) m))"
      "EnsureCrew c \<notin> set (concat (map (snd \<circ> plan_desired digest stopped s ob now) m))" for m
    by blast+
  note no_crews = this
  show "RemoveCrew c k \<in> set (plan digest fleet desired keep stopped s ob now) \<longleftrightarrow>
     k = keep \<and> known_crew fleet s ob c \<and> \<not> desired_crew desired c"
    unfolding plan_parts set_append Un_iff set_sort
    using no_crews by (auto simp: known_crews_set desired_crews_set)
  show "EnsureCrew c \<in> set (plan digest fleet desired keep stopped s ob now) \<longleftrightarrow> desired_crew desired c"
    unfolding plan_parts set_append Un_iff set_sort
    using no_crews by (auto simp: desired_crews_set)
qed

section \<open>One agent under repeated passes\<close>

text \<open>
  The life of one desired agent whose spec hash stays the same and which is not held stopped: its
  status entry and the steps the current pass still has for it. A pass reads what the runner
  observes and takes the table's steps; a step succeeds, fails (the rest of the agent's steps are
  skipped), or is skipped with the crew's error written on the entry; a ready signal may come at
  any time. A \<open>NoteExit\<close> step cannot fail: the executor does no I/O for it.
\<close>

inductive lifecycle ::
  "reconcile_policy \<Rightarrow> agent_id \<Rightarrow> spec_hash \<Rightarrow> agent_status option \<times> step list
     \<Rightarrow> agent_status option \<times> step list \<Rightarrow> bool"
  for policy i h where
  observe: "lifecycle policy i h (st, []) (st, decision i h st p now)"
| succeed: "lifecycle policy i h (st, x # xs) (outcome_effect x (Inr ()) policy now st, xs)"
| fail: "\<not> (\<exists>c. x = NoteExit i c) \<Longrightarrow>
    lifecycle policy i h (st, x # xs) (outcome_effect x (Inl e) policy now st, [])"
| crew_error: "lifecycle policy i h (st, x # xs) (touch (\<lambda>a. a\<lparr>st_message := e\<rparr>) st, xs)"
| ready: "lifecycle policy i h (st, xs)
    (map_option (\<lambda>a. a\<lparr>st_phase := Ready, st_restarts := 0, st_next_restart_at := None,
       st_last_event_at := Some now, st_message := []\<rparr>) st, xs)"

definition restarts_of :: "agent_status option \<Rightarrow> nat" where
  "restarts_of st = (case st of None \<Rightarrow> 0 | Some a \<Rightarrow> unat (st_restarts a))"

text \<open>
  The restart count never passes the limit by more than one, is past it only in an agent given up
  on, and such an agent has no step pending.
\<close>

definition restarts_bounded ::
  "reconcile_policy \<Rightarrow> agent_id \<Rightarrow> spec_hash \<Rightarrow> agent_status option \<times> step list \<Rightarrow> bool" where
  "restarts_bounded policy i h c =
     ((restarts_of (fst c) \<le> unat (max_restarts policy)
        \<or> (restarts_of (fst c) = unat (max_restarts policy) + 1 \<and> is_dead (fst c)
           \<and> unchanged h (fst c) \<and> snd c = []))
      \<and> ((\<forall>x \<in> set (snd c). x = Stop i \<or> x = Materialize i \<or> x = Start i h)
         \<or> (\<exists>code. snd c = [NoteExit i code] \<and> unchanged h (fst c))))"

lemma decision_given_up: "is_dead st \<Longrightarrow> unchanged h st \<Longrightarrow> decision i h st p now = []"
  by (cases p; cases "the p") simp_all

lemma decision_shape:
  "(\<forall>x \<in> set (decision i h st p now). x = Stop i \<or> x = Materialize i \<or> x = Start i h)
   \<or> (\<exists>code. decision i h st p now = [NoteExit i code] \<and> unchanged h st)"
  by (cases p; cases "the p") (auto split: option.splits)

lemma restarts_of_effect:
  assumes "x = Stop i \<or> x = Materialize i \<or> x = Start i h"
  shows "restarts_of (outcome_effect x r policy now st) \<le> restarts_of st"
  using assms
  by (cases st; cases r) (auto simp: restarts_of_def touch_def started_def Let_def default_agent_status_def)

lemma restarts_of_touch_message [simp]:
  "restarts_of (touch (\<lambda>a. a\<lparr>st_message := e\<rparr>) st) = restarts_of st"
  "unchanged h (touch (\<lambda>a. a\<lparr>st_message := e\<rparr>) st) = unchanged h st"
  "is_dead (touch (\<lambda>a. a\<lparr>st_message := e\<rparr>) st) = is_dead st"
  by (cases st; simp add: restarts_of_def touch_def unchanged_iff is_dead_iff default_agent_status_def)+

lemma unat_Suc_u32:
  "unat r + 1 < 2 ^ 32 \<Longrightarrow> unat (r + 1 :: u32) = unat r + 1"
  by (simp add: unat_word_ariths)

lemma note_exit_counts:
  assumes "unat (st_restarts a) \<le> unat (max_restarts policy)" "unat (max_restarts policy) + 1 < 2 ^ 32"
  shows "unat (st_restarts (note_exit code policy now a)) = unat (st_restarts a) + 1"
    and "unat (st_restarts a) = unat (max_restarts policy) \<Longrightarrow>
      st_phase (note_exit code policy now a) = Dead \<and> st_next_restart_at (note_exit code policy now a) = None"
    and "unat (st_restarts a) < unat (max_restarts policy) \<Longrightarrow>
      st_phase (note_exit code policy now a) = st_phase a
      \<and> st_next_restart_at (note_exit code policy now a) =
          Some (plus_secs now (backoff_secs policy (st_restarts a + 1)))"
  using assms unat_Suc_u32[of "st_restarts a"]
  by (auto simp: note_exit_def Let_def word_less_nat_alt)

lemma note_exit_hash [simp]: "st_applied_hash (note_exit code policy now a) = st_applied_hash a"
  by (simp add: note_exit_def Let_def)

lemma bounded_note_exit:
  assumes "restarts_bounded policy i h (st, [NoteExit i code])" "unat (max_restarts policy) + 1 < 2 ^ 32"
  shows "restarts_bounded policy i h (outcome_effect (NoteExit i code) (Inr ()) policy now st, [])"
proof -
  have le: "restarts_of st \<le> unat (max_restarts policy)" and un: "unchanged h st"
    using assms(1) by (auto simp: restarts_bounded_def)
  obtain a where a: "st = Some a" "st_applied_hash a = Some h" using un by (auto simp: unchanged_iff)
  have r: "unat (st_restarts a) \<le> unat (max_restarts policy)" using le a by (simp add: restarts_of_def)
  show ?thesis
    using note_exit_counts[OF r assms(2), of code now] a r
    by (auto simp: restarts_bounded_def restarts_of_def touch_def unchanged_iff is_dead_iff)
qed

lemma lifecycle_bounded:
  assumes "lifecycle policy i h c c'" "restarts_bounded policy i h c"
    and "unat (max_restarts policy) + 1 < 2 ^ 32"
  shows "restarts_bounded policy i h c'"
  using assms
proof (induction rule: lifecycle.induct)
  case (observe st p now)
  then show ?case
    using decision_given_up[of st h i p now] decision_shape[of i h st p now]
    by (auto simp: restarts_bounded_def)
next
  case (succeed st x xs now)
  show ?case
  proof (cases "\<exists>code. x = NoteExit i code")
    case True
    then obtain code where x: "x = NoteExit i code" by blast
    then have "xs = []" using succeed.prems(1) by (auto simp: restarts_bounded_def)
    then show ?thesis using bounded_note_exit[of policy i h st code now] succeed.prems x by simp
  next
    case False
    then have "x = Stop i \<or> x = Materialize i \<or> x = Start i h"
      using succeed.prems(1) by (auto simp: restarts_bounded_def)
    then show ?thesis
      using succeed.prems(1) False restarts_of_effect[of x i h "Inr ()" policy now st]
      by (auto simp: restarts_bounded_def)
  qed
next
  case (fail x st xs e now)
  then have "x = Stop i \<or> x = Materialize i \<or> x = Start i h"
    by (auto simp: restarts_bounded_def)
  then show ?case
    using fail.prems(1) restarts_of_effect[of x i h "Inl e" policy now st]
    by (auto simp: restarts_bounded_def)
next
  case (crew_error st x xs e)
  then show ?case by (auto simp: restarts_bounded_def)
next
  case (ready st xs now)
  then show ?case
    by (cases st) (auto simp: restarts_bounded_def restarts_of_def unchanged_iff)
qed

lemma lifecycle_reachable_bounded:
  assumes "(lifecycle policy i h)\<^sup>*\<^sup>* (None, []) c" "unat (max_restarts policy) + 1 < 2 ^ 32"
  shows "restarts_bounded policy i h c"
  using assms
proof (induction rule: rtranclp_induct)
  case base
  show ?case by (simp add: restarts_bounded_def restarts_of_def)
next
  case (step y z)
  then show ?case using lifecycle_bounded by blast
qed

section \<open>Starts\<close>

lemma plan_desired_steps:
  "snd (plan_desired digest stopped s ob now (i, a)) \<in>
     {[], [Materialize i, Start i (agent_hash digest a)]} \<union> {[NoteExit i code] |code. True}"
  "snd (plan_desired digest stopped s ob now (i, a)) = [Materialize i, Start i h] \<Longrightarrow>
     h = agent_hash digest a \<and> i \<notin> set stopped"
  by (auto simp: plan_desired_def Let_def split: if_splits option.splits process_state.splits)

lemma start_in_concat:
  assumes "concat (map g m) = xs @ Start i h # ys"
    and "\<And>e. e \<in> set m \<Longrightarrow> (\<exists>h. g e = [Materialize (fst e), Start (fst e) h]) \<or> g e = []
           \<or> (\<exists>c. g e = [NoteExit (fst e) c])"
  shows "\<exists>e xs'. e \<in> set m \<and> fst e = i \<and> g e = [Materialize i, Start i h] \<and> xs = xs' @ [Materialize i]"
  using assms
proof (induction m arbitrary: xs)
  case (Cons e m)
  have IH: "\<exists>e xs''. e \<in> set m \<and> fst e = i \<and> g e = [Materialize i, Start i h] \<and> zs = xs'' @ [Materialize i]"
    if "concat (map g m) = zs @ Start i h # ys" for zs
    by (rule Cons.IH[OF that]) (use Cons.prems(2) in simp)
  consider h' where "g e = [Materialize (fst e), Start (fst e) h']" | "g e = []"
    | c where "g e = [NoteExit (fst e) c]"
    using Cons.prems(2)[of e] by auto
  then show ?case
  proof cases
    case 1
    then consider "xs = [Materialize (fst e)]" "fst e = i" "h' = h"
      | zs where "xs = Materialize (fst e) # Start (fst e) h' # zs" "concat (map g m) = zs @ Start i h # ys"
      using Cons.prems(1) by (auto simp: Cons_eq_append_conv)
    then show ?thesis
    proof cases
      case a: 1
      then show ?thesis using 1 by (intro exI[of _ e] exI[of _ "[]"]) simp
    next
      case (2 zs)
      then show ?thesis using IH[of zs] by (metis append_Cons list.set_intros(2))
    qed
  next
    case 2
    then show ?thesis using IH[of xs] Cons.prems(1) by auto
  next
    case 3
    then obtain zs where "xs = NoteExit (fst e) c # zs" "concat (map g m) = zs @ Start i h # ys"
      using Cons.prems(1) by (auto simp: Cons_eq_append_conv)
    then show ?thesis using IH[of zs] by (metis append_Cons list.set_intros(2))
  qed
qed simp

lemma split_before:
  assumes "xs @ x # ys = as @ bs" "x \<notin> set as"
  obtains zs where "xs = as @ zs" "bs = zs @ x # ys"
  using assms by (auto simp: append_eq_append_conv2 Cons_eq_append_conv)

lemma plan_start:
  assumes "plan digest fleet desired keep stopped s ob now = xs @ Start i h # ys"
  shows "\<exists>a xs'. xs = xs' @ [Materialize i] \<and> bt_get (desired_agents_of desired) i = Some a
    \<and> h = agent_hash digest a \<and> i \<notin> set stopped \<and> EnsureCrew (crew_ref_of i) \<in> set xs'"
proof -
  let ?m = "desired_agents_of desired"
  let ?g = "snd \<circ> plan_desired digest stopped s ob now"
  obtain as where as: "plan digest fleet desired keep stopped s ob now = as @ concat (map ?g ?m)"
    and no: "Start i h \<notin> set as" and ens: "\<And>c. desired_crew desired c \<Longrightarrow> EnsureCrew c \<in> set as"
  proof
    show "plan digest fleet desired keep stopped s ob now =
       (sort_key step_agent_id
       (map Stop (filter (\<lambda>i. observed_get ob i \<noteq> None) (gone_agents fleet desired s ob))
        @ concat (map (fst \<circ> plan_desired digest stopped s ob now) (desired_agents_of desired)))
     @ (if desired \<noteq> None then map RemoveAgent (gone_agents fleet desired s ob) else [])
     @ map (\<lambda>c. RemoveCrew c keep)
         (filter (\<lambda>c. c \<notin> set (desired_crews_of desired)) (known_crews_of fleet s ob))
     @ map EnsureCrew (desired_crews_of desired)) @ concat (map ?g ?m)"
      unfolding plan_parts by simp
  qed (use plan_stop_ranks(1)[of "Start i h" digest stopped s ob now ?m] in
      \<open>auto simp: desired_crews_set\<close>)
  obtain zs where zs: "xs = as @ zs" "concat (map ?g ?m) = zs @ Start i h # ys"
    using split_before[of xs "Start i h" ys as] assms as no by metis
  have forms: "(\<exists>h. ?g e = [Materialize (fst e), Start (fst e) h]) \<or> ?g e = []
      \<or> (\<exists>c. ?g e = [NoteExit (fst e) c])" for e
    using plan_desired_steps(1)[of digest stopped s ob now "fst e" "snd e"] by auto
  obtain e zs' where e: "e \<in> set ?m" "fst e = i" "?g e = [Materialize i, Start i h]"
      "zs = zs' @ [Materialize i]"
    using start_in_concat[OF zs(2) forms] by blast
  obtain a where a: "e = (i, a)" using e(2) by (cases e) simp
  have get: "bt_get ?m i = Some a"
    using e(1) bt_get_iff[OF desired_agents_wf] a by simp
  then have "EnsureCrew (crew_ref_of i) \<in> set as" by (intro ens) (auto simp: desired_crew_def)
  moreover have "h = agent_hash digest a \<and> i \<notin> set stopped"
    using plan_desired_steps(2)[of digest stopped s ob now i a h] e(3) a by simp
  ultimately show ?thesis using get zs(1) e(4) by (intro exI[of _ a] exI[of _ "as @ zs'"]) simp
qed

section \<open>A crash loop\<close>

text \<open>An exit noted at a time and the restart it leads to, as changes of the status.\<close>

definition crash :: "agent_id \<Rightarrow> spec_hash \<Rightarrow> i32 option \<times> timestamp \<Rightarrow> change list" where
  "crash i h e =
     [Outcome (NoteExit i (fst e)) (Inr ()) (snd e), Outcome (Materialize i) (Inr ()) (snd e),
      Outcome (Start i h) (Inr ()) (snd e)]"

definition crashes :: "reconcile_policy \<Rightarrow> agent_id \<Rightarrow> spec_hash \<Rightarrow> (i32 option \<times> timestamp) list
    \<Rightarrow> fleet_status \<Rightarrow> fleet_status" where
  "crashes policy i h es s = fold (change_status policy) (concat (map (crash i h) es)) s"

lemma crash_effect:
  assumes "agent_id_ok i" "status_of s i = Some a" "st_applied_hash a = Some h"
    and "unat (st_restarts a) < unat (max_restarts policy)"
  shows "\<exists>b. status_of (crashes policy i h [e] s) i = Some b \<and> st_applied_hash b = Some h
    \<and> st_phase b = Starting \<and> unat (st_restarts b) = unat (st_restarts a) + 1"
proof -
  have bound: "unat (st_restarts a) + 1 < 2 ^ 32"
    using assms(4) unat_less_power_32[of "max_restarts policy"] by simp
  have good: "list_all change_ok (crash i h e)" using assms(1) by (simp add: crash_def)
  have "status_of (crashes policy i h [e] s) i =
      fold (change_effect policy) (crash i h e) (Some a)"
    using changes.view_fold[OF good assms(1), of policy s] assms(2)
    by (simp add: crashes_def crash_def concerns_def)
  then show ?thesis
    using assms(3) unat_Suc_u32[OF bound]
    by (auto simp: crash_def touch_def started_def Let_def note_exit_def)
qed

lemma crashes_effect:
  assumes "agent_id_ok i" "status_of s i = Some a" "st_applied_hash a = Some h" "st_phase a = Starting"
    and "unat (st_restarts a) + length es \<le> unat (max_restarts policy)"
  shows "\<exists>b. status_of (crashes policy i h es s) i = Some b \<and> st_applied_hash b = Some h
    \<and> st_phase b = Starting \<and> unat (st_restarts b) = unat (st_restarts a) + length es"
  using assms
proof (induction es arbitrary: s a)
  case (Cons e es)
  obtain b where b: "status_of (crashes policy i h [e] s) i = Some b" "st_applied_hash b = Some h"
      "st_phase b = Starting" "unat (st_restarts b) = unat (st_restarts a) + 1"
    using crash_effect[OF Cons.prems(1-3), of policy e] Cons.prems(5) by auto
  have "crashes policy i h (e # es) s = crashes policy i h es (crashes policy i h [e] s)"
    by (simp add: crashes_def)
  then show ?case using Cons.IH[OF Cons.prems(1) b(1-3)] b(4) Cons.prems(5) by auto
qed (auto simp: crashes_def)

section \<open>Properties\<close>

text \<open>A fleet in the middle of a change: one agent up to date, one exited, one no longer desired.\<close>

definition sample_observed :: observed_state where
  "sample_observed =
     \<lparr>obs_crews = [(''backend'', [(''alice'', Running 7), (''bob'', Exited (Some 1)), (''carol'', Running 9)])]\<rparr>"

definition sample_status :: fleet_status where
  "sample_status = default_fleet_status\<lparr>fs_agents :=
     [(''payments/backend/alice'', default_agent_status\<lparr>st_phase := Ready, st_applied_hash := Some ''main''\<rparr>),
      (''payments/backend/bob'', default_agent_status\<lparr>st_phase := Ready, st_applied_hash := Some ''main''\<rparr>)]\<rparr>"

definition no_keep :: keep where
  "no_keep = \<lparr>keep_repos = False, keep_sessions = False\<rparr>"

lemma sample_observed_wf: "observed_wf sample_observed"
  by code_simp

text \<open>
  C1. The planner implements its decision table: for every agent id, the steps the plan has for
  that agent, in plan order, are the table's row for what the status and the runner say of that
  agent, whether it is desired, held stopped, or known but no longer desired; agents do not
  influence one another's rows.
\<close>

theorem plan_per_agent:
  assumes "observed_wf ob" "agent_id_ok i"
  shows "filter (\<lambda>x. step_agent_id x = Some i) (plan digest fleet desired keep stopped s ob now)
    = agent_decision digest fleet desired stopped s ob now i"
  by (rule plan_at_agent[OF assms])

theorem plan_per_agent_witness:
  "filter (\<lambda>x. step_agent_id x = Some (AgentId ''payments'' ''backend'' ''carol''))
     (plan sample_digest ''payments'' (Some sample_fleet) no_keep [] sample_status sample_observed 5)
   = [Stop (AgentId ''payments'' ''backend'' ''carol''), RemoveAgent (AgentId ''payments'' ''backend'' ''carol'')]"
proof -
  have ok: "agent_id_ok (AgentId ''payments'' ''backend'' ''carol'')" by code_simp
  have "agent_decision sample_digest ''payments'' (Some sample_fleet) [] sample_status sample_observed 5
      (AgentId ''payments'' ''backend'' ''carol'')
    = [Stop (AgentId ''payments'' ''backend'' ''carol''), RemoveAgent (AgentId ''payments'' ''backend'' ''carol'')]"
    by code_simp
  then show ?thesis using plan_per_agent[OF sample_observed_wf ok] by simp
qed

text \<open>
  The order of a plan: stops, agent removals, crew removals, crew ensures, then the agents'
  own steps; stops and agent steps each ascending by agent id; and the crews it removes and
  ensures are exactly the known crews that are no longer desired, with the caller's keep flags,
  and the crews of the desired agents.
\<close>

theorem plan_order:
  "sorted (map step_rank (plan digest fleet desired keep stopped s ob now))
   \<and> sorted (map step_agent_id
       (filter (\<lambda>x. step_rank x = 0) (plan digest fleet desired keep stopped s ob now)))
   \<and> sorted (map step_agent_id
       (filter (\<lambda>x. step_rank x = 4) (plan digest fleet desired keep stopped s ob now)))
   \<and> (RemoveCrew c k \<in> set (plan digest fleet desired keep stopped s ob now) \<longleftrightarrow>
        k = keep \<and> known_crew fleet s ob c \<and> \<not> desired_crew desired c)
   \<and> (EnsureCrew c \<in> set (plan digest fleet desired keep stopped s ob now) \<longleftrightarrow> desired_crew desired c)"
  using plan_ranks_sorted plan_crew_steps by (auto simp: plan_of_rank agent_steps_sorted)

text \<open>
  Every start is prepared: a \<open>Start\<close> in a plan comes right after the \<open>Materialize\<close> of the
  same agent and after the \<open>EnsureCrew\<close> of its crew, carries the current spec hash of a desired
  agent, and is never for an agent held stopped.
\<close>

theorem plan_starts_prepared:
  assumes "plan digest fleet desired keep stopped s ob now = xs @ Start i h # ys"
  shows "\<exists>a xs'. xs = xs' @ [Materialize i] \<and> bt_get (desired_agents_of desired) i = Some a
    \<and> h = agent_hash digest a \<and> i \<notin> set stopped \<and> EnsureCrew (crew_ref_of i) \<in> set xs'"
  by (rule plan_start[OF assms])

theorem plan_starts_prepared_witness:
  "\<exists>xs. plan sample_digest ''payments'' (Some sample_fleet) no_keep [] default_fleet_status \<lparr>obs_crews = []\<rparr> 5
        = xs @ [Materialize (AgentId ''payments'' ''backend'' ''bob''),
                Start (AgentId ''payments'' ''backend'' ''bob'') ''main'']
     \<and> EnsureCrew (CrewRef ''payments'' ''backend'') \<in> set xs"
proof -
  let ?xs = "[EnsureCrew (CrewRef ''payments'' ''backend''),
      Materialize (AgentId ''payments'' ''backend'' ''alice''),
      Start (AgentId ''payments'' ''backend'' ''alice'') ''main'']"
  have eq: "plan sample_digest ''payments'' (Some sample_fleet) no_keep [] default_fleet_status \<lparr>obs_crews = []\<rparr> 5
      = (?xs @ [Materialize (AgentId ''payments'' ''backend'' ''bob'')])
        @ Start (AgentId ''payments'' ''backend'' ''bob'') ''main'' # []"
    by code_simp
  show ?thesis
    using plan_starts_prepared[OF eq] eq by (intro exI[of _ ?xs]) (auto simp: crew_ref_of_def)
qed

definition converged ::
  "(hash_input \<Rightarrow> spec_hash) \<Rightarrow> fleet_name \<Rightarrow> fleet option \<Rightarrow> agent_id list \<Rightarrow> fleet_status
     \<Rightarrow> observed_state \<Rightarrow> bool" where
  "converged digest fleet desired stopped s ob =
     (list_all (\<lambda>(i, a). i \<notin> set stopped \<and> unchanged (agent_hash digest a) (status_of s i)
         \<and> (case observed_get ob i of Some (Running _) \<Rightarrow> True | _ \<Rightarrow> False)) (desired_agents_of desired)
      \<and> list_all (bt_contains (desired_agents_of desired)) (known_agents_of fleet s ob)
      \<and> list_all (\<lambda>c. c \<in> set (desired_crews_of desired)) (known_crews_of fleet s ob))"

lemma plan_desired_settled:
  assumes "fst e \<notin> set stopped" "unchanged (agent_hash digest (snd e)) (status_of s (fst e))"
    "case observed_get ob (fst e) of Some (Running _) \<Rightarrow> True | _ \<Rightarrow> False"
  shows "plan_desired digest stopped s ob now e = ([], [])"
  using assms
  by (auto simp: plan_desired_def Let_def unchanged_iff status_of_def
      split: option.splits process_state.splits)

text \<open>
  A converged fleet is left alone: when every desired agent runs with its current hash, none
  is held stopped, and no other agent or crew is known, the plan only ensures the desired crews.
\<close>

theorem converged_plan_idle:
  assumes "converged digest fleet desired stopped s ob"
  shows "plan digest fleet desired keep stopped s ob now = map EnsureCrew (desired_crews_of desired)"
proof -
  have gone: "gone_agents fleet desired s ob = []"
    using assms by (auto simp: converged_def list_all_iff gone_agents_def filter_empty_conv)
  have crews: "filter (\<lambda>c. c \<notin> set (desired_crews_of desired)) (known_crews_of fleet s ob) = []"
    using assms by (auto simp: converged_def list_all_iff filter_empty_conv)
  have "\<forall>e \<in> set (desired_agents_of desired). plan_desired digest stopped s ob now e = ([], [])"
    using assms plan_desired_settled by (simp add: converged_def list_all_iff case_prod_beta)
  then have pushes: "concat (map (fst \<circ> plan_desired digest stopped s ob now) (desired_agents_of desired)) = []"
      "concat (map (snd \<circ> plan_desired digest stopped s ob now) (desired_agents_of desired)) = []"
    by (auto simp: comp_def)
  show ?thesis unfolding plan_parts gone crews pushes by simp
qed

theorem converged_plan_idle_witness:
  "plan sample_digest ''payments'' (Some sample_fleet) no_keep [] sample_status
     (observed_set (AgentId ''payments'' ''backend'' ''bob'') (Running 8)
       (observed_remove (AgentId ''payments'' ''backend'' ''carol'') sample_observed)) 5
   = [EnsureCrew (CrewRef ''payments'' ''backend'')]"
proof -
  have "converged sample_digest ''payments'' (Some sample_fleet) [] sample_status
     (observed_set (AgentId ''payments'' ''backend'' ''bob'') (Running 8)
       (observed_remove (AgentId ''payments'' ''backend'' ''carol'') sample_observed))"
    by code_simp
  moreover have "desired_crews_of (Some sample_fleet) = [CrewRef ''payments'' ''backend'']" by code_simp
  ultimately show ?thesis using converged_plan_idle by simp
qed

text \<open>
  Going down only takes things away: with no desired fleet the plan holds nothing but stops
  and crew removals with the caller's keep flags, stops every known agent the runner observes, and
  removes every known crew.
\<close>

theorem down_plan_removes_everything:
  assumes "observed_wf ob"
  shows "list_all (\<lambda>x. case x of Stop i \<Rightarrow> observed_get ob i \<noteq> None | RemoveCrew c k \<Rightarrow> k = keep | _ \<Rightarrow> False)
      (plan digest fleet None keep stopped s ob now)
    \<and> (agent_id_ok i \<and> known fleet s ob i \<and> observed_get ob i \<noteq> None \<longrightarrow>
         Stop i \<in> set (plan digest fleet None keep stopped s ob now))
    \<and> (known_crew fleet s ob c \<longrightarrow> RemoveCrew c keep \<in> set (plan digest fleet None keep stopped s ob now))"
proof -
  have none: "desired_agents_of None = []" "desired_crews_of None = []" "\<not> desired_crew None c"
    by (simp_all add: desired_agents_of_def desired_crews_of_def bs_collect_def bt_keys_def desired_crew_def)
  have "Stop i \<in> set (plan digest fleet None keep stopped s ob now)"
    if "agent_id_ok i" "known fleet s ob i" "observed_get ob i \<noteq> None"
    using that known_agents_mem[OF that(1) assms]
    by (auto simp: plan_parts none gone_agents_def bt_contains_def)
  moreover have "RemoveCrew c keep \<in> set (plan digest fleet None keep stopped s ob now)"
    if "known_crew fleet s ob c"
    using that none(3) by (simp add: plan_crew_steps)
  ultimately show ?thesis by (auto simp: plan_parts none list_all_iff)
qed

theorem down_plan_removes_everything_witness:
  "Stop (AgentId ''payments'' ''backend'' ''bob'')
     \<in> set (plan sample_digest ''payments'' None no_keep [] sample_status sample_observed 5)"
proof -
  have "agent_id_ok (AgentId ''payments'' ''backend'' ''bob'')
      \<and> known ''payments'' sample_status sample_observed (AgentId ''payments'' ''backend'' ''bob'')
      \<and> observed_get sample_observed (AgentId ''payments'' ''backend'' ''bob'') \<noteq> None"
    by code_simp
  then show ?thesis using down_plan_removes_everything[OF sample_observed_wf] by blast
qed

text \<open>
  Restarts are bounded. Through any number of passes, failures, crew errors and ready signals,
  an agent with an unchanging spec that is not held stopped has a restart count of at most the
  limit plus one (so the 32-bit increment never wraps); past the limit it is \<open>Dead\<close>, and then no
  pass plans a step for it whatever the runner observes.
\<close>

theorem restarts_stay_bounded:
  assumes "(lifecycle policy i h)\<^sup>*\<^sup>* (None, []) (st, todo)" "unat (max_restarts policy) + 1 < 2 ^ 32"
  shows "restarts_of st \<le> unat (max_restarts policy) + 1
    \<and> (restarts_of st > unat (max_restarts policy) \<longrightarrow>
         is_dead st \<and> todo = [] \<and> decision i h st p now = [])"
  using lifecycle_reachable_bounded[OF assms] decision_given_up[of st h i p now]
  by (auto simp: restarts_bounded_def)

definition no_restarts :: reconcile_policy where
  "no_restarts = default_policy\<lparr>max_restarts := 0\<rparr>"

definition sample_id :: agent_id where
  "sample_id = AgentId ''f'' ''c'' ''a''"

lemma sample_death:
  "(lifecycle no_restarts sample_id ''h'')\<^sup>*\<^sup>* (None, [])
     (Some (note_exit (Some 1) no_restarts 7 (started ''h'' default_agent_status)), [])"
proof -
  let ?life = "lifecycle no_restarts sample_id ''h''"
  let ?started = "Some (started ''h'' default_agent_status)"
  have "?life (None, []) (None, [Materialize sample_id, Start sample_id ''h''])"
    using observe[of no_restarts sample_id "''h''" None None 0] by (simp add: is_dead_def)
  moreover have "?life (None, [Materialize sample_id, Start sample_id ''h''])
      (Some (default_agent_status\<lparr>st_phase := Materializing\<rparr>), [Start sample_id ''h''])"
    using succeed[of no_restarts sample_id "''h''" None "Materialize sample_id" "[Start sample_id ''h'']" 0]
    by (simp add: touch_def default_agent_status_def)
  moreover have "?life (Some (default_agent_status\<lparr>st_phase := Materializing\<rparr>), [Start sample_id ''h'']) (?started, [])"
    using succeed[of no_restarts sample_id "''h''" "Some (default_agent_status\<lparr>st_phase := Materializing\<rparr>)"
        "Start sample_id ''h''" "[]" 0]
    by (simp add: touch_def started_def default_agent_status_def Let_def)
  moreover have "?life (?started, []) (?started, [NoteExit sample_id (Some 1)])"
    using observe[of no_restarts sample_id "''h''" ?started "Some (Exited (Some 1))" 7]
    by (simp add: unchanged_def is_dead_def started_def default_agent_status_def Let_def)
  moreover have "?life (?started, [NoteExit sample_id (Some 1)])
      (Some (note_exit (Some 1) no_restarts 7 (started ''h'' default_agent_status)), [])"
    using succeed[of no_restarts sample_id "''h''" ?started "NoteExit sample_id (Some 1)" "[]" 7]
    by (simp add: touch_def)
  ultimately show ?thesis by (meson converse_rtranclp_into_rtranclp rtranclp.rtrancl_refl)
qed

theorem restarts_stay_bounded_witness:
  "decision sample_id ''h'' (Some (note_exit (Some 1) no_restarts 7 (started ''h'' default_agent_status)))
     (Some (Exited (Some 1))) 100 = []"
proof -
  have "restarts_of (Some (note_exit (Some 1) no_restarts 7 (started ''h'' default_agent_status))) = 1"
    "unat (max_restarts no_restarts) = 0"
    by (simp_all add: restarts_of_def note_exit_def started_def default_agent_status_def no_restarts_def Let_def)
  then show ?thesis
    using restarts_stay_bounded[OF sample_death, where p = "Some (Exited (Some 1))" and now = 100] by simp
qed

text \<open>
  A crash loop backs off and then gives up. After any \<open>n\<close> rounds of exit and restart of a
  started agent, the next exit schedules a restart after the exact backoff for attempt \<open>n + 1\<close>
  while \<open>n\<close> is below the limit; at the limit it leaves the agent \<open>Dead\<close>, with no restart pending
  and a message naming the limit.
\<close>

theorem crash_loop_gives_up:
  assumes "agent_id_ok i" "status_of s i = Some a" "st_applied_hash a = Some h"
    and "st_phase a = Starting" "st_restarts a = 0"
    and "length es \<le> unat (max_restarts policy)" "unat (max_restarts policy) + 1 < 2 ^ 32"
  shows "\<exists>d. status_of (apply_step (crashes policy i h es s) (NoteExit i code) (Inr ()) policy now) i = Some d
    \<and> unat (st_restarts d) = length es + 1
    \<and> (if length es < unat (max_restarts policy)
       then st_phase d = Starting \<and> st_next_restart_at d =
              Some (plus_secs now (backoff_secs policy (word_of_nat (length es + 1))))
       else st_phase d = Dead \<and> st_next_restart_at d = None
            \<and> st_message d = exit_message code @ ''; gave up after ''
                @ nat_digits (unat (max_restarts policy)) @ '' restarts'')"
proof -
  obtain b where b: "status_of (crashes policy i h es s) i = Some b" "st_phase b = Starting"
      "unat (st_restarts b) = length es"
    using crashes_effect[OF assms(1-4), of es policy] assms(5,6) by auto
  let ?d = "note_exit code policy now b"
  have le: "unat (st_restarts b) \<le> unat (max_restarts policy)" using b(3) assms(6) by simp
  have d: "status_of (apply_step (crashes policy i h es s) (NoteExit i code) (Inr ()) policy now) i = Some ?d"
    using b(1) by (simp add: status_of_entry[OF assms(1,1)] touch_def)
  have word: "st_restarts b + 1 = word_of_nat (length es + 1)"
    by (simp flip: b(3))
  show ?thesis
    using d b note_exit_counts[OF le assms(7), of code now] word assms(6)
    by (auto simp: note_exit_def Let_def word_less_nat_alt unat_Suc_u32)
qed

theorem crash_loop_gives_up_witness:
  "\<exists>d. status_of (apply_step
        (crashes (default_policy\<lparr>max_restarts := 1\<rparr>) (AgentId ''f'' ''c'' ''a'') ''h'' [(Some 1, 10)]
          (entry ''f/c/a'' (started ''h'') default_fleet_status))
        (NoteExit (AgentId ''f'' ''c'' ''a'') None) (Inr ()) (default_policy\<lparr>max_restarts := 1\<rparr>) 20)
      (AgentId ''f'' ''c'' ''a'') = Some d \<and> st_phase d = Dead"
proof -
  have ok: "agent_id_ok (AgentId ''f'' ''c'' ''a'')" by code_simp
  have st: "status_of (entry ''f/c/a'' (started ''h'') default_fleet_status) (AgentId ''f'' ''c'' ''a'')
      = Some (started ''h'' default_agent_status)"
    by code_simp
  show ?thesis
    using crash_loop_gives_up[OF ok st, of "''h''" "[(Some 1, 10)]" "default_policy\<lparr>max_restarts := 1\<rparr>" None 20]
    by (auto simp: started_def Let_def default_agent_status_def)
qed

end
