(* ===== verification/Execute.thy ===== *)
theory Execute
  imports Reconcile
begin

text \<open>
  The executor (crates/balerix-core/src/reconcile/execute.rs) and the ports it drives
  (crates/balerix-core/src/ports.rs). The adapters behind the ports are outside the modelled
  crates: a port is a record of functions over an arbitrary world, which every call may read and
  change, returning the port's error type; the credential bundle is opaque. The lemmas describe
  an execution by its trace (each step skipped, or performed with an outcome), show when exactly a
  step is skipped, that the status is the fold of the trace, that a clean pass converges, and that
  whole passes refine the per-agent lifecycle of the planner's theory.
\<close>

section \<open>Ports\<close>

record launch_plan =
  lp_cwd :: string
  lp_env :: "(string, string) btree"
  lp_argv :: "string list"
  lp_script :: string

record hook_target =
  ht_url :: string
  ht_secret :: string

text \<open>The first line that is not blank.\<close>

definition first_line :: "string \<Rightarrow> string" where
  "first_line s =
     (case find (\<lambda>l. str_trim l \<noteq> []) (str_lines s) of Some l \<Rightarrow> str_trim l | None \<Rightarrow> [])"

datatype materialize_error =
    MaterializeTool string string string "string list" string
  | MaterializeIo string string string
  | SandboxConflict string string string
  | MaterializeInvalid string string

fun materialize_error_display :: "materialize_error \<Rightarrow> string" where
  "materialize_error_display (MaterializeTool i tool subcommand args stderr) =
     i @ '': '' @ tool @ '' '' @ subcommand @ '': '' @ first_line stderr"
| "materialize_error_display (MaterializeIo i path message) = i @ '': '' @ path @ '': '' @ message"
| "materialize_error_display (SandboxConflict i path message) =
     i @ '': sandbox.'' @ path @ '': '' @ message"
| "materialize_error_display (MaterializeInvalid i message) = i @ '': '' @ message"

datatype runner_error =
    RunnerTool string string "string list" string
  | RunnerParse string string
  | StillRunning string u32
  | RunnerProc string string
  | RunnerLink string string

fun runner_error_display :: "runner_error \<Rightarrow> string" where
  "runner_error_display (RunnerTool i subcommand args stderr) =
     i @ '': tmux '' @ subcommand @ '': '' @ first_line stderr"
| "runner_error_display (RunnerParse i message) = i @ '': cannot parse tmux output: '' @ message"
| "runner_error_display (StillRunning i pid) =
     i @ '': agent processes still running after stop (pid '' @ nat_digits (unat pid) @ '')''"
| "runner_error_display (RunnerProc i message) =
     i @ '': cannot tell whether the agent'' @ [CHR 0x27] @ ''s processes are gone: '' @ message"
| "runner_error_display (RunnerLink i message) = i @ '': '' @ message"

text \<open>The ports the executor calls, each a function of the world.\<close>

record ('w, 'c) materializer =
  mz_ensure_crew :: "crew_ref \<Rightarrow> repo_ref \<Rightarrow> string \<Rightarrow> git_settings \<Rightarrow> 'c
     \<Rightarrow> (string, string) btree \<Rightarrow> (string, string) btree \<Rightarrow> 'w \<Rightarrow> (materialize_error + unit) \<times> 'w"
  mz_materialize :: "resolved_agent \<Rightarrow> 'c \<Rightarrow> hook_target \<Rightarrow> 'w \<Rightarrow> (materialize_error + launch_plan) \<times> 'w"
  mz_remove_agent :: "agent_id \<Rightarrow> 'w \<Rightarrow> (materialize_error + unit) \<times> 'w"
  mz_remove_crew :: "crew_ref \<Rightarrow> keep \<Rightarrow> 'w \<Rightarrow> (materialize_error + unit) \<times> 'w"

record 'w agent_runner =
  rn_ensure_crew :: "crew_ref \<Rightarrow> 'w \<Rightarrow> (runner_error + unit) \<times> 'w"
  rn_ensure_agent :: "agent_id \<Rightarrow> launch_plan \<Rightarrow> 'w \<Rightarrow> (runner_error + unit) \<times> 'w"
  rn_stop_agent :: "agent_id \<Rightarrow> 'w \<Rightarrow> (runner_error + unit) \<times> 'w"
  rn_stop_crew :: "crew_ref \<Rightarrow> 'w \<Rightarrow> (runner_error + unit) \<times> 'w"
  rn_observe :: "fleet_name \<Rightarrow> 'w \<Rightarrow> (runner_error + observed_state) \<times> 'w"

record ('w, 'c) reconcile_context =
  cx_fleet :: fleet_name
  cx_desired :: "fleet option"
  cx_keep :: keep
  cx_stopped :: "agent_id list"
  cx_materializer :: "('w, 'c) materializer"
  cx_runner :: "'w agent_runner"
  cx_creds :: 'c
  cx_hooks :: "agent_id \<Rightarrow> hook_target"
  cx_policy :: reconcile_policy
  cx_clock :: "'w \<Rightarrow> timestamp \<times> 'w"

section \<open>The executor\<close>

record execute_report =
  rep_failures :: "(step \<times> string) list"
  rep_skipped :: "step list"

definition all_ok :: "execute_report \<Rightarrow> bool" where
  "all_ok r = (rep_failures r = [] \<and> rep_skipped r = [])"

text \<open>The local variables of \<open>execute\<close>, with the status and the world.\<close>

record 'w exec_state =
  ex_status :: fleet_status
  ex_world :: 'w
  ex_report :: execute_report
  ex_failed_agents :: "agent_id list"
  ex_failed_removals :: "agent_id list"
  ex_failed_crews :: "(crew_ref, string) btree"
  ex_plans :: "(agent_id, launch_plan) btree"

definition ensure_crew ::
  "('w, 'c) reconcile_context \<Rightarrow> crew_ref \<Rightarrow> 'w \<Rightarrow> step_outcome \<times> 'w" where
  "ensure_crew ctx c w =
     (let missing = crew_ref_display c @ '': not in the desired fleet''
      in case cx_desired ctx of
           None \<Rightarrow> (Inl missing, w)
         | Some fleet \<Rightarrow>
             (case bt_get (fl_crews fleet) (cr_crew c) of
                None \<Rightarrow> (Inl missing, w)
              | Some d \<Rightarrow>
                  (case mz_ensure_crew (cx_materializer ctx) c (crew_repo d) (crew_ref_name d)
                          (crew_git d) (cx_creds ctx) (fl_tools fleet) (crew_tools d) w of
                     (Inl e, w) \<Rightarrow> (Inl (materialize_error_display e), w)
                   | (Inr _, w) \<Rightarrow>
                       (case rn_ensure_crew (cx_runner ctx) c w of
                          (r, w) \<Rightarrow> (map_err runner_error_display r, w)))))"

text \<open>The \<open>match step\<close> of the loop: the outcome, the world, and the launch plans.\<close>

fun perform ::
  "('w, 'c) reconcile_context \<Rightarrow> (agent_id, resolved_agent) btree \<Rightarrow> step
     \<Rightarrow> (agent_id, launch_plan) btree \<Rightarrow> 'w \<Rightarrow> step_outcome \<times> (agent_id, launch_plan) btree \<times> 'w" where
  "perform ctx agents (Stop i) plans w =
     (case rn_stop_agent (cx_runner ctx) i w of (r, w) \<Rightarrow> (map_err runner_error_display r, plans, w))"
| "perform ctx agents (RemoveAgent i) plans w =
     (case mz_remove_agent (cx_materializer ctx) i w of
        (r, w) \<Rightarrow> (map_err materialize_error_display r, plans, w))"
| "perform ctx agents (RemoveCrew c keep) plans w =
     (case rn_stop_crew (cx_runner ctx) c w of
        (Inl e, w) \<Rightarrow> (Inl (runner_error_display e), plans, w)
      | (Inr _, w) \<Rightarrow>
          (case mz_remove_crew (cx_materializer ctx) c keep w of
             (r, w) \<Rightarrow> (map_err materialize_error_display r, plans, w)))"
| "perform ctx agents (EnsureCrew c) plans w =
     (case ensure_crew ctx c w of (r, w) \<Rightarrow> (r, plans, w))"
| "perform ctx agents (Materialize i) plans w =
     (case bt_get agents i of
        Some agent \<Rightarrow>
          (case mz_materialize (cx_materializer ctx) agent (cx_creds ctx) (cx_hooks ctx i) w of
             (Inl e, w) \<Rightarrow> (Inl (materialize_error_display e), plans, w)
           | (Inr p, w) \<Rightarrow> (Inr (), bt_insert i p plans, w))
      | None \<Rightarrow> (Inl (agent_id_display i @ '': not in the desired fleet''), plans, w))"
| "perform ctx agents (Start i h) plans w =
     (case bt_get plans i of
        Some p \<Rightarrow>
          (case rn_ensure_agent (cx_runner ctx) i p w of
             (r, w) \<Rightarrow> (map_err runner_error_display r, plans, w))
      | None \<Rightarrow> (Inl (agent_id_display i @ '': no launch plan (materialize did not run)''), plans, w))"
| "perform ctx agents (NoteExit i code) plans w = (Inr (), plans, w)"

definition kept_note :: "crew_ref \<Rightarrow> string" where
  "kept_note c =
     ''; crew '' @ crew_ref_display c @ '' is kept until this is fixed, or `balerix down ''
     @ cr_fleet c @ '' --purge` deletes it unharvested''"

definition skip :: "step \<Rightarrow> 'w exec_state \<Rightarrow> 'w exec_state" where
  "skip st ex = ex\<lparr>ex_report := (ex_report ex)\<lparr>rep_skipped := rep_skipped (ex_report ex) @ [st]\<rparr>\<rparr>"

text \<open>The first half of the loop body: the step is skipped (the new state), or goes on.\<close>

definition check_skip :: "step \<Rightarrow> 'w exec_state \<Rightarrow> 'w exec_state option" where
  "check_skip st ex =
     (case step_agent_id st of
        Some i \<Rightarrow>
          if i \<in> set (ex_failed_agents ex) then Some (skip st ex)
          else (case bt_get (ex_failed_crews ex) (crew_ref_of i) of
                  Some err \<Rightarrow>
                    Some (skip st (ex\<lparr>ex_status :=
                      entry (agent_id_display i) (\<lambda>a. a\<lparr>st_message := err\<rparr>) (ex_status ex)\<rparr>))
                | None \<Rightarrow> None)
      | None \<Rightarrow>
          (case st of
             RemoveCrew c _ \<Rightarrow>
               if list_ex (\<lambda>i. crew_ref_of i = c) (ex_failed_agents ex)
               then Some (skip st (ex\<lparr>ex_status :=
                      fold (\<lambda>i s. entry (agent_id_display i)
                              (\<lambda>a. a\<lparr>st_message := st_message a @ kept_note c\<rparr>) s)
                        (filter (\<lambda>i. crew_ref_of i = c) (ex_failed_removals ex)) (ex_status ex)\<rparr>))
               else None
           | _ \<Rightarrow> None))"

text \<open>The second half: what a failed outcome records.\<close>

definition record_failure :: "step \<Rightarrow> string \<Rightarrow> 'w exec_state \<Rightarrow> 'w exec_state" where
  "record_failure st e ex =
     (let ex = (case st of
          EnsureCrew c \<Rightarrow> ex\<lparr>ex_failed_crews := bt_insert c e (ex_failed_crews ex)\<rparr>
        | _ \<Rightarrow>
            (case step_agent_id st of
               Some i \<Rightarrow>
                 let ex = ex\<lparr>ex_failed_agents := ex_failed_agents ex @ [i]\<rparr>
                 in (case st of
                       RemoveAgent _ \<Rightarrow> ex\<lparr>ex_failed_removals := ex_failed_removals ex @ [i]\<rparr>
                     | _ \<Rightarrow> ex)
             | None \<Rightarrow> ex))
      in ex\<lparr>ex_report := (ex_report ex)\<lparr>rep_failures := rep_failures (ex_report ex) @ [(st, e)]\<rparr>\<rparr>)"

definition execute_step ::
  "('w, 'c) reconcile_context \<Rightarrow> (agent_id, resolved_agent) btree \<Rightarrow> step \<Rightarrow> 'w exec_state
     \<Rightarrow> 'w exec_state" where
  "execute_step ctx agents st ex =
     (case check_skip st ex of
        Some ex \<Rightarrow> ex
      | None \<Rightarrow>
          (case cx_clock ctx (ex_world ex) of (now, w) \<Rightarrow>
           case perform ctx agents st (ex_plans ex) w of (outcome, plans, w) \<Rightarrow>
           let ex = ex\<lparr>ex_world := w, ex_plans := plans,
                       ex_status := apply_step (ex_status ex) st outcome (cx_policy ctx) now\<rparr>
           in case outcome of Inr _ \<Rightarrow> ex | Inl e \<Rightarrow> record_failure st e ex))"

definition exec_start :: "fleet_status \<Rightarrow> 'w \<Rightarrow> 'w exec_state" where
  "exec_start s w =
     \<lparr>ex_status = s, ex_world = w, ex_report = \<lparr>rep_failures = [], rep_skipped = []\<rparr>,
      ex_failed_agents = [], ex_failed_removals = [], ex_failed_crews = [], ex_plans = []\<rparr>"

definition execute ::
  "('w, 'c) reconcile_context \<Rightarrow> plan \<Rightarrow> fleet_status \<Rightarrow> 'w \<Rightarrow> fleet_status \<times> execute_report \<times> 'w" where
  "execute ctx p s w =
     (let ex = fold (execute_step ctx (desired_agents_of (cx_desired ctx))) p (exec_start s w)
      in (finish_pass (ex_status ex) (cx_desired ctx = None) (all_ok (ex_report ex)),
          ex_report ex, ex_world ex))"

definition reconcile_pass ::
  "(hash_input \<Rightarrow> spec_hash) \<Rightarrow> ('w, 'c) reconcile_context \<Rightarrow> fleet_status \<Rightarrow> 'w
     \<Rightarrow> (runner_error + plan \<times> execute_report) \<times> fleet_status \<times> 'w" where
  "reconcile_pass digest ctx s w =
     (case rn_observe (cx_runner ctx) (cx_fleet ctx) w of
        (Inl e, w) \<Rightarrow> (Inl e, s, w)
      | (Inr observed, w) \<Rightarrow>
          (case cx_clock ctx w of (now, w) \<Rightarrow>
           let p = plan digest (cx_fleet ctx) (cx_desired ctx) (cx_keep ctx) (cx_stopped ctx) s observed now
           in case execute ctx p s w of (s, report, w) \<Rightarrow> (Inr (p, report), s, w)))"

section \<open>Traces\<close>

text \<open>
  What happened to a step: skipped, with the messages written for it, or performed with an outcome
  at a time. The trace of a plan is one event per step.
\<close>

datatype event =
    Skipped (event_step: step) "change list"
  | Performed (event_step: step) step_outcome timestamp

definition event_of ::
  "('w, 'c) reconcile_context \<Rightarrow> (agent_id, resolved_agent) btree \<Rightarrow> step \<Rightarrow> 'w exec_state \<Rightarrow> event" where
  "event_of ctx agents st ex =
     (if check_skip st ex = None
      then case cx_clock ctx (ex_world ex) of (now, w) \<Rightarrow>
             Performed st (fst (perform ctx agents st (ex_plans ex) w)) now
      else Skipped st
        (case step_agent_id st of
           Some i \<Rightarrow>
             if i \<in> set (ex_failed_agents ex) then []
             else [Message i (the (bt_get (ex_failed_crews ex) (crew_ref_of i)))]
         | None \<Rightarrow>
             (case st of
                RemoveCrew c _ \<Rightarrow>
                  map (\<lambda>i. Note i (kept_note c)) (filter (\<lambda>i. crew_ref_of i = c) (ex_failed_removals ex))
              | _ \<Rightarrow> [])))"

fun trace ::
  "('w, 'c) reconcile_context \<Rightarrow> (agent_id, resolved_agent) btree \<Rightarrow> plan \<Rightarrow> 'w exec_state \<Rightarrow> event list" where
  "trace ctx agents [] ex = []"
| "trace ctx agents (st # p) ex = event_of ctx agents st ex # trace ctx agents p (execute_step ctx agents st ex)"

fun event_changes :: "event \<Rightarrow> change list" where
  "event_changes (Skipped _ cs) = cs"
| "event_changes (Performed st r now) = [Outcome st r now]"

fun event_failure :: "event \<Rightarrow> (step \<times> string) option" where
  "event_failure (Performed st (Inl e) now) = Some (st, e)"
| "event_failure _ = None"

fun event_skipped :: "event \<Rightarrow> bool" where
  "event_skipped (Skipped _ _) = True"
| "event_skipped (Performed _ _ _) = False"

definition agent_failed :: "event list \<Rightarrow> agent_id \<Rightarrow> bool" where
  "agent_failed ts i = list_ex (\<lambda>ev. case event_failure ev of
     Some (st, _) \<Rightarrow> step_agent_id st = Some i | None \<Rightarrow> False) ts"

definition crew_failed :: "event list \<Rightarrow> crew_ref \<Rightarrow> bool" where
  "crew_failed ts c = list_ex (\<lambda>ev. case event_failure ev of
     Some (st, _) \<Rightarrow> st = EnsureCrew c | None \<Rightarrow> False) ts"

text \<open>The documented reason to skip a step, given what happened before it.\<close>

definition blocked :: "event list \<Rightarrow> step \<Rightarrow> bool" where
  "blocked ts st =
     (case step_agent_id st of
        Some i \<Rightarrow> agent_failed ts i \<or> crew_failed ts (crew_ref_of i)
      | None \<Rightarrow> (case st of RemoveCrew c _ \<Rightarrow> \<exists>i. crew_ref_of i = c \<and> agent_failed ts i | _ \<Rightarrow> False))"

definition report_of :: "event list \<Rightarrow> execute_report" where
  "report_of ts =
     \<lparr>rep_failures = List.map_filter event_failure ts,
      rep_skipped = map event_step (filter event_skipped ts)\<rparr>"

text \<open>The executor's variables hold what the trace so far says.\<close>

definition tracks :: "event list \<Rightarrow> 'w exec_state \<Rightarrow> bool" where
  "tracks ts ex =
     ((\<forall>i. i \<in> set (ex_failed_agents ex) \<longleftrightarrow> agent_failed ts i)
      \<and> (\<forall>c. bt_get (ex_failed_crews ex) c \<noteq> None \<longleftrightarrow> crew_failed ts c)
      \<and> ex_report ex = report_of ts)"

lemma event_step_of [simp]: "event_step (event_of ctx agents st ex) = st"
  by (simp add: event_of_def split: prod.split)

lemma trace_steps [simp]: "map event_step (trace ctx agents p ex) = p"
  by (induction p arbitrary: ex) auto

lemma trace_append:
  "trace ctx agents (p @ q) ex =
     trace ctx agents p ex @ trace ctx agents q (fold (execute_step ctx agents) p ex)"
  by (induction p arbitrary: ex) auto

lemma fold_notes:
  "fold (\<lambda>i s. entry (agent_id_display i) (\<lambda>a. a\<lparr>st_message := st_message a @ m\<rparr>) s) is s
     = fold (change_status policy) (map (\<lambda>i. Note i m) is) s"
  by (induction "is" arbitrary: s) auto

lemma record_failure_status [simp]:
  "ex_status (record_failure st e ex) = ex_status ex"
  "ex_plans (record_failure st e ex) = ex_plans ex"
  by (simp_all add: record_failure_def Let_def split: step.split)

lemma skip_fields [simp]:
  "ex_status (skip st ex) = ex_status ex" "ex_failed_agents (skip st ex) = ex_failed_agents ex"
  "ex_failed_crews (skip st ex) = ex_failed_crews ex" "ex_world (skip st ex) = ex_world ex"
  "ex_failed_removals (skip st ex) = ex_failed_removals ex" "ex_plans (skip st ex) = ex_plans ex"
  "ex_report (skip st ex) = (ex_report ex)\<lparr>rep_skipped := rep_skipped (ex_report ex) @ [st]\<rparr>"
  by (simp_all add: skip_def)

lemma execute_step_status:
  "ex_status (execute_step ctx agents st ex) =
     fold (change_status (cx_policy ctx)) (event_changes (event_of ctx agents st ex)) (ex_status ex)"
proof (cases "check_skip st ex")
  case None
  obtain now w where clock: "cx_clock ctx (ex_world ex) = (now, w)" by (cases "cx_clock ctx (ex_world ex)")
  obtain r plans w' where "perform ctx agents st (ex_plans ex) w = (r, plans, w')"
    by (cases "perform ctx agents st (ex_plans ex) w")
  then show ?thesis
    using None clock by (cases r) (simp_all add: execute_step_def event_of_def Let_def)
next
  case (Some ex')
  then show ?thesis
    by (auto simp: execute_step_def event_of_def check_skip_def fold_notes[where policy = "cx_policy ctx"]
        split: option.splits if_splits step.splits)
qed

lemma execute_status:
  "ex_status (fold (execute_step ctx agents) p ex) =
     fold (change_status (cx_policy ctx)) (concat (map event_changes (trace ctx agents p ex))) (ex_status ex)"
  by (induction p arbitrary: ex) (simp_all add: execute_step_status)

lemma execute_step_skipped:
  assumes "check_skip st ex = Some ex'"
  shows "execute_step ctx agents st ex = ex'" "event_skipped (event_of ctx agents st ex)"
    "ex_failed_agents ex' = ex_failed_agents ex" "ex_failed_crews ex' = ex_failed_crews ex"
    "ex_failed_removals ex' = ex_failed_removals ex" "ex_plans ex' = ex_plans ex" "ex_world ex' = ex_world ex"
    "ex_report ex' = (ex_report ex)\<lparr>rep_skipped := rep_skipped (ex_report ex) @ [st]\<rparr>"
  using assms
  by (auto simp: execute_step_def event_of_def check_skip_def split: option.splits if_splits step.splits)

lemma execute_step_performed:
  assumes "check_skip st ex = None"
  obtains r now plans w' where
    "event_of ctx agents st ex = Performed st r now"
    "perform ctx agents st (ex_plans ex) (snd (cx_clock ctx (ex_world ex))) = (r, plans, w')"
    "execute_step ctx agents st ex =
       (let ex' = ex\<lparr>ex_world := w', ex_plans := plans,
                    ex_status := apply_step (ex_status ex) st r (cx_policy ctx) now\<rparr>
        in case r of Inr _ \<Rightarrow> ex' | Inl e \<Rightarrow> record_failure st e ex')"
proof -
  obtain now w where clock: "cx_clock ctx (ex_world ex) = (now, w)" by (cases "cx_clock ctx (ex_world ex)")
  obtain r plans w' where "perform ctx agents st (ex_plans ex) w = (r, plans, w')"
    by (cases "perform ctx agents st (ex_plans ex) w")
  then show thesis
    using that[of r now plans w'] assms clock by (simp add: execute_step_def event_of_def Let_def)
qed

lemma record_failure_agents:
  "ex_failed_agents (record_failure st e ex) =
     ex_failed_agents ex @ (case step_agent_id st of Some i \<Rightarrow> [i] | None \<Rightarrow> [])"
  "ex_failed_crews (record_failure st e ex) =
     (case st of EnsureCrew c \<Rightarrow> bt_insert c e (ex_failed_crews ex) | _ \<Rightarrow> ex_failed_crews ex)"
  "ex_failed_removals (record_failure st e ex) =
     ex_failed_removals ex @ (case st of RemoveAgent i \<Rightarrow> [i] | _ \<Rightarrow> [])"
  "ex_report (record_failure st e ex) =
     (ex_report ex)\<lparr>rep_failures := rep_failures (ex_report ex) @ [(st, e)]\<rparr>"
  by (simp_all add: record_failure_def Let_def split: step.split)

lemma agent_failed_snoc [simp]:
  "agent_failed (ts @ [ev]) i \<longleftrightarrow> agent_failed ts i
     \<or> (\<exists>st e. event_failure ev = Some (st, e) \<and> step_agent_id st = Some i)"
  by (auto simp: agent_failed_def split: option.split)

lemma crew_failed_snoc [simp]:
  "crew_failed (ts @ [ev]) c \<longleftrightarrow> crew_failed ts c \<or> (\<exists>e. event_failure ev = Some (EnsureCrew c, e))"
  by (auto simp: crew_failed_def split: option.split)

lemma map_filter_snoc:
  "List.map_filter f (xs @ [x]) = List.map_filter f xs @ (case f x of Some y \<Rightarrow> [y] | None \<Rightarrow> [])"
  by (simp add: map_filter_def split: option.split)

lemma check_skip_blocked:
  assumes "tracks ts ex"
  shows "check_skip st ex = None \<longleftrightarrow> \<not> blocked ts st"
proof -
  have "crew_failed ts c \<longleftrightarrow> bt_get (ex_failed_crews ex) c \<noteq> None" for c
    using assms unfolding tracks_def by blast
  moreover have "agent_failed ts i \<longleftrightarrow> i \<in> set (ex_failed_agents ex)" for i
    using assms by (simp add: tracks_def)
  ultimately show ?thesis
    by (auto simp: check_skip_def blocked_def list_ex_iff split: option.splits step.splits)
qed

lemma tracks_step:
  assumes "tracks ts ex"
  shows "tracks (ts @ [event_of ctx agents st ex]) (execute_step ctx agents st ex)"
proof (cases "check_skip st ex")
  case (Some ex')
  note skipped = execute_step_skipped(1,2)[OF Some, of ctx agents] execute_step_skipped(3-)[OF Some]
  obtain cs where "event_of ctx agents st ex = Skipped st cs"
    using skipped(2) event_step_of[of ctx agents st ex]
    by (cases "event_of ctx agents st ex") simp_all
  then show ?thesis
    using assms skipped by (simp add: tracks_def report_of_def map_filter_snoc)
next
  case None
  from execute_step_performed[OF None] obtain r now plans w' where ev:
    "event_of ctx agents st ex = Performed st r now"
    "execute_step ctx agents st ex =
       (let ex' = ex\<lparr>ex_world := w', ex_plans := plans,
                    ex_status := apply_step (ex_status ex) st r (cx_policy ctx) now\<rparr>
        in case r of Inr _ \<Rightarrow> ex' | Inl e \<Rightarrow> record_failure st e ex')"
    by metis
  show ?thesis
  proof (cases r)
    case (Inl e)
    then show ?thesis
      using assms ev
      by (auto simp: tracks_def report_of_def map_filter_snoc Let_def record_failure_agents
          split: option.splits step.splits)
  next
    case (Inr u)
    then show ?thesis
      using assms ev by (simp add: tracks_def report_of_def map_filter_snoc Let_def)
  qed
qed

lemma tracks_start [simp]: "tracks [] (exec_start s w)"
  by (simp add: tracks_def exec_start_def agent_failed_def crew_failed_def report_of_def
      map_filter_simps)

lemma tracks_fold:
  "tracks ts ex \<Longrightarrow> tracks (ts @ trace ctx agents p ex) (fold (execute_step ctx agents) p ex)"
proof (induction p arbitrary: ts ex)
  case (Cons st p)
  then show ?case
    using Cons.IH[OF tracks_step[OF Cons.prems, of ctx agents st]] by simp
qed simp

lemma trace_split:
  assumes "trace ctx agents p ex = ts @ ev # us"
  shows "\<exists>p1 st p2. p = p1 @ st # p2 \<and> ts = trace ctx agents p1 ex
    \<and> ev = event_of ctx agents st (fold (execute_step ctx agents) p1 ex)"
  using assms
proof (induction p arbitrary: ex ts)
  case (Cons st p)
  show ?case
  proof (cases ts)
    case Nil
    then show ?thesis using Cons.prems by (intro exI[of _ "[]"] exI[of _ st] exI[of _ p]) simp
  next
    case (Cons ev' ts')
    then obtain p1 st' p2 where "p = p1 @ st' # p2" "ts' = trace ctx agents p1 (execute_step ctx agents st ex)"
        "ev = event_of ctx agents st' (fold (execute_step ctx agents) p1 (execute_step ctx agents st ex))"
      using Cons.IH[of "execute_step ctx agents st ex" ts'] Cons.prems by auto
    then show ?thesis
      using Cons Cons.prems by (intro exI[of _ "st # p1"] exI[of _ st'] exI[of _ p2]) simp
  qed
qed simp

lemma event_skipped_iff:
  "event_skipped (event_of ctx agents st ex) \<longleftrightarrow> check_skip st ex \<noteq> None"
  by (simp add: event_of_def split: prod.split)

lemma trace_skips:
  assumes "trace ctx agents p (exec_start s w) = ts @ ev # us"
  shows "event_skipped ev \<longleftrightarrow> blocked ts (event_step ev)"
proof -
  obtain p1 st where ts: "ts = trace ctx agents p1 (exec_start s w)"
    and ev: "ev = event_of ctx agents st (fold (execute_step ctx agents) p1 (exec_start s w))"
    using trace_split[OF assms] by blast
  have "tracks ts (fold (execute_step ctx agents) p1 (exec_start s w))"
    using tracks_fold[OF tracks_start, of ctx agents p1 s w] ts by simp
  from check_skip_blocked[OF this, of st] show ?thesis
    unfolding ev event_skipped_iff event_step_of by (simp only: not_not)
qed

abbreviation execution :: "('w, 'c) reconcile_context \<Rightarrow> plan \<Rightarrow> fleet_status \<Rightarrow> 'w \<Rightarrow> event list" where
  "execution ctx p s w \<equiv> trace ctx (desired_agents_of (cx_desired ctx)) p (exec_start s w)"

lemma execute_report_of: "fst (snd (execute ctx p s w)) = report_of (execution ctx p s w)"
  using tracks_fold[OF tracks_start, of ctx "desired_agents_of (cx_desired ctx)" p s w]
  by (simp add: execute_def Let_def tracks_def)

lemma report_failure_mem:
  "(st, e) \<in> set (rep_failures (report_of ts)) \<longleftrightarrow> (\<exists>now. Performed st (Inl e) now \<in> set ts)"
proof -
  have "event_failure ev = Some (st, e) \<longleftrightarrow> (\<exists>now. ev = Performed st (Inl e) now)" for ev
    by (cases ev rule: event_failure.cases) auto
  then show ?thesis by (auto simp: report_of_def set_map_filter_Some)
qed

lemma agent_failed_iff:
  "agent_failed ts i \<longleftrightarrow> (\<exists>st e. (st, e) \<in> set (rep_failures (report_of ts)) \<and> step_agent_id st = Some i)"
  by (fastforce simp: agent_failed_def list_ex_iff report_of_def set_map_filter_Some
      split: option.splits)

section \<open>An execution seen at one agent\<close>

definition removals_ok :: "'w exec_state \<Rightarrow> bool" where
  "removals_ok ex = list_all agent_id_ok (ex_failed_removals ex)"

lemma removals_ok_start [simp]: "removals_ok (exec_start s w)"
  by (simp add: removals_ok_def exec_start_def)

lemma step_ok_agent: "step_ok st \<Longrightarrow> step_agent_id st = Some i \<Longrightarrow> agent_id_ok i"
  by (cases st) auto

lemma removals_ok_step:
  assumes "step_ok st" "removals_ok ex"
  shows "removals_ok (execute_step ctx agents st ex)"
proof (cases "check_skip st ex")
  case (Some ex')
  then show ?thesis
    using assms execute_step_skipped(1)[OF Some, of ctx agents] execute_step_skipped(5)[OF Some] by (simp add: removals_ok_def)
next
  case None
  from execute_step_performed[OF None] obtain r now plans w' where
    "execute_step ctx agents st ex =
       (let ex' = ex\<lparr>ex_world := w', ex_plans := plans,
                    ex_status := apply_step (ex_status ex) st r (cx_policy ctx) now\<rparr>
        in case r of Inr _ \<Rightarrow> ex' | Inl e \<Rightarrow> record_failure st e ex')"
    by metis
  then show ?thesis
    using assms
    by (cases r; cases st) (simp_all add: removals_ok_def Let_def record_failure_agents)
qed

lemma event_changes_ok:
  assumes "step_ok st" "removals_ok ex"
  shows "list_all change_ok (event_changes (event_of ctx agents st ex))"
  using assms step_ok_agent[OF assms(1)]
  by (auto simp: event_of_def removals_ok_def list_all_iff split: option.splits step.splits prod.splits)

lemma event_changes_unconcerned:
  "\<not> concerns st i \<Longrightarrow> list_all (\<lambda>c. \<not> change_about c i) (event_changes (event_of ctx agents st ex))"
  by (auto simp: event_of_def concerns_def list_all_iff split: option.splits step.splits prod.splits)

lemma execute_step_unconcerned:
  assumes "step_ok st" "removals_ok ex" "agent_id_ok i" "\<not> concerns st i \<or> (\<exists>c. st = EnsureCrew c)"
  shows "status_of (ex_status (execute_step ctx agents st ex)) i = status_of (ex_status ex) i"
proof (cases "\<exists>c. st = EnsureCrew c")
  case True
  then show ?thesis
    by (auto simp: execute_step_status event_of_def check_skip_def split: prod.split)
next
  case False
  then show ?thesis
    using assms event_changes_unconcerned[of st i ctx agents ex]
      changes.view_fold_unrelated[OF event_changes_ok[OF assms(1,2)] assms(3)]
    by (auto simp: execute_step_status)
qed

lemma failed_agents_step:
  assumes "step_agent_id st \<noteq> Some i"
  shows "i \<in> set (ex_failed_agents (execute_step ctx agents st ex)) \<longleftrightarrow> i \<in> set (ex_failed_agents ex)"
proof (cases "check_skip st ex")
  case (Some ex')
  then show ?thesis using execute_step_skipped(1)[OF Some, of ctx agents] execute_step_skipped(3)[OF Some] by simp
next
  case None
  from execute_step_performed[OF None] obtain r now plans w' where
    "execute_step ctx agents st ex =
       (let ex' = ex\<lparr>ex_world := w', ex_plans := plans,
                    ex_status := apply_step (ex_status ex) st r (cx_policy ctx) now\<rparr>
        in case r of Inr _ \<Rightarrow> ex' | Inl e \<Rightarrow> record_failure st e ex')"
    by metis
  then show ?thesis
    using assms by (cases r) (auto simp: Let_def record_failure_agents split: option.splits)
qed

text \<open>A step of the agent itself: skipped after a failure, skipped with the crew's error, or performed.\<close>

lemma execute_own_step:
  assumes "step_agent_id st = Some i" "agent_id_ok i" "step_ok st"
  obtains (failed) "i \<in> set (ex_failed_agents ex)" "execute_step ctx agents st ex = skip st ex"
  | (crew) e where "i \<notin> set (ex_failed_agents ex)"
      "status_of (ex_status (execute_step ctx agents st ex)) i =
         touch (\<lambda>a. a\<lparr>st_message := e\<rparr>) (status_of (ex_status ex) i)"
      "ex_failed_agents (execute_step ctx agents st ex) = ex_failed_agents ex"
  | (performed) r now where "i \<notin> set (ex_failed_agents ex)"
      "status_of (ex_status (execute_step ctx agents st ex)) i =
         outcome_effect st r (cx_policy ctx) now (status_of (ex_status ex) i)"
      "i \<in> set (ex_failed_agents (execute_step ctx agents st ex)) \<longleftrightarrow> r \<noteq> Inr ()"
      "(\<exists>c. st = NoteExit i c) \<Longrightarrow> r = Inr ()"
proof (cases "check_skip st ex")
  case (Some ex')
  show thesis
  proof (cases "i \<in> set (ex_failed_agents ex)")
    case True
    then show thesis using assms(1) failed by (simp add: execute_step_def check_skip_def)
  next
    case False
    then obtain err where "ex' = skip st (ex\<lparr>ex_status :=
        entry (agent_id_display i) (\<lambda>a. a\<lparr>st_message := err\<rparr>) (ex_status ex)\<rparr>)"
      using Some assms(1) by (auto simp: check_skip_def split: option.splits)
    then show thesis
      using crew[OF False, of err] execute_step_skipped(1)[OF Some, of ctx agents] assms(2)
      by (simp add: status_of_entry)
  qed
next
  case None
  have fresh: "i \<notin> set (ex_failed_agents ex)"
    using None assms(1) by (auto simp: check_skip_def)
  from execute_step_performed[OF None] obtain r now plans w' where ex:
    "perform ctx agents st (ex_plans ex) (snd (cx_clock ctx (ex_world ex))) = (r, plans, w')"
    "execute_step ctx agents st ex =
       (let ex' = ex\<lparr>ex_world := w', ex_plans := plans,
                    ex_status := apply_step (ex_status ex) st r (cx_policy ctx) now\<rparr>
        in case r of Inr _ \<Rightarrow> ex' | Inl e \<Rightarrow> record_failure st e ex')"
    by metis
  have "concerns st i" using assms(1) by (cases st) (simp_all add: concerns_def)
  then have st: "status_of (ex_status (execute_step ctx agents st ex)) i =
         outcome_effect st r (cx_policy ctx) now (status_of (ex_status ex) i)"
    using ex(2) status_of_apply[OF assms(2,3)] by (cases r) (simp_all add: Let_def)
  have fail: "i \<in> set (ex_failed_agents (execute_step ctx agents st ex)) \<longleftrightarrow> r \<noteq> Inr ()"
    using ex(2) fresh assms(1) by (cases r) (simp_all add: Let_def record_failure_agents)
  have "r = Inr ()" if "\<exists>c. st = NoteExit i c" using that ex(1) by auto
  then show thesis by (rule performed[OF fresh st fail])
qed

lemma execute_failed_agent:
  assumes "agent_id_ok i" "list_all step_ok p" "removals_ok ex" "i \<in> set (ex_failed_agents ex)"
    and "\<And>k. RemoveCrew (crew_ref_of i) k \<notin> set p"
  shows "status_of (ex_status (fold (execute_step ctx agents) p ex)) i = status_of (ex_status ex) i"
  using assms
proof (induction p arbitrary: ex)
  case (Cons st p)
  let ?ex = "execute_step ctx agents st ex"
  have ok: "step_ok st" "removals_ok ?ex" using Cons.prems removals_ok_step by auto
  have "status_of (ex_status ?ex) i = status_of (ex_status ex) i \<and> i \<in> set (ex_failed_agents ?ex)"
  proof (cases "step_agent_id st = Some i")
    case True
    then show ?thesis
      by (rule execute_own_step[OF _ Cons.prems(1) ok(1), of ex ctx agents]) (use Cons.prems(4) in auto)
  next
    case False
    have "\<not> concerns st i \<or> (\<exists>c. st = EnsureCrew c)"
      using False Cons.prems(5) by (cases st) (auto simp: concerns_def)
    then show ?thesis
      using execute_step_unconcerned[OF ok(1) Cons.prems(3,1)] failed_agents_step[OF False, of ctx agents ex]
        Cons.prems(4) by simp
  qed
  then show ?case using Cons.IH[of ?ex] Cons.prems ok by simp
qed simp

text \<open>A fresh agent's own steps move it along its lifecycle, whatever else the plan does.\<close>

lemma execute_lifecycle:
  assumes "agent_id_ok i" "list_all step_ok p" "removals_ok ex" "i \<notin> set (ex_failed_agents ex)"
    and "\<And>k. RemoveCrew (crew_ref_of i) k \<notin> set p"
  shows "(lifecycle (cx_policy ctx) i h)\<^sup>*\<^sup>*
    (status_of (ex_status ex) i, filter (\<lambda>x. step_agent_id x = Some i) p)
    (status_of (ex_status (fold (execute_step ctx agents) p ex)) i, [])"
  using assms
proof (induction p arbitrary: ex)
  case (Cons st p)
  let ?ex = "execute_step ctx agents st ex" and ?xs = "filter (\<lambda>x. step_agent_id x = Some i) p"
  let ?life = "lifecycle (cx_policy ctx) i h"
  have ok: "step_ok st" "removals_ok ?ex" "list_all step_ok p" "\<And>k. RemoveCrew (crew_ref_of i) k \<notin> set p"
    using Cons.prems removals_ok_step by auto
  note IH = Cons.IH[OF Cons.prems(1) ok(3,2) _ ok(4)]
  show ?case
  proof (cases "step_agent_id st = Some i")
    case False
    have "\<not> concerns st i \<or> (\<exists>c. st = EnsureCrew c)"
      using False Cons.prems(5) by (cases st) (auto simp: concerns_def)
    then have "status_of (ex_status ?ex) i = status_of (ex_status ex) i"
      by (rule execute_step_unconcerned[OF ok(1) Cons.prems(3,1)])
    then show ?thesis
      using IH False failed_agents_step[OF False, of ctx agents ex] Cons.prems(4) by simp
  next
    case True
    then show ?thesis
    proof (cases rule: execute_own_step[OF _ Cons.prems(1) ok(1), of ex ctx agents, case_names own failed crew performed])
      case failed
      then show ?thesis using Cons.prems(4) by simp
    next
      case (crew e)
      have "?life (status_of (ex_status ex) i, st # ?xs) (status_of (ex_status ?ex) i, ?xs)"
        using crew(2) lifecycle.crew_error by metis
      then show ?thesis using IH crew True Cons.prems(4) by (simp add: converse_rtranclp_into_rtranclp)
    next
      case (performed r now)
      show ?thesis
      proof (cases "r = Inr ()")
        case r: True
        have "?life (status_of (ex_status ex) i, st # ?xs) (status_of (ex_status ?ex) i, ?xs)"
          using performed(2) r lifecycle.succeed by metis
        then show ?thesis using IH performed(3) r True by (simp add: converse_rtranclp_into_rtranclp)
      next
        case r: False
        then obtain e where e: "r = Inl e" by (cases r) auto
        have "?life (status_of (ex_status ex) i, st # ?xs) (status_of (ex_status ?ex) i, [])"
          using performed(2,4) e r lifecycle.fail by metis
        moreover have "status_of (ex_status (fold (execute_step ctx agents) p ?ex)) i = status_of (ex_status ?ex) i"
          using execute_failed_agent[OF Cons.prems(1) ok(3,2) _ ok(4)] performed(3) r by blast
        ultimately show ?thesis using True by simp
      qed
    qed
  qed
qed simp

section \<open>Whole passes\<close>

text \<open>
  The types of the source guarantee these: crew and agent names a runner reports are validated
  names in ordered maps, and a desired fleet is a validated one.
\<close>

definition observed_ok :: "observed_state \<Rightarrow> bool" where
  "observed_ok ob =
     (observed_wf ob
      \<and> list_all (\<lambda>(c, m). valid_name c \<and> list_all (\<lambda>(a, _). valid_name a) m) (obs_crews ob))"

definition context_ok :: "('w, 'c) reconcile_context \<Rightarrow> bool" where
  "context_ok ctx \<longleftrightarrow>
     valid_name (cx_fleet ctx) \<and> (case cx_desired ctx of None \<Rightarrow> True | Some f \<Rightarrow> fleet_ok f)
     \<and> (\<forall>w ob w'. rn_observe (cx_runner ctx) (cx_fleet ctx) w = (Inr ob, w') \<longrightarrow> observed_ok ob)"

lemma desired_agents_ok:
  assumes "case desired of None \<Rightarrow> True | Some f \<Rightarrow> fleet_ok f"
    and "bt_get (desired_agents_of desired) i = Some a"
  shows "agent_id_ok i"
proof -
  obtain f where f: "desired = Some f" using assms(2) by (cases desired) (auto simp: desired_agents_of_def)
  then have "(i, a) \<in> set (map (\<lambda>a. (ra_id a, a)) (from_fleet f))"
    using assms(2) map_of_SomeD
    by (fastforce simp: desired_agents_of_def bt_get_collect)
  then show ?thesis using from_fleet_facts(1)[of f a] assms(1) f by auto
qed

lemma known_agents_ok:
  assumes "observed_ok ob" "valid_name fleet" "i \<in> set (known_agents_of fleet s ob)"
  shows "agent_id_ok i"
proof -
  have "agent_id_ok i" if i: "i \<in> set (agent_ids ob fleet)"
  proof -
    obtain c m where "(c, m) \<in> set (obs_crews ob)" and i: "i \<in> AgentId fleet c ` set (map fst m)"
      using i by (auto simp: agent_ids_def bt_keys_def simp del: bt_keys_set)
    then show ?thesis using assms(1,2) by (fastforce simp: observed_ok_def list_all_iff agent_id_ok_def)
  qed
  then show ?thesis using assms(3) by (auto simp: known_agents_of_def parsed_keys)
qed

lemma known_crews_ok:
  assumes "observed_ok ob" "valid_name fleet" "known_crew fleet s ob c"
  shows "crew_ref_ok c"
proof (cases "c \<in> crew_ref_of ` set (known_agents_of fleet s ob)")
  case True
  then show ?thesis using known_agents_ok[OF assms(1,2)] by auto
next
  case False
  then obtain m where "bt_get (obs_crews ob) (cr_crew c) = Some m" "cr_fleet c = fleet"
    using assms(3) by (auto simp: known_crew_def)
  then show ?thesis
    using assms(1,2) bt_get_SomeD by (fastforce simp: observed_ok_def list_all_iff crew_ref_ok_def)
qed

lemma plan_steps_ok:
  assumes "observed_ok ob" "valid_name fleet" "case desired of None \<Rightarrow> True | Some f \<Rightarrow> fleet_ok f"
  shows "list_all step_ok (plan digest fleet desired keep stopped s ob now)"
proof -
  have agents: "agent_id_ok (fst e)" if e: "e \<in> set (desired_agents_of desired)" for e
    using desired_agents_ok[OF assms(3), of "fst e" "snd e"] bt_get_iff[OF desired_agents_wf] e by simp
  have crews: "crew_ref_ok c" if "desired_crew desired c" for c
    using that desired_agents_ok[OF assms(3)] by (auto simp: desired_crew_def)
  have "step_ok x" if x: "x \<in> set (plan digest fleet desired keep stopped s ob now)" for x
  proof (cases "step_agent_id x")
    case None
    then show ?thesis
      using x known_crews_ok[OF assms(1,2), of s] crews by (cases x) (auto simp: plan_crew_steps)
  next
    case (Some i)
    have push: "step_agent_id x = Some (fst e)"
      if "x \<in> set (fst (plan_desired digest stopped s ob now e)) \<or>
          x \<in> set (snd (plan_desired digest stopped s ob now e))" for e
      using that plan_desired_key[of x digest stopped s ob now e] by auto
    have "agent_id_ok i"
      using x Some agents push known_agents_ok[OF assms(1,2), of _ s]
      unfolding plan_parts
      by (auto simp: gone_agents_def split: if_splits)
    then show ?thesis using Some by (cases x) auto
  qed
  then show ?thesis by (simp add: list_all_iff)
qed

lemma reconcile_pass_Inr:
  assumes "reconcile_pass digest ctx s w = (Inr (p, rep), s', w')" "context_ok ctx"
  obtains ob now w1 where "observed_ok ob"
    "p = plan digest (cx_fleet ctx) (cx_desired ctx) (cx_keep ctx) (cx_stopped ctx) s ob now"
    "execute ctx p s w1 = (s', rep, w')" "list_all step_ok p"
proof -
  obtain ob w0 now w1 where obs: "rn_observe (cx_runner ctx) (cx_fleet ctx) w = (Inr ob, w0)"
      and "cx_clock ctx w0 = (now, w1)"
      and "p = plan digest (cx_fleet ctx) (cx_desired ctx) (cx_keep ctx) (cx_stopped ctx) s ob now"
      and "execute ctx p s w1 = (s', rep, w')"
    using assms(1) by (auto simp: reconcile_pass_def Let_def split: prod.splits sum.splits)
  moreover have "observed_ok ob" using assms(2) obs by (auto simp: context_ok_def)
  ultimately show thesis using that plan_steps_ok assms(2) by (auto simp: context_ok_def)
qed

lemma reconcile_pass_Inl: "reconcile_pass digest ctx s w = (Inl e, s', w') \<Longrightarrow> s' = s"
  by (auto simp: reconcile_pass_def Let_def split: prod.splits sum.splits)

lemma finish_pass_status_of [simp]: "status_of (finish_pass s t r) i = status_of s i"
  by (simp add: finish_pass_def status_of_def Let_def)

lemma desired_crew_of: "bt_get (desired_agents_of desired) i = Some a \<Longrightarrow> desired_crew desired (crew_ref_of i)"
  by (auto simp: desired_crew_def)

lemma pass_lifecycle:
  assumes "reconcile_pass digest ctx s w = (Inr (p, rep), s', w')" "context_ok ctx"
    and "bt_get (desired_agents_of (cx_desired ctx)) i = Some a" "i \<notin> set (cx_stopped ctx)"
  shows "(lifecycle (cx_policy ctx) i (agent_hash digest a))\<^sup>*\<^sup>* (status_of s i, []) (status_of s' i, [])"
proof -
  let ?h = "agent_hash digest a"
  obtain ob now w1 where ob: "observed_ok ob"
    and p: "p = plan digest (cx_fleet ctx) (cx_desired ctx) (cx_keep ctx) (cx_stopped ctx) s ob now"
    and ex: "execute ctx p s w1 = (s', rep, w')" and ok: "list_all step_ok p"
    using reconcile_pass_Inr[OF assms(1,2)] .
  have i: "agent_id_ok i" using desired_agents_ok assms(2,3) by (auto simp: context_ok_def)
  have "filter (\<lambda>x. step_agent_id x = Some i) p = decision i ?h (status_of s i) (observed_get ob i) now"
    using plan_at_agent[OF _ i, of ob] ob assms(3,4) p by (simp add: observed_ok_def agent_decision_def)
  moreover have "RemoveCrew (crew_ref_of i) k \<notin> set p" for k
    using p desired_crew_of[OF assms(3)] by (simp add: plan_crew_steps)
  ultimately have "(lifecycle (cx_policy ctx) i ?h)\<^sup>*\<^sup>*
      (status_of s i, decision i ?h (status_of s i) (observed_get ob i) now) (status_of s' i, [])"
    using execute_lifecycle[OF i ok removals_ok_start[of s w1], of ctx ?h "desired_agents_of (cx_desired ctx)"] ex
    by (auto simp: execute_def Let_def exec_start_def)
  then show ?thesis
    using converse_rtranclp_into_rtranclp[of "lifecycle (cx_policy ctx) i ?h"] lifecycle.observe by metis
qed

text \<open>
  The life of a fleet's status under one desired state: reconcile passes against any worlds,
  ready signals, and new generation numbers, in any order.
\<close>

inductive fleet_run ::
  "(hash_input \<Rightarrow> spec_hash) \<Rightarrow> ('w, 'c) reconcile_context \<Rightarrow> fleet_status \<Rightarrow> fleet_status \<Rightarrow> bool"
  for digest ctx where
  pass: "reconcile_pass digest ctx s w = (r, s', w') \<Longrightarrow> fleet_run digest ctx s s'"
| signal: "agent_id_ok j \<Longrightarrow> fleet_run digest ctx s (agent_ready s j now)"
| desire: "fleet_run digest ctx s (set_desired s generation)"

inductive_cases fleet_runE: "fleet_run digest ctx s s'"

lemma status_of_agent_ready:
  assumes "agent_id_ok i" "agent_id_ok j"
  shows "status_of (agent_ready s j now) i =
      (if i = j then map_option (\<lambda>a. a\<lparr>st_phase := Ready, st_restarts := 0,
          st_next_restart_at := None, st_last_event_at := Some now, st_message := []\<rparr>) (status_of s i)
       else status_of s i)"
  using agent_id_display_inj[OF assms]
  by (auto simp: agent_ready_def bt_contains_def status_of_def Let_def)

lemma fleet_run_lifecycle:
  assumes "fleet_run digest ctx s s'" "context_ok ctx"
    and "bt_get (desired_agents_of (cx_desired ctx)) i = Some a" "i \<notin> set (cx_stopped ctx)"
  shows "(lifecycle (cx_policy ctx) i (agent_hash digest a))\<^sup>*\<^sup>* (status_of s i, []) (status_of s' i, [])"
  using assms(1)
proof cases
  case (pass w r w')
  show ?thesis
  proof (cases r)
    case (Inl e)
    then show ?thesis using reconcile_pass_Inl[of digest ctx s w e s' w'] pass by simp
  next
    case (Inr pr)
    then show ?thesis using pass_lifecycle[OF _ assms(2-4)] pass by (cases pr) blast
  qed
next
  case (signal j now)
  have "agent_id_ok i" using desired_agents_ok assms(2,3) by (auto simp: context_ok_def)
  then have "lifecycle (cx_policy ctx) i (agent_hash digest a) (status_of s i, []) (status_of s' i, [])
      \<or> status_of s' i = status_of s i"
    using signal lifecycle.ready by (auto simp: status_of_agent_ready)
  then show ?thesis by auto
next
  case desire
  then show ?thesis by (simp add: set_desired_def status_of_def)
qed

lemma fleet_runs_lifecycle:
  assumes "(fleet_run digest ctx)\<^sup>*\<^sup>* s s'" "context_ok ctx"
    and "bt_get (desired_agents_of (cx_desired ctx)) i = Some a" "i \<notin> set (cx_stopped ctx)"
  shows "(lifecycle (cx_policy ctx) i (agent_hash digest a))\<^sup>*\<^sup>* (status_of s i, []) (status_of s' i, [])"
  using assms(1)
proof (induction rule: rtranclp_induct)
  case (step y z)
  then show ?case using fleet_run_lifecycle[OF step.hyps(2) assms(2-4)] by (meson rtranclp_trans)
qed simp

section \<open>Clean passes\<close>

lemma clean_trace:
  assumes "all_ok (report_of ts)" "ev \<in> set ts"
  obtains now where "ev = Performed (event_step ev) (Inr ()) now"
proof (cases ev)
  case (Skipped st cs)
  then show thesis using assms by (auto simp: all_ok_def report_of_def filter_empty_conv)
next
  case (Performed st r now)
  have "r \<noteq> Inl e" for e
    using assms Performed report_failure_mem[of st e ts] by (auto simp: all_ok_def)
  then show thesis using that[of now] Performed by (cases r) auto
qed

text \<open>What a clean trace does to one agent: the effects of the steps that concern it.\<close>

lemma clean_trace_status:
  assumes "all_ok (report_of (trace ctx agents p ex))" "list_all step_ok p" "agent_id_ok i"
  shows "status_of (ex_status (fold (execute_step ctx agents) p ex)) i =
    fold (\<lambda>ev. change_effect (cx_policy ctx) (hd (event_changes ev)))
      (filter (\<lambda>ev. concerns (event_step ev) i) (trace ctx agents p ex)) (status_of (ex_status ex) i)"
proof -
  let ?ts = "trace ctx agents p ex"
  have one: "event_changes ev = [hd (event_changes ev)] \<and> change_ok (hd (event_changes ev))
      \<and> (change_about (hd (event_changes ev)) i \<longleftrightarrow> concerns (event_step ev) i)" if ev: "ev \<in> set ?ts" for ev
  proof -
    obtain now where "ev = Performed (event_step ev) (Inr ()) now" using clean_trace[OF assms(1) ev] .
    moreover have "event_step ev \<in> set p" using ev trace_steps by (metis image_eqI list.set_map)
    ultimately show ?thesis using assms(2)
      by (metis change_about.simps(1) change_ok.simps(1) event_changes.simps(2) list.sel(1) list_all_iff)
  qed
  have flat: "concat (map event_changes ?ts) = map (\<lambda>ev. hd (event_changes ev)) ?ts"
    using one by (metis (mono_tags, lifting) concat_map_singleton map_cong)
  have own: "filter (\<lambda>c. change_about c i) (map (\<lambda>ev. hd (event_changes ev)) ?ts) =
      map (\<lambda>ev. hd (event_changes ev)) (filter (\<lambda>ev. concerns (event_step ev) i) ?ts)"
    using one by (simp add: filter_map comp_def cong: filter_cong)
  have good: "list_all change_ok (map (\<lambda>ev. hd (event_changes ev)) ?ts)"
    using one by (simp add: list_all_iff)
  show ?thesis
    unfolding execute_status flat changes.view_fold[OF good assms(3)] own by (simp add: fold_map comp_def)
qed

lemma fold_stays: "(\<And>y. y \<in> set xs \<Longrightarrow> f y c = c) \<Longrightarrow> fold f xs c = c"
  by (induction xs) auto

lemma fold_reaches:
  assumes "x \<in> set xs" "\<And>v. f x v = c" "\<And>y. y \<in> set xs \<Longrightarrow> f y c = c"
  shows "fold f xs v = c"
proof -
  obtain as bs where xs: "xs = as @ x # bs" using assms(1) by (meson split_list)
  have "fold f bs c = c" by (rule fold_stays) (use assms(3) xs in simp)
  then show ?thesis using assms(2) xs by simp
qed

text \<open>
  A clean pass seen at one agent: the effects of the plan's steps that concern the agent, all
  successful, in plan order.
\<close>

definition succeed_all :: "reconcile_policy \<Rightarrow> (step \<times> timestamp) list \<Rightarrow> agent_status option \<Rightarrow> agent_status option" where
  "succeed_all policy xs v = fold (\<lambda>(x, t). outcome_effect x (Inr ()) policy t) xs v"

lemma clean_events_effect:
  assumes "all_ok (report_of ts)" "set us \<subseteq> set ts"
  obtains xs where "map fst xs = map event_step us"
    "fold (\<lambda>ev. change_effect policy (hd (event_changes ev))) us v = succeed_all policy xs v"
proof -
  have "\<exists>xs. map fst xs = map event_step us
      \<and> fold (\<lambda>ev. change_effect policy (hd (event_changes ev))) us v = succeed_all policy xs v"
    using assms(2)
  proof (induction us arbitrary: v)
    case (Cons ev us)
    obtain t where t: "ev = Performed (event_step ev) (Inr ()) t"
      using clean_trace[OF assms(1), of ev] Cons.prems by auto
    then have eff: "change_effect policy (hd (event_changes ev)) = outcome_effect (event_step ev) (Inr ()) policy t"
      by (metis change_effect.simps(1) event_changes.simps(2) list.sel(1))
    obtain xs where "map fst xs = map event_step us"
        "fold (\<lambda>ev. change_effect policy (hd (event_changes ev))) us
           (change_effect policy (hd (event_changes ev)) v) =
         succeed_all policy xs (change_effect policy (hd (event_changes ev)) v)"
      using Cons.IH Cons.prems by (meson list.set_intros(2) subset_iff)
    then show ?case
      by (intro exI[of _ "(event_step ev, t) # xs"]) (simp add: succeed_all_def eff)
  qed (simp add: succeed_all_def)
  then show thesis using that by blast
qed

lemma clean_pass_view:
  assumes "reconcile_pass digest ctx s w = (Inr (p, rep), s', w')" "context_ok ctx" "all_ok rep"
    and "agent_id_ok i"
  obtains ob now xs where "observed_ok ob"
    "p = plan digest (cx_fleet ctx) (cx_desired ctx) (cx_keep ctx) (cx_stopped ctx) s ob now"
    "map fst xs = filter (\<lambda>x. concerns x i) p"
    "status_of s' i = succeed_all (cx_policy ctx) xs (status_of s i)"
proof -
  obtain ob now w1 where ob: "observed_ok ob"
    and p: "p = plan digest (cx_fleet ctx) (cx_desired ctx) (cx_keep ctx) (cx_stopped ctx) s ob now"
    and ex: "execute ctx p s w1 = (s', rep, w')" and ok: "list_all step_ok p"
    using reconcile_pass_Inr[OF assms(1,2)] .
  let ?ts = "execution ctx p s w1"
  have clean: "all_ok (report_of ?ts)" using assms(3) execute_report_of[of ctx p s w1] ex by simp
  obtain xs where xs: "map fst xs = map event_step (filter (\<lambda>ev. concerns (event_step ev) i) ?ts)"
      "fold (\<lambda>ev. change_effect (cx_policy ctx) (hd (event_changes ev)))
         (filter (\<lambda>ev. concerns (event_step ev) i) ?ts) (status_of s i) = succeed_all (cx_policy ctx) xs (status_of s i)"
    using clean_events_effect[OF clean, of "filter (\<lambda>ev. concerns (event_step ev) i) ?ts" "cx_policy ctx" "status_of s i"]
    by auto
  have "map event_step (filter (\<lambda>ev. concerns (event_step ev) i) ?ts) = filter (\<lambda>x. concerns x i) p"
    using filter_map[of "\<lambda>x. concerns x i" event_step ?ts] by (simp add: comp_def)
  moreover have "status_of s' i = succeed_all (cx_policy ctx) xs (status_of s i)"
    using clean_trace_status[OF clean ok assms(4)] ex xs(2) by (auto simp: execute_def Let_def exec_start_def)
  ultimately show thesis using that[of ob now xs] ob p xs(1) by simp
qed

lemma succeed_all_removes:
  assumes "\<And>x. x \<in> fst ` set xs \<Longrightarrow>
      x = Stop i \<or> x = RemoveAgent i \<or> (\<exists>c k. x = RemoveCrew c k) \<or> (\<exists>c. x = EnsureCrew c)"
    and "v = None \<or> RemoveAgent i \<in> fst ` set xs \<or> (\<exists>c k. RemoveCrew c k \<in> fst ` set xs)"
  shows "succeed_all policy xs v = None"
proof -
  let ?f = "\<lambda>(x, t). outcome_effect x (Inr ()) policy t"
  have none: "?f e None = None" if "e \<in> set xs" for e
    using assms(1)[of "fst e"] that by (cases e) force
  consider "v = None" | e where "e \<in> set xs" "fst e = RemoveAgent i \<or> (\<exists>c k. fst e = RemoveCrew c k)"
    using assms(2) by force
  then show ?thesis
  proof cases
    case 1
    then show ?thesis using fold_stays[of xs ?f None] none by (simp add: succeed_all_def)
  next
    case (2 e)
    have "?f e v = None" for v using 2(2) by (auto simp: case_prod_beta)
    then show ?thesis using fold_reaches[OF 2(1), of ?f None] none by (simp add: succeed_all_def)
  qed
qed

lemma clean_pass_undesired:
  assumes "reconcile_pass digest ctx s w = (Inr (p, rep), s', w')" "context_ok ctx" "all_ok rep"
    and "agent_id_ok i" "bt_get (desired_agents_of (cx_desired ctx)) i = None"
  shows "status_of s' i = None"
proof -
  obtain ob now xs where ob: "observed_ok ob"
    and p: "p = plan digest (cx_fleet ctx) (cx_desired ctx) (cx_keep ctx) (cx_stopped ctx) s ob now"
    and xs: "map fst xs = filter (\<lambda>x. concerns x i) p"
    and final: "status_of s' i = succeed_all (cx_policy ctx) xs (status_of s i)"
    using clean_pass_view[OF assms(1-4)] .
  have wf: "observed_wf ob" using ob by (simp add: observed_ok_def)
  have set_xs: "fst ` set xs = {x \<in> set p. concerns x i}" using xs by (metis list.set_map set_filter)
  have own: "filter (\<lambda>x. step_agent_id x = Some i) p =
      (if known (cx_fleet ctx) s ob i then gone_decision (cx_desired ctx \<noteq> None) i (observed_get ob i) else [])"
    unfolding p plan_at_agent[OF wf assms(4)] using assms(5) by (simp add: agent_decision_def)
  have kinds: "x = Stop i \<or> x = RemoveAgent i \<or> (\<exists>c k. x = RemoveCrew c k) \<or> (\<exists>c. x = EnsureCrew c)"
    if x: "x \<in> set p" "concerns x i" for x
  proof (cases "step_agent_id x = Some i")
    case True
    then have "x \<in> set (filter (\<lambda>x. step_agent_id x = Some i) p)" using x by simp
    then show ?thesis unfolding own by (auto simp: gone_decision_def split: if_splits)
  next
    case False
    then show ?thesis using x by (cases x) (auto simp: concerns_def)
  qed
  have "RemoveAgent i \<in> set p \<or> RemoveCrew (crew_ref_of i) (cx_keep ctx) \<in> set p"
    if known: "known (cx_fleet ctx) s ob i"
  proof (cases "cx_desired ctx")
    case None
    have "known_crew (cx_fleet ctx) s ob (crew_ref_of i)"
      using known known_agents_mem[OF assms(4) wf] by (auto simp: known_crew_def)
    then show ?thesis using p None by (simp add: plan_crew_steps desired_crew_def desired_agents_of_def)
  next
    case (Some f)
    then have "RemoveAgent i \<in> set (filter (\<lambda>x. step_agent_id x = Some i) p)"
      unfolding own using known by (simp add: gone_decision_def)
    then show ?thesis by simp
  qed
  then have "status_of s i = None \<or> RemoveAgent i \<in> fst ` set xs \<or> (\<exists>c k. RemoveCrew c k \<in> fst ` set xs)"
    unfolding set_xs by (auto simp: known_def concerns_def)
  then show ?thesis unfolding final by (intro succeed_all_removes) (auto simp: set_xs kinds)
qed

lemma fold_reaches_inv:
  assumes "x \<in> set xs" "\<And>v. P (f x v)" "\<And>y v. y \<in> set xs \<Longrightarrow> P v \<Longrightarrow> P (f y v)"
  shows "P (fold f xs v)"
proof -
  obtain as bs where xs: "xs = as @ x # bs" using assms(1) by (meson split_list)
  have "P (fold f bs u)" if "P u" for u
    by (rule fold_invariant[where Q = "\<lambda>y. y \<in> set xs"]) (use that xs assms(3) in auto)
  then show ?thesis using assms(2) xs by simp
qed

lemma decision_updates: "unchanged h st \<or> Start i h \<in> set (decision i h st p now)"
  by (cases p; cases "the p") (auto split: option.splits)

lemma succeed_all_unchanged:
  assumes kinds: "\<And>x. x \<in> fst ` set xs \<Longrightarrow>
      x = Stop i \<or> x = Materialize i \<or> x = Start i h \<or> (\<exists>c. x = NoteExit i c) \<or> (\<exists>c. x = EnsureCrew c)"
    and "unchanged h v \<or> Start i h \<in> fst ` set xs"
  shows "unchanged h (succeed_all policy xs v)"
proof -
  let ?f = "\<lambda>(x, t). outcome_effect x (Inr ()) policy t"
  have keeps: "unchanged h (?f e u)" if e: "e \<in> set xs" and u: "unchanged h u" for e u
    using kinds[of "fst e"] e u by (cases e) (force simp: unchanged_iff touch_def started_def Let_def)
  from assms(2) show ?thesis
  proof
    assume "unchanged h v"
    then show ?thesis
      unfolding succeed_all_def
      by (intro fold_invariant[where Q = "\<lambda>e. e \<in> set xs" and P = "unchanged h"]) (use keeps in auto)
  next
    assume "Start i h \<in> fst ` set xs"
    then obtain e where e: "e \<in> set xs" "fst e = Start i h" by force
    have "unchanged h (?f e u)" for u
      using e(2) by (auto simp: case_prod_beta unchanged_iff touch_def started_def Let_def)
    then show ?thesis
      unfolding succeed_all_def using fold_reaches_inv[OF e(1), of "unchanged h" ?f] keeps by blast
  qed
qed

lemma clean_pass_desired:
  assumes "reconcile_pass digest ctx s w = (Inr (p, rep), s', w')" "context_ok ctx" "all_ok rep"
    and "bt_get (desired_agents_of (cx_desired ctx)) i = Some a" "i \<notin> set (cx_stopped ctx)"
  shows "unchanged (agent_hash digest a) (status_of s' i)"
proof -
  let ?h = "agent_hash digest a"
  have i: "agent_id_ok i" using desired_agents_ok assms(2,4) by (auto simp: context_ok_def)
  obtain ob now xs where ob: "observed_ok ob"
    and p: "p = plan digest (cx_fleet ctx) (cx_desired ctx) (cx_keep ctx) (cx_stopped ctx) s ob now"
    and xs: "map fst xs = filter (\<lambda>x. concerns x i) p"
    and final: "status_of s' i = succeed_all (cx_policy ctx) xs (status_of s i)"
    using clean_pass_view[OF assms(1-3) i] .
  have set_xs: "fst ` set xs = {x \<in> set p. concerns x i}" using xs by (metis list.set_map set_filter)
  have own: "filter (\<lambda>x. step_agent_id x = Some i) p =
      decision i ?h (status_of s i) (observed_get ob i) now"
    using plan_at_agent[OF _ i, of ob] ob assms(4,5) p by (simp add: observed_ok_def agent_decision_def)
  have kinds: "x = Stop i \<or> x = Materialize i \<or> x = Start i ?h \<or> (\<exists>c. x = NoteExit i c)
      \<or> (\<exists>c. x = EnsureCrew c)" if x: "x \<in> set p" "concerns x i" for x
  proof (cases "step_agent_id x = Some i")
    case True
    then have "x \<in> set (decision i ?h (status_of s i) (observed_get ob i) now)"
      unfolding own[symmetric] using x by simp
    then show ?thesis using decision_shape[of i ?h "status_of s i" "observed_get ob i" now] by auto
  next
    case False
    then show ?thesis
      using x p desired_crew_of[OF assms(4)] by (cases x) (auto simp: concerns_def plan_crew_steps)
  qed
  have "Start i ?h \<in> fst ` set xs" if "Start i ?h \<in> set (decision i ?h (status_of s i) (observed_get ob i) now)"
    using that unfolding own[symmetric] set_xs by (simp add: concerns_def)
  then have "unchanged ?h (status_of s i) \<or> Start i ?h \<in> fst ` set xs"
    using decision_updates by blast
  then show ?thesis unfolding final by (intro succeed_all_unchanged) (auto simp: set_xs kinds)
qed

section \<open>Properties\<close>

text \<open>
  Ports for the witnesses: the world is the log of calls; stopping fails for the agents \<open>stuck\<close>
  names, everything else succeeds, and the runner observes a fixed state.
\<close>

definition logged :: "string \<Rightarrow> 'r \<Rightarrow> string list \<Rightarrow> 'r \<times> string list" where
  "logged call r w = (r, w @ [call])"

definition sample_materializer :: "(string list, unit) materializer" where
  "sample_materializer =
     \<lparr>mz_ensure_crew = (\<lambda>c _ _ _ _ _ _. logged (''ensure_crew '' @ crew_ref_display c) (Inr ())),
      mz_materialize = (\<lambda>a _ _. logged (''materialize '' @ agent_id_display (ra_id a))
        (Inr \<lparr>lp_cwd = ''/ws'', lp_env = [], lp_argv = [], lp_script = ''launch.sh''\<rparr>)),
      mz_remove_agent = (\<lambda>i. logged (''remove_agent '' @ agent_id_display i) (Inr ())),
      mz_remove_crew = (\<lambda>c _. logged (''remove_crew '' @ crew_ref_display c) (Inr ()))\<rparr>"

definition sample_runner :: "string list \<Rightarrow> observed_state \<Rightarrow> string list agent_runner" where
  "sample_runner stuck ob =
     \<lparr>rn_ensure_crew = (\<lambda>c. logged (''session '' @ crew_ref_display c) (Inr ())),
      rn_ensure_agent = (\<lambda>i _. logged (''start '' @ agent_id_display i) (Inr ())),
      rn_stop_agent = (\<lambda>i. logged (''stop '' @ agent_id_display i)
        (if agent_of i \<in> set stuck then Inl (StillRunning (agent_id_display i) 42) else Inr ())),
      rn_stop_crew = (\<lambda>c. logged (''stop_crew '' @ crew_ref_display c) (Inr ())),
      rn_observe = (\<lambda>_. logged ''observe'' (Inr ob))\<rparr>"

definition sample_context :: "string list \<Rightarrow> fleet option \<Rightarrow> observed_state \<Rightarrow> (string list, unit) reconcile_context" where
  "sample_context stuck desired ob =
     \<lparr>cx_fleet = ''payments'', cx_desired = desired, cx_keep = no_keep, cx_stopped = [],
      cx_materializer = sample_materializer, cx_runner = sample_runner stuck ob, cx_creds = (),
      cx_hooks = (\<lambda>i. \<lparr>ht_url = ''https://127.0.0.1:7643'', ht_secret = agent_id_display i\<rparr>),
      cx_policy = default_policy, cx_clock = (\<lambda>w. (5, w))\<rparr>"

lemma sample_context_ok:
  assumes "observed_ok ob" "desired = None \<or> desired = Some sample_fleet"
  shows "context_ok (sample_context stuck desired ob)"
proof -
  have "valid_name ''payments''" by code_simp
  then show ?thesis
    using assms sample_fleet_ok
    by (auto simp: context_ok_def sample_context_def sample_runner_def logged_def)
qed

lemma sample_observed_ok: "observed_ok sample_observed"
  by code_simp

text \<open>
  C2. The executor skips a step exactly when it must: when an earlier step of the same agent
  failed, when the \<open>EnsureCrew\<close> of the agent's crew failed, or, for a crew removal, when a step of
  any agent of the crew failed. Every other step of the plan is performed, in order, and the
  report lists exactly the failures and the skipped steps.
\<close>

theorem skips_exactly_when_blocked:
  "map event_step (execution ctx p s w) = p
   \<and> fst (snd (execute ctx p s w)) = report_of (execution ctx p s w)
   \<and> (\<forall>ts ev us. execution ctx p s w = ts @ ev # us \<longrightarrow>
        (event_skipped ev \<longleftrightarrow> blocked ts (event_step ev)))"
  using trace_skips[of ctx "desired_agents_of (cx_desired ctx)" p s w] execute_report_of[of ctx p s w]
  by simp

theorem skips_exactly_when_blocked_witness:
  "event_skipped (execution (sample_context [''bob''] None sample_observed)
      [Stop (AgentId ''payments'' ''backend'' ''bob''), RemoveCrew (CrewRef ''payments'' ''backend'') no_keep]
      sample_status [] ! 1)"
proof -
  let ?b = "AgentId ''payments'' ''backend'' ''bob''"
  let ?c = "CrewRef ''payments'' ''backend''"
  let ?ctx = "sample_context [''bob''] None sample_observed"
  let ?p = "[Stop ?b, RemoveCrew ?c no_keep]"
  let ?t = "execution ?ctx ?p sample_status []"
  obtain e1 e2 where t: "?t = [e1] @ e2 # []" "event_step e2 = RemoveCrew ?c no_keep" by simp
  have "e1 = Performed (Stop ?b) (Inl (runner_error_display (StillRunning (agent_id_display ?b) 42))) 5"
    using t(1) by (simp add: event_of_def check_skip_def exec_start_def sample_context_def sample_runner_def logged_def)
  then have "blocked [e1] (event_step e2)"
    by (auto simp: t(2) blocked_def agent_failed_def crew_ref_of_def)
  then have "event_skipped e2" using skips_exactly_when_blocked[of ?ctx ?p sample_status "[]"] t(1) by blast
  then show ?thesis using t(1) by simp
qed

text \<open>
  Unharvested work is never deleted: once a step of one of a crew's agents has failed in a
  pass, the crew's removal makes no call on any port (the world is as it was) and is reported as
  skipped.
\<close>

theorem failed_agent_keeps_crew:
  assumes "(st, e) \<in> set (rep_failures (fst (snd (execute ctx p s w))))"
    and "step_agent_id st = Some i" "crew_ref_of i = c"
  shows "snd (snd (execute ctx (p @ [RemoveCrew c k]) s w)) = snd (snd (execute ctx p s w))
    \<and> RemoveCrew c k \<in> set (rep_skipped (fst (snd (execute ctx (p @ [RemoveCrew c k]) s w))))"
proof -
  let ?agents = "desired_agents_of (cx_desired ctx)"
  let ?ex = "fold (execute_step ctx ?agents) p (exec_start s w)"
  have "agent_failed (execution ctx p s w) i"
    using assms by (auto simp: agent_failed_iff execute_report_of)
  then have "blocked (execution ctx p s w) (RemoveCrew c k)"
    using assms(3) by (auto simp: blocked_def)
  moreover have "tracks (execution ctx p s w) ?ex"
    using tracks_fold[OF tracks_start, of ctx ?agents p s w] by simp
  ultimately obtain ex' where skip: "check_skip (RemoveCrew c k) ?ex = Some ex'"
    using check_skip_blocked by fastforce
  show ?thesis
    using execute_step_skipped(1)[OF skip, of ctx ?agents] execute_step_skipped(7,8)[OF skip]
    by (simp add: execute_def Let_def)
qed

theorem failed_agent_keeps_crew_witness:
  "snd (snd (execute (sample_context [''bob''] None sample_observed)
      ([Stop (AgentId ''payments'' ''backend'' ''bob'')] @ [RemoveCrew (CrewRef ''payments'' ''backend'') no_keep])
      sample_status [])) = [''stop payments/backend/bob'']"
proof -
  let ?ctx = "sample_context [''bob''] None sample_observed"
  let ?b = "AgentId ''payments'' ''backend'' ''bob''"
  have run: "execute ?ctx [Stop ?b] sample_status [] = (s', r, w') \<Longrightarrow>
      w' = [''stop payments/backend/bob''] \<and> (Stop ?b, runner_error_display (StillRunning (agent_id_display ?b) 42)) \<in> set (rep_failures r)"
    for s' r w'
    by (auto simp: execute_def Let_def execute_step_def check_skip_def exec_start_def sample_context_def
        sample_runner_def logged_def record_failure_def agent_id_display_def)
  show ?thesis
    using failed_agent_keeps_crew[of "Stop ?b" _ ?ctx "[Stop ?b]" sample_status "[]" ?b "CrewRef ''payments'' ''backend''" no_keep]
      run by (cases "execute ?ctx [Stop ?b] sample_status []") (auto simp: crew_ref_of_def)
qed

text \<open>
  C3. A clean pass converges: when observe succeeds and no step fails or is skipped, every desired
  agent that is not held stopped has the current spec hash applied, no other agent is recorded any
  more, and the observed generation is the desired one. With no desired fleet, nothing is left
  recorded.
\<close>

theorem clean_pass_converges:
  assumes "reconcile_pass digest ctx s w = (Inr (p, rep), s', w')" "context_ok ctx" "all_ok rep"
    and "agent_id_ok i"
  shows "(case bt_get (desired_agents_of (cx_desired ctx)) i of
            None \<Rightarrow> status_of s' i = None
          | Some a \<Rightarrow> i \<in> set (cx_stopped ctx) \<or> unchanged (agent_hash digest a) (status_of s' i))
    \<and> fs_observed_generation s' = fs_generation s'"
proof -
  have "fs_observed_generation s' = fs_generation s'"
  proof -
    obtain w1 where "execute ctx p s w1 = (s', rep, w')" using reconcile_pass_Inr[OF assms(1,2)] by metis
    then show ?thesis using assms(3) by (auto simp: execute_def Let_def finish_pass_def)
  qed
  then show ?thesis
    using clean_pass_undesired[OF assms] clean_pass_desired[OF assms(1-3)] by (auto split: option.split)
qed

lemma sample_pass:
  "reconcile_pass sample_digest (sample_context [] (Some sample_fleet) \<lparr>obs_crews = []\<rparr>) default_fleet_status [] =
     (Inr ([EnsureCrew (CrewRef ''payments'' ''backend''),
            Materialize (AgentId ''payments'' ''backend'' ''alice''),
            Start (AgentId ''payments'' ''backend'' ''alice'') ''main'',
            Materialize (AgentId ''payments'' ''backend'' ''bob''),
            Start (AgentId ''payments'' ''backend'' ''bob'') ''main''],
           \<lparr>rep_failures = [], rep_skipped = []\<rparr>),
      default_fleet_status\<lparr>fs_phase := FleetReconciling, fs_agents :=
        [(''payments/backend/alice'', default_agent_status\<lparr>st_phase := Starting, st_applied_hash := Some ''main''\<rparr>),
         (''payments/backend/bob'', default_agent_status\<lparr>st_phase := Starting, st_applied_hash := Some ''main''\<rparr>)]\<rparr>,
      [''observe'', ''ensure_crew payments/backend'', ''session payments/backend'',
       ''materialize payments/backend/alice'', ''start payments/backend/alice'',
       ''materialize payments/backend/bob'', ''start payments/backend/bob''])"
  by code_simp

theorem clean_pass_converges_witness:
  "unchanged ''main'' (status_of (fst (snd (reconcile_pass sample_digest
      (sample_context [] (Some sample_fleet) \<lparr>obs_crews = []\<rparr>) default_fleet_status [])))
      (AgentId ''payments'' ''backend'' ''alice''))"
proof -
  have ok: "context_ok (sample_context [] (Some sample_fleet) \<lparr>obs_crews = []\<rparr>)"
    by (rule sample_context_ok) (simp_all add: observed_ok_def observed_wf_def)
  have i: "agent_id_ok (AgentId ''payments'' ''backend'' ''alice'')" by code_simp
  have d: "map_option (agent_hash sample_digest) (bt_get (desired_agents_of (cx_desired
      (sample_context [] (Some sample_fleet) \<lparr>obs_crews = []\<rparr>)))
      (AgentId ''payments'' ''backend'' ''alice'')) = Some ''main''"
    by code_simp
  have r: "all_ok \<lparr>rep_failures = [], rep_skipped = []\<rparr>" by (simp add: all_ok_def)
  have st: "cx_stopped (sample_context [] (Some sample_fleet) \<lparr>obs_crews = []\<rparr>) = []"
    by (simp add: sample_context_def)
  show ?thesis
    using clean_pass_converges[OF sample_pass ok r i] d st sample_pass by (auto split: option.splits)
qed



end
