(* ===== verification/Plugin.thy ===== *)
theory Plugin
  imports Fleet
begin

text \<open>
  Plugins as the daemon sees them (crates/balerix-core/src/plugin.rs) with the manifest types
  (crates/balerix-api/src/plugin.rs, hook.rs): reserved names, manifest validation, and the
  synthetic fleet the reconciler drives plugins through. The TOML parser and the digest are
  parameters; error messages are carried as the data they print. The lemmas show what an accepted
  manifest satisfies, that the synthetic fleet is a valid fleet whose agents restart exactly when
  their plugin's hash changes, and the one plugin name for which it is not.
\<close>

section \<open>Manifests\<close>

definition API_VERSION :: string where
  "API_VERSION = ''balerix/v1''"

definition PLUGIN_PROTOCOL :: u32 where
  "PLUGIN_PROTOCOL = 1"

definition PLUGIN_KIND :: string where
  "PLUGIN_KIND = ''Plugin''"

definition HOOK_EVENTS :: "string list" where
  "HOOK_EVENTS =
     [''SessionStart'', ''SessionEnd'', ''UserPromptSubmit'', ''PreToolUse'', ''PostToolUse'',
      ''Notification'', ''Stop'', ''SubagentStop'', ''PreCompact'']"

datatype capability = Fleets | Actions | Attach | Kv | Workspace | Manage

record hook_subscriptions =
  hs_observe :: "string list"
  hs_intercept :: "string list"

record plugin_manifest =
  mf_api_version :: string
  mf_kind :: string
  mf_name :: string
  mf_version :: string
  mf_protocol :: u32
  mf_start :: string
  mf_hooks :: hook_subscriptions
  mf_needs :: "capability list"
  mf_routes :: bool
  mf_sandbox :: json

section \<open>Reserved names\<close>

definition RESERVED_FLEET :: string where
  "RESERVED_FLEET = ''balerix''"

definition PLUGIN_CREW :: string where
  "PLUGIN_CREW = ''plugins''"

definition is_reserved_fleet :: "string \<Rightarrow> bool" where
  "is_reserved_fleet name = (name = RESERVED_FLEET)"

definition reserved_plugin_reason :: "string \<Rightarrow> string option" where
  "reserved_plugin_reason name =
     (if name = ''kubernetes''
      then Some (''reserved: it is the owner name of the operator'' @ [CHR 0x27] @ ''s fleets'')
      else None)"

definition reserved_fleet_reason :: "string \<Rightarrow> string option" where
  "reserved_fleet_reason name =
     (if name = RESERVED_FLEET then Some (''reserved for the daemon'' @ [CHR 0x27] @ ''s plugins'')
      else if name = ''watch''
        then Some (''reserved: it would shadow the plugin host'' @ [CHR 0x27] @ ''s fleets/watch route'')
      else None)"

definition plugin_id :: "agent_name \<Rightarrow> agent_id" where
  "plugin_id name = AgentId RESERVED_FLEET PLUGIN_CREW name"

section \<open>Resolved plugins\<close>

record resolved_plugin =
  rp_name :: agent_name
  rp_package :: string
  rp_manifest :: plugin_manifest
  rp_config :: json
  rp_fleet_defaults :: json
  rp_digest :: "string option"

record plugin_hash_input =
  ph_package :: string
  ph_manifest :: plugin_manifest
  ph_config :: json
  ph_digest :: "string option"

definition plugin_hash_content :: "resolved_plugin \<Rightarrow> plugin_hash_input" where
  "plugin_hash_content p =
     \<lparr>ph_package = rp_package p, ph_manifest = rp_manifest p, ph_config = rp_config p,
      ph_digest = rp_digest p\<rparr>"

definition plugin_hash :: "(plugin_hash_input \<Rightarrow> spec_hash) \<Rightarrow> resolved_plugin \<Rightarrow> spec_hash" where
  "plugin_hash sha p = sha (plugin_hash_content p)"

section \<open>Validation\<close>

text \<open>What a refused manifest field is refused for; the source prints it after the field's path.\<close>

datatype manifest_message =
    Expected string string
  | BadPluginName string string
  | MustNotBeEmpty
  | SpeaksProtocol u32 u32
  | UnknownEvent string
  | ExpectedMapping
  | SandboxMessage string

datatype mise_message =
    TomlError string
  | ExpectedTable
  | ExpectedVersionString
  | ExpectedExactVersion string string
  | StartNotDefined

datatype manifest_error =
    Manifest string manifest_message
  | MiseToml string mise_message

definition validate_manifest_fields :: "plugin_manifest \<Rightarrow> manifest_error + unit" where
  "validate_manifest_fields m =
     (if mf_api_version m \<noteq> API_VERSION
      then Inl (Manifest ''apiVersion'' (Expected API_VERSION (mf_api_version m)))
      else if mf_kind m \<noteq> PLUGIN_KIND
      then Inl (Manifest ''kind'' (Expected PLUGIN_KIND (mf_kind m)))
      else case validate_name (mf_name m) of
        Inl reason \<Rightarrow> Inl (Manifest ''name'' (BadPluginName (mf_name m) reason))
      | Inr _ \<Rightarrow>
          if str_trim (mf_version m) = [] then Inl (Manifest ''version'' MustNotBeEmpty)
          else if mf_protocol m \<noteq> PLUGIN_PROTOCOL
          then Inl (Manifest ''protocol'' (SpeaksProtocol PLUGIN_PROTOCOL (mf_protocol m)))
          else if str_trim (mf_start m) = [] then Inl (Manifest ''start'' MustNotBeEmpty)
          else rbind (rfold (\<lambda>(list, events) _.
                   case find (\<lambda>e. e \<notin> set HOOK_EVENTS) events of
                     Some e \<Rightarrow> Inl (Manifest list (UnknownEvent e))
                   | None \<Rightarrow> Inr ())
                 [(''hooks.observe'', hs_observe (mf_hooks m)),
                  (''hooks.intercept'', hs_intercept (mf_hooks m))] ())
               (\<lambda>_. if \<not> is_object (mf_sandbox m) then Inl (Manifest ''sandbox'' ExpectedMapping)
                    else Inr ()))"

text \<open>A TOML document, as far as it is looked into; the parser itself is a parameter.\<close>

datatype toml =
    TString string
  | TTable "(string \<times> toml) list"
  | TOther

definition mise_tool_version :: "string \<Rightarrow> toml \<Rightarrow> manifest_error + string" where
  "mise_tool_version k v =
     (let bad = Inl (MiseToml (''tools.'' @ k) ExpectedVersionString)
      in case v of
           TString s \<Rightarrow> Inr s
         | TTable t \<Rightarrow> (case bt_get t ''version'' of Some (TString s) \<Rightarrow> Inr s | _ \<Rightarrow> bad)
         | TOther \<Rightarrow> bad)"

definition check_mise_tool :: "string \<times> toml \<Rightarrow> manifest_error + unit" where
  "check_mise_tool e =
     rbind (mise_tool_version (fst e) (snd e)) (\<lambda>version.
       if is_exact_version version then Inr ()
       else Inl (MiseToml (''tools.'' @ fst e) (ExpectedExactVersion (fst e) version)))"

definition toml_table :: "(string, toml) btree \<Rightarrow> string \<Rightarrow> manifest_error + (string, toml) btree option" where
  "toml_table doc key =
     (case bt_get doc key of
        None \<Rightarrow> Inr None
      | Some (TTable t) \<Rightarrow> Inr (Some t)
      | Some _ \<Rightarrow> Inl (MiseToml key ExpectedTable))"

definition validate_mise_toml ::
  "(string \<Rightarrow> string + (string, toml) btree) \<Rightarrow> string \<Rightarrow> string \<Rightarrow> manifest_error + unit" where
  "validate_mise_toml parse text start =
     rbind (map_err (\<lambda>e. MiseToml [] (TomlError e)) (parse text)) (\<lambda>doc.
     rbind (toml_table doc ''tools'') (\<lambda>tools.
     rbind (case tools of None \<Rightarrow> Inr () | Some t \<Rightarrow> rfold (\<lambda>e _. check_mise_tool e) t ()) (\<lambda>_.
     rbind (toml_table doc ''tasks'') (\<lambda>tasks.
     if (case tasks of None \<Rightarrow> False | Some t \<Rightarrow> bt_contains t start) then Inr ()
     else Inl (MiseToml (''tasks.'' @ start) StartNotDefined)))))"

definition validate_manifest ::
  "(string \<Rightarrow> string + (string, toml) btree) \<Rightarrow> plugin_manifest \<Rightarrow> string \<Rightarrow> manifest_error + unit" where
  "validate_manifest parse m mise_toml =
     rbind (validate_manifest_fields m) (\<lambda>_.
     rbind (map_err (\<lambda>r. Manifest (path_under r ''sandbox'') (SandboxMessage (sr_message r)))
              (check_sandbox_block PluginPolicy (mf_sandbox m))) (\<lambda>_.
     validate_mise_toml parse mise_toml (mf_start m)))"

section \<open>The synthetic fleet\<close>

definition plugin_settings :: "(plugin_hash_input \<Rightarrow> spec_hash) \<Rightarrow> resolved_plugin \<Rightarrow> agent_settings" where
  "plugin_settings sha p =
     default_agent_settings\<lparr>as_env := bt_insert ''BALERIX_PLUGIN_HASH'' (plugin_hash sha p)
       (as_env default_agent_settings)\<rparr>"

definition plugin_fleet :: "(plugin_hash_input \<Rightarrow> spec_hash) \<Rightarrow> resolved_plugin list \<Rightarrow> fleet" where
  "plugin_fleet sha plugins =
     \<lparr>fl_name = RESERVED_FLEET, fl_tools = [],
      fl_crews = [(PLUGIN_CREW,
        \<lparr>crew_repo = Local ''/dev/null'', crew_ref_name = ''none'',
         crew_git = \<lparr>git_push = False, git_auth_of = NoAuth, git_identity_of = None\<rparr>,
         crew_tools = [],
         crew_agents = bt_collect (map (\<lambda>p. (rp_name p, plugin_settings sha p)) plugins)\<rparr>)]\<rparr>"

section \<open>Lemmas\<close>

definition events_known :: "string list \<Rightarrow> bool" where
  "events_known events = list_all (\<lambda>e. e \<in> set HOOK_EVENTS) events"

lemma validate_manifest_fields_Inr:
  "validate_manifest_fields m = Inr () \<longleftrightarrow>
     mf_api_version m = API_VERSION \<and> mf_kind m = PLUGIN_KIND \<and> valid_name (mf_name m)
     \<and> str_trim (mf_version m) \<noteq> [] \<and> mf_protocol m = PLUGIN_PROTOCOL \<and> str_trim (mf_start m) \<noteq> []
     \<and> events_known (hs_observe (mf_hooks m)) \<and> events_known (hs_intercept (mf_hooks m))
     \<and> is_object (mf_sandbox m)"
proof -
  have events: "(case find (\<lambda>e. e \<notin> set HOOK_EVENTS) events of
        Some e \<Rightarrow> Inl (Manifest list (UnknownEvent e)) | None \<Rightarrow> Inr ()) = Inr () \<longleftrightarrow> events_known events"
    for list events
    by (auto simp: events_known_def list_all_iff find_None_iff split: option.splits)
      (metis find_None_iff option.distinct(1))
  show ?thesis
    by (cases "validate_name (mf_name m)")
      (auto simp: validate_manifest_fields_def rbind_Inr events)
qed

definition mise_tools_exact :: "(string, toml) btree \<Rightarrow> bool" where
  "mise_tools_exact tools =
     list_all (\<lambda>(k, v). case mise_tool_version k v of Inr s \<Rightarrow> is_exact_version s | Inl _ \<Rightarrow> False) tools"

lemma toml_table_Inr:
  "toml_table doc key = Inr x \<longleftrightarrow>
     (x = None \<and> bt_get doc key = None) \<or> (\<exists>t. x = Some t \<and> bt_get doc key = Some (TTable t))"
  by (cases "bt_get doc key"; cases "the (bt_get doc key)") (auto simp: toml_table_def)

lemma validate_mise_toml_Inr:
  "validate_mise_toml parse text start = Inr () \<longleftrightarrow>
     (\<exists>doc. parse text = Inr doc
        \<and> (bt_get doc ''tools'' = None \<or> (\<exists>t. bt_get doc ''tools'' = Some (TTable t) \<and> mise_tools_exact t))
        \<and> (\<exists>t. bt_get doc ''tasks'' = Some (TTable t) \<and> bt_contains t start))"
proof -
  have "check_mise_tool e = Inr () \<longleftrightarrow>
      (case mise_tool_version (fst e) (snd e) of Inr s \<Rightarrow> is_exact_version s | Inl _ \<Rightarrow> False)" for e
    by (auto simp: check_mise_tool_def split: sum.split)
  then have tools: "rfold (\<lambda>e _. check_mise_tool e) t () = Inr () \<longleftrightarrow> mise_tools_exact t" for t
    by (simp add: rfold_unit_Inr mise_tools_exact_def list_all_iff case_prod_unfold)
  show ?thesis
    unfolding validate_mise_toml_def 
    by (simp add: rbind_Inr toml_table_Inr)
      (auto simp: tools intro!: exI[where P = "\<lambda>a. (_ a \<longrightarrow> a = Some _) \<and> _ a" and x = "Some _"])
qed

lemma plugin_settings_ok: "settings_ok (plugin_settings sha p)"
proof -
  have "is_ok (check_sandbox_block FleetPolicy empty_object)" by code_simp
  then show ?thesis
    by (simp add: settings_ok_def plugin_settings_def default_agent_settings_def tools_ok_def)
qed

definition plugin_names_ok :: "resolved_plugin list \<Rightarrow> bool" where
  "plugin_names_ok ps =
     (distinct (map rp_name ps)
      \<and> list_all (\<lambda>p. valid_name (rp_name p) \<and> rp_name p \<noteq> RESERVED_AGENT_NAME) ps)"

lemma plugin_agents_get:
  assumes "distinct (map rp_name ps)"
  shows "(n, s) \<in> set (bt_collect (map (\<lambda>p. (rp_name p, plugin_settings sha p)) ps)) \<longleftrightarrow>
    (\<exists>p \<in> set ps. n = rp_name p \<and> s = plugin_settings sha p)"
proof -
  let ?m = "map (\<lambda>p. (rp_name p, plugin_settings sha p)) ps"
  have d: "distinct (map fst ?m)" using assms by (simp add: comp_def)
  have "(n, s) \<in> set (bt_collect ?m) \<longleftrightarrow> bt_get (bt_collect ?m) n = Some s"
    by (simp add: bt_get_iff)
  also have "\<dots> \<longleftrightarrow> (n, s) \<in> set ?m"
    using d by (simp only: bt_get_collect_distinct map_of_eq_Some_iff)
  finally show ?thesis by auto
qed

lemma plugin_fleet_ok:
  assumes "plugin_names_ok ps"
  shows "fleet_ok (plugin_fleet sha ps)"
proof -
  have "repo_parse (clone_url (Local ''/dev/null'')) = Inr (Local ''/dev/null'')" by code_simp
  moreover have "valid_name RESERVED_FLEET" "valid_name PLUGIN_CREW" by code_simp+
  moreover have "agents_ok (bt_collect (map (\<lambda>p. (rp_name p, plugin_settings sha p)) ps))"
    using assms plugin_agents_get[of ps _ _ sha]
    by (fastforce simp: agents_ok_def plugin_names_ok_def list_all_iff plugin_settings_ok)
  ultimately show ?thesis
    by (simp add: fleet_ok_def plugin_fleet_def crew_ok_def identity_ok_def tools_ok_def bt_wf_def)
qed

text \<open>The agent a plugin resolves to.\<close>

definition plugin_agent :: "(plugin_hash_input \<Rightarrow> spec_hash) \<Rightarrow> resolved_plugin \<Rightarrow> resolved_agent" where
  "plugin_agent sha p =
     \<lparr>ra_id = plugin_id (rp_name p), ra_repo = Local ''/dev/null'', ra_ref = ''none'',
      ra_git = \<lparr>git_push = False, git_auth_of = NoAuth, git_identity_of = None\<rparr>,
      ra_settings = plugin_settings sha p\<rparr>"

lemma plugin_fleet_agents:
  assumes "distinct (map rp_name ps)"
  shows "set (from_fleet (plugin_fleet sha ps)) = plugin_agent sha ` set ps"
  using plugin_agents_get[OF assms]
  by (auto simp: from_fleet_mem plugin_fleet_def plugin_agent_def plugin_id_def image_iff)

lemma plugin_hash_restarts:
  assumes "inj_on digest {hash_content (plugin_agent sha p) WORKSPACE_LAYOUT,
      hash_content (plugin_agent sha q) WORKSPACE_LAYOUT}"
  shows "agent_hash digest (plugin_agent sha p) = agent_hash digest (plugin_agent sha q) \<longleftrightarrow>
    plugin_hash sha p = plugin_hash sha q"
proof -
  have "agent_hash digest (plugin_agent sha p) = agent_hash digest (plugin_agent sha q) \<longleftrightarrow>
      hash_content (plugin_agent sha p) WORKSPACE_LAYOUT = hash_content (plugin_agent sha q) WORKSPACE_LAYOUT"
    using inj_on_eq_iff[OF assms] by (simp add: agent_hash_def hash_for_layout_def)
  then show ?thesis
    by (simp add: hash_content_def plugin_agent_def plugin_settings_def default_agent_settings_def)
qed

section \<open>Properties\<close>

definition sample_manifest :: "string \<Rightarrow> plugin_manifest" where
  "sample_manifest name =
     \<lparr>mf_api_version = API_VERSION, mf_kind = PLUGIN_KIND, mf_name = name, mf_version = ''0.1.0'',
      mf_protocol = PLUGIN_PROTOCOL, mf_start = ''start'',
      mf_hooks = \<lparr>hs_observe = [''Stop''], hs_intercept = []\<rparr>, mf_needs = [Fleets], mf_routes = False,
      mf_sandbox = empty_object\<rparr>"

definition sample_plugin :: "string \<Rightarrow> resolved_plugin" where
  "sample_plugin name =
     \<lparr>rp_name = name, rp_package = ''/opt/'' @ name, rp_manifest = sample_manifest name,
      rp_config = empty_object, rp_fleet_defaults = empty_object, rp_digest = None\<rparr>"

definition sample_sha :: "plugin_hash_input \<Rightarrow> spec_hash" where
  "sample_sha h = ph_package h"

text \<open>A parser for the witness: it knows one document.\<close>

definition sample_toml :: "string \<Rightarrow> string + (string, toml) btree" where
  "sample_toml text =
     (if text = ''doc'' then Inr [(''tasks'', TTable [(''start'', TOther)]),
        (''tools'', TTable [(''node'', TString ''22.11.0'')])]
      else Inl ''expected a document'')"

text \<open>
  What an accepted plugin package guarantees: the manifest speaks the daemon's API version,
  kind and protocol, its name is a valid agent name, it subscribes only to known hook events, its
  sandbox block passes the plugin allowlist, and the package's \<open>mise.toml\<close> pins every tool to an
  exact version and defines the start task.
\<close>

theorem accepted_manifest:
  assumes "validate_manifest parse m text = Inr ()"
  shows "mf_api_version m = API_VERSION \<and> mf_kind m = PLUGIN_KIND \<and> mf_protocol m = PLUGIN_PROTOCOL
    \<and> AgentName (mf_name m) = Inr (mf_name m)
    \<and> set (hs_observe (mf_hooks m)) \<union> set (hs_intercept (mf_hooks m)) \<subseteq> set HOOK_EVENTS
    \<and> is_ok (check_sandbox_block PluginPolicy (mf_sandbox m))
    \<and> (\<exists>doc tasks. parse text = Inr doc \<and> bt_get doc ''tasks'' = Some (TTable tasks)
         \<and> bt_get tasks (mf_start m) \<noteq> None
         \<and> (bt_get doc ''tools'' = None \<or> (\<exists>t. bt_get doc ''tools'' = Some (TTable t) \<and> mise_tools_exact t)))"
proof -
  have fields: "validate_manifest_fields m = Inr ()"
    and sandbox: "is_ok (check_sandbox_block PluginPolicy (mf_sandbox m))"
    and mise: "validate_mise_toml parse text (mf_start m) = Inr ()"
    using assms by (auto simp: validate_manifest_def rbind_Inr is_ok_iff)
  show ?thesis
    using fields mise sandbox
    by (auto simp: validate_manifest_fields_Inr validate_mise_toml_Inr events_known_def list_all_iff
        bt_contains_def)
qed

theorem accepted_manifest_witness:
  "set (hs_observe (mf_hooks (sample_manifest ''flow''))) \<subseteq> set HOOK_EVENTS"
proof -
  have "validate_manifest sample_toml (sample_manifest ''flow'') ''doc'' = Inr ()" by code_simp
  from accepted_manifest[OF this] show ?thesis by blast
qed

text \<open>
  The synthetic plugin fleet is a valid fleet: for distinct valid plugin names other than the
  tmux anchor's, converting it to the wire form the plugin actor stores and validating it again
  gives it back, and it resolves to exactly one agent per plugin, under the plugin's id.
\<close>

theorem plugin_fleet_validates:
  assumes "plugin_names_ok ps"
  shows "fleet_try_from (fleet_into_spec (plugin_fleet sha ps)) = Inr (plugin_fleet sha ps)
    \<and> set (map ra_id (from_fleet (plugin_fleet sha ps))) = plugin_id ` set (map rp_name ps)
    \<and> distinct (map ra_id (from_fleet (plugin_fleet sha ps)))"
proof -
  have "set (map ra_id (from_fleet (plugin_fleet sha ps))) = plugin_id ` set (map rp_name ps)"
    using assms plugin_fleet_agents[of ps sha]
    by (simp add: plugin_names_ok_def image_image plugin_agent_def)
  then show ?thesis
    using fleet_roundtrip[OF plugin_fleet_ok[OF assms]] from_fleet_ascending[OF plugin_fleet_ok[OF assms]]
    by (simp add: strict_sorted_iff)
qed

theorem plugin_fleet_validates_witness:
  "fleet_try_from (fleet_into_spec (plugin_fleet sample_sha [sample_plugin ''web'', sample_plugin ''flow'']))
     = Inr (plugin_fleet sample_sha [sample_plugin ''web'', sample_plugin ''flow''])"
proof -
  have "plugin_names_ok [sample_plugin ''web'', sample_plugin ''flow'']" by code_simp
  from plugin_fleet_validates[OF this] show ?thesis by blast
qed

text \<open>
  A plugin restarts exactly when its own hash changes: between two synthetic fleets, the spec
  hash of the agents under one plugin name is the same exactly when the plugin's hash (package,
  manifest, config, digest) is the same; its \<open>fleetDefaults\<close> and the other plugins do not matter.
\<close>

theorem plugin_restarts_exactly:
  assumes "distinct (map rp_name ps)" "p \<in> set ps" "distinct (map rp_name qs)" "q \<in> set qs"
    and "a \<in> set (from_fleet (plugin_fleet sha ps))" "ra_id a = plugin_id (rp_name p)"
    and "b \<in> set (from_fleet (plugin_fleet sha qs))" "ra_id b = plugin_id (rp_name q)"
    and "inj_on digest {hash_content a WORKSPACE_LAYOUT, hash_content b WORKSPACE_LAYOUT}"
  shows "agent_hash digest a = agent_hash digest b \<longleftrightarrow> plugin_hash sha p = plugin_hash sha q"
proof -
  have own: "c = plugin_agent sha r"
    if d: "distinct (map rp_name rs)" and r: "r \<in> set rs"
      and c: "c \<in> set (from_fleet (plugin_fleet sha rs))" "ra_id c = plugin_id (rp_name r)" for rs r c
  proof -
    obtain r' where r': "r' \<in> set rs" "c = plugin_agent sha r'" using c plugin_fleet_agents[OF d] by blast
    then have "rp_name r' = rp_name r" using c(2) by (simp add: plugin_agent_def plugin_id_def)
    then show ?thesis using r r' d by (auto simp: distinct_map dest: inj_onD)
  qed
  show ?thesis
    using plugin_hash_restarts assms(9) own[OF assms(1,2,5,6)] own[OF assms(3,4,7,8)] by simp
qed

theorem plugin_restarts_exactly_witness:
  "agent_hash (\<lambda>h. snd (hd (as_env (hi_settings h)))) (plugin_agent sample_sha (sample_plugin ''web''))
     = agent_hash (\<lambda>h. snd (hd (as_env (hi_settings h)))) (plugin_agent sample_sha
         ((sample_plugin ''web'')\<lparr>rp_fleet_defaults := JBool True\<rparr>))"
proof -
  let ?p = "sample_plugin ''web''" and ?q = "(sample_plugin ''web'')\<lparr>rp_fleet_defaults := JBool True\<rparr>"
  have mem: "plugin_agent sample_sha r \<in> set (from_fleet (plugin_fleet sample_sha [r]))" for r
    using plugin_fleet_agents[of "[r]" sample_sha] by simp
  have "plugin_hash sample_sha ?p = plugin_hash sample_sha ?q" by code_simp
  moreover have "plugin_agent sample_sha ?p = plugin_agent sample_sha ?q" by code_simp
  ultimately show ?thesis
    using plugin_restarts_exactly[of "[?p]" ?p "[?q]" ?q "plugin_agent sample_sha ?p" sample_sha
        "plugin_agent sample_sha ?q" "\<lambda>h. snd (hd (as_env (hi_settings h)))"] mem
    by (simp add: plugin_agent_def)
qed


end
