(* ===== verification/Resolve.thy ===== *)
theory Resolve
  imports Merge Plugin
begin

text \<open>
  Resolution of a fleet file into a wire specification (crates/balerix-config/src/resolve.rs,
  validate.rs, the file types and header check of file.rs): the settings layers of every agent
  are folded, typed, validated, and the result must convert to a fleet. serde's typing of the
  merged value is a parameter; error messages are carried as the data they print. The lemmas show
  what every resolved specification satisfies and that a restricted file cannot set what its
  agents run as.
\<close>

section \<open>The fleet file\<close>

record crew_file =
  cf_repo :: string
  cf_ref :: string
  cf_git :: git_settings
  cf_defaults :: json
  cf_agents :: "(string, json) btree"

record fleet_file =
  ff_api_version :: string
  ff_kind :: string
  ff_name :: "string option"
  ff_defaults :: json
  ff_crews :: "(string, crew_file) btree"

definition KIND :: string where
  "KIND = ''Fleet''"

datatype config_message =
    Text string
  | ExpectedGot string string
  | NameIs string string
  | InexactTool string string

datatype config_error =
    Io string string
  | Yaml string
  | Invalid string config_message
  | FleetInvalid fleet_error

definition check_header :: "fleet_file \<Rightarrow> config_error + unit" where
  "check_header file =
     (if ff_api_version file \<noteq> API_VERSION
      then Inl (Invalid ''apiVersion'' (ExpectedGot API_VERSION (ff_api_version file)))
      else if ff_kind file \<noteq> KIND
      then Inl (Invalid ''kind'' (ExpectedGot KIND (ff_kind file)))
      else Inr ())"

text \<open>
  The YAML parser, the file system and serde's typing of a JSON value are parameters; the latter
  reports the path of the offending value with its message.
\<close>

definition parse_file :: "(string \<Rightarrow> string + fleet_file) \<Rightarrow> string \<Rightarrow> config_error + fleet_file" where
  "parse_file from_str yaml =
     rbind (map_err Yaml (from_str yaml)) (\<lambda>file.
     rbind (check_header file) (\<lambda>_. Inr file))"

definition read_file ::
  "(string \<Rightarrow> string + string) \<Rightarrow> (string \<Rightarrow> string + fleet_file) \<Rightarrow> string \<Rightarrow> config_error + fleet_file" where
  "read_file read_to_string from_str path =
     rbind (map_err (Io path) (read_to_string path)) (parse_file from_str)"

definition shape_error :: "string \<times> string \<Rightarrow> config_error" where
  "shape_error e =
     (let message = snd e;
          path = (if str_starts_with message ''unknown field''
                  then join_with (CHR ''.'') (butlast (split_on (CHR ''.'') (fst e)))
                  else fst e);
          path = takeWhile (\<lambda>c. c \<noteq> CHR ''['') path
      in Invalid (if path = [] \<or> path = ''.'' then ''file'' else path) (Text message))"

definition file_from_value ::
  "(json \<Rightarrow> (string \<times> string) + fleet_file) \<Rightarrow> json \<Rightarrow> config_error + fleet_file" where
  "file_from_value deserialize value =
     rbind (map_err shape_error (deserialize value)) (\<lambda>file.
     rbind (check_header file) (\<lambda>_. Inr file))"

section \<open>Validation of one agent and of the layers\<close>

definition RESERVED_ENV_PREFIXES :: "string list" where
  "RESERVED_ENV_PREFIXES =
     [''HOME'', ''XDG_'', ''CLAUDE_CONFIG_DIR'', ''GH_CONFIG_DIR'', ''MISE_'', ''BALERIX_'', ''PATH'',
      ''TMPDIR'', ''CLAUDE_CODE_TMPDIR'']"

definition reserved_env :: "string \<Rightarrow> bool" where
  "reserved_env key =
     list_ex (\<lambda>r. if str_ends_with r ''_'' then str_starts_with key r else key = r) RESERVED_ENV_PREFIXES"

definition check_plugin_config :: "string \<Rightarrow> string \<times> json \<Rightarrow> config_error + unit" where
  "check_plugin_config path e =
     (case validate_name (fst e) of
        Inl reason \<Rightarrow> Inl (Invalid (path @ ''.plugins.'' @ fst e) (Text (''invalid plugin name: '' @ reason)))
      | Inr _ \<Rightarrow>
          if is_object (snd e) then Inr ()
          else Inl (Invalid (path @ ''.plugins.'' @ fst e) (Text ''expected a mapping'')))"

definition check_env_key :: "string \<Rightarrow> string \<Rightarrow> config_error + unit" where
  "check_env_key path key =
     (if key = [] then Inl (Invalid (path @ ''.env'') (Text ''empty variable name''))
      else if reserved_env key
      then Inl (Invalid (path @ ''.env.'' @ key) (Text ''reserved; balerix sets this variable''))
      else Inr ())"

definition check_tool_version :: "string \<Rightarrow> string \<times> string \<Rightarrow> config_error + unit" where
  "check_tool_version path e =
     (if is_exact_version (snd e) then Inr ()
      else Inl (Invalid (path @ ''.tools.'' @ fst e) (InexactTool (fst e) (snd e))))"

definition validate_agent :: "string \<Rightarrow> agent_settings \<Rightarrow> config_error + unit" where
  "validate_agent path settings =
     rbind (rfold (\<lambda>e _. check_tool_version path e) (as_tools settings) ()) (\<lambda>_.
     rbind (case cl_settings (as_claude settings) of
              JObject m \<Rightarrow>
                if bt_contains m ''hooks''
                then Inl (Invalid (path @ ''.claude.settings.hooks'')
                       (Text ''balerix owns this key; configure hook behaviour via `plugins` instead''))
                else Inr ()
            | _ \<Rightarrow> Inl (Invalid (path @ ''.claude.settings'') (Text ''expected a mapping''))) (\<lambda>_.
     if \<not> is_object (as_sandbox settings)
     then Inl (Invalid (path @ ''.sandbox'') (Text ''expected a mapping''))
     else rbind (rfold (\<lambda>e _. check_plugin_config path e) (as_plugins settings) ()) (\<lambda>_.
     rbind (case as_branch settings of
              None \<Rightarrow> Inr ()
            | Some b \<Rightarrow> map_err (\<lambda>reason. Invalid (path @ ''.branch'') (Text reason)) (check_branch_name b)) (\<lambda>_.
     rfold (\<lambda>key _. check_env_key path key) (bt_keys (as_env settings)) ()))))"

definition sandbox_layer :: "string \<Rightarrow> json \<Rightarrow> config_error + unit" where
  "sandbox_layer path layer =
     (case json_get layer ''sandbox'' of
        None \<Rightarrow> Inr ()
      | Some JNull \<Rightarrow> Inr ()
      | Some block \<Rightarrow>
          rbind (map_err (\<lambda>r. Invalid (path_under r (path @ ''.sandbox'')) (Text (sr_message r)))
                   (check_sandbox_block FleetPolicy (strip_nulls block))) (\<lambda>_. Inr ()))"

definition tools_entry ::
  "string \<Rightarrow> string \<times> json \<Rightarrow> (string, string) btree \<Rightarrow> config_error + (string, string) btree" where
  "tools_entry path e out =
     (case snd e of
        JNull \<Rightarrow> Inr out
      | JString version \<Rightarrow>
          if is_exact_version version then Inr (bt_insert (fst e) version out)
          else Inl (Invalid (path @ ''.tools.'' @ fst e) (InexactTool (fst e) version))
      | _ \<Rightarrow> Inl (Invalid (path @ ''.tools.'' @ fst e) (Text ''expected a version string'')))"

definition tools_layer :: "string \<Rightarrow> json \<Rightarrow> config_error + (string, string) btree" where
  "tools_layer path layer =
     (case json_get layer ''tools'' of
        None \<Rightarrow> Inr []
      | Some JNull \<Rightarrow> Inr []
      | Some (JObject t) \<Rightarrow> rfold (tools_entry path) t []
      | Some _ \<Rightarrow> Inl (Invalid (path @ ''.tools'') (Text ''expected a mapping'')))"

section \<open>Resolution\<close>

record resolve_options =
  ro_name_override :: "string option"
  ro_host_claude_settings :: "json option"
  ro_operator_layer :: "json option"
  ro_operator_layer_name :: "string option"
  ro_restricted :: bool
  ro_runner :: runner_kind

definition expect_mapping :: "string \<Rightarrow> json \<Rightarrow> config_error + unit" where
  "expect_mapping path v =
     (if is_object v \<or> is_null v then Inr () else Inl (Invalid path (Text ''expected a mapping'')))"

text \<open>The host's settings without their hooks, as the bottom layer.\<close>

definition host_layer :: "resolve_options \<Rightarrow> json option" where
  "host_layer opts =
     map_option (\<lambda>s.
       let s = (case s of JObject m \<Rightarrow> JObject (bt_remove ''hooks'' m) | _ \<Rightarrow> s)
       in JObject [(''claude'', JObject [(''settings'', s)])]) (ro_host_claude_settings opts)"

definition restricted_check :: "resolve_options \<Rightarrow> string \<Rightarrow> json \<Rightarrow> config_error + unit" where
  "restricted_check opts path layer =
     (if ro_restricted opts
      then map_err (\<lambda>e. Invalid (ci_path e) (Text (ci_message e))) (check_layer path layer)
      else Inr ())"

text \<open>The checks the loops make on each layer, in order.\<close>

definition layer_checks :: "resolve_options \<Rightarrow> string \<Rightarrow> json \<Rightarrow> config_error + unit" where
  "layer_checks opts path layer =
     rbind (expect_mapping path layer) (\<lambda>_.
     rbind (restricted_check opts path layer) (\<lambda>_.
     sandbox_layer path layer))"

definition runner_message :: "runner_kind \<Rightarrow> string" where
  "runner_message k =
     (case k of
        TmuxKind \<Rightarrow> ''`pod` runs only on Kubernetes; this daemon runs agents in tmux''
      | PodKind \<Rightarrow> ''`tmux` is not available on Kubernetes; a Fleet'' @ [CHR 0x27] @ ''s agents run as pods'')"

definition base_layers :: "resolve_options \<Rightarrow> json list" where
  "base_layers opts =
     (case host_layer opts of None \<Rightarrow> [] | Some l \<Rightarrow> [l])
     @ (case ro_operator_layer opts of None \<Rightarrow> [] | Some l \<Rightarrow> [l])"

text \<open>The bodies of the two nested loops: what each inserts under the entry's name.\<close>

definition resolve_agent ::
  "(json \<Rightarrow> string + agent_settings) \<Rightarrow> fleet_file \<Rightarrow> resolve_options \<Rightarrow> string \<Rightarrow> crew_file
     \<Rightarrow> string \<times> json \<Rightarrow> config_error + agent_settings" where
  "resolve_agent from_value file opts crew_path c e =
     (let agent_path = crew_path @ ''.agents.'' @ fst e; layer = snd e
      in rbind (layer_checks opts agent_path layer) (\<lambda>_.
         let merged = merge_layers (base_layers opts @ [ff_defaults file, cf_defaults c, layer])
         in rbind (map_err (\<lambda>m. Invalid agent_path (Text m)) (from_value merged)) (\<lambda>settings.
            rbind (validate_agent agent_path settings) (\<lambda>_.
            if runner_kind_of (as_runner settings) \<noteq> ro_runner opts
            then Inl (Invalid (agent_path @ ''.runner.type'') (Text (runner_message (ro_runner opts))))
            else Inr settings))))"

definition resolve_crew ::
  "(json \<Rightarrow> string + agent_settings) \<Rightarrow> fleet_file \<Rightarrow> resolve_options \<Rightarrow> string \<times> crew_file
     \<Rightarrow> config_error + crew_spec" where
  "resolve_crew from_value file opts e =
     (let crew_path = ''crews.'' @ fst e; c = snd e
      in rbind (layer_checks opts (crew_path @ ''.defaults'') (cf_defaults c)) (\<lambda>_.
         rbind (tools_layer (crew_path @ ''.defaults'') (cf_defaults c)) (\<lambda>tools.
         rbind (rfold (\<lambda>a acc. rbind (resolve_agent from_value file opts crew_path c a)
                  (\<lambda>s. Inr (bt_insert (fst a) s acc))) (cf_agents c) []) (\<lambda>agents.
         Inr \<lparr>csp_repo = cf_repo c, csp_ref = cf_ref c, csp_git = cf_git c, csp_tools = tools,
              csp_agents = agents\<rparr>))))"

definition operator_checks :: "resolve_options \<Rightarrow> config_error + unit" where
  "operator_checks opts =
     (case ro_operator_layer opts of
        None \<Rightarrow> Inr ()
      | Some layer \<Rightarrow>
          let name = (case ro_operator_layer_name opts of Some n \<Rightarrow> n | None \<Rightarrow> ''fleetDefaults'')
          in rbind (expect_mapping name layer) (\<lambda>_. sandbox_layer name layer))"

definition resolve ::
  "(json \<Rightarrow> string + agent_settings) \<Rightarrow> fleet_file \<Rightarrow> resolve_options \<Rightarrow> config_error + fleet_spec" where
  "resolve from_value file opts =
     rbind (ok_or (Invalid ''name'' (Text ''required; set `name` in the file or pass --name''))
              (case ro_name_override opts of Some n \<Rightarrow> Some n | None \<Rightarrow> ff_name file)) (\<lambda>name.
     case reserved_fleet_reason name of
       Some why \<Rightarrow> Inl (Invalid ''name'' (NameIs name why))
     | None \<Rightarrow>
         rbind (operator_checks opts) (\<lambda>_.
         rbind (layer_checks opts ''defaults'' (ff_defaults file)) (\<lambda>_.
         rbind (tools_layer ''defaults'' (ff_defaults file)) (\<lambda>tools.
         rbind (rfold (\<lambda>c acc. rbind (resolve_crew from_value file opts c)
                  (\<lambda>cs. Inr (bt_insert (fst c) cs acc))) (ff_crews file) []) (\<lambda>crews.
         let spec = \<lparr>fsp_name = name, fsp_tools = tools, fsp_crews = crews\<rparr>
         in rbind (map_err FleetInvalid (fleet_try_from spec)) (\<lambda>_. Inr spec))))))"

section \<open>Lemmas\<close>

definition agent_valid :: "agent_settings \<Rightarrow> bool" where
  "agent_valid s =
     (tools_ok (as_tools s)
      \<and> (case cl_settings (as_claude s) of JObject m \<Rightarrow> bt_get m ''hooks'' = None | _ \<Rightarrow> False)
      \<and> is_object (as_sandbox s)
      \<and> list_all (\<lambda>(n, cfg). valid_name n \<and> is_object cfg) (as_plugins s)
      \<and> (case as_branch s of None \<Rightarrow> True | Some b \<Rightarrow> check_branch_name b = Inr ())
      \<and> list_all (\<lambda>(k, _). k \<noteq> [] \<and> \<not> reserved_env k) (as_env s))"

lemma check_plugin_config_Inr:
  "check_plugin_config path e = Inr () \<longleftrightarrow> valid_name (fst e) \<and> is_object (snd e)"
  by (auto simp: check_plugin_config_def split: sum.split)

lemma validate_agent_Inr: "validate_agent path s = Inr () \<longleftrightarrow> agent_valid s"
proof -
  have tools: "rfold (\<lambda>e _. check_tool_version path e) m () = Inr () \<longleftrightarrow> tools_ok m" for m
    by (auto simp: rfold_unit_Inr check_tool_version_def tools_ok_def list_all_iff)
  have env: "rfold (\<lambda>key _. check_env_key path key) (bt_keys m) () = Inr () \<longleftrightarrow>
      list_all (\<lambda>(k, _). k \<noteq> [] \<and> \<not> reserved_env k) m" for m :: "(string, string) btree"
    by (auto simp: rfold_unit_Inr check_env_key_def list_all_iff bt_keys_def simp del: bt_keys_set)
  have plugins: "rfold (\<lambda>e _. check_plugin_config path e) m () = Inr () \<longleftrightarrow>
      list_all (\<lambda>(n, cfg). valid_name n \<and> is_object cfg) m" for m
    by (auto simp: rfold_unit_Inr check_plugin_config_Inr list_all_iff)
  show ?thesis
    unfolding validate_agent_def agent_valid_def
    by (cases "cl_settings (as_claude s)")
      (auto simp: rbind_Inr tools env plugins bt_contains_def split: option.splits)
qed

lemma layer_checks_Inr:
  assumes "layer_checks opts path layer = Inr ()"
  shows "is_object layer \<or> is_null layer" "ro_restricted opts \<Longrightarrow> check_layer path layer = Inr ()"
    "sandbox_layer path layer = Inr ()"
  using assms
  by (auto simp: layer_checks_def rbind_Inr expect_mapping_def restricted_check_def split: if_splits)

lemma resolve_agent_Inr:
  "resolve_agent from_value file opts crew_path c e = Inr s \<longleftrightarrow>
     layer_checks opts (crew_path @ ''.agents.'' @ fst e) (snd e) = Inr ()
     \<and> from_value (merge_layers (base_layers opts @ [ff_defaults file, cf_defaults c, snd e])) = Inr s
     \<and> agent_valid s \<and> runner_kind_of (as_runner s) = ro_runner opts"
  by (auto simp: resolve_agent_def Let_def rbind_Inr validate_agent_Inr)

definition file_wf :: "fleet_file \<Rightarrow> bool" where
  "file_wf file =
     (bt_wf (ff_crews file) \<and> json_wf (ff_defaults file)
      \<and> list_all (\<lambda>(_, c). bt_wf (cf_agents c) \<and> json_wf (cf_defaults c)
           \<and> list_all (\<lambda>(_, l). json_wf l) (cf_agents c)) (ff_crews file))"

lemma resolve_crew_Inr:
  assumes "bt_wf (cf_agents (snd e))"
  shows "resolve_crew from_value file opts e = Inr cs \<longleftrightarrow>
    (\<exists>tools. layer_checks opts (''crews.'' @ fst e @ ''.defaults'') (cf_defaults (snd e)) = Inr ()
      \<and> tools_layer (''crews.'' @ fst e @ ''.defaults'') (cf_defaults (snd e)) = Inr tools
      \<and> (\<forall>a \<in> set (cf_agents (snd e)). is_ok (resolve_agent from_value file opts (''crews.'' @ fst e) (snd e) a))
      \<and> cs = \<lparr>csp_repo = cf_repo (snd e), csp_ref = cf_ref (snd e), csp_git = cf_git (snd e), csp_tools = tools,
          csp_agents = map (\<lambda>a. (fst a, projr (resolve_agent from_value file opts (''crews.'' @ fst e) (snd e) a)))
            (cf_agents (snd e))\<rparr>)"
  unfolding resolve_crew_def Let_def
  by (auto simp: rbind_Inr rfold_insert_result[OF assms])

lemma resolve_Inr:
  assumes "resolve from_value file opts = Inr spec" "bt_wf (ff_crews file)"
  shows "reserved_fleet_reason (fsp_name spec) = None" "is_ok (fleet_try_from spec)"
    "layer_checks opts ''defaults'' (ff_defaults file) = Inr ()"
    "\<forall>e \<in> set (ff_crews file). is_ok (resolve_crew from_value file opts e)"
    "fsp_crews spec = map (\<lambda>e. (fst e, projr (resolve_crew from_value file opts e))) (ff_crews file)"
  using assms(1)
  by (auto simp: resolve_def rbind_Inr rfold_insert_result[OF assms(2)] Let_def is_ok_iff
      split: option.splits)

text \<open>Every declared agent has its settings in the result, from its merged layers.\<close>

lemma resolved_agent_entry:
  assumes "resolve from_value file opts = Inr spec" "file_wf file"
    and "(n, c) \<in> set (ff_crews file)" "(m, layer) \<in> set (cf_agents c)"
  obtains cs s where "bt_get (fsp_crews spec) n = Some cs" "bt_get (csp_agents cs) m = Some s"
    "resolve_agent from_value file opts (''crews.'' @ n) c (m, layer) = Inr s"
    "layer_checks opts (''crews.'' @ n @ ''.defaults'') (cf_defaults c) = Inr ()"
proof -
  have wf: "bt_wf (ff_crews file)" "bt_wf (cf_agents c)"
    using assms(2,3) by (auto simp: file_wf_def list_all_iff)
  note r = resolve_Inr[OF assms(1) wf(1)]
  obtain cs where cs: "resolve_crew from_value file opts (n, c) = Inr cs"
    using r(4) assms(3) by (auto simp: is_ok_iff)
  have crew: "layer_checks opts (''crews.'' @ n @ ''.defaults'') (cf_defaults c) = Inr ()"
      "\<forall>a \<in> set (cf_agents c). is_ok (resolve_agent from_value file opts (''crews.'' @ n) c a)"
      "csp_agents cs = map (\<lambda>a. (fst a, projr (resolve_agent from_value file opts (''crews.'' @ n) c a))) (cf_agents c)"
    using cs resolve_crew_Inr[where e = "(n, c)"] wf(2) by auto
  obtain s where s: "resolve_agent from_value file opts (''crews.'' @ n) c (m, layer) = Inr s"
    using crew(2) assms(4) by (auto simp: is_ok_iff)
  have "bt_wf (map (\<lambda>e. (fst e, projr (resolve_crew from_value file opts e))) (ff_crews file))"
    using wf(1) by (simp add: bt_wf_def comp_def)
  then have 1: "bt_get (fsp_crews spec) n = Some cs"
    using assms(3) cs by (force simp: r(5) bt_get_iff)
  have "bt_wf (map (\<lambda>a. (fst a, projr (resolve_agent from_value file opts (''crews.'' @ n) c a))) (cf_agents c))"
    using wf(2) by (simp add: bt_wf_def comp_def)
  then have 2: "bt_get (csp_agents cs) m = Some s"
    using assms(4) s by (force simp: crew(3) bt_get_iff)
  show thesis by (rule that[OF 1 2 s crew(1)])
qed

section \<open>Properties\<close>

text \<open>
  C19. A resolved specification is sound: it validates as a fleet, its name is not reserved, it has
  exactly the file's crews, and every agent the file declares has the settings typed from its
  merged layers (host, operator, fleet, crew, agent), free of balerix-owned hooks and environment
  variables, with exact tool versions, an acceptable branch, valid plugin blocks, and the runner
  this resolution is for.
\<close>

theorem resolved_spec_sound:
  assumes "resolve from_value file opts = Inr spec" "file_wf file"
    and "(n, c) \<in> set (ff_crews file)" "(m, layer) \<in> set (cf_agents c)"
  shows "is_ok (fleet_try_from spec) \<and> reserved_fleet_reason (fsp_name spec) = None
    \<and> map fst (fsp_crews spec) = map fst (ff_crews file)
    \<and> (\<exists>cs s. bt_get (fsp_crews spec) n = Some cs \<and> bt_get (csp_agents cs) m = Some s
         \<and> from_value (merge_layers (base_layers opts @ [ff_defaults file, cf_defaults c, layer])) = Inr s
         \<and> agent_valid s \<and> runner_kind_of (as_runner s) = ro_runner opts)"
proof -
  have wf: "bt_wf (ff_crews file)" using assms(2) by (simp add: file_wf_def)
  obtain cs s where "bt_get (fsp_crews spec) n = Some cs" "bt_get (csp_agents cs) m = Some s"
      "resolve_agent from_value file opts (''crews.'' @ n) c (m, layer) = Inr s"
    using resolved_agent_entry[OF assms] .
  then show ?thesis
    using resolve_Inr(1,2,5)[OF assms(1) wf] by (auto simp: resolve_agent_Inr comp_def)
qed

text \<open>A typing function for the witnesses: it reads the branch and keeps the defaults otherwise.\<close>

definition sample_from_value :: "json \<Rightarrow> string + agent_settings" where
  "sample_from_value v =
     Inr (default_agent_settings\<lparr>as_branch := Option.bind (json_get v ''branch'') as_str\<rparr>)"

definition sample_file :: fleet_file where
  "sample_file =
     \<lparr>ff_api_version = API_VERSION, ff_kind = KIND, ff_name = Some ''payments'', ff_defaults = empty_object,
      ff_crews = [(''backend'', \<lparr>cf_repo = ''acme/pay'', cf_ref = ''main'', cf_git = default_git_settings,
        cf_defaults = JNull, cf_agents = [(''alice'', JObject [(''branch'', JString ''fix/7'')])]\<rparr>)]\<rparr>"

definition sample_options :: resolve_options where
  "sample_options =
     \<lparr>ro_name_override = None, ro_host_claude_settings = Some (JObject [(''model'', JString ''opus'')]),
      ro_operator_layer = Some (JObject [(''claude'', JObject [(''binary'', JString ''/opt/claude'')])]),
      ro_operator_layer_name = None, ro_restricted = True, ro_runner = TmuxKind\<rparr>"

lemma sample_resolve:
  "resolve sample_from_value sample_file sample_options =
     Inr \<lparr>fsp_name = ''payments'', fsp_tools = [], fsp_crews = [(''backend'',
       \<lparr>csp_repo = ''acme/pay'', csp_ref = ''main'', csp_git = default_git_settings, csp_tools = [],
        csp_agents = [(''alice'', default_agent_settings\<lparr>as_branch := Some ''fix/7''\<rparr>)]\<rparr>)]\<rparr>"
  by code_simp

lemma sample_file_entries:
  "file_wf sample_file"
  "(''backend'', snd (hd (ff_crews sample_file))) \<in> set (ff_crews sample_file)"
  "(''alice'', JObject [(''branch'', JString ''fix/7'')]) \<in> set (cf_agents (snd (hd (ff_crews sample_file))))"
  by (code_simp, simp_all add: sample_file_def)

theorem resolved_spec_sound_witness:
  "\<exists>s. sample_from_value (merge_layers (base_layers sample_options
      @ [ff_defaults sample_file, JNull, JObject [(''branch'', JString ''fix/7'')]])) = Inr s \<and> agent_valid s"
  using resolved_spec_sound[OF sample_resolve sample_file_entries]
  by (auto simp: sample_file_def)

text \<open>
  Through the whole resolution, a restricted file cannot choose what its agents run as: every
  agent's settings are typed from a value that agrees, at each refused key, with what the host's
  and the operator's layers alone give.
\<close>

theorem restricted_resolution:
  assumes "resolve from_value file opts = Inr spec" "file_wf file" "ro_restricted opts"
    and "list_all json_wf (base_layers opts)"
    and "(n, c) \<in> set (ff_crews file)" "(m, layer) \<in> set (cf_agents c)" "segs \<in> set refused_paths"
  shows "let merged = merge_layers (base_layers opts @ [ff_defaults file, cf_defaults c, layer])
    in (\<exists>cs s. bt_get (fsp_crews spec) n = Some cs \<and> bt_get (csp_agents cs) m = Some s \<and> from_value merged = Inr s)
      \<and> json_pointer merged segs = json_pointer (merge_layers (base_layers opts)) segs"
proof -
  let ?layers = "[ff_defaults file, cf_defaults c, layer]"
  have wf: "bt_wf (ff_crews file)" "list_all json_wf ?layers"
    using assms(2,5,6) by (auto simp: file_wf_def list_all_iff)
  obtain cs s where cs: "bt_get (fsp_crews spec) n = Some cs" "bt_get (csp_agents cs) m = Some s"
    and s: "resolve_agent from_value file opts (''crews.'' @ n) c (m, layer) = Inr s"
    and crew: "layer_checks opts (''crews.'' @ n @ ''.defaults'') (cf_defaults c) = Inr ()"
    using resolved_agent_entry[OF assms(1,2,5,6)] .
  have "\<forall>l \<in> set ?layers. (is_object l \<or> is_null l) \<and> (\<exists>path. check_layer path l = Inr ())"
    using layer_checks_Inr[OF resolve_Inr(3)[OF assms(1) wf(1)]] layer_checks_Inr[OF crew]
      layer_checks_Inr[of opts "''crews.'' @ n @ ''.agents.'' @ m" layer] s assms(3)
    by (auto simp: resolve_agent_Inr)
  from restricted_layers_keep[OF assms(7,4) wf(2) this] show ?thesis
    using cs s by (auto simp: resolve_agent_Inr Let_def)
qed

theorem restricted_resolution_witness:
  "json_pointer (merge_layers (base_layers sample_options
      @ [ff_defaults sample_file, JNull, JObject [(''branch'', JString ''fix/7'')]])) [''claude'', ''binary'']
    = Some (JString ''/opt/claude'')"
proof -
  have seg: "[''claude'', ''binary''] \<in> set refused_paths" by (simp add: refused_paths_eq)
  have opts: "ro_restricted sample_options" "list_all json_wf (base_layers sample_options)" by code_simp+
  have "json_pointer (merge_layers (base_layers sample_options)) [''claude'', ''binary''] = Some (JString ''/opt/claude'')"
    by code_simp
  then show ?thesis
    using restricted_resolution[OF sample_resolve sample_file_entries(1) opts sample_file_entries(2,3) seg]
    by (auto simp: Let_def sample_file_def)
qed

end
