(* ===== verification/Text.thy ===== *)
theory Text
  imports Balerix_Prelude
begin

text \<open>
  Text typed into an agent's pane (crates/balerix-api/src/text.rs): what is stripped before it
  reaches the input line, and what a submitted prompt may be the submission of. The source works
  on \<open>char\<close>s, so a text is here the list of its code points; \<open>chars\<close> and \<open>utf8\<close> relate it to the
  bytes of a \<open>str\<close>. The lemmas show that \<open>prompt_text\<close> never opens another input mode and is
  idempotent, and that a submitted text is among the candidates for every way it can be reported.
\<close>

section \<open>Code points\<close>

type_synonym ustr = "nat list"

text \<open>\<open>str::chars\<close>, the decoder of UTF-8, and its inverse.\<close>

fun chars :: "string \<Rightarrow> ustr" where
  "chars [] = []"
| "chars (a # s) =
     (let n = of_char a :: nat; tail = (\<lambda>c. of_char c mod 64)
      in if n < 0x80 then n # chars s
         else if n < 0xE0 then (case s of b # r \<Rightarrow> ((n - 0xC0) * 64 + tail b) # chars r | _ \<Rightarrow> [])
         else if n < 0xF0
         then (case s of b # c # r \<Rightarrow> (((n - 0xE0) * 64 + tail b) * 64 + tail c) # chars r | _ \<Rightarrow> [])
         else (case s of
                 b # c # d # r \<Rightarrow> ((((n - 0xF0) * 64 + tail b) * 64 + tail c) * 64 + tail d) # chars r
               | _ \<Rightarrow> []))"

definition utf8_char :: "nat \<Rightarrow> string" where
  "utf8_char n =
     map char_of
       (if n < 0x80 then [n]
        else if n < 0x800 then [0xC0 + n div 64, 0x80 + n mod 64]
        else if n < 0x10000 then [0xE0 + n div 4096, 0x80 + n div 64 mod 64, 0x80 + n mod 64]
        else [0xF0 + n div 262144, 0x80 + n div 4096 mod 64, 0x80 + n div 64 mod 64, 0x80 + n mod 64])"

definition utf8 :: "ustr \<Rightarrow> string" where
  "utf8 s = concat (map utf8_char s)"

text \<open>\<open>str::len\<close>: the bytes of a text.\<close>

definition utf8_len :: "ustr \<Rightarrow> nat" where
  "utf8_len s = length (utf8 s)"

definition points :: "string \<Rightarrow> ustr" where
  "points s = map of_char s"

text \<open>\<open>char::is_whitespace\<close> and \<open>char::is_control\<close>: the properties White\_Space and Cc.\<close>

definition is_whitespace :: "nat \<Rightarrow> bool" where
  "is_whitespace c \<longleftrightarrow>
     9 \<le> c \<and> c \<le> 13 \<or> c = 32 \<or> c = 0x85 \<or> c = 0xA0 \<or> c = 0x1680 \<or> 0x2000 \<le> c \<and> c \<le> 0x200A
     \<or> c = 0x2028 \<or> c = 0x2029 \<or> c = 0x202F \<or> c = 0x205F \<or> c = 0x3000"

definition is_control :: "nat \<Rightarrow> bool" where
  "is_control c \<longleftrightarrow> c < 32 \<or> 127 \<le> c \<and> c < 160"

definition text_trim_start :: "ustr \<Rightarrow> ustr" where
  "text_trim_start = dropWhile is_whitespace"

definition text_trim_end :: "ustr \<Rightarrow> ustr" where
  "text_trim_end s = rev (dropWhile is_whitespace (rev s))"

definition text_trim :: "ustr \<Rightarrow> ustr" where
  "text_trim s = text_trim_end (text_trim_start s)"

text \<open>\<open>str::split_whitespace\<close>: the maximal runs of characters that are not whitespace.\<close>

function split_whitespace :: "ustr \<Rightarrow> ustr list" where
  "split_whitespace [] = []"
| "split_whitespace (c # s) =
     (if is_whitespace c then split_whitespace s
      else (c # takeWhile (\<lambda>d. \<not> is_whitespace d) s)
           # split_whitespace (dropWhile (\<lambda>d. \<not> is_whitespace d) s))"
  by pat_completeness auto
termination
  by (relation "measure length") (auto simp: le_imp_less_Suc length_dropWhile_le)

section \<open>What is typed\<close>

definition MODE_CHARS :: ustr where
  "MODE_CHARS = points ''!#&''"

definition newline :: nat where
  "newline = 10"

definition is_terminal_control :: "nat \<Rightarrow> bool" where
  "is_terminal_control c \<longleftrightarrow> is_control c \<and> c \<noteq> newline \<and> c \<noteq> 9"

definition strip_terminal_controls :: "ustr \<Rightarrow> ustr" where
  "strip_terminal_controls text =
     (if \<not> list_ex is_terminal_control text then text
      else filter (\<lambda>c. \<not> is_control c \<or> c = newline \<or> c = 9) text)"

definition in_ranges :: "(nat \<times> nat) list \<Rightarrow> nat \<Rightarrow> bool" where
  "in_ranges rs c \<longleftrightarrow> list_ex (\<lambda>(a, b). a \<le> c \<and> c \<le> b) rs"

definition is_format :: "nat \<Rightarrow> bool" where
  "is_format =
     in_ranges
       [(0xAD, 0xAD), (0x600, 0x605), (0x61C, 0x61C), (0x6DD, 0x6DD), (0x70F, 0x70F), (0x890, 0x891),
        (0x8E2, 0x8E2), (0x180E, 0x180E), (0x200B, 0x200F), (0x202A, 0x202E), (0x2060, 0x2064),
        (0x2066, 0x206F), (0xFEFF, 0xFEFF), (0xFFF9, 0xFFFB), (0x110BD, 0x110BD), (0x110CD, 0x110CD),
        (0x13430, 0x1343F), (0x1BCA0, 0x1BCA3), (0x1D173, 0x1D17A), (0xE0001, 0xE0001),
        (0xE0020, 0xE007F)]"

definition is_ignorable :: "nat \<Rightarrow> bool" where
  "is_ignorable =
     in_ranges
       [(0x34F, 0x34F), (0x115F, 0x1160), (0x17B4, 0x17B5), (0x180B, 0x180D), (0x180F, 0x180F),
        (0x200B, 0x200F), (0x202A, 0x202E), (0x2060, 0x206F), (0x3164, 0x3164), (0xFE00, 0xFE0F),
        (0xFEFF, 0xFEFF), (0xFFA0, 0xFFA0), (0xFFF0, 0xFFF8), (0x1107F, 0x1107F), (0x16FE4, 0x16FE4),
        (0xE0000, 0xE0000), (0xE0002, 0xE001F), (0xE0080, 0xE0FFF)]"

definition is_blank :: "nat \<Rightarrow> bool" where
  "is_blank c \<longleftrightarrow> is_whitespace c \<or> is_control c \<or> is_format c \<or> is_ignorable c"

definition starts_with_any :: "ustr \<Rightarrow> ustr \<Rightarrow> bool" where
  "starts_with_any s cs \<longleftrightarrow> (case s of [] \<Rightarrow> False | c # _ \<Rightarrow> c \<in> set cs)"

definition prompt_text :: "ustr \<Rightarrow> ustr" where
  "prompt_text text =
     (let stripped = strip_terminal_controls text;
          body = dropWhile is_blank stripped
      in if starts_with_any body MODE_CHARS then points [CHR 0x5C] @ body
         else if utf8_len body = utf8_len text then text
         else body)"

section \<open>What was submitted\<close>

definition PASTE_LEAD :: ustr where
  "PASTE_LEAD = points ('' Act on the message above as this turn'' @ [CHR 0x27] @ ''s request.'')"

definition PASTE_LEAD_ABOVE :: nat where
  "PASTE_LEAD_ABOVE = 500"

definition needs_paste_lead :: "ustr \<Rightarrow> bool" where
  "needs_paste_lead text \<longleftrightarrow>
     \<not> starts_with_any (dropWhile is_blank text) (points ''/'')
     \<and> (newline \<in> set text \<or> utf8_len text > PASTE_LEAD_ABOVE)"

definition strip_paste_lead :: "ustr \<Rightarrow> ustr option" where
  "strip_paste_lead prompt =
     map_option text_trim (strip_suffix (text_trim_start PASTE_LEAD) (text_trim_end prompt))"

definition unwrap_pasted :: "ustr \<Rightarrow> ustr option" where
  "unwrap_pasted text =
     Option.bind (strip_prefix (points ''<pasted_content'') (text_trim text)) (\<lambda>rest.
     Option.bind (split_once (of_char (CHR ''>'')) rest) (\<lambda>(attrs, inner).
       if of_char (CHR ''<'') \<in> set attrs then None
       else case strip_suffix (points ''</pasted_content'' @ attrs @ points ''>'') inner of
              Some s \<Rightarrow> Some s
            | None \<Rightarrow> strip_suffix (points ''</pasted_content>'') inner))"

definition opt_list :: "'a option \<Rightarrow> 'a list" where
  "opt_list x = (case x of None \<Rightarrow> [] | Some a \<Rightarrow> [a])"

definition submitted_candidates :: "ustr \<Rightarrow> ustr list" where
  "submitted_candidates prompt =
     (let unled = strip_paste_lead prompt
      in remdups_adj ([prompt] @ opt_list unled
           @ opt_list (unwrap_pasted (case unled of Some u \<Rightarrow> u | None \<Rightarrow> prompt))))"

definition submitted_text :: "ustr \<Rightarrow> ustr" where
  "submitted_text prompt = last (submitted_candidates prompt)"

section \<open>Lemmas\<close>

subsection \<open>UTF-8\<close>

lemma div_digit: "(n div m :: nat) div 64 * 64 + n div m mod 64 = n div m"
  by (rule div_mult_mod_eq)

lemma tail_digit:
  "(128 + n mod 64) mod 256 mod 64 = (n mod 64 :: nat)" "(128 + n mod 64) mod 64 = n mod 64"
proof -
  have *: "(2 * 64 + n mod 64) mod 64 = n mod 64" by (simp only: mod_mult_self3 mod_mod_trivial)
  have "n mod 64 < 64" by simp
  then have "(128 + n mod 64) mod 256 = 2 * 64 + n mod 64" by simp
  with * show "(128 + n mod 64) mod 256 mod 64 = n mod 64" by (simp only:)
  from * show "(128 + n mod 64) mod 64 = n mod 64" by simp
qed

lemma chars_utf8_char:
  assumes "c < 0x110000"
  shows "chars (utf8_char c @ s) = c # chars s"
proof -
  consider "c < 0x80" | "0x80 \<le> c" "c < 0x800" | "0x800 \<le> c" "c < 0x10000" | "0x10000 \<le> c" by linarith
  then show ?thesis
  proof cases
    case 3
    have "c div 4096 < 16" using 3 by linarith
    then have "(0xE0 + c div 4096) mod 256 = 0xE0 + c div 4096" by simp
    moreover have "(c div 4096 * 64 + c div 64 mod 64) * 64 + c mod 64 = c"
      using div_digit[of c 64] by (simp flip: div_mult2_eq)
    ultimately show ?thesis using 3 by (simp add: utf8_char_def Let_def tail_digit)
  next
    case 4
    have "c div 262144 < 8" using 4 assms by linarith
    then have "(0xF0 + c div 262144) mod 256 = 0xF0 + c div 262144" by simp
    moreover have "((c div 262144 * 64 + c div 4096 mod 64) * 64 + c div 64 mod 64) * 64 + c mod 64 = c"
      using div_digit[of c 64] div_digit[of c 4096] by (simp flip: div_mult2_eq)
    ultimately show ?thesis using 4 by (simp add: utf8_char_def Let_def tail_digit)
  next
    case 2
    have "c div 64 < 32" using 2 by linarith
    moreover from this have "(0xC0 + c div 64) mod 256 = 0xC0 + c div 64" by simp
    ultimately show ?thesis using 2 by (simp add: utf8_char_def Let_def tail_digit)
  qed (simp add: utf8_char_def)
qed

lemma chars_utf8: "list_all (\<lambda>c. c < 0x110000) s \<Longrightarrow> chars (utf8 s) = s"
  by (induction s) (auto simp: utf8_def chars_utf8_char)

lemma utf8_char_nonempty: "0 < length (utf8_char c)"
  by (simp add: utf8_char_def)

lemma utf8_len_simps [simp]:
  "utf8_len [] = 0" "utf8_len (c # s) = length (utf8_char c) + utf8_len s"
  by (simp_all add: utf8_len_def utf8_def)

lemma utf8_len_filter: "utf8_len (filter P s) \<le> utf8_len s"
  by (induction s) auto

lemma utf8_len_filter_eq: "utf8_len (filter P s) = utf8_len s \<Longrightarrow> filter P s = s"
proof (induction s)
  case (Cons c s)
  show ?case
  proof (cases "P c")
    case False
    then have "utf8_len (filter P s) = length (utf8_char c) + utf8_len s" using Cons.prems by simp
    with utf8_len_filter[of P s] utf8_char_nonempty[of c] show ?thesis by linarith
  qed (use Cons in simp)
qed simp

lemma utf8_len_dropWhile: "utf8_len (dropWhile P s) \<le> utf8_len s"
  by (induction s) auto

lemma utf8_len_dropWhile_eq:
  assumes "utf8_len (dropWhile P s) = utf8_len s"
  shows "dropWhile P s = s"
proof (cases s)
  case (Cons c r)
  then show ?thesis
    using assms utf8_len_dropWhile[of P r] utf8_char_nonempty[of c] by (auto split: if_splits)
qed simp

subsection \<open>Prompt text\<close>

lemmas char_class_defs =
  is_whitespace_def is_control_def is_format_def is_ignorable_def in_ranges_def is_blank_def
  is_terminal_control_def newline_def

definition clean_start :: "ustr \<Rightarrow> bool" where
  "clean_start s \<longleftrightarrow> (case s of [] \<Rightarrow> True | c # _ \<Rightarrow> \<not> is_blank c \<and> c \<notin> set MODE_CHARS)"

lemma strip_terminal_controls_filter:
  "strip_terminal_controls text = filter (\<lambda>c. \<not> is_terminal_control c) text"
proof -
  have "(\<not> is_control c \<or> c = newline \<or> c = 9) = (\<not> is_terminal_control c)" for c
    by (auto simp: is_terminal_control_def)
  then show ?thesis by (auto simp: strip_terminal_controls_def list_ex_iff filter_id_conv)
qed

lemma prompt_text_eq:
  "prompt_text text =
     (let body = dropWhile is_blank (filter (\<lambda>c. \<not> is_terminal_control c) text)
      in if starts_with_any body MODE_CHARS then 92 # body else body)"
proof -
  let ?f = "filter (\<lambda>c. \<not> is_terminal_control c) text"
  have "dropWhile is_blank ?f = text" if "utf8_len (dropWhile is_blank ?f) = utf8_len text"
  proof -
    have "utf8_len ?f = utf8_len text"
      using that utf8_len_dropWhile[of is_blank ?f] utf8_len_filter[of _ "text"] by (metis le_antisym)
    then show ?thesis using that utf8_len_filter_eq utf8_len_dropWhile_eq by metis
  qed
  then show ?thesis
    by (auto simp: prompt_text_def strip_terminal_controls_filter Let_def points_def)
qed

lemma clean_start_id:
  assumes "clean_start s" "list_all (\<lambda>c. \<not> is_terminal_control c) s"
  shows "prompt_text s = s"
proof -
  have "filter (\<lambda>c. \<not> is_terminal_control c) s = s" using assms(2) by (simp add: list_all_iff filter_id_conv)
  moreover have "dropWhile is_blank s = s" "\<not> starts_with_any s MODE_CHARS"
    using assms(1) by (cases s; simp add: clean_start_def starts_with_any_def)+
  ultimately show ?thesis by (simp add: prompt_text_eq)
qed

lemma prompt_text_clean: "clean_start (prompt_text text)"
proof -
  define body where "body = dropWhile is_blank (filter (\<lambda>c. \<not> is_terminal_control c) text)"
  have "\<not> is_blank 92" "92 \<notin> set MODE_CHARS" by (simp_all add: char_class_defs MODE_CHARS_def points_def)
  moreover have "body \<noteq> [] \<Longrightarrow> \<not> is_blank (hd body)" by (simp add: body_def hd_dropWhile)
  ultimately show ?thesis
    by (cases body) (auto simp: prompt_text_eq clean_start_def starts_with_any_def Let_def simp flip: body_def)
qed

lemma prompt_text_no_controls: "list_all (\<lambda>c. \<not> is_terminal_control c) (prompt_text text)"
proof -
  have "\<not> is_terminal_control 92" by (simp add: char_class_defs)
  then show ?thesis by (auto simp: prompt_text_eq list_all_iff Let_def dest: set_dropWhileD)
qed

subsection \<open>Candidates\<close>

lemma opt_list_set [simp]: "x \<in> set (opt_list y) \<longleftrightarrow> y = Some x"
  by (auto simp: opt_list_def split: option.splits)

lemma submitted_candidates_set:
  "set (submitted_candidates prompt) =
     {prompt} \<union> {u. strip_paste_lead prompt = Some u}
     \<union> {t. unwrap_pasted (case strip_paste_lead prompt of Some u \<Rightarrow> u | None \<Rightarrow> prompt) = Some t}"
  by (auto simp: submitted_candidates_def Let_def)

lemma candidates_hd: "hd (submitted_candidates prompt) = prompt"
  by (simp add: submitted_candidates_def Let_def)

text \<open>How Claude may report a text: as it was, with the lead, and wrapped with or without it.\<close>

definition lead :: ustr where
  "lead = text_trim_start PASTE_LEAD"

definition wrapped :: "ustr \<Rightarrow> bool \<Rightarrow> ustr \<Rightarrow> ustr" where
  "wrapped attrs repeat text =
     points ''<pasted_content'' @ attrs @ points ''>'' @ text @ points ''</pasted_content''
       @ (if repeat then attrs else []) @ points ''>''"

definition reports :: "ustr \<Rightarrow> bool \<Rightarrow> ustr \<Rightarrow> ustr list" where
  "reports attrs repeat text =
     [text, text @ PASTE_LEAD, wrapped attrs repeat text,
      wrapped attrs repeat text @ [newline, newline] @ lead, wrapped attrs repeat text @ PASTE_LEAD]"

definition attrs_ok :: "ustr \<Rightarrow> bool" where
  "attrs_ok attrs \<longleftrightarrow> of_char (CHR ''<'') \<notin> set attrs \<and> of_char (CHR ''>'') \<notin> set attrs"

lemma lead_shape: "PASTE_LEAD = 32 # lead" "lead \<noteq> []" "last lead = 46" "\<not> is_whitespace 46" "is_whitespace 32"
  by (simp_all add: lead_def text_trim_start_def PASTE_LEAD_def points_def char_class_defs)

lemma trim_end_last: "s \<noteq> [] \<Longrightarrow> \<not> is_whitespace (last s) \<Longrightarrow> text_trim_end s = s"
  by (cases s rule: rev_cases) (simp_all add: text_trim_end_def)

lemma trim_end_append_blank: "list_all is_whitespace w \<Longrightarrow> text_trim_end (s @ w) = text_trim_end s"
  unfolding text_trim_end_def by (simp add: list_all_iff, subst dropWhile_append2) auto

lemma trim_append_blank:
  assumes "list_all is_whitespace w"
  shows "text_trim (s @ w) = text_trim s"
proof (cases "list_all is_whitespace s")
  case True
  then have "dropWhile is_whitespace (s @ w) = []" "dropWhile is_whitespace s = []"
    using assms by (auto simp: list_all_iff dropWhile_eq_Nil_conv)
  then show ?thesis by (simp only: text_trim_def text_trim_start_def)
next
  case False
  then have "dropWhile is_whitespace (s @ w) = dropWhile is_whitespace s @ w"
    by (auto simp: list_all_iff intro: dropWhile_append1)
  then show ?thesis using assms by (simp add: text_trim_def text_trim_start_def trim_end_append_blank)
qed

lemma strip_lead_append:
  assumes "list_all is_whitespace w"
  shows "strip_paste_lead (s @ w @ lead) = Some (text_trim s)"
proof -
  have "text_trim_end (s @ w @ lead) = s @ w @ lead" by (rule trim_end_last) (use lead_shape in auto)
  moreover have "strip_suffix lead ((s @ w) @ lead) = Some (s @ w)" by (simp add: strip_suffix_Some)
  ultimately show ?thesis using trim_append_blank[OF assms] by (simp add: strip_paste_lead_def flip: lead_def)
qed

lemma wrapped_ends: "hd (wrapped attrs r t) = 60" "last (wrapped attrs r t) = 62" "wrapped attrs r t \<noteq> []"
  by (simp_all add: wrapped_def points_def)

lemma wrapped_trim: "text_trim (wrapped attrs r t) = wrapped attrs r t"
proof -
  have "\<not> is_whitespace 60" "\<not> is_whitespace 62" by (simp_all add: char_class_defs)
  then show ?thesis
    using wrapped_ends[of attrs r t]
    by (cases "wrapped attrs r t") (auto simp: text_trim_def text_trim_start_def trim_end_last)
qed

lemma wrapped_no_lead: "strip_paste_lead (wrapped attrs r t) = None"
proof -
  have "\<not> is_whitespace 62" by (simp add: char_class_defs)
  then have "text_trim_end (wrapped attrs r t) = wrapped attrs r t"
    using wrapped_ends by (simp add: trim_end_last)
  moreover have "\<not> suffix lead (wrapped attrs r t)"
    using wrapped_ends[of attrs r t] lead_shape(2,3) by (auto simp: suffix_def)
  ultimately show ?thesis by (simp add: strip_paste_lead_def strip_suffix_None flip: lead_def)
qed

text \<open>The two closing tags differ only in the attributes, which hold no \<open><\<close>.\<close>

lemma close_tag_attrs:
  assumes "d \<notin> set a" "d \<notin> set b" "x @ d # a = y @ d # b"
  shows "x = y \<and> a = b"
proof -
  have "rev a @ d # rev x = rev b @ d # rev y" using arg_cong[OF assms(3), of rev] by simp
  then have "split_once d (rev a @ d # rev x) = split_once d (rev b @ d # rev y)" by simp
  then show ?thesis using assms(1,2) by (simp add: split_once_append)
qed

lemma unwrap_wrapped:
  assumes "attrs_ok attrs"
  shows "unwrap_pasted (wrapped attrs r t) = Some t"
proof -
  let ?close = "\<lambda>a. points ''</pasted_content'' @ a @ points ''>''"
  let ?a = "if r then attrs else []"
  have lt: "of_char (CHR ''<'') \<notin> set attrs" "of_char (CHR ''>'') \<notin> set attrs"
    using assms by (auto simp: attrs_ok_def)
  have w: "wrapped attrs r t = points ''<pasted_content'' @ attrs @ of_char (CHR ''>'') # t @ ?close ?a"
    by (simp add: wrapped_def points_def)
  have "strip_prefix (points ''<pasted_content'') (wrapped attrs r t)
      = Some (attrs @ of_char (CHR ''>'') # t @ ?close ?a)"
    by (simp add: strip_prefix_Some w)
  moreover have "split_once (of_char (CHR ''>'')) (attrs @ of_char (CHR ''>'') # t @ ?close ?a)
      = Some (attrs, t @ ?close ?a)"
    using lt(2) by (rule split_once_append)
  moreover have "(case strip_suffix (?close attrs) (t @ ?close ?a) of Some s \<Rightarrow> Some s
      | None \<Rightarrow> strip_suffix (points ''</pasted_content>'') (t @ ?close ?a)) = Some t"
  proof (cases "strip_suffix (?close attrs) (t @ ?close ?a)")
    case None
    then have "?a = []" by (cases r) (auto simp: strip_suffix_None suffix_def)
    then show ?thesis using None by (simp add: strip_suffix_Some points_def)
  next
    case (Some s)
    let ?rest = "\<lambda>a. points ''/pasted_content'' @ a @ points ''>''"
    have eq: "t @ of_char (CHR ''<'') # ?rest ?a = s @ of_char (CHR ''<'') # ?rest attrs"
      using Some by (simp add: strip_suffix_Some points_def)
    have "of_char (CHR ''<'') \<notin> set (?rest ?a)" "of_char (CHR ''<'') \<notin> set (?rest attrs)"
      using lt(1) by (auto simp: points_def)
    from close_tag_attrs[OF this eq] have "t = s" ..
    then show ?thesis using Some by simp
  qed
  ultimately show ?thesis using lt(1) by (simp add: unwrap_pasted_def wrapped_trim)
qed

lemma reports_candidates:
  assumes "attrs_ok attrs" "prompt \<in> set (reports attrs r t)"
  shows "t \<in> set (submitted_candidates prompt) \<or> text_trim t \<in> set (submitted_candidates prompt)"
proof -
  let ?w = "wrapped attrs r t"
  have blank: "list_all is_whitespace [32]" "list_all is_whitespace [newline, newline]" by (simp_all add: char_class_defs)
  have led: "strip_paste_lead (s @ PASTE_LEAD) = Some (text_trim s)"
      "strip_paste_lead (s @ newline # newline # lead) = Some (text_trim s)" for s
    using strip_lead_append[OF blank(1), of s] strip_lead_append[OF blank(2), of s] by (simp_all add: lead_shape(1))
  from assms(2) consider "prompt = t" | "prompt = t @ PASTE_LEAD" | "prompt = ?w"
    | "prompt = ?w @ [newline, newline] @ lead" | "prompt = ?w @ PASTE_LEAD"
    by (auto simp: reports_def)
  then show ?thesis
    by cases (auto simp: submitted_candidates_set led wrapped_no_lead wrapped_trim unwrap_wrapped[OF assms(1)])
qed

section \<open>Properties\<close>

text \<open>
  The text typed for a plugin never changes the input line's mode and holds no terminal
  control: it carries no control character but newline and tab, and its first character, if any,
  is visible and not a mode character. Passing an answer through again leaves it unchanged, so
  the plugin's tracked text is the text the daemon types.
\<close>

theorem prompt_text_safe:
  "list_all (\<lambda>c. \<not> is_terminal_control c) (prompt_text text) \<and> clean_start (prompt_text text)
   \<and> prompt_text (prompt_text text) = prompt_text text"
  using prompt_text_clean prompt_text_no_controls clean_start_id by simp



end
