(* ===== verification/Protocol.thy ===== *)
theory Protocol
  imports Json Text
begin

text \<open>
  What the daemon and a plugin say to each other (crates/balerix-api/src/protocol.rs, hook.rs):
  hook events, the actions a verdict may ask for with their hand-written decoder and their bounds,
  the key grammar of the key/value store, and resize frames. serde's own error texts are carried as
  the value they are about. The lemmas show that an action survives the wire, what an accepted
  action is bounded by, and that accepted keys are relative paths that stay inside their directory.
\<close>

section \<open>Hook events and actions\<close>

record hook_event =
  ev_agent :: string
  ev_name :: string
  ev_session_id :: "string option"
  ev_received_at :: string
  ev_payload :: json

datatype key = Up | Down | Enter | Escape

datatype key_step = KeyPress key | KeyText string

datatype plugin_action =
    SendText string bool
  | SendKeys "key_step list" u64
  | Restart
  | Stop

definition OBSERVER_BATCH :: nat where
  "OBSERVER_BATCH = 64"

definition OBSERVER_QUEUE :: nat where
  "OBSERVER_QUEUE = 1024"

definition CHAIN_BUDGET_MS :: nat where
  "CHAIN_BUDGET_MS = 1500"

definition DEFAULT_KEY_DELAY_MS :: u64 where
  "DEFAULT_KEY_DELAY_MS = 100"

definition MIN_KEY_DELAY_MS :: u64 where
  "MIN_KEY_DELAY_MS = 20"

definition MAX_KEY_DELAY_MS :: u64 where
  "MAX_KEY_DELAY_MS = 500"

definition MAX_KEY_STEPS :: nat where
  "MAX_KEY_STEPS = 64"

definition MAX_KEY_TEXT :: nat where
  "MAX_KEY_TEXT = 1024"

definition MAX_KEY_SEQUENCE_MS :: u64 where
  "MAX_KEY_SEQUENCE_MS = 8000"

definition MAX_SEND_TEXT :: nat where
  "MAX_SEND_TEXT = 256 * 1024"

record intercept_response =
  ir_response :: json
  ir_actions :: "plugin_action list"

record intercept_request =
  iq_event :: hook_event
  iq_response_so_far :: json
  iq_deadline_ms :: u64

section \<open>The decoder of actions\<close>

text \<open>A custom message, or serde's refusal of a value of the wrong type.\<close>

datatype decode_error = Custom string | WrongType json

definition backquoted :: "string \<Rightarrow> string" where
  "backquoted s = ''`'' @ s @ ''`''"

definition decode_string :: "json \<Rightarrow> decode_error + string" where
  "decode_string v = (case v of JString s \<Rightarrow> Inr s | _ \<Rightarrow> Inl (WrongType v))"

definition decode_bool :: "json \<Rightarrow> decode_error + bool" where
  "decode_bool v = (case v of JBool b \<Rightarrow> Inr b | _ \<Rightarrow> Inl (WrongType v))"

definition decode_u64 :: "json \<Rightarrow> decode_error + u64" where
  "decode_u64 v =
     (case v of
        JNumber t \<Rightarrow>
          if t \<noteq> [] \<and> list_all is_ascii_digit t \<and> digits_value 0 t < 2 ^ 64
          then Inr (of_nat (digits_value 0 t)) else Inl (WrongType v)
      | _ \<Rightarrow> Inl (WrongType v))"

text \<open>An enum variant comes as its name, or as a map from its name to its content.\<close>

definition key_named :: "string \<Rightarrow> key option" where
  "key_named s =
     (if s = ''up'' then Some Up else if s = ''down'' then Some Down
      else if s = ''enter'' then Some Enter else if s = ''escape'' then Some Escape else None)"

definition decode_key :: "json \<Rightarrow> decode_error + key" where
  "decode_key v =
     ok_or (WrongType v)
       (case v of
          JString s \<Rightarrow> key_named s
        | JObject [(s, JNull)] \<Rightarrow> key_named s
        | _ \<Rightarrow> None)"

definition decode_key_step :: "json \<Rightarrow> decode_error + key_step" where
  "decode_key_step v =
     (case v of
        JObject [(tag, w)] \<Rightarrow>
          if tag = ''key'' then rbind (decode_key w) (\<lambda>k. Inr (KeyPress k))
          else if tag = ''text'' then rbind (decode_string w) (\<lambda>s. Inr (KeyText s))
          else Inl (WrongType v)
      | _ \<Rightarrow> Inl (WrongType v))"

fun decode_list :: "('a \<Rightarrow> 'e + 'b) \<Rightarrow> 'a list \<Rightarrow> 'e + 'b list" where
  "decode_list f [] = Inr []"
| "decode_list f (x # xs) = rbind (f x) (\<lambda>y. rbind (decode_list f xs) (\<lambda>ys. Inr (y # ys)))"

definition decode_key_steps :: "json \<Rightarrow> decode_error + key_step list" where
  "decode_key_steps v = (case v of JArray xs \<Rightarrow> decode_list decode_key_step xs | _ \<Rightarrow> Inl (WrongType v))"

definition reject_extra :: "(string, json) btree \<Rightarrow> string list \<Rightarrow> decode_error + unit" where
  "reject_extra obj allowed =
     rfold (\<lambda>key _. if key \<in> set allowed then Inr () else Inl (Custom (''unknown field '' @ backquoted key)))
       (bt_keys obj) ()"

definition required :: "(string, json) btree \<Rightarrow> string \<Rightarrow> decode_error + json" where
  "required obj field = ok_or (Custom (''missing field '' @ backquoted field)) (bt_get obj field)"

definition optional ::
  "(string, json) btree \<Rightarrow> string \<Rightarrow> (json \<Rightarrow> decode_error + 'a) \<Rightarrow> 'a \<Rightarrow> decode_error + 'a" where
  "optional obj field decode other = (case bt_get obj field of Some v \<Rightarrow> decode v | None \<Rightarrow> Inr other)"

definition decode_action :: "json \<Rightarrow> decode_error + plugin_action" where
  "decode_action value =
     rbind (ok_or (Custom ''expected an object'') (as_object value)) (\<lambda>obj.
     rbind (ok_or (Custom ''missing field `action`'') (Option.bind (bt_get obj ''action'') as_str)) (\<lambda>action.
     if action = ''send_text'' then
       rbind (reject_extra obj [''action'', ''text'', ''submit'']) (\<lambda>_.
       rbind (required obj ''text'') (\<lambda>t.
       rbind (decode_string t) (\<lambda>text.
       rbind (optional obj ''submit'' decode_bool False) (\<lambda>submit. Inr (SendText text submit)))))
     else if action = ''send_keys'' then
       rbind (reject_extra obj [''action'', ''steps'', ''delay_ms'']) (\<lambda>_.
       rbind (required obj ''steps'') (\<lambda>s.
       rbind (decode_key_steps s) (\<lambda>steps.
       rbind (optional obj ''delay_ms'' decode_u64 DEFAULT_KEY_DELAY_MS) (\<lambda>delay_ms.
       Inr (SendKeys steps delay_ms)))))
     else if action = ''restart'' then rbind (reject_extra obj [''action'']) (\<lambda>_. Inr Restart)
     else if action = ''stop'' then rbind (reject_extra obj [''action'']) (\<lambda>_. Inr Stop)
     else Inl (Custom (''unknown variant '' @ backquoted action))))"

text \<open>The derived encoder.\<close>

definition label :: "plugin_action \<Rightarrow> string" where
  "label a =
     (case a of
        SendText _ _ \<Rightarrow> ''send_text''
      | SendKeys _ _ \<Rightarrow> ''send_keys''
      | Restart \<Rightarrow> ''restart''
      | Stop \<Rightarrow> ''stop'')"

definition key_name :: "key \<Rightarrow> string" where
  "key_name k = (case k of Up \<Rightarrow> ''up'' | Down \<Rightarrow> ''down'' | Enter \<Rightarrow> ''enter'' | Escape \<Rightarrow> ''escape'')"

definition encode_key_step :: "key_step \<Rightarrow> json" where
  "encode_key_step s =
     (case s of
        KeyPress k \<Rightarrow> JObject [(''key'', JString (key_name k))]
      | KeyText t \<Rightarrow> JObject [(''text'', JString t)])"

definition encode_action :: "plugin_action \<Rightarrow> json" where
  "encode_action a =
     JObject (bt_collect ((''action'', JString (label a)) #
       (case a of
          SendText text submit \<Rightarrow> [(''text'', JString text), (''submit'', JBool submit)]
        | SendKeys steps delay_ms \<Rightarrow>
            [(''steps'', JArray (map encode_key_step steps)), (''delay_ms'', JNumber (nat_digits (unat delay_ms)))]
        | _ \<Rightarrow> [])))"

section \<open>Bounds\<close>

datatype action_error =
    TextTooLong nat
  | BadStepCount nat
  | BadDelay u64
  | SequenceTooLong nat u64 u64
  | BadStepText nat nat
  | StepControl nat

definition check_step :: "nat \<times> key_step \<Rightarrow> action_error + unit" where
  "check_step e =
     (case snd e of
        KeyPress _ \<Rightarrow> Inr ()
      | KeyText text \<Rightarrow>
          if text = [] \<or> length text > MAX_KEY_TEXT then Inl (BadStepText (fst e) (length text))
          else if list_ex is_control (chars text) then Inl (StepControl (fst e))
          else Inr ())"

definition action_validate :: "plugin_action \<Rightarrow> action_error + unit" where
  "action_validate a =
     (case a of
        SendText text _ \<Rightarrow>
          if length text > MAX_SEND_TEXT then Inl (TextTooLong (length text)) else Inr ()
      | SendKeys steps delay_ms \<Rightarrow>
          if steps = [] \<or> length steps > MAX_KEY_STEPS then Inl (BadStepCount (length steps))
          else if \<not> (MIN_KEY_DELAY_MS \<le> delay_ms \<and> delay_ms \<le> MAX_KEY_DELAY_MS) then Inl (BadDelay delay_ms)
          else let total = of_nat (length steps) * delay_ms
               in if total > MAX_KEY_SEQUENCE_MS then Inl (SequenceTooLong (length steps) delay_ms total)
                  else rfold (\<lambda>e _. check_step e) (List.enumerate 0 steps) ()
      | _ \<Rightarrow> Inr ())"

section \<open>Key/value keys\<close>

definition MAX_KV_KEY :: nat where
  "MAX_KV_KEY = 200"

datatype kv_key_error =
    KeyEmpty
  | KeyTooLong
  | KeyCharacter nat
  | KeyEmptySegment
  | KeyDotSegment string

definition kv_char :: "char \<Rightarrow> bool" where
  "kv_char c = (is_ascii_alphanumeric c \<or> c \<in> set ''._/-'')"

definition check_kv_segment :: "string \<Rightarrow> kv_key_error + unit" where
  "check_kv_segment seg =
     (if seg = [] then Inl KeyEmptySegment
      else if seg = ''.'' \<or> seg = ''..'' then Inl (KeyDotSegment seg)
      else Inr ())"

definition check_kv_key :: "string \<Rightarrow> kv_key_error + unit" where
  "check_kv_key key =
     (if key = [] then Inl KeyEmpty
      else if length key > MAX_KV_KEY then Inl KeyTooLong
      else case dropWhile kv_char key of
        c # rest \<Rightarrow> Inl (KeyCharacter (hd (chars (c # rest))))
      | [] \<Rightarrow> rfold (\<lambda>seg _. check_kv_segment seg) (split_on (CHR ''/'') key) ())"

section \<open>Resize frames\<close>

record resize =
  rs_cols :: "16 word"
  rs_rows :: "16 word"

datatype text_frame = ResizeFrame resize | ZeroSized | Malformed

text \<open>serde's typing of the frame is a parameter.\<close>

definition resize_parse :: "(string \<Rightarrow> resize option) \<Rightarrow> string \<Rightarrow> text_frame" where
  "resize_parse from_str text =
     (case from_str text of
        None \<Rightarrow> Malformed
      | Some frame \<Rightarrow>
          if rs_cols frame \<ge> 1 \<and> rs_rows frame \<ge> 1 then ResizeFrame frame else ZeroSized)"

section \<open>Lemmas\<close>

lemma digits_value_append: "digits_value n (s @ t) = digits_value (digits_value n s) t"
  by (induction s arbitrary: n) auto

lemma nat_digits_value: "digits_value 0 (nat_digits n) = n"
proof (induction n rule: nat_digits.induct)
  case (1 n)
  show ?case
  proof (cases "n < 10")
    case False
    then have "digits_value 0 (nat_digits n) = 10 * (n div 10) + (of_char (char_of (48 + n mod 10) :: char) - 48)"
      using 1 by (simp add: nat_digits.simps[of n] digits_value_append)
    then show ?thesis by simp
  qed (simp add: nat_digits.simps)
qed

lemma nat_digits_shape: "nat_digits n \<noteq> []" "list_all is_ascii_digit (nat_digits n)"
proof -
  have digit: "d < 10 \<Longrightarrow> is_ascii_digit (char_of (48 + d))" for d :: nat
    by (simp add: is_ascii_digit_def less_eq_char_def)
  show "nat_digits n \<noteq> []" by (cases "n < 10") (simp_all add: nat_digits.simps[of n])
  show "list_all is_ascii_digit (nat_digits n)"
  proof (induction n rule: nat_digits.induct)
    case (1 n)
    then show ?case using digit[of n] digit[of "n mod 10"] by (cases "n < 10") (simp_all add: nat_digits.simps[of n])
  qed
qed

lemma decode_u64_digits: "decode_u64 (JNumber (nat_digits (unat w))) = Inr w"
  using unsigned_less[of w] by (simp add: decode_u64_def nat_digits_shape nat_digits_value)

lemma decode_encode_step: "decode_key_step (encode_key_step s) = Inr s"
proof (cases s)
  case (KeyPress k)
  then show ?thesis
    by (cases k) (simp_all add: encode_key_step_def decode_key_step_def decode_key_def key_name_def key_named_def ok_or_def)
next
  case (KeyText t)
  then show ?thesis by (simp add: encode_key_step_def decode_key_step_def decode_string_def)
qed

lemma decode_list_map: "(\<And>x. f (g x) = Inr x) \<Longrightarrow> decode_list f (map g xs) = Inr xs"
  by (induction xs) auto

lemma decode_encode_steps: "decode_list decode_key_step (map encode_key_step steps) = Inr steps"
  by (rule decode_list_map) (rule decode_encode_step)

lemma encode_action_entries:
  "encode_action (SendText t s) =
     JObject [(''action'', JString ''send_text''), (''submit'', JBool s), (''text'', JString t)]"
  "encode_action (SendKeys steps d) =
     JObject [(''action'', JString ''send_keys''), (''delay_ms'', JNumber (nat_digits (unat d))),
       (''steps'', JArray (map encode_key_step steps))]"
  "encode_action Restart = JObject [(''action'', JString ''restart'')]"
  "encode_action Stop = JObject [(''action'', JString ''stop'')]"
  by (simp_all add: encode_action_def label_def bt_collect_def)

lemma decode_encode_action: "decode_action (encode_action a) = Inr a"
  by (cases a)
    (simp_all add: encode_action_entries decode_action_def reject_extra_def required_def optional_def bt_get_def
      bt_keys_def decode_string_def decode_bool_def ok_or_def decode_u64_digits decode_key_steps_def
      decode_encode_steps)

lemma check_step_Inr:
  "check_step (i, s) = Inr () \<longleftrightarrow>
     (case s of KeyPress _ \<Rightarrow> True
      | KeyText t \<Rightarrow> t \<noteq> [] \<and> length t \<le> 1024 \<and> \<not> list_ex is_control (chars t))"
  by (auto simp: check_step_def MAX_KEY_TEXT_def split: key_step.splits)

lemma enumerate_checks:
  "rfold (\<lambda>e _. check_step e) (List.enumerate n steps) () = Inr () \<longleftrightarrow>
     (\<forall>s \<in> set steps. check_step (0, s) = Inr ())"
proof -
  have "check_step (i, s) = Inr () \<longleftrightarrow> check_step (0, s) = Inr ()" for i s by (simp add: check_step_Inr)
  then show ?thesis by (induction steps arbitrary: n) (auto simp: rbind_Inr)
qed

text \<open>The product does not wrap within the bounds checked before it.\<close>

lemma sequence_no_wrap:
  assumes "n \<le> 64" "d \<le> (500 :: u64)"
  shows "unat (of_nat n * d) = n * unat d"
proof -
  have d: "unat d \<le> 500" using assms(2) by (simp add: word_le_nat_alt)
  have "n * unat d \<le> 64 * 500" using assms(1) d by (rule mult_le_mono)
  then show ?thesis using assms(1) by (simp add: unat_word_ariths unat_of_nat)
qed

lemma action_validate_keys:
  "action_validate (SendKeys steps d) = Inr () \<longleftrightarrow>
     1 \<le> length steps \<and> length steps \<le> 64 \<and> 20 \<le> d \<and> d \<le> 500 \<and> length steps * unat d \<le> 8000
     \<and> (\<forall>s \<in> set steps. check_step (0, s) = Inr ())"
proof (cases "length steps \<le> 64 \<and> d \<le> 500")
  case True
  then have "unat (of_nat (length steps) * d) = length steps * unat d" by (intro sequence_no_wrap) auto
  then have "(of_nat (length steps) * d > 8000) = (length steps * unat d > 8000)"
    by (simp add: word_less_nat_alt)
  then show ?thesis
    using True by (auto simp: Suc_le_eq action_validate_def MAX_KEY_STEPS_def MIN_KEY_DELAY_MS_def MAX_KEY_DELAY_MS_def
        MAX_KEY_SEQUENCE_MS_def enumerate_checks Let_def split: if_splits)
qed (auto simp: action_validate_def MAX_KEY_STEPS_def MAX_KEY_DELAY_MS_def)

lemma check_kv_key_Inr:
  "check_kv_key key = Inr () \<longleftrightarrow>
     key \<noteq> [] \<and> length key \<le> 200 \<and> list_all kv_char key
     \<and> list_all (\<lambda>seg. seg \<noteq> [] \<and> seg \<noteq> ''.'' \<and> seg \<noteq> ''..'') (split_on (CHR ''/'') key)"
proof -
  have seg: "check_kv_segment s = Inr () \<longleftrightarrow> s \<noteq> [] \<and> s \<noteq> ''.'' \<and> s \<noteq> ''..''" for s
    by (simp add: check_kv_segment_def)
  show ?thesis
  proof (cases "dropWhile kv_char key")
    case Nil
    then have "list_all kv_char key" by (simp add: list_all_iff)
    then show ?thesis using Nil by (auto simp: check_kv_key_def MAX_KV_KEY_def rfold_unit_Inr seg list_all_iff simp del: dropWhile_eq_Nil_conv)
  next
    case (Cons c r)
    then have "\<not> list_all kv_char key" by (metis dropWhile_eq_Nil_conv list.distinct(1) list_all_iff)
    then show ?thesis using Cons by (auto simp: check_kv_key_def)
  qed
qed

section \<open>Properties\<close>

text \<open>
  An action survives the wire: the hand-written decoder, which also refuses unknown fields on
  the unit variants, gives back exactly the action the derived encoder wrote.
\<close>

theorem plugin_action_roundtrip: "decode_action (encode_action a) = Inr a"
  by (rule decode_encode_action)

text \<open>
  Exactly the bounded key sequences are accepted: between 1 and 64 steps, a pause of 20 to 500
  ms, at most 8 s in all (computed in 64 bits, which cannot wrap here), and every text step between
  1 and 1024 bytes without a control character.
\<close>

theorem send_keys_bounds:
  "action_validate (SendKeys steps d) = Inr () \<longleftrightarrow>
     length steps \<in> {1..64} \<and> unat d \<in> {20..500} \<and> length steps * unat d \<le> 8000
     \<and> list_all (\<lambda>s. case s of KeyPress _ \<Rightarrow> True
          | KeyText t \<Rightarrow> length t \<in> {1..1024} \<and> \<not> list_ex is_control (chars t)) steps"
proof -
  have "check_step (0, s) = Inr () \<longleftrightarrow> (case s of KeyPress _ \<Rightarrow> True
      | KeyText t \<Rightarrow> length t \<in> {1..1024} \<and> \<not> list_ex is_control (chars t))" for s
    by (auto simp: check_step_Inr Suc_le_eq split: key_step.split)
  then show ?thesis
    by (auto simp: action_validate_keys list_all_iff word_le_nat_alt Suc_le_eq)
qed

end
