(* ===== verification/Steps.thy ===== *)
theory Steps
  imports Balerix_Prelude
begin

text \<open>
  Sequences of operations on a component's state. \<open>run_steps\<close> runs a list of operations, collecting
  what each gives out. The locale \<open>composable\<close> is the contract of what a step may do. The locale \<open>conserving_steps\<close> is the contract of a component that holds
  items: each operation takes some in, gives some out and keeps the rest, under an invariant it
  preserves; over every sequence, nothing is lost and nothing is given out twice. The locale
  \<open>accounted_steps\<close> is its counterpart for components that only count: what an operation gives out
  says what came in and what was settled, and the account balances over every sequence.
\<close>

fun run_steps :: "('op \<Rightarrow> 's \<Rightarrow> 's \<times> 'o list) \<Rightarrow> 'op list \<Rightarrow> 's \<Rightarrow> 's \<times> 'o list" where
  "run_steps step [] s = (s, [])"
| "run_steps step (op # ops) s =
     (case step op s of (s', out) \<Rightarrow> case run_steps step ops s' of (s'', out') \<Rightarrow> (s'', out @ out'))"

lemma run_steps_append:
  "run_steps step (xs @ ys) s =
     (case run_steps step xs s of (s', out) \<Rightarrow> case run_steps step ys s' of (s'', out') \<Rightarrow> (s'', out @ out'))"
  by (induction xs arbitrary: s) (auto split: prod.splits)

lemma run_steps_output:
  "x \<in> set (snd (run_steps step ops s)) \<Longrightarrow> \<exists>op \<in> set ops. \<exists>s. x \<in> set (snd (step op s))"
proof (induction ops arbitrary: s)
  case (Cons op ops)
  obtain s' out where step: "step op s = (s', out)" by (cases "step op s")
  then have "x \<in> set (snd (step op s)) \<or> x \<in> set (snd (run_steps step ops s'))"
    using Cons.prems by (auto split: prod.splits)
  then show ?case using Cons.IH[of s'] by auto
qed simp

lemma run_steps_invariant:
  assumes "\<And>op s. op \<in> set ops \<Longrightarrow> ok s \<Longrightarrow> ok (fst (step op s))" and "ok s"
  shows "ok (fst (run_steps step ops s))"
  using assms
proof (induction ops arbitrary: s)
  case (Cons op ops)
  from Cons.prems have "ok (fst (step op s))" by simp
  with Cons show ?case by (simp split: prod.splits) (metis fst_conv)
qed simp

text \<open>Two components that give out the same at every step from related states do so over every run.\<close>

lemma run_steps_simulation:
  assumes "\<And>op s t. rel s t \<Longrightarrow> rel (fst (f op s)) (fst (g op t)) \<and> snd (f op s) = snd (g op t)" and "rel s t"
  shows "rel (fst (run_steps f ops s)) (fst (run_steps g ops t)) \<and> snd (run_steps f ops s) = snd (run_steps g ops t)"
  using assms(2)
proof (induction ops arbitrary: s t)
  case (Cons op ops)
  obtain s' a t' b where st: "f op s = (s', a)" "g op t = (t', b)" by (metis surj_pair)
  then have "rel s' t'" "a = b" using assms(1)[OF Cons.prems, of op] by simp_all
  with Cons.IH[of s' t'] st show ?case by (auto split: prod.splits)
qed simp

text \<open>
  What one step may do, as a relation of the states around it that holds of no step and composes: then
  whatever each step of a loop may do, the loop may do.
\<close>

locale composable =
  fixes may :: "'s \<Rightarrow> 's \<Rightarrow> bool"
  assumes may_refl: "may s s"
    and may_trans: "may s t \<Longrightarrow> may t u \<Longrightarrow> may s u"
begin

lemma fold_steps: "(\<And>x s. x \<in> set xs \<Longrightarrow> may s (f x s)) \<Longrightarrow> may s (fold f xs s)"
  by (induction xs arbitrary: s) (auto intro: may_refl may_trans)

end

locale conserving_steps =
  fixes step :: "'op \<Rightarrow> 's \<Rightarrow> 's \<times> 'o list"
    and ok :: "'s \<Rightarrow> bool"
    and held :: "'s \<Rightarrow> 'o multiset"
    and gained :: "'op \<Rightarrow> 'o list"
  assumes keeps: "ok s \<Longrightarrow> ok (fst (step op s))"
    and conserves: "ok s \<Longrightarrow> held s + mset (gained op) = held (fst (step op s)) + mset (snd (step op s))"
begin

lemma run_keeps: "ok s \<Longrightarrow> ok (fst (run_steps step ops s))"
  by (rule run_steps_invariant) (auto intro: keeps)

lemma run_conserves:
  "ok s \<Longrightarrow> held s + mset (concat (map gained ops))
     = held (fst (run_steps step ops s)) + mset (snd (run_steps step ops s))"
proof (induction ops arbitrary: s)
  case (Cons op ops)
  obtain s' out where step: "step op s = (s', out)" by (cases "step op s")
  obtain s'' out' where run: "run_steps step ops s' = (s'', out')" by (cases "run_steps step ops s'")
  have "ok s'" "held s + mset (gained op) = held s' + mset out"
    using keeps[OF Cons.prems, of op] conserves[OF Cons.prems, of op] step by simp_all
  moreover from this have "held s' + mset (concat (map gained ops)) = held s'' + mset out'"
    using Cons.IH[of s'] run by simp
  ultimately have "held s + (mset (gained op) + mset (concat (map gained ops))) = held s'' + (mset out + mset out')"
    by (simp add: ac_simps) (metis add.assoc add.commute)
  then show ?case using step run by simp
qed simp

end

locale accounted_steps =
  fixes step :: "'op \<Rightarrow> 's \<Rightarrow> 's \<times> 'o list"
    and ok :: "'s \<Rightarrow> bool"
    and owed :: "'s \<Rightarrow> 'v::comm_monoid_add"
    and due settled :: "'o \<Rightarrow> 'v"
  assumes keeps: "ok s \<Longrightarrow> ok (fst (step op s))"
    and balances: "ok s \<Longrightarrow> owed s + sum_list (map due (snd (step op s)))
      = owed (fst (step op s)) + sum_list (map settled (snd (step op s)))"
begin

lemma run_keeps: "ok s \<Longrightarrow> ok (fst (run_steps step ops s))"
  by (rule run_steps_invariant) (auto intro: keeps)

lemma run_balances:
  "ok s \<Longrightarrow> owed s + sum_list (map due (snd (run_steps step ops s)))
     = owed (fst (run_steps step ops s)) + sum_list (map settled (snd (run_steps step ops s)))"
proof (induction ops arbitrary: s)
  case (Cons op ops)
  obtain s' out where step: "step op s = (s', out)" by (cases "step op s")
  obtain s'' out' where run: "run_steps step ops s' = (s'', out')" by (cases "run_steps step ops s'")
  have "ok s'" "owed s + sum_list (map due out) = owed s' + sum_list (map settled out)"
    using keeps[OF Cons.prems, of op] balances[OF Cons.prems, of op] step by simp_all
  note head = this(2)
  have tail: "owed s' + sum_list (map due out') = owed s'' + sum_list (map settled out')"
    using Cons.IH[OF \<open>ok s'\<close>] run by simp
  have "owed s + (sum_list (map due out) + sum_list (map due out'))
      = owed s' + sum_list (map due out') + sum_list (map settled out)"
    by (simp add: head add.assoc[symmetric]) (simp add: ac_simps)
  also have "\<dots> = owed s'' + (sum_list (map settled out) + sum_list (map settled out'))"
    by (simp add: tail ac_simps)
  finally have "owed s + (sum_list (map due out) + sum_list (map due out'))
      = owed s'' + (sum_list (map settled out) + sum_list (map settled out'))" .
  then show ?case using step run by simp
qed simp

end

end
