(* ===== verification/Delivery.thy ===== *)
theory Delivery
  imports Protocol Steps
begin

text \<open>
  Delivery confirmation (plugins/common/src/delivery.rs): the prompts a plugin sent and the agent
  has not been seen to take, what a hook event settles, which prompts expire, and which agents get
  their Enter pressed again. An instant is a count of nanoseconds; \<open>duration_since\<close> saturates at
  zero, as subtraction on naturals does. The tracker's \<open>HashMap\<close> is kept by agent name; no result
  depends on its iteration order. The lemmas show that every tracked prompt is settled exactly
  once, that a prompt is confirmed however it is reported, and when an Enter is pressed.
\<close>

section \<open>Bodies\<close>

definition MAX_PENDING :: nat where
  "MAX_PENDING = 64"

definition NUDGE_AFTER :: duration where
  "NUDGE_AFTER = from_secs 5"

definition NUDGE_FOR :: duration where
  "NUDGE_FOR = from_secs 90"

datatype body_kind = Prompt | Command

definition as_prompt :: "ustr \<Rightarrow> ustr" where
  "as_prompt text = prompt_text text"

definition classify :: "ustr \<Rightarrow> body_kind" where
  "classify text = (if starts_with_any (text_trim_start text) (points ''/'') then Command else Prompt)"

definition DEFAULT_COMMANDS :: "ustr list" where
  "DEFAULT_COMMANDS = map points [''/compact'', ''/clear'', ''/context'', ''/usage'', ''/status'', ''/help'']"

definition allowlist_with :: "ustr list \<Rightarrow> ustr list" where
  "allowlist_with extra = bs_collect (DEFAULT_COMMANDS @ extra)"

text \<open>An entry is refused with its index; the source prints the entry after it.\<close>

definition check_command :: "nat \<times> ustr \<Rightarrow> (nat \<times> ustr) + unit" where
  "check_command e =
     (let entry = snd e;
          name = (case strip_prefix (points ''/'') entry of Some n \<Rightarrow> n | None \<Rightarrow> [])
      in if name = [] \<or> starts_with_any name (points ''/'')
            \<or> list_ex (\<lambda>c. is_whitespace c \<or> is_control c) entry
         then Inl e else Inr ())"

definition allowlist_validate :: "ustr list \<Rightarrow> (nat \<times> ustr) + unit" where
  "allowlist_validate entries = rfold (\<lambda>e _. check_command e) (List.enumerate 0 entries) ()"

definition allows :: "ustr list \<Rightarrow> ustr \<Rightarrow> bool" where
  "allows list text =
     (let name = (case split_whitespace text of [] \<Rightarrow> [] | w # _ \<Rightarrow> w)
      in utf8_len name > 1 \<and> name \<in> set list)"

definition normalize :: "ustr \<Rightarrow> ustr" where
  "normalize text = join_with 32 (split_whitespace text)"

section \<open>The tracker\<close>

record 'm outcome =
  oc_confirmed :: "'m option"
  oc_skipped :: "'m list"

definition no_outcome :: "'m outcome" where
  "no_outcome = \<lparr>oc_confirmed = None, oc_skipped = []\<rparr>"

record 'm pending =
  pd_text :: ustr
  pd_marker :: 'm
  pd_sent_at :: instant
  pd_window :: duration

datatype turn = TurnUnknown | TurnIdle | TurnBusy

record 'm agent_state =
  dl_pending :: "'m pending list"
  dl_turn :: turn
  dl_prompt_open :: bool
  dl_question_open :: bool
  dl_last_stop :: "instant option"
  dl_last_nudge :: "instant option"
  dl_last_event :: "instant option"

definition default_agent_state :: "'m agent_state" where
  "default_agent_state =
     \<lparr>dl_pending = [], dl_turn = TurnUnknown, dl_prompt_open = False, dl_question_open = False,
      dl_last_stop = None, dl_last_nudge = None, dl_last_event = None\<rparr>"

definition settle :: "turn \<Rightarrow> 'm agent_state \<Rightarrow> 'm agent_state" where
  "settle t s = s\<lparr>dl_turn := t, dl_prompt_open := False, dl_question_open := False\<rparr>"

definition takes_enter :: "'m agent_state \<Rightarrow> instant \<Rightarrow> bool" where
  "takes_enter s now \<longleftrightarrow>
     dl_turn s = TurnIdle \<and> \<not> dl_prompt_open s \<and> \<not> dl_question_open s
     \<and> (case dl_last_event s of None \<Rightarrow> True | Some e \<Rightarrow> now - e \<ge> NUDGE_AFTER)"

definition QUESTION_TOOL :: string where
  "QUESTION_TOOL = ''AskUserQuestion''"

definition QUIET_NOTIFICATIONS :: "string list" where
  "QUIET_NOTIFICATIONS = [''idle_prompt'', ''auth_success'']"

type_synonym 'm deliveries = "(string, 'm agent_state) btree"

definition entry_state :: "'m deliveries \<Rightarrow> string \<Rightarrow> 'm agent_state" where
  "entry_state d agent = (case bt_get d agent of Some s \<Rightarrow> s | None \<Rightarrow> default_agent_state)"

definition sent ::
  "'m deliveries \<Rightarrow> string \<Rightarrow> ustr \<Rightarrow> 'm \<Rightarrow> instant \<Rightarrow> duration \<Rightarrow> 'm deliveries \<times> 'm option" where
  "sent d agent text marker now window =
     (let text = normalize text
      in if text = [] then (d, None)
         else let state = entry_state d agent;
                  queue = dl_pending state
                    @ [\<lparr>pd_text = text, pd_marker = marker, pd_sent_at = now, pd_window = window\<rparr>]
              in if length queue > MAX_PENDING
                 then (bt_insert agent (state\<lparr>dl_pending := tl queue\<rparr>) d, Some (pd_marker (hd queue)))
                 else (bt_insert agent (state\<lparr>dl_pending := queue\<rparr>) d, None))"

definition payload_field :: "hook_event \<Rightarrow> string \<Rightarrow> string option" where
  "payload_field event key = Option.bind (json_get (ev_payload event) key) as_str"

text \<open>The index of the oldest pending prompt that the first matching candidate names.\<close>

definition submitted_index :: "'m pending list \<Rightarrow> ustr \<Rightarrow> nat option" where
  "submitted_index queue prompt =
     find_map (\<lambda>c. position (\<lambda>p. pd_text p = c) queue) (map normalize (submitted_candidates prompt))"

definition take_submitted :: "'m agent_state \<Rightarrow> ustr \<Rightarrow> 'm agent_state \<times> 'm outcome" where
  "take_submitted state prompt =
     (case submitted_index (dl_pending state) prompt of
        None \<Rightarrow> (state, no_outcome)
      | Some i \<Rightarrow>
          (state\<lparr>dl_pending := drop (Suc i) (dl_pending state)\<rparr>,
           \<lparr>oc_confirmed = (case drop i (dl_pending state) of [] \<Rightarrow> None | p # _ \<Rightarrow> Some (pd_marker p)),
            oc_skipped = map pd_marker (take i (dl_pending state))\<rparr>))"

definition event_effect :: "hook_event \<Rightarrow> instant \<Rightarrow> 'm agent_state \<Rightarrow> 'm agent_state \<times> 'm outcome" where
  "event_effect event now state =
     (let name = ev_name event; field = payload_field event
      in if name = ''UserPromptSubmit'' then
           take_submitted (state\<lparr>dl_turn := TurnBusy\<rparr>)
             (chars (case field ''prompt'' of Some p \<Rightarrow> p | None \<Rightarrow> []))
         else if name = ''Stop'' then ((settle TurnIdle state)\<lparr>dl_last_stop := Some now\<rparr>, no_outcome)
         else if name = ''SessionEnd'' then ((settle TurnUnknown state)\<lparr>dl_last_stop := Some now\<rparr>, no_outcome)
         else if name = ''SessionStart'' then
           (if field ''source'' \<noteq> Some ''compact'' then settle TurnIdle state else state, no_outcome)
         else if name = ''Notification'' then
           (if (case field ''notification_type'' of Some k \<Rightarrow> k \<in> set QUIET_NOTIFICATIONS | None \<Rightarrow> False)
            then state else state\<lparr>dl_prompt_open := True\<rparr>, no_outcome)
         else
           let state = state\<lparr>dl_turn := TurnBusy\<rparr>
           in (if field ''tool_name'' = Some QUESTION_TOOL
               then if name = ''PreToolUse'' then state\<lparr>dl_question_open := True\<rparr>
                    else if name = ''PostToolUse'' then state\<lparr>dl_question_open := False\<rparr>
                    else state
               else state, no_outcome))"

definition on_event :: "'m deliveries \<Rightarrow> hook_event \<Rightarrow> instant \<Rightarrow> 'm deliveries \<times> 'm outcome" where
  "on_event d event now =
     (case event_effect event now ((entry_state d (ev_agent event))\<lparr>dl_last_event := Some now\<rparr>) of
        (state, out) \<Rightarrow> (bt_insert (ev_agent event) state d, out))"

definition clock_start :: "instant option \<Rightarrow> 'm pending \<Rightarrow> instant" where
  "clock_start last_stop p = (case last_stop of None \<Rightarrow> pd_sent_at p | Some s \<Rightarrow> max s (pd_sent_at p))"

definition expired :: "instant option \<Rightarrow> instant \<Rightarrow> 'm pending \<Rightarrow> bool" where
  "expired last_stop now p \<longleftrightarrow> pd_window p \<noteq> 0 \<and> now - clock_start last_stop p \<ge> pd_window p"

definition expire_state :: "instant \<Rightarrow> 'm agent_state \<Rightarrow> 'm agent_state \<times> 'm list" where
  "expire_state now s =
     (if dl_turn s = TurnBusy then (s, [])
      else (s\<lparr>dl_pending := filter (\<lambda>p. \<not> expired (dl_last_stop s) now p) (dl_pending s)\<rparr>,
            map pd_marker (filter (expired (dl_last_stop s) now) (dl_pending s))))"

definition expire :: "'m deliveries \<Rightarrow> instant \<Rightarrow> 'm deliveries \<times> 'm list" where
  "expire d now =
     (map (\<lambda>(a, s). (a, fst (expire_state now s))) d,
      concat (map (\<lambda>(a, s). snd (expire_state now s)) d))"

definition nudge_due :: "instant \<Rightarrow> 'm agent_state \<Rightarrow> bool" where
  "nudge_due now s \<longleftrightarrow>
     takes_enter s now
     \<and> list_ex (\<lambda>p.
          let start = clock_start (dl_last_stop s) p;
              waited = now - start;
              since_nudge = (case dl_last_nudge s of None \<Rightarrow> waited | Some n \<Rightarrow> now - max n start)
          in waited < NUDGE_FOR \<and> (pd_window p = 0 \<or> waited < pd_window p) \<and> since_nudge \<ge> NUDGE_AFTER)
        (dl_pending s)"

definition nudge :: "'m deliveries \<Rightarrow> instant \<Rightarrow> 'm deliveries \<times> string list" where
  "nudge d now =
     (map (\<lambda>(a, s). (a, if nudge_due now s then s\<lparr>dl_last_nudge := Some now\<rparr> else s)) d,
      sort (map fst (filter (\<lambda>(a, s). nudge_due now s) d)))"

definition lose_state :: "'m agent_state \<Rightarrow> 'm agent_state" where
  "lose_state s = (if dl_turn s = TurnIdle then s\<lparr>dl_turn := TurnUnknown\<rparr> else s)"

definition lose_track :: "'m deliveries \<Rightarrow> 'm deliveries" where
  "lose_track d = map (\<lambda>(a, s). (a, lose_state s)) d"

definition lose_track_agent :: "'m deliveries \<Rightarrow> string \<Rightarrow> 'm deliveries" where
  "lose_track_agent d agent = bt_get_mut agent lose_state d"

definition forget :: "'m deliveries \<Rightarrow> string \<Rightarrow> 'm deliveries \<times> 'm list" where
  "forget d agent =
     (bt_remove agent d,
      case bt_get d agent of Some s \<Rightarrow> map pd_marker (dl_pending s) | None \<Rightarrow> [])"

definition idle :: "'m deliveries \<Rightarrow> string \<Rightarrow> bool" where
  "idle d agent \<longleftrightarrow> (case bt_get d agent of Some s \<Rightarrow> dl_turn s = TurnIdle | None \<Rightarrow> False)"

definition pending_count :: "'m deliveries \<Rightarrow> string \<Rightarrow> nat" where
  "pending_count d agent = (case bt_get d agent of Some s \<Rightarrow> length (dl_pending s) | None \<Rightarrow> 0)"

section \<open>Lemmas\<close>

subsection \<open>Normalised texts\<close>

lemma split_whitespace_skip: "split_whitespace (dropWhile is_whitespace s) = split_whitespace s"
  by (induction s) auto

lemma split_whitespace_blank: "list_all is_whitespace w \<Longrightarrow> split_whitespace w = []"
  by (induction w) auto

lemma split_whitespace_append_blank:
  assumes "list_all is_whitespace w"
  shows "split_whitespace (s @ w) = split_whitespace s"
proof (induction s rule: split_whitespace.induct)
  case (2 c s)
  have "takeWhile (\<lambda>d. \<not> is_whitespace d) (s @ w) = takeWhile (\<lambda>d. \<not> is_whitespace d) s"
    "dropWhile (\<lambda>d. \<not> is_whitespace d) (s @ w) = dropWhile (\<lambda>d. \<not> is_whitespace d) s @ w" for s
    using assms by (induction s; cases w; simp)+
  then show ?case using 2 by simp
qed (simp add: split_whitespace_blank assms)

lemma trim_split: "\<exists>w. list_all is_whitespace w \<and> dropWhile is_whitespace s = text_trim s @ w"
proof -
  let ?t = "dropWhile is_whitespace s"
  have "?t = text_trim_end ?t @ rev (takeWhile is_whitespace (rev ?t))"
    unfolding text_trim_end_def by (metis rev_append rev_rev_ident takeWhile_dropWhile_id)
  moreover have "list_all is_whitespace (rev (takeWhile is_whitespace (rev ?t)))"
    by (auto simp: list_all_iff dest: set_takeWhileD)
  ultimately show ?thesis unfolding text_trim_def text_trim_start_def by metis
qed

lemma normalize_trim: "normalize (text_trim s) = normalize s"
proof -
  obtain w where "list_all is_whitespace w" "dropWhile is_whitespace s = text_trim s @ w"
    using trim_split by blast
  then show ?thesis
    using split_whitespace_append_blank[of w "text_trim s"] split_whitespace_skip[of s]
    by (simp add: normalize_def)
qed

subsection \<open>Conservation\<close>

datatype 'm delivery_op =
    Sent string ustr 'm instant duration
  | Event hook_event instant
  | Expire instant
  | Nudge instant
  | LoseTrack
  | LoseTrackAgent string
  | Forget string

text \<open>One operation with the markers it settles: evicted, skipped, confirmed, expired, forgotten.\<close>

definition delivery_step :: "'m delivery_op \<Rightarrow> 'm deliveries \<Rightarrow> 'm deliveries \<times> 'm list" where
  "delivery_step op d =
     (case op of
        Sent a t m now w \<Rightarrow> map_prod id opt_list (sent d a t m now w)
      | Event e now \<Rightarrow> map_prod id (\<lambda>out. oc_skipped out @ opt_list (oc_confirmed out)) (on_event d e now)
      | Expire now \<Rightarrow> expire d now
      | Nudge now \<Rightarrow> (fst (nudge d now), [])
      | LoseTrack \<Rightarrow> (lose_track d, [])
      | LoseTrackAgent a \<Rightarrow> (lose_track_agent d a, [])
      | Forget a \<Rightarrow> forget d a)"

definition tracked :: "'m delivery_op \<Rightarrow> 'm list" where
  "tracked op = (case op of Sent a t m now w \<Rightarrow> if normalize t = [] then [] else [m] | _ \<Rightarrow> [])"

definition state_markers :: "string \<Rightarrow> 'm agent_state \<Rightarrow> 'm multiset" where
  "state_markers a s = mset (map pd_marker (dl_pending s))"

definition held_markers :: "'m deliveries \<Rightarrow> 'm multiset" where
  "held_markers d = bt_weight state_markers d"

definition deliveries_ok :: "'m deliveries \<Rightarrow> bool" where
  "deliveries_ok d \<longleftrightarrow> bt_wf d \<and> list_all (\<lambda>(a, s). length (dl_pending s) \<le> MAX_PENDING) d"

lemma held_entry:
  "bt_wf d \<Longrightarrow> held_markers d = state_markers a (entry_state d a) + bt_weight state_markers (bt_remove a d)"
  using bt_weight_remove[of d state_markers a]
  by (auto simp: held_markers_def entry_state_def state_markers_def default_agent_state_def split: option.splits)

lemma held_insert:
  "bt_wf d \<Longrightarrow> held_markers (bt_insert a s d) = state_markers a s + bt_weight state_markers (bt_remove a d)"
  by (simp add: held_markers_def bt_weight_insert)

text \<open>An update of one agent's entry conserves markers when its own queue does.\<close>

lemma held_update:
  assumes "bt_wf d" "state_markers a (entry_state d a) + x = state_markers a s + y"
  shows "held_markers d + x = held_markers (bt_insert a s d) + y"
  using assms by (simp add: held_entry[of d a] held_insert add.assoc add.left_commute)

lemma ok_insert:
  "deliveries_ok d \<Longrightarrow> length (dl_pending s) \<le> MAX_PENDING \<Longrightarrow> deliveries_ok (bt_insert a s d)"
  using bt_insert_subset[of a s d] by (fastforce simp: deliveries_ok_def list_all_iff)

lemma ok_entry: "deliveries_ok d \<Longrightarrow> length (dl_pending (entry_state d a)) \<le> MAX_PENDING"
  by (auto simp: deliveries_ok_def entry_state_def default_agent_state_def list_all_iff split: option.splits
      dest: bt_get_SomeD)

lemma take_submitted_conserves:
  assumes "take_submitted s prompt = (s', out)"
  shows "mset (map pd_marker (dl_pending s))
      = mset (map pd_marker (dl_pending s')) + mset (oc_skipped out @ opt_list (oc_confirmed out))"
    "length (dl_pending s') \<le> length (dl_pending s)"
proof -
  let ?q = "dl_pending s"
  show "mset (map pd_marker ?q)
      = mset (map pd_marker (dl_pending s')) + mset (oc_skipped out @ opt_list (oc_confirmed out))"
  proof (cases "submitted_index ?q prompt")
    case (Some i)
    then have out: "s' = s\<lparr>dl_pending := drop (Suc i) ?q\<rparr>" "oc_skipped out = map pd_marker (take i ?q)"
      "oc_confirmed out = (case drop i ?q of [] \<Rightarrow> None | p # _ \<Rightarrow> Some (pd_marker p))"
      using assms by (auto simp: take_submitted_def)
    have "?q = take i ?q @ drop i ?q" by simp
    then have split: "mset (map pd_marker ?q) = mset (map pd_marker (take i ?q)) + mset (map pd_marker (drop i ?q))"
      by (metis map_append mset_append)
    show ?thesis
    proof (cases "drop i ?q")
      case Nil
      then show ?thesis using out split by (simp add: opt_list_def)
    next
      case (Cons p r)
      then have "drop (Suc i) ?q = r" by (metis drop_Suc list.sel(3) tl_drop)
      then show ?thesis using out split Cons by (simp add: opt_list_def)
    qed
  qed (use assms in \<open>auto simp: take_submitted_def no_outcome_def opt_list_def\<close>)
  show "length (dl_pending s') \<le> length ?q"
    using assms by (auto simp: take_submitted_def split: option.splits)
qed

lemma event_effect_conserves:
  assumes "event_effect e now s = (s', out)"
  shows "mset (map pd_marker (dl_pending s))
      = mset (map pd_marker (dl_pending s')) + mset (oc_skipped out @ opt_list (oc_confirmed out))"
    "length (dl_pending s') \<le> length (dl_pending s)"
proof -
  have "s' = fst (take_submitted (s\<lparr>dl_turn := TurnBusy\<rparr>) (chars (case payload_field e ''prompt'' of Some p \<Rightarrow> p | None \<Rightarrow> [])))
      \<and> out = snd (take_submitted (s\<lparr>dl_turn := TurnBusy\<rparr>) (chars (case payload_field e ''prompt'' of Some p \<Rightarrow> p | None \<Rightarrow> [])))
      \<or> dl_pending s' = dl_pending s \<and> out = no_outcome"
    using assms by (auto simp: event_effect_def Let_def settle_def split: if_splits)
  then show "mset (map pd_marker (dl_pending s))
      = mset (map pd_marker (dl_pending s')) + mset (oc_skipped out @ opt_list (oc_confirmed out))"
    "length (dl_pending s') \<le> length (dl_pending s)"
    using take_submitted_conserves[of "s\<lparr>dl_turn := TurnBusy\<rparr>" _ s' out]
    by (auto simp: no_outcome_def opt_list_def dest: prod_eqI)
qed

lemma sent_ok:
  assumes "deliveries_ok d" "sent d a t m now w = (d', out)"
  shows "deliveries_ok d'"
    "held_markers d + mset (if normalize t = [] then [] else [m]) = held_markers d' + mset (opt_list out)"
proof -
  let ?q = "dl_pending (entry_state d a)"
  let ?p = "\<lparr>pd_text = normalize t, pd_marker = m, pd_sent_at = now, pd_window = w\<rparr>"
  have wf: "bt_wf d" using assms(1) by (simp add: deliveries_ok_def)
  have q: "length ?q \<le> MAX_PENDING" by (rule ok_entry[OF assms(1)])
  consider "normalize t = []" | "normalize t \<noteq> []" "length (?q @ [?p]) > MAX_PENDING"
    | "normalize t \<noteq> []" "\<not> length (?q @ [?p]) > MAX_PENDING" by blast
  then have "deliveries_ok d' \<and> held_markers d + mset (if normalize t = [] then [] else [m])
      = held_markers d' + mset (opt_list out)"
  proof cases
    case 2
    then have new: "d' = bt_insert a ((entry_state d a)\<lparr>dl_pending := tl (?q @ [?p])\<rparr>) d"
      "out = Some (pd_marker (hd (?q @ [?p])))"
      using assms(2) by (simp_all add: sent_def Let_def)
    from 2 obtain x r where "?q = x # r" using q by (cases ?q) (auto simp: MAX_PENDING_def)
    then have "state_markers a (entry_state d a) + mset [m]
        = state_markers a ((entry_state d a)\<lparr>dl_pending := tl (?q @ [?p])\<rparr>) + mset (opt_list out)"
      using new by (simp add: state_markers_def opt_list_def)
    from held_update[OF wf this] show ?thesis using 2 new q ok_insert[OF assms(1)] by simp
  next
    case 3
    then have new: "d' = bt_insert a ((entry_state d a)\<lparr>dl_pending := ?q @ [?p]\<rparr>) d" "out = None"
      using assms(2) by (simp_all add: sent_def Let_def)
    then have "state_markers a (entry_state d a) + mset [m]
        = state_markers a ((entry_state d a)\<lparr>dl_pending := ?q @ [?p]\<rparr>) + mset (opt_list out)"
      by (simp add: state_markers_def opt_list_def)
    from held_update[OF wf this] show ?thesis using 3 new ok_insert[OF assms(1)] by simp
  qed (use assms in \<open>simp add: sent_def opt_list_def\<close>)
  then show "deliveries_ok d'" "held_markers d + mset (if normalize t = [] then [] else [m])
      = held_markers d' + mset (opt_list out)" by auto
qed

lemma on_event_ok:
  assumes "deliveries_ok d" "on_event d e now = (d', out)"
  shows "deliveries_ok d'"
    "held_markers d = held_markers d' + mset (oc_skipped out @ opt_list (oc_confirmed out))"
proof -
  let ?s = "(entry_state d (ev_agent e))\<lparr>dl_last_event := Some now\<rparr>"
  obtain s' where eff: "event_effect e now ?s = (s', out)" and d': "d' = bt_insert (ev_agent e) s' d"
    using assms(2) by (auto simp: on_event_def split: prod.splits)
  note c = event_effect_conserves[OF eff]
  show "deliveries_ok d'"
    using ok_insert[OF assms(1)] c(2) ok_entry[OF assms(1), of "ev_agent e"] d' by simp
  have "state_markers (ev_agent e) (entry_state d (ev_agent e)) + {#}
      = state_markers (ev_agent e) s' + mset (oc_skipped out @ opt_list (oc_confirmed out))"
    using c(1) by (simp add: state_markers_def)
  from held_update[OF _ this] show "held_markers d = held_markers d' + mset (oc_skipped out @ opt_list (oc_confirmed out))"
    using assms(1) d' by (simp add: deliveries_ok_def)
qed

text \<open>An update of every agent at once: its queue shrinks to what it does not give out.\<close>

lemma map_values_ok:
  assumes "deliveries_ok d"
    and "\<And>a s. state_markers a s = state_markers a (f a s) + mset (g a s)"
  shows "deliveries_ok (map (\<lambda>(a, s). (a, f a s)) d)"
    "held_markers d = held_markers (map (\<lambda>(a, s). (a, f a s)) d) + mset (concat (map (\<lambda>(a, s). g a s) d))"
proof -
  have "length (dl_pending (f a s)) \<le> length (dl_pending s)" for a s
    using arg_cong[OF assms(2)[of a s], of size] by (simp add: state_markers_def)
  then show "deliveries_ok (map (\<lambda>(a, s). (a, f a s)) d)"
    using assms(1) by (fastforce simp: deliveries_ok_def bt_wf_map_values list_all_iff dest: order_trans)
  have "state_markers = (\<lambda>a s. state_markers a (f a s) + mset (g a s))" by (intro ext assms(2))
  then have "held_markers d = bt_weight (\<lambda>a s. state_markers a (f a s) + mset (g a s)) d"
    unfolding held_markers_def by (rule arg_cong)
  then show "held_markers d = held_markers (map (\<lambda>(a, s). (a, f a s)) d) + mset (concat (map (\<lambda>(a, s). g a s) d))"
    by (simp add: held_markers_def bt_weight_map_values bt_weight_split bt_weight_concat)
qed

lemma expire_ok:
  assumes "deliveries_ok d"
  shows "deliveries_ok (fst (expire d now))"
    "held_markers d = held_markers (fst (expire d now)) + mset (snd (expire d now))"
proof -
  have "state_markers a s = state_markers a (fst (expire_state now s)) + mset (snd (expire_state now s))"
    for a and s :: "'m agent_state"
  proof -
    have "mset (dl_pending s) = mset (filter (\<lambda>p. \<not> P p) (dl_pending s)) + mset (filter P (dl_pending s))" for P
      by (simp add: union_filter_mset_complement add.commute)
    then show ?thesis by (simp add: expire_state_def state_markers_def flip: image_mset_union)
  qed
  from map_values_ok[OF assms this] show "deliveries_ok (fst (expire d now))"
    "held_markers d = held_markers (fst (expire d now)) + mset (snd (expire d now))"
    by (simp_all add: expire_def)
qed

lemma delivery_step_ok:
  assumes "deliveries_ok d"
  shows "deliveries_ok (fst (delivery_step op d))
    \<and> held_markers d + mset (tracked op) = held_markers (fst (delivery_step op d)) + mset (snd (delivery_step op d))"
proof (cases op)
  case (Sent a t m now w)
  then show ?thesis
    using sent_ok[OF assms, of a t m now w] by (cases "sent d a t m now w") (simp add: delivery_step_def tracked_def)
next
  case (Event e now)
  then show ?thesis
    using on_event_ok[OF assms, of e now] by (cases "on_event d e now") (simp add: delivery_step_def tracked_def)
next
  case (Expire now)
  then show ?thesis using expire_ok[OF assms] by (simp add: delivery_step_def tracked_def)
next
  case (Nudge now)
  then show ?thesis
    using map_values_ok[OF assms, of "\<lambda>a s. if nudge_due now s then s\<lparr>dl_last_nudge := Some now\<rparr> else s" "\<lambda>_ _. []"]
    by (simp add: delivery_step_def tracked_def nudge_def state_markers_def)
next
  case LoseTrack
  then show ?thesis
    using map_values_ok[OF assms, of "\<lambda>_. lose_state" "\<lambda>_ _. []"]
    by (simp add: delivery_step_def tracked_def lose_track_def state_markers_def lose_state_def)
next
  case (LoseTrackAgent a)
  have same: "dl_pending (lose_state s) = dl_pending s" for s :: "'a agent_state" by (simp add: lose_state_def)
  show ?thesis
  proof (cases "bt_get d a")
    case (Some s)
    then have "entry_state d a = s" by (simp add: entry_state_def)
    then have "state_markers a (entry_state d a) + {#} = state_markers a (lose_state s) + {#}"
      by (simp add: state_markers_def same)
    from held_update[OF _ this] show ?thesis
      using LoseTrackAgent Some assms ok_insert[OF assms, of "lose_state s" a] ok_entry[OF assms, of a]
      by (simp add: delivery_step_def tracked_def lose_track_agent_def bt_get_mut_def deliveries_ok_def same entry_state_def)
  qed (use LoseTrackAgent assms in \<open>simp add: delivery_step_def tracked_def lose_track_agent_def bt_get_mut_def\<close>)
next
  case (Forget a)
  have "deliveries_ok (bt_remove a d)" using assms by (simp add: deliveries_ok_def bt_remove_def list_all_iff bt_wf_filter)
  moreover have "held_markers d = state_markers a (entry_state d a) + held_markers (bt_remove a d)"
    using held_entry[of d a] assms by (simp add: deliveries_ok_def held_markers_def)
  ultimately show ?thesis
    using Forget by (auto simp: delivery_step_def tracked_def forget_def entry_state_def state_markers_def
        default_agent_state_def add.commute split: option.splits)
qed

interpretation tracker: conserving_steps delivery_step deliveries_ok held_markers tracked
  by unfold_locales (use delivery_step_ok in blast)+

subsection \<open>Nudges\<close>

definition nudged_since :: "string \<Rightarrow> instant \<Rightarrow> 'm deliveries \<Rightarrow> bool" where
  "nudged_since a t d \<longleftrightarrow>
     (case bt_get d a of Some s \<Rightarrow> (case dl_last_nudge s of Some n \<Rightarrow> t \<le> n | None \<Rightarrow> False) | None \<Rightarrow> False)"

lemma bt_get_map_values: "bt_get (map (\<lambda>(a, s). (a, f a s)) d) k = map_option (f k) (bt_get d k)"
  by (simp add: bt_get_def map_of_map_snd)

lemma event_effect_nudge: "dl_last_nudge (fst (event_effect e now s)) = dl_last_nudge s"
  by (simp add: event_effect_def Let_def take_submitted_def settle_def split: option.split)

definition not_before :: "instant \<Rightarrow> 'm delivery_op \<Rightarrow> bool" where
  "not_before t op \<longleftrightarrow> (case op of Nudge now \<Rightarrow> t \<le> now | _ \<Rightarrow> True)"

lemma nudged_since_step:
  assumes "nudged_since a t d" "not_before t op" "op \<noteq> Forget a"
  shows "nudged_since a t (fst (delivery_step op d))"
proof (cases op)
  case (Sent b x m now w)
  then show ?thesis
    using assms(1) by (auto simp: delivery_step_def sent_def Let_def nudged_since_def entry_state_def split: option.splits)
next
  case (Event e now)
  then show ?thesis
    using assms(1) event_effect_nudge[of e now "(entry_state d (ev_agent e))\<lparr>dl_last_event := Some now\<rparr>"]
    by (auto simp: delivery_step_def on_event_def nudged_since_def entry_state_def split: option.splits prod.splits)
next
  case (Forget b)
  then show ?thesis using assms by (auto simp: delivery_step_def forget_def nudged_since_def)
qed (use assms in \<open>auto simp: delivery_step_def expire_def expire_state_def nudge_def lose_track_def lose_state_def
    lose_track_agent_def nudged_since_def not_before_def bt_get_map_values split: option.splits\<close>)

lemma nudged_mem:
  "bt_wf d \<Longrightarrow> a \<in> set (snd (nudge d now)) \<longleftrightarrow> (\<exists>s. bt_get d a = Some s \<and> nudge_due now s)"
  by (force simp: nudge_def bt_get_iff)

lemma nudge_marks: "bt_wf d \<Longrightarrow> a \<in> set (snd (nudge d now)) \<Longrightarrow> nudged_since a now (fst (nudge d now))"
  by (auto simp: nudged_mem) (simp add: nudged_since_def nudge_def bt_get_map_values)

lemma nudge_due_spaced:
  assumes "nudge_due now s" "dl_last_nudge s = Some n" "t \<le> n"
  shows "t + NUDGE_AFTER \<le> now"
proof -
  obtain p where "p \<in> set (dl_pending s)" "NUDGE_AFTER \<le> now - max n (clock_start (dl_last_stop s) p)"
    using assms(1,2) by (auto simp: nudge_due_def list_ex_iff Let_def)
  moreover have "0 < NUDGE_AFTER" by (simp add: NUDGE_AFTER_def from_secs_def)
  ultimately show ?thesis using assms(3) by linarith
qed

subsection \<open>Confirmation\<close>

lemma sent_queue:
  assumes "normalize t \<noteq> []" "length (dl_pending (entry_state d a)) < MAX_PENDING"
  shows "entry_state (fst (sent d a t m now w)) a = (entry_state d a)\<lparr>dl_pending := dl_pending (entry_state d a)
    @ [\<lparr>pd_text = normalize t, pd_marker = m, pd_sent_at = now, pd_window = w\<rparr>]\<rparr>"
  using assms by (simp add: sent_def Let_def entry_state_def)

lemma submitted_index_last:
  assumes "\<forall>p \<in> set q. \<forall>c \<in> set (submitted_candidates prompt). pd_text p \<noteq> normalize c"
    and "c \<in> set (submitted_candidates prompt)" "pd_text p = normalize c"
  shows "submitted_index (q @ [p]) prompt = Some (length q)"
proof -
  let ?f = "\<lambda>c. position (\<lambda>p. pd_text p = c) (q @ [p])"
  have "?f (normalize x) = (if pd_text p = normalize x then Some (length q) else None)"
    if "x \<in> set (submitted_candidates prompt)" for x
    using that assms(1) position_append_last[of q "\<lambda>p. pd_text p = normalize x" p]
    by (auto simp: position_None)
  then show ?thesis
    unfolding submitted_index_def using assms(2,3) by (intro find_map_constant) auto
qed

lemma take_submitted_last:
  assumes "dl_pending s = q @ [p]" "submitted_index (q @ [p]) prompt = Some (length q)"
  shows "take_submitted s prompt =
    (s\<lparr>dl_pending := []\<rparr>, \<lparr>oc_confirmed = Some (pd_marker p), oc_skipped = map pd_marker q\<rparr>)"
  using assms by (simp add: take_submitted_def)

section \<open>Properties\<close>

text \<open>
  C26. Every prompt a plugin tracks is settled exactly once: over any sequence of sends, hook
  events, expiries, nudges, lost tracks and forgets, the prompts tracked are exactly those given
  out (evicted, skipped, confirmed, expired or forgotten) and those still pending, counted with
  multiplicity; and no agent ever holds more than 64 of them.
\<close>

theorem delivery_conservation:
  "mset (concat (map tracked ops))
     = held_markers (fst (run_steps delivery_step ops [])) + mset (snd (run_steps delivery_step ops []))
   \<and> pending_count (fst (run_steps delivery_step ops [])) agent \<le> 64"
proof -
  have start: "deliveries_ok []" by (simp add: deliveries_ok_def)
  have "deliveries_ok (fst (run_steps delivery_step ops []))" by (rule tracker.run_keeps[OF start])
  from ok_entry[OF this, of agent] have "pending_count (fst (run_steps delivery_step ops [])) agent \<le> 64"
    by (simp add: pending_count_def entry_state_def MAX_PENDING_def split: option.splits)
  then show ?thesis using tracker.run_conserves[OF start, of ops] by (simp add: held_markers_def)
qed

text \<open>
  A prompt the agent takes is confirmed however Claude reports it: after a send to an agent
  with room for it, a \<open>UserPromptSubmit\<close> whose prompt is any report of the text (as typed, with the
  paste lead, or wrapped) confirms that very send and gives out every older prompt as skipped,
  oldest first, leaving nothing pending, provided the report names none of the older ones.
\<close>

theorem sent_prompt_confirmed:
  assumes "attrs_ok attrs" "prompt \<in> set (reports attrs closing text)"
    and "list_all (\<lambda>c. c < 0x110000) prompt" "normalize text \<noteq> []"
    and "length (dl_pending (entry_state d agent)) < MAX_PENDING"
    and "\<forall>p \<in> set (dl_pending (entry_state d agent)).
           \<forall>c \<in> set (submitted_candidates prompt). pd_text p \<noteq> normalize c"
    and "ev_agent e = agent" "ev_name e = ''UserPromptSubmit''"
    and "payload_field e ''prompt'' = Some (utf8 prompt)"
  shows "case on_event (fst (sent d agent text m t0 w)) e t1 of (d', out) \<Rightarrow>
    oc_confirmed out = Some m \<and> oc_skipped out = map pd_marker (dl_pending (entry_state d agent))
    \<and> pending_count d' agent = 0"
proof -
  let ?q = "dl_pending (entry_state d agent)"
  let ?p = "\<lparr>pd_text = normalize text, pd_marker = m, pd_sent_at = t0, pd_window = w\<rparr>"
  let ?s = "(entry_state (fst (sent d agent text m t0 w)) agent)\<lparr>dl_last_event := Some t1\<rparr>"
  obtain c where c: "c \<in> set (submitted_candidates prompt)" "normalize c = normalize text"
    using reports_candidates[OF assms(1,2)] normalize_trim by auto
  have "submitted_index (?q @ [?p]) prompt = Some (length ?q)"
    by (rule submitted_index_last[OF assms(6) c(1)]) (simp add: c(2))
  moreover have "dl_pending (?s\<lparr>dl_turn := TurnBusy\<rparr>) = ?q @ [?p]"
    by (simp add: sent_queue[OF assms(4,5)])
  ultimately have "take_submitted (?s\<lparr>dl_turn := TurnBusy\<rparr>) prompt =
      (?s\<lparr>dl_turn := TurnBusy, dl_pending := []\<rparr>, \<lparr>oc_confirmed = Some m, oc_skipped = map pd_marker ?q\<rparr>)"
    using take_submitted_last[of "?s\<lparr>dl_turn := TurnBusy\<rparr>" ?q ?p prompt] by simp
  then have "event_effect e t1 ?s = (?s\<lparr>dl_turn := TurnBusy, dl_pending := []\<rparr>,
      \<lparr>oc_confirmed = Some m, oc_skipped = map pd_marker ?q\<rparr>)"
    using assms(8,9) chars_utf8[OF assms(3)] by (simp add: event_effect_def)
  then show ?thesis using assms(7) by (simp add: on_event_def pending_count_def)
qed


subsection \<open>Witnesses\<close>

definition submit_event :: "string \<Rightarrow> ustr \<Rightarrow> hook_event" where
  "submit_event agent prompt =
     \<lparr>ev_agent = agent, ev_name = ''UserPromptSubmit'', ev_session_id = None, ev_received_at = [],
      ev_payload = JObject [(''prompt'', JString (utf8 prompt))]\<rparr>"

theorem sent_prompt_confirmed_witness:
  "oc_confirmed (snd (on_event (fst (sent [] ''f/c/a'' (points ''fix it'') (7::nat) 1 0))
     (submit_event ''f/c/a'' (wrapped (points '' id=1'') True (points ''fix it'') @ PASTE_LEAD)) 2)) = Some 7"
proof -
  let ?p = "wrapped (points '' id=1'') True (points ''fix it'') @ PASTE_LEAD"
  have "attrs_ok (points '' id=1'')" "?p \<in> set (reports (points '' id=1'') True (points ''fix it''))"
    by (simp_all add: attrs_ok_def points_def reports_def)
  moreover have "list_all (\<lambda>c. c < 0x110000) ?p" by (simp add: wrapped_def points_def PASTE_LEAD_def)
  moreover have "normalize (points ''fix it'') \<noteq> []" by (simp add: normalize_def points_def char_class_defs)
  moreover have "dl_pending (entry_state [] ''f/c/a'') = ([] :: nat pending list)"
    by (simp add: entry_state_def default_agent_state_def)
  moreover have "payload_field (submit_event ''f/c/a'' ?p) ''prompt'' = Some (utf8 ?p)"
    by (simp add: payload_field_def submit_event_def bt_get_def)
  ultimately have "case on_event (fst (sent [] ''f/c/a'' (points ''fix it'') (7::nat) 1 0))
      (submit_event ''f/c/a'' ?p) 2 of (d', out) \<Rightarrow> oc_confirmed out = Some 7
      \<and> oc_skipped out = map pd_marker (dl_pending (entry_state ([] :: nat deliveries) ''f/c/a''))
      \<and> pending_count d' ''f/c/a'' = 0"
    by (intro sent_prompt_confirmed[where attrs = "points '' id=1''" and closing = True])
      (simp_all add: MAX_PENDING_def submit_event_def)
  then show ?thesis by (simp split: prod.splits)
qed

definition sample_deliveries :: "nat deliveries" where
  "sample_deliveries =
     [(''f/c/a'', default_agent_state\<lparr>dl_turn := TurnIdle,
        dl_pending := [\<lparr>pd_text = points ''go'', pd_marker = 7, pd_sent_at = 0, pd_window = 0\<rparr>]\<rparr>)]"


end
