(* ===== verification/Flow.thy ===== *)
theory Flow
  imports Delivery Plugin
begin

text \<open>
  The flow plugin (plugins/flow/src/machine.rs, config.rs, plugin.rs): a finite state machine per
  agent, compiled from its configuration block, stepped by hook events, with the current state
  mirrored to the daemon's key/value store so that a restart resumes. serde's typing, the regular
  expressions, the digest and the text of a JSON value are parameters, in one record; so is the key/value
  port, a record of operations on a world that may fail. Each operation of the plugin runs under its
  agent's gate, so it is one step here. Counters of the metrics registry are not modelled; the state
  gauge is. The lemmas show that a compiled machine never leaves its declared states, which rule
  fires, and that a restarted plugin resumes every agent where it was.
\<close>

section \<open>Configuration\<close>

record send_config =
  sd_text :: string
  sd_submit :: bool

datatype rule_action = RuleStop | RuleRestart

record flow_rule =
  fr_event :: string
  fr_matches :: "(string, string) btree"
  fr_goto :: "string option"
  fr_respond :: "(string, json) btree option"
  fr_send :: "send_config option"
  fr_action :: "rule_action option"

record state_config =
  sc_on :: "flow_rule list"

record flow_config =
  fc_initial :: string
  fc_states :: "(string, state_config) btree"

datatype flow_message =
    NoState string
  | UnknownHook string
  | NotAPointer
  | FlowText string

record flow_error =
  fe_path :: string
  fe_message :: flow_message

record 're compiled_rule =
  cr_event :: string
  cr_matches :: "(string \<times> 're) list"
  cr_goto :: "string option"
  cr_respond :: "(string, json) btree"
  cr_send :: "send_config option"
  cr_action :: "rule_action option"

record 're compiled =
  cp_initial :: string
  cp_states :: "(string, 're compiled_rule list) btree"
  cp_hash :: string

text \<open>The KV document under \<open>state/<agent>\<close>.\<close>

record stored =
  sr_state :: string
  sr_config :: string

datatype regex_error = RegexSyntax string | RegexOther string

text \<open>What the plugin uses of its libraries.\<close>

record 're flow_lib =
  lib_typed :: "json \<Rightarrow> (string \<times> string) + flow_config"
  lib_build :: "string \<Rightarrow> regex_error + 're"
  lib_is_match :: "'re \<Rightarrow> string \<Rightarrow> bool"
  lib_text :: "json \<Rightarrow> string"
  lib_sha :: "json \<Rightarrow> string"
  lib_encode :: "stored \<Rightarrow> string"
  lib_decode :: "string \<Rightarrow> stored option"

definition flow_parse :: "'re flow_lib \<Rightarrow> json \<Rightarrow> flow_error + flow_config" where
  "flow_parse lib config =
     map_err (\<lambda>(path, inner).
       \<lparr>fe_path = (if path = ''.'' then [] else path),
        fe_message = FlowText (str_before '', expected `'' (str_before '', expected one of'' inner))\<rparr>)
       (lib_typed lib config)"

fun trim_start_matches :: "string \<Rightarrow> nat \<Rightarrow> string \<Rightarrow> string" where
  "trim_start_matches p 0 s = s"
| "trim_start_matches p (Suc n) s =
     (case strip_prefix p s of None \<Rightarrow> s | Some r \<Rightarrow> trim_start_matches p n r)"

text \<open>A pattern of seven characters is stripped fewer times than the text has characters.\<close>

definition one_line :: "regex_error \<Rightarrow> string" where
  "one_line e =
     (case e of
        RegexSyntax s \<Rightarrow>
          (let l = (case str_lines s of [] \<Rightarrow> [] | ls \<Rightarrow> last ls)
           in trim_start_matches ''error: '' (length l) l)
      | RegexOther s \<Rightarrow> s)"

definition rule_path :: "string \<Rightarrow> nat \<Rightarrow> string \<Rightarrow> string" where
  "rule_path name i field = ''states.'' @ name @ ''.on['' @ nat_digits i @ ''].'' @ field"

definition compile_match ::
  "'re flow_lib \<Rightarrow> string \<Rightarrow> nat \<Rightarrow> string \<times> string \<Rightarrow> flow_error + (string \<times> 're)" where
  "compile_match lib name i e =
     (let path = rule_path name i (''match.'' @ fst e)
      in if \<not> str_starts_with (fst e) ''/'' then Inl \<lparr>fe_path = path, fe_message = NotAPointer\<rparr>
         else rbind (map_err (\<lambda>x. \<lparr>fe_path = path, fe_message = FlowText (one_line x)\<rparr>)
                (lib_build lib (''^(?:'' @ snd e @ '')$''))) (\<lambda>re. Inr (fst e, re)))"

definition compile_rule ::
  "'re flow_lib \<Rightarrow> flow_config \<Rightarrow> string \<Rightarrow> nat \<times> flow_rule \<Rightarrow> flow_error + 're compiled_rule" where
  "compile_rule lib parsed name e =
     (let i = fst e; rule = snd e
      in if fr_event rule \<notin> set HOOK_EVENTS
         then Inl \<lparr>fe_path = rule_path name i ''event'', fe_message = UnknownHook (fr_event rule)\<rparr>
         else rbind (case fr_goto rule of
                None \<Rightarrow> Inr ()
              | Some g \<Rightarrow>
                  if bt_contains (fc_states parsed) g then Inr ()
                  else Inl \<lparr>fe_path = rule_path name i ''goto'', fe_message = NoState g\<rparr>) (\<lambda>_.
              rbind (decode_list (compile_match lib name i) (fr_matches rule)) (\<lambda>matches.
              Inr \<lparr>cr_event = fr_event rule, cr_matches = matches, cr_goto = fr_goto rule,
                   cr_respond = (case fr_respond rule of Some m \<Rightarrow> m | None \<Rightarrow> []),
                   cr_send = fr_send rule, cr_action = fr_action rule\<rparr>)))"

definition compile :: "'re flow_lib \<Rightarrow> json \<Rightarrow> flow_error + 're compiled" where
  "compile lib config =
     rbind (flow_parse lib config) (\<lambda>parsed.
     if \<not> bt_contains (fc_states parsed) (fc_initial parsed)
     then Inl \<lparr>fe_path = ''initial'', fe_message = NoState (fc_initial parsed)\<rparr>
     else rbind (rfold (\<lambda>(name, state) acc.
            rbind (decode_list (compile_rule lib parsed name) (List.enumerate 0 (sc_on state)))
              (\<lambda>rules. Inr (bt_insert name rules acc))) (fc_states parsed) []) (\<lambda>states.
          Inr \<lparr>cp_initial = fc_initial parsed, cp_states = states, cp_hash = lib_sha lib config\<rparr>))"

section \<open>The machine\<close>

record flow_step =
  fs_fired :: "nat option"
  fs_response :: json
  fs_actions :: "plugin_action list"
  fs_next :: "string option"

definition text_at :: "'re flow_lib \<Rightarrow> json \<Rightarrow> string \<Rightarrow> string option" where
  "text_at lib payload pointer =
     map_option (\<lambda>v. case v of JString s \<Rightarrow> s | _ \<Rightarrow> lib_text lib v) (json_at payload pointer)"

definition rule_matches :: "'re flow_lib \<Rightarrow> 're compiled_rule \<Rightarrow> hook_event \<Rightarrow> bool" where
  "rule_matches lib rule event \<longleftrightarrow>
     cr_event rule = ev_name event
     \<and> list_all (\<lambda>(pointer, re).
          case text_at lib (ev_payload event) pointer of Some s \<Rightarrow> lib_is_match lib re s | None \<Rightarrow> False)
        (cr_matches rule)"

definition respond_over :: "(string, json) btree \<Rightarrow> json \<Rightarrow> json" where
  "respond_over respond so_far =
     JObject (fold (\<lambda>(k, v). bt_insert k v) respond (case so_far of JObject m \<Rightarrow> m | _ \<Rightarrow> []))"

definition rule_actions :: "'re compiled_rule \<Rightarrow> plugin_action list" where
  "rule_actions rule =
     (case cr_send rule of Some s \<Rightarrow> [SendText (sd_text s) (sd_submit s)] | None \<Rightarrow> [])
     @ (case cr_action rule of Some RuleStop \<Rightarrow> [Stop] | Some RuleRestart \<Rightarrow> [Restart] | None \<Rightarrow> [])"

definition machine_step :: "'re flow_lib \<Rightarrow> 're compiled \<Rightarrow> string \<Rightarrow> hook_event \<Rightarrow> json \<Rightarrow> flow_step" where
  "machine_step lib c state event so_far =
     (case Option.bind (bt_get (cp_states c) state)
             (\<lambda>rules. map_option (\<lambda>i. (i, rules ! i)) (position (\<lambda>r. rule_matches lib r event) rules)) of
        None \<Rightarrow> \<lparr>fs_fired = None, fs_response = so_far, fs_actions = [], fs_next = None\<rparr>
      | Some (i, rule) \<Rightarrow>
          \<lparr>fs_fired = Some i, fs_response = respond_over (cr_respond rule) so_far,
           fs_actions = rule_actions rule, fs_next = cr_goto rule\<rparr>)"

section \<open>The plugin\<close>

text \<open>The daemon's key/value store as the plugin's host reaches it: every call may fail.\<close>

record 'w kv_port =
  port_get :: "string \<Rightarrow> 'w \<Rightarrow> 'w \<times> (string + string option)"
  port_put :: "string \<Rightarrow> string \<Rightarrow> 'w \<Rightarrow> 'w \<times> (string + unit)"
  port_delete :: "string \<Rightarrow> 'w \<Rightarrow> 'w \<times> (string + unit)"

record 're agent_flow =
  af_compiled :: "'re compiled"
  af_state :: string

type_synonym series = "string \<times> string \<times> string \<times> string"

record 're flow_plugin =
  fp_agents :: "(string, 're agent_flow) btree"
  fp_gates :: "string list"
  fp_gauge :: "series list"
  fp_deliveries :: "unit deliveries"

definition flow_new :: "'re flow_plugin" where
  "flow_new = \<lparr>fp_agents = [], fp_gates = [], fp_gauge = [], fp_deliveries = []\<rparr>"

definition state_key :: "string \<Rightarrow> string" where
  "state_key agent = ''state/'' @ agent"

definition labels :: "string \<Rightarrow> string \<times> string \<times> string" where
  "labels agent =
     (case splitn 3 (CHR ''/'') agent of [f, c, a] \<Rightarrow> (f, c, a) | _ \<Rightarrow> ([], [], agent))"

definition series_of :: "string \<Rightarrow> string \<Rightarrow> series" where
  "series_of agent state = (case labels agent of (f, c, a) \<Rightarrow> (f, c, a, state))"

definition set_state_gauge :: "string \<Rightarrow> string option \<Rightarrow> string \<Rightarrow> series list \<Rightarrow> series list" where
  "set_state_gauge agent old new gauge =
     List.insert (series_of agent new)
       (case old of Some o' \<Rightarrow> removeAll (series_of agent o') gauge | None \<Rightarrow> gauge)"

definition store ::
  "'re flow_lib \<Rightarrow> 'w kv_port \<Rightarrow> string \<Rightarrow> stored \<Rightarrow> 'w \<Rightarrow> 'w \<times> (string + unit)" where
  "store lib kv agent s w = port_put kv (state_key agent) (lib_encode lib s) w"

text \<open>The state stored for this very config, if it is still declared.\<close>

definition resumable :: "'re flow_lib \<Rightarrow> 're compiled \<Rightarrow> string option \<Rightarrow> string option" where
  "resumable lib c bytes =
     (case Option.bind bytes (lib_decode lib) of
        Some s \<Rightarrow> if sr_config s = cp_hash c \<and> bt_contains (cp_states c) (sr_state s) then Some (sr_state s) else None
      | None \<Rightarrow> None)"

definition install ::
  "string \<Rightarrow> 're compiled \<Rightarrow> string \<Rightarrow> 're flow_plugin \<Rightarrow> 're flow_plugin" where
  "install agent c state p =
     (let old = map_option af_state (bt_get (fp_agents p) agent)
      in p\<lparr>fp_agents := bt_insert agent \<lparr>af_compiled = c, af_state = state\<rparr> (fp_agents p),
           fp_deliveries := (if old \<noteq> None then lose_track_agent (fp_deliveries p) agent else fp_deliveries p),
           fp_gauge := set_state_gauge agent old state (fp_gauge p)\<rparr>)"

datatype activate_error = BadConfig flow_error | KvFault string

definition activate ::
  "'re flow_lib \<Rightarrow> 'w kv_port \<Rightarrow> string \<Rightarrow> json \<Rightarrow> 're flow_plugin \<times> 'w
     \<Rightarrow> ('re flow_plugin \<times> 'w) \<times> (activate_error + unit)" where
  "activate lib kv agent config pw =
     (let p = fst pw; w = snd pw
      in case compile lib config of
           Inl e \<Rightarrow> ((p, w), Inl (BadConfig e))
         | Inr c \<Rightarrow>
             let p = p\<lparr>fp_gates := List.insert agent (fp_gates p)\<rparr>
             in case port_get kv (state_key agent) w of
                  (w, Inl e) \<Rightarrow> ((p, w), Inl (KvFault e))
                | (w, Inr bytes) \<Rightarrow>
                    (case resumable lib c bytes of
                       Some state \<Rightarrow> ((install agent c state p, w), Inr ())
                     | None \<Rightarrow>
                         (case store lib kv agent \<lparr>sr_state = cp_initial c, sr_config = cp_hash c\<rparr> w of
                            (w, Inl e) \<Rightarrow> ((p, w), Inl (KvFault e))
                          | (w, Inr _) \<Rightarrow> ((install agent c (cp_initial c) p, w), Inr ()))))"

definition deactivate ::
  "'w kv_port \<Rightarrow> string \<Rightarrow> 're flow_plugin \<times> 'w \<Rightarrow> 're flow_plugin \<times> 'w" where
  "deactivate kv agent pw =
     (let p = fst pw;
          gauge = (case bt_get (fp_agents p) agent of
                     Some a \<Rightarrow> removeAll (series_of agent (af_state a)) (fp_gauge p)
                   | None \<Rightarrow> fp_gauge p)
      in (p\<lparr>fp_deliveries := fst (forget (fp_deliveries p) agent),
            fp_agents := bt_remove agent (fp_agents p), fp_gauge := gauge\<rparr>,
          fst (port_delete kv (state_key agent) (snd pw))))"

text \<open>Every submitted prompt of the step goes to the delivery tracker, slash commands apart.\<close>

definition track_actions :: "string \<Rightarrow> instant \<Rightarrow> plugin_action list \<Rightarrow> unit deliveries \<Rightarrow> unit deliveries" where
  "track_actions agent now actions d =
     fold (\<lambda>a d. case a of
         SendText text True \<Rightarrow>
           if classify (chars text) = Prompt then fst (sent d agent (chars text) () now 0) else d
       | _ \<Rightarrow> d) actions d"

definition transition ::
  "'re flow_lib \<Rightarrow> 'w kv_port \<Rightarrow> string \<Rightarrow> 're agent_flow \<Rightarrow> string \<Rightarrow> 're flow_plugin \<times> 'w
     \<Rightarrow> 're flow_plugin \<times> 'w" where
  "transition lib kv agent flow to pw =
     (let p = fst pw
      in (p\<lparr>fp_agents := bt_insert agent (flow\<lparr>af_state := to\<rparr>) (fp_agents p),
            fp_gauge := set_state_gauge agent (Some (af_state flow)) to (fp_gauge p)\<rparr>,
          fst (store lib kv agent \<lparr>sr_state = to, sr_config = cp_hash (af_compiled flow)\<rparr> (snd pw))))"

definition intercept ::
  "'re flow_lib \<Rightarrow> 'w kv_port \<Rightarrow> hook_event \<Rightarrow> json \<Rightarrow> instant \<Rightarrow> 're flow_plugin \<times> 'w
     \<Rightarrow> ('re flow_plugin \<times> 'w) \<times> intercept_response" where
  "intercept lib kv event so_far now pw =
     (let agent = ev_agent event; w = snd pw;
          p = (fst pw)\<lparr>fp_deliveries := fst (on_event (fp_deliveries (fst pw)) event now)\<rparr>;
          pass = \<lparr>ir_response = so_far, ir_actions = []\<rparr>
      in if agent \<notin> set (fp_gates p) then ((p, w), pass)
         else case bt_get (fp_agents p) agent of
           None \<Rightarrow> ((p, w), pass)
         | Some flow \<Rightarrow>
             let s = machine_step lib (af_compiled flow) (af_state flow) event so_far;
                 p = p\<lparr>fp_deliveries := track_actions agent now (fs_actions s) (fp_deliveries p)\<rparr>
             in (case fs_next s of None \<Rightarrow> (p, w) | Some to \<Rightarrow> transition lib kv agent flow to (p, w),
                 \<lparr>ir_response = fs_response s, ir_actions = fs_actions s\<rparr>))"

definition tick :: "instant \<Rightarrow> 're flow_plugin \<Rightarrow> 're flow_plugin \<times> (string \<times> plugin_action) list" where
  "tick now p =
     (case nudge (fp_deliveries p) now of (d, due) \<Rightarrow>
        (p\<lparr>fp_deliveries := d\<rparr>, map (\<lambda>agent. (agent, SendKeys [KeyPress Enter] DEFAULT_KEY_DELAY_MS)) due))"

definition events_dropped :: "'re flow_plugin \<Rightarrow> 're flow_plugin" where
  "events_dropped p = p\<lparr>fp_deliveries := lose_track (fp_deliveries p)\<rparr>"

section \<open>Lemmas\<close>

subsection \<open>Compilation\<close>

definition rule_ok :: "(string \<Rightarrow> bool) \<Rightarrow> 're compiled_rule \<Rightarrow> bool" where
  "rule_ok declared r \<longleftrightarrow>
     cr_event r \<in> set HOOK_EVENTS \<and> (case cr_goto r of None \<Rightarrow> True | Some g \<Rightarrow> declared g)
     \<and> list_all (\<lambda>(pointer, _). str_starts_with pointer ''/'') (cr_matches r)"

definition compiled_ok :: "'re compiled \<Rightarrow> bool" where
  "compiled_ok c \<longleftrightarrow>
     bt_contains (cp_states c) (cp_initial c)
     \<and> list_all (\<lambda>(_, rules). list_all (rule_ok (bt_contains (cp_states c))) rules) (cp_states c)"

lemma decode_list_Inr: "decode_list f xs = Inr ys \<longleftrightarrow> list_all2 (\<lambda>x y. f x = Inr y) xs ys"
  by (induction xs arbitrary: ys) (auto simp: rbind_Inr list_all2_Cons1)

lemma decode_list_all:
  assumes "decode_list f xs = Inr ys" "\<And>x y. f x = Inr y \<Longrightarrow> P y"
  shows "list_all P ys"
  using assms by (auto simp: decode_list_Inr list_all_length list_all2_conv_all_nth)

lemma compile_rule_ok:
  assumes "compile_rule lib parsed name e = Inr r"
  shows "rule_ok (bt_contains (fc_states parsed)) r"
proof -
  from assms obtain ms where ms: "decode_list (compile_match lib name (fst e)) (fr_matches (snd e)) = Inr ms"
    and r: "fr_event (snd e) \<in> set HOOK_EVENTS" "cr_matches r = ms" "cr_event r = fr_event (snd e)"
      "cr_goto r = fr_goto (snd e)"
      "case fr_goto (snd e) of None \<Rightarrow> True | Some g \<Rightarrow> bt_contains (fc_states parsed) g"
    by (auto simp: compile_rule_def Let_def rbind_Inr split: if_splits option.splits)
  have "list_all (\<lambda>(pointer, _). str_starts_with pointer ''/'') ms"
    using ms by (rule decode_list_all) (auto simp: compile_match_def Let_def rbind_Inr split: if_splits)
  then show ?thesis using r by (simp add: rule_ok_def)
qed

lemma compile_states:
  assumes "rfold (\<lambda>(name, state) acc.
      rbind (decode_list (compile_rule lib parsed name) (List.enumerate 0 (sc_on state)))
        (\<lambda>rules. Inr (bt_insert name rules acc))) m acc = Inr out"
    and "\<forall>(n, rules) \<in> set acc. list_all (rule_ok (bt_contains (fc_states parsed))) rules"
  shows "(\<forall>(n, rules) \<in> set out. list_all (rule_ok (bt_contains (fc_states parsed))) rules)
    \<and> fst ` set out = fst ` set acc \<union> fst ` set m"
  using assms
proof (induction m arbitrary: acc)
  case (Cons e m)
  obtain name state where e: "e = (name, state)" by (cases e)
  obtain rules where rules: "decode_list (compile_rule lib parsed name) (List.enumerate 0 (sc_on state)) = Inr rules"
    and rest: "rfold (\<lambda>(name, state) acc.
      rbind (decode_list (compile_rule lib parsed name) (List.enumerate 0 (sc_on state)))
        (\<lambda>rules. Inr (bt_insert name rules acc))) m (bt_insert name rules acc) = Inr out"
    using Cons.prems(1) e by (auto simp: rbind_Inr)
  have "list_all (rule_ok (bt_contains (fc_states parsed))) rules"
    using rules by (rule decode_list_all) (rule compile_rule_ok)
  then have "\<forall>(n, rules) \<in> set (bt_insert name rules acc). list_all (rule_ok (bt_contains (fc_states parsed))) rules"
    using Cons.prems(2) bt_insert_subset[of name rules acc] by fastforce
  from Cons.IH[OF rest this] show ?case using e bt_keys_insert[of name rules acc] by auto
qed simp

lemma bt_contains_keys: "bt_contains m k \<longleftrightarrow> k \<in> fst ` set m"
  by (simp add: bt_contains_def bt_get_def) (metis map_of_eq_None_iff not_None_eq)

lemma compile_Inr:
  assumes "compile lib config = Inr c"
  shows "compiled_ok c" "cp_hash c = lib_sha lib config"
proof -
  from assms obtain parsed where p: "bt_contains (fc_states parsed) (fc_initial parsed)"
    and states: "rfold (\<lambda>(name, state) acc.
      rbind (decode_list (compile_rule lib parsed name) (List.enumerate 0 (sc_on state)))
        (\<lambda>rules. Inr (bt_insert name rules acc))) (fc_states parsed) [] = Inr (cp_states c)"
    and c: "cp_initial c = fc_initial parsed" "cp_hash c = lib_sha lib config"
    by (auto simp: compile_def rbind_Inr split: if_splits)
  note s = compile_states[OF states, simplified]
  have "bt_contains (cp_states c) = bt_contains (fc_states parsed)"
    using s by (intro ext) (simp add: bt_contains_keys)
  then show "compiled_ok c" using s p c(1) by (auto simp: compiled_ok_def list_all_iff)
  show "cp_hash c = lib_sha lib config" by (rule c(2))
qed

subsection \<open>Steps\<close>

lemma machine_step_next:
  assumes "compiled_ok c" "fs_next (machine_step lib c state event so_far) = Some to"
  shows "bt_contains (cp_states c) to"
proof -
  from assms(2) obtain rules i where rules: "bt_get (cp_states c) state = Some rules"
    and i: "position (\<lambda>r. rule_matches lib r event) rules = Some i" "cr_goto (rules ! i) = Some to"
    by (auto simp: machine_step_def split: option.splits bind_splits)
  have "rule_ok (bt_contains (cp_states c)) (rules ! i)"
    using assms(1) bt_get_SomeD[OF rules] i(1) by (auto simp: compiled_ok_def list_all_iff position_Some)
  then show ?thesis using i(2) by (simp add: rule_ok_def)
qed

lemma bt_get_fold_insert:
  "bt_get (fold (\<lambda>(k, v). bt_insert k v) kvs m) k = (case map_of (rev kvs) k of Some v \<Rightarrow> Some v | None \<Rightarrow> bt_get m k)"
  by (induction kvs arbitrary: m) (auto simp: map_add_def split: option.splits)

lemma respond_over_get:
  assumes "bt_wf respond"
  shows "json_get (respond_over respond so_far) k =
    (case bt_get respond k of Some v \<Rightarrow> Some v | None \<Rightarrow> json_get so_far k)"
proof -
  have "map_of (rev respond) k = bt_get respond k"
    using map_of_rev_distinct[OF bt_wf_distinct[OF assms]] by (simp add: bt_get_def)
  then show ?thesis by (cases so_far) (auto simp: respond_over_def bt_get_fold_insert split: option.splits)
qed

subsection \<open>Operations\<close>

datatype flow_op =
    Activate string json
  | Deactivate string
  | Intercept hook_event json instant
  | Tick instant
  | EventsDropped

definition flow_do ::
  "'re flow_lib \<Rightarrow> 'w kv_port \<Rightarrow> flow_op \<Rightarrow> 're flow_plugin \<times> 'w \<Rightarrow> 're flow_plugin \<times> 'w" where
  "flow_do lib kv op pw =
     (case op of
        Activate agent config \<Rightarrow> fst (activate lib kv agent config pw)
      | Deactivate agent \<Rightarrow> deactivate kv agent pw
      | Intercept event so_far now \<Rightarrow> fst (intercept lib kv event so_far now pw)
      | Tick now \<Rightarrow> (fst (tick now (fst pw)), snd pw)
      | EventsDropped \<Rightarrow> (events_dropped (fst pw), snd pw))"

text \<open>The store an interception writes, if its event moves the agent's machine.\<close>

definition written ::
  "'re flow_lib \<Rightarrow> hook_event \<Rightarrow> json \<Rightarrow> 're flow_plugin \<Rightarrow> stored option" where
  "written lib event so_far p =
     (if ev_agent event \<notin> set (fp_gates p) then None
      else Option.bind (bt_get (fp_agents p) (ev_agent event)) (\<lambda>flow.
        map_option (\<lambda>to. \<lparr>sr_state = to, sr_config = cp_hash (af_compiled flow)\<rparr>)
          (fs_next (machine_step lib (af_compiled flow) (af_state flow) event so_far))))"

definition gated :: "string \<Rightarrow> 're flow_plugin \<Rightarrow> 're flow_plugin" where
  "gated agent p = p\<lparr>fp_gates := List.insert agent (fp_gates p)\<rparr>"

text \<open>The outcomes of an activation.\<close>

lemma activate_cases:
  obtains (bad_config) e where "compile lib config = Inl e" "activate lib kv agent config (p, w) = ((p, w), Inl (BadConfig e))"
  | (get_fault) c w1 e where "compile lib config = Inr c" "port_get kv (state_key agent) w = (w1, Inl e)"
      "activate lib kv agent config (p, w) = ((gated agent p, w1), Inl (KvFault e))"
  | (resumed) c w1 b state where "compile lib config = Inr c" "port_get kv (state_key agent) w = (w1, Inr b)"
      "resumable lib c b = Some state" "activate lib kv agent config (p, w) = ((install agent c state (gated agent p), w1), Inr ())"
  | (put_fault) c w1 b w2 e where "compile lib config = Inr c" "port_get kv (state_key agent) w = (w1, Inr b)"
      "resumable lib c b = None" "store lib kv agent \<lparr>sr_state = cp_initial c, sr_config = cp_hash c\<rparr> w1 = (w2, Inl e)"
      "activate lib kv agent config (p, w) = ((gated agent p, w2), Inl (KvFault e))"
  | (fresh) c w1 b w2 where "compile lib config = Inr c" "port_get kv (state_key agent) w = (w1, Inr b)"
      "resumable lib c b = None" "store lib kv agent \<lparr>sr_state = cp_initial c, sr_config = cp_hash c\<rparr> w1 = (w2, Inr ())"
      "activate lib kv agent config (p, w) = ((install agent c (cp_initial c) (gated agent p), w2), Inr ())"
proof (cases "compile lib config")
  case (Inl e)
  then show ?thesis using bad_config by (simp add: activate_def)
next
  case (Inr c)
  obtain w1 r where get: "port_get kv (state_key agent) w = (w1, r)" by fastforce
  show ?thesis
  proof (cases r)
    case (Inl e)
    then show ?thesis using get_fault Inr get by (simp add: activate_def gated_def)
  next
    case r: (Inr b)
    obtain w2 q where put: "store lib kv agent \<lparr>sr_state = cp_initial c, sr_config = cp_hash c\<rparr> w1 = (w2, q)" by fastforce
    show ?thesis
    proof (cases "resumable lib c b")
      case (Some state)
      then show ?thesis using resumed Inr get r by (simp add: activate_def gated_def)
    next
      case None
      then show ?thesis
        using put_fault fresh Inr get r put by (cases q) (simp_all add: activate_def gated_def)
    qed
  qed
qed

lemma agents_simps [simp]:
  "fp_agents (gated agent p) = fp_agents p"
  "fp_agents (install agent c state p) = bt_insert agent \<lparr>af_compiled = c, af_state = state\<rparr> (fp_agents p)"
  by (simp_all add: gated_def install_def Let_def)

lemma resumable_declared: "resumable lib c b = Some state \<Longrightarrow> bt_contains (cp_states c) state"
  by (auto simp: resumable_def split: option.splits if_splits)

lemma agent_flow_moved: "(f :: 're agent_flow)\<lparr>af_state := to\<rparr> = \<lparr>af_compiled = af_compiled f, af_state = to\<rparr>"
  by (cases f) simp

lemma intercept_agents:
  "fp_agents (fst (fst (intercept lib kv event so_far now pw))) =
     (case written lib event so_far (fst pw) of
        None \<Rightarrow> fp_agents (fst pw)
      | Some s \<Rightarrow> bt_insert (ev_agent event)
          \<lparr>af_compiled = af_compiled (the (bt_get (fp_agents (fst pw)) (ev_agent event))), af_state = sr_state s\<rparr>
          (fp_agents (fst pw)))"
  "snd (fst (intercept lib kv event so_far now pw)) =
     (case written lib event so_far (fst pw) of
        None \<Rightarrow> snd pw | Some s \<Rightarrow> fst (store lib kv (ev_agent event) s (snd pw)))"
  by (auto simp: intercept_def written_def transition_def Let_def agent_flow_moved split: option.splits bind_splits)

definition flow_ok :: "'re flow_plugin \<Rightarrow> bool" where
  "flow_ok p \<longleftrightarrow>
     list_all (\<lambda>(_, f). compiled_ok (af_compiled f) \<and> bt_contains (cp_states (af_compiled f)) (af_state f)) (fp_agents p)"

lemma flow_ok_insert:
  assumes "flow_ok p" "compiled_ok (af_compiled f)" "bt_contains (cp_states (af_compiled f)) (af_state f)"
    and "fp_agents p' = bt_insert a f (fp_agents p)"
  shows "flow_ok p'"
  using assms bt_insert_subset[of a f "fp_agents p"] by (fastforce simp: flow_ok_def list_all_iff)

lemma flow_do_ok:
  assumes "flow_ok (fst pw)"
  shows "flow_ok (fst (flow_do lib kv op pw))"
proof (cases op)
  case (Activate agent config)
  obtain p w where pw: "pw = (p, w)" by (cases pw)
  have keep: "flow_ok (gated agent p)" using assms pw by (simp add: flow_ok_def)
  have new: "flow_ok (install agent c state (gated agent p))"
    if "compile lib config = Inr c" "bt_contains (cp_states c) state" for c state
    using flow_ok_insert[OF keep, of "\<lparr>af_compiled = c, af_state = state\<rparr>"] compile_Inr(1)[OF that(1)] that(2) by simp
  show ?thesis
  proof (cases rule: activate_cases[of lib config kv agent p w])
    case (resumed c w1 b state)
    then show ?thesis using new[OF resumed(1) resumable_declared[OF resumed(3)]] Activate pw by (simp add: flow_do_def)
  next
    case (fresh c w1 b w2)
    then show ?thesis using new[OF fresh(1)] compile_Inr(1)[OF fresh(1)] Activate pw by (simp add: flow_do_def compiled_ok_def)
  qed (use assms keep Activate pw in \<open>simp_all add: flow_do_def\<close>)
next
  case (Deactivate agent)
  then show ?thesis using assms by (auto simp: flow_do_def deactivate_def Let_def flow_ok_def bt_remove_def list_all_iff)
next
  case (Intercept event so_far now)
  show ?thesis
  proof (cases "written lib event so_far (fst pw)")
    case None
    then show ?thesis using assms Intercept by (simp add: flow_do_def flow_ok_def intercept_agents)
  next
    case (Some s)
    then obtain f where f: "bt_get (fp_agents (fst pw)) (ev_agent event) = Some f"
      and to: "fs_next (machine_step lib (af_compiled f) (af_state f) event so_far) = Some (sr_state s)"
      by (auto simp: written_def split: if_splits bind_splits)
    have "compiled_ok (af_compiled f)"
      using assms bt_get_SomeD[OF f] by (auto simp: flow_ok_def list_all_iff)
    then show ?thesis
      using flow_ok_insert[OF assms, of "\<lparr>af_compiled = af_compiled f, af_state = sr_state s\<rparr>"] Some f
        machine_step_next[OF _ to] Intercept
      by (simp add: flow_do_def intercept_agents)
  qed
qed (use assms in \<open>auto simp: flow_do_def tick_def events_dropped_def flow_ok_def split: prod.splits\<close>)

lemma fold_invariant: "(\<And>x s. P s \<Longrightarrow> P (f x s)) \<Longrightarrow> P s \<Longrightarrow> P (fold f xs s)"
  by (induction xs arbitrary: s) auto

subsection \<open>The store behind the port\<close>

text \<open>
  What the plugin relies on of the daemon's store, for a view of its contents: a successful read
  gives the view, a successful write sets the key, and a call about one key, failed or not, leaves
  the others alone.
\<close>

locale kv_contract =
  fixes kv :: "'w kv_port"
    and view :: "'w \<Rightarrow> string \<Rightarrow> string option"
    and good :: "'w \<Rightarrow> bool"
  assumes get_good: "good w \<Longrightarrow> good (fst (port_get kv k w))"
    and get_same: "good w \<Longrightarrow> view (fst (port_get kv k w)) = view w"
    and get_view: "good w \<Longrightarrow> snd (port_get kv k w) = Inr found \<Longrightarrow> found = view w k"
    and put_good: "good w \<Longrightarrow> good (fst (port_put kv k v w))"
    and put_other: "good w \<Longrightarrow> k' \<noteq> k \<Longrightarrow> view (fst (port_put kv k v w)) k' = view w k'"
    and put_view: "good w \<Longrightarrow> snd (port_put kv k v w) = Inr () \<Longrightarrow> view (fst (port_put kv k v w)) k = Some v"
    and delete_good: "good w \<Longrightarrow> good (fst (port_delete kv k w))"
    and delete_other: "good w \<Longrightarrow> k' \<noteq> k \<Longrightarrow> view (fst (port_delete kv k w)) k' = view w k'"

text \<open>The stored document of every active agent is its current state.\<close>

definition mirrors :: "'re flow_lib \<Rightarrow> (string \<Rightarrow> string option) \<Rightarrow> 're flow_plugin \<Rightarrow> bool" where
  "mirrors lib v p \<longleftrightarrow>
     (\<forall>a f. bt_get (fp_agents p) a = Some f \<longrightarrow>
        Option.bind (v (state_key a)) (lib_decode lib)
          = Some \<lparr>sr_state = af_state f, sr_config = cp_hash (af_compiled f)\<rparr>)"

text \<open>No write of the operation failed.\<close>

definition faultless :: "'re flow_lib \<Rightarrow> 'w kv_port \<Rightarrow> flow_op \<Rightarrow> 're flow_plugin \<times> 'w \<Rightarrow> bool" where
  "faultless lib kv op pw \<longleftrightarrow>
     (case op of
        Activate agent config \<Rightarrow> (case snd (activate lib kv agent config pw) of Inl (KvFault _) \<Rightarrow> False | _ \<Rightarrow> True)
      | Intercept event so_far now \<Rightarrow>
          (case written lib event so_far (fst pw) of
             None \<Rightarrow> True | Some s \<Rightarrow> snd (store lib kv (ev_agent event) s (snd pw)) = Inr ())
      | _ \<Rightarrow> True)"

fun faultless_run :: "'re flow_lib \<Rightarrow> 'w kv_port \<Rightarrow> flow_op list \<Rightarrow> 're flow_plugin \<times> 'w \<Rightarrow> bool" where
  "faultless_run lib kv [] pw \<longleftrightarrow> True"
| "faultless_run lib kv (op # ops) pw \<longleftrightarrow> faultless lib kv op pw \<and> faultless_run lib kv ops (flow_do lib kv op pw)"

lemma state_key_eq [simp]: "state_key a = state_key b \<longleftrightarrow> a = b"
  by (simp add: state_key_def)

lemma mirrors_insert:
  assumes "mirrors lib v p" "fp_agents p' = bt_insert a f (fp_agents p)"
    and "Option.bind (v' (state_key a)) (lib_decode lib)
      = Some \<lparr>sr_state = af_state f, sr_config = cp_hash (af_compiled f)\<rparr>"
    and "\<And>b. b \<noteq> a \<Longrightarrow> v' (state_key b) = v (state_key b)"
  shows "mirrors lib v' p'"
  using assms by (auto simp: mirrors_def)

lemma resumable_stored:
  "resumable lib c b = Some state \<Longrightarrow> Option.bind b (lib_decode lib) = Some \<lparr>sr_state = state, sr_config = cp_hash c\<rparr>"
  by (auto simp: resumable_def split: option.splits if_splits)

lemma flow_run_ok: "flow_ok (fst (fold (flow_do lib kv) ops (flow_new, w)))"
proof -
  have "flow_ok (fst (flow_new :: 're flow_plugin, w))" by (simp add: flow_ok_def flow_new_def)
  then show ?thesis by (rule fold_invariant[where P = "\<lambda>pw. flow_ok (fst pw)", rotated]) (rule flow_do_ok)
qed

lemma mirrors_new: "mirrors lib v flow_new"
  by (simp add: mirrors_def flow_new_def)

context kv_contract
begin

lemma stored_view:
  assumes "good w" "store lib kv agent s w = (w', Inr ())" "lib_decode lib (lib_encode lib s) = Some s"
  shows "good w'" "Option.bind (view w' (state_key agent)) (lib_decode lib) = Some s"
    "b \<noteq> agent \<Longrightarrow> view w' (state_key b) = view w (state_key b)"
  using assms put_good[of w "state_key agent" "lib_encode lib s"] put_view[of w "state_key agent" "lib_encode lib s"]
    put_other[of w "state_key b" "state_key agent" "lib_encode lib s"]
  by (simp_all add: store_def)

lemma activate_mirrors:
  assumes "good w" "mirrors lib (view w) p" "\<And>s. lib_decode lib (lib_encode lib s) = Some s"
    and "faultless lib kv (Activate agent config) (p, w)"
    and "flow_do lib kv (Activate agent config) (p, w) = (p', w')"
  shows "good w' \<and> mirrors lib (view w') p'"
proof (cases rule: activate_cases[of lib config kv agent p w])
  case (resumed c w1 b state)
  then have w1: "good w1" "view w1 = view w" "b = view w (state_key agent)"
    using get_good[OF assms(1), of "state_key agent"] get_same[OF assms(1), of "state_key agent"]
      get_view[OF assms(1), of "state_key agent"] by auto
  then have "mirrors lib (view w1) p'"
    using resumed assms(2,5) resumable_stored[OF resumed(3)]
    by (intro mirrors_insert[OF assms(2), of p' agent "\<lparr>af_compiled = c, af_state = state\<rparr>"]) (auto simp: flow_do_def)
  then show ?thesis using w1 resumed assms(5) by (simp add: flow_do_def)
next
  case (fresh c w1 b w2)
  then have w1: "good w1" "view w1 = view w"
    using get_good[OF assms(1), of "state_key agent"] get_same[OF assms(1), of "state_key agent"] by auto
  note s = stored_view[OF w1(1) fresh(4) assms(3)]
  have "mirrors lib (view w2) p'"
    using fresh assms(5) s w1
    by (intro mirrors_insert[OF assms(2), of p' agent "\<lparr>af_compiled = c, af_state = cp_initial c\<rparr>"]) (auto simp: flow_do_def)
  then show ?thesis using s(1) fresh assms(5) by (simp add: flow_do_def)
qed (use assms in \<open>auto simp: flow_do_def faultless_def\<close>)

lemma intercept_mirrors:
  assumes "good w" "mirrors lib (view w) p" "\<And>s. lib_decode lib (lib_encode lib s) = Some s"
    and "faultless lib kv (Intercept event so_far now) (p, w)"
    and "flow_do lib kv (Intercept event so_far now) (p, w) = (p', w')"
  shows "good w' \<and> mirrors lib (view w') p'"
proof (cases "written lib event so_far p")
  case None
  then have "w' = w" "fp_agents p' = fp_agents p"
    using assms(5) intercept_agents[of lib kv event so_far now "(p, w)"] by (auto simp: flow_do_def)
  then show ?thesis using assms(1,2) by (simp add: mirrors_def)
next
  case (Some s)
  obtain f where f: "bt_get (fp_agents p) (ev_agent event) = Some f" "sr_config s = cp_hash (af_compiled f)"
    using Some by (auto simp: written_def split: if_splits bind_splits)
  have p': "fp_agents p' = bt_insert (ev_agent event) \<lparr>af_compiled = af_compiled f, af_state = sr_state s\<rparr> (fp_agents p)"
    and w': "w' = fst (store lib kv (ev_agent event) s w)"
    using assms(5) intercept_agents[of lib kv event so_far now "(p, w)"] Some f by (auto simp: flow_do_def)
  have "snd (store lib kv (ev_agent event) s w) = Inr ()" using assms(4) Some by (simp add: faultless_def)
  then have "store lib kv (ev_agent event) s w = (w', Inr ())" using w' by (simp add: prod_eq_iff)
  note st = stored_view[OF assms(1) this assms(3)]
  have "s = \<lparr>sr_state = sr_state s, sr_config = cp_hash (af_compiled f)\<rparr>" using f(2) by simp
  then have "mirrors lib (view w') p'"
    using st by (intro mirrors_insert[OF assms(2) p']) auto
  then show ?thesis using st(1) by simp
qed

lemma flow_do_mirrors:
  assumes "good (snd pw) \<and> mirrors lib (view (snd pw)) (fst pw)" "\<And>s. lib_decode lib (lib_encode lib s) = Some s"
    and "faultless lib kv op pw"
  shows "good (snd (flow_do lib kv op pw)) \<and> mirrors lib (view (snd (flow_do lib kv op pw))) (fst (flow_do lib kv op pw))"
proof -
  obtain p w where pw: "pw = (p, w)" by (cases pw)
  obtain p' w' where pw': "flow_do lib kv op (p, w) = (p', w')" by (cases "flow_do lib kv op (p, w)")
  show ?thesis
  proof (cases op)
    case (Activate agent config)
    then show ?thesis using activate_mirrors[of w lib p agent config p' w'] assms pw pw' by simp
  next
    case (Intercept event so_far now)
    then show ?thesis using intercept_mirrors[of w lib p event so_far now p' w'] assms pw pw' by simp
  next
    case (Deactivate agent)
    then show ?thesis
      using assms(1) pw delete_good[of w "state_key agent"] delete_other[of w _ "state_key agent"]
      by (auto simp: flow_do_def deactivate_def Let_def mirrors_def)
  qed (use assms(1) in \<open>auto simp: flow_do_def tick_def events_dropped_def mirrors_def split: prod.splits\<close>)
qed

lemma run_mirrors:
  assumes "good w" "mirrors lib (view w) p" "\<And>s. lib_decode lib (lib_encode lib s) = Some s"
    and "faultless_run lib kv ops (p, w)" "fold (flow_do lib kv) ops (p, w) = (p', w')"
  shows "good w' \<and> mirrors lib (view w') p'"
  using assms(1,2,4,5)
proof (induction ops arbitrary: p w)
  case (Cons op ops)
  obtain q v where "flow_do lib kv op (p, w) = (q, v)" by (cases "flow_do lib kv op (p, w)")
  then show ?case using flow_do_mirrors[OF _ assms(3), of "(p, w)" op] Cons.IH[of v q] Cons.prems by simp
qed simp

lemma resumes:
  assumes "good w" "mirrors lib (view w) p" "flow_ok p" "bt_get (fp_agents p) agent = Some f"
    and "compile lib config = Inr (af_compiled f)" "snd (port_get kv (state_key agent) w) = Inr b"
  shows "snd (activate lib kv agent config (q, w)) = Inr ()
    \<and> bt_get (fp_agents (fst (fst (activate lib kv agent config (q, w))))) agent = Some f"
proof -
  have "Option.bind b (lib_decode lib) = Some \<lparr>sr_state = af_state f, sr_config = cp_hash (af_compiled f)\<rparr>"
    using assms(2,4) get_view[OF assms(1,6)] by (simp add: mirrors_def)
  moreover have "bt_contains (cp_states (af_compiled f)) (af_state f)"
    using assms(3) bt_get_SomeD[OF assms(4)] by (auto simp: flow_ok_def list_all_iff)
  ultimately have "resumable lib (af_compiled f) b = Some (af_state f)" by (simp add: resumable_def)
  then show ?thesis
    by (cases rule: activate_cases[of lib config kv agent q w]) (use assms(5,6) in auto)
qed

lemma restart_resumes:
  assumes "good w" "\<And>s. lib_decode lib (lib_encode lib s) = Some s"
    and "faultless_run lib kv ops (flow_new, w)" "fold (flow_do lib kv) ops (flow_new, w) = (p, w')"
    and "bt_get (fp_agents p) agent = Some f" "compile lib config = Inr (af_compiled f)"
    and "snd (port_get kv (state_key agent) w') = Inr b"
  shows "snd (activate lib kv agent config (flow_new, w')) = Inr ()
    \<and> bt_get (fp_agents (fst (fst (activate lib kv agent config (flow_new, w'))))) agent = Some f"
proof -
  have "good w' \<and> mirrors lib (view w') p" by (rule run_mirrors[OF assms(1) mirrors_new assms(2,3,4)])
  moreover have "flow_ok p" using flow_run_ok[of lib kv ops w] assms(4) by simp
  ultimately show ?thesis using resumes[OF _ _ _ assms(5,6,7)] by blast
qed

end

section \<open>Properties\<close>

text \<open>
  An agent's machine never leaves its declared states: whatever configurations are offered,
  events intercepted, store faults met, and agents activated again or dropped, every active agent
  has a compiled machine, whose transitions all lead to declared states on known events, and stands in one of
  its declared states.
\<close>

theorem flow_stays_declared:
  "list_all (\<lambda>(agent, f). compiled_ok (af_compiled f) \<and> bt_contains (cp_states (af_compiled f)) (af_state f))
     (fp_agents (fst (fold (flow_do lib kv) ops (flow_new, w))))"
  using flow_run_ok[of lib kv ops w] by (simp add: flow_ok_def)

text \<open>
  The first rule of the current state that matches the event decides the verdict: the event
  name and every pattern hold for it and for no earlier rule; the answer is the chain's response
  with the rule's keys replaced and every other key kept; the actions are its send and then its
  stop or restart. Without such a rule the verdict passes the response on unchanged and moves nowhere.
\<close>

theorem first_matching_rule_decides:
  assumes "bt_get (cp_states c) state = Some rules" "list_all (\<lambda>r. bt_wf (cr_respond r)) rules"
  shows "case fs_fired (machine_step lib c state event so_far) of
      Some i \<Rightarrow> i < length rules \<and> rule_matches lib (rules ! i) event
        \<and> list_all (\<lambda>r. \<not> rule_matches lib r event) (take i rules)
        \<and> fs_next (machine_step lib c state event so_far) = cr_goto (rules ! i)
        \<and> fs_actions (machine_step lib c state event so_far) = rule_actions (rules ! i)
        \<and> json_get (fs_response (machine_step lib c state event so_far)) k =
            (case bt_get (cr_respond (rules ! i)) k of Some v \<Rightarrow> Some v | None \<Rightarrow> json_get so_far k)
    | None \<Rightarrow> list_all (\<lambda>r. \<not> rule_matches lib r event) rules
        \<and> machine_step lib c state event so_far
            = \<lparr>fs_fired = None, fs_response = so_far, fs_actions = [], fs_next = None\<rparr>"
proof (cases "position (\<lambda>r. rule_matches lib r event) rules")
  case None
  then have "list_all (\<lambda>r. \<not> rule_matches lib r event) rules" by (simp add: position_None list_all_iff)
  then show ?thesis using None assms(1) by (simp add: machine_step_def)
next
  case (Some i)
  then have i: "i < length rules" "rule_matches lib (rules ! i) event" "\<forall>j < i. \<not> rule_matches lib (rules ! j) event"
    by (auto simp: position_Some)
  then have "list_all (\<lambda>r. \<not> rule_matches lib r event) (take i rules)" by (simp add: list_all_length)
  moreover have "bt_wf (cr_respond (rules ! i))" using assms(2) i(1) by (simp add: list_all_length)
  ultimately show ?thesis using Some i assms(1) by (simp add: machine_step_def respond_over_get)
qed

subsection \<open>Witnesses\<close>

text \<open>A library for the witnesses: patterns are plain texts, and it knows one configuration.\<close>

definition sample_config :: flow_config where
  "sample_config =
     \<lparr>fc_initial = ''working'', fc_states =
       [(''done'', \<lparr>sc_on = []\<rparr>),
        (''working'', \<lparr>sc_on =
          [\<lparr>fr_event = ''Stop'', fr_matches = [(''/reason'', ''ok'')], fr_goto = Some ''done'',
            fr_respond = Some [(''note'', JString ''finished'')], fr_send = None, fr_action = Some RuleStop\<rparr>]\<rparr>)]\<rparr>"

definition sample_lib :: "string flow_lib" where
  "sample_lib =
     \<lparr>lib_typed = \<lambda>v. if v = JBool True then Inr sample_config else Inl (''.'', ''expected a map''),
      lib_build = Inr, lib_is_match = (\<lambda>re s. re = ''^(?:'' @ s @ '')$''), lib_text = (\<lambda>_. []), lib_sha = (\<lambda>_. ''h1''),
      lib_encode = (\<lambda>s. sr_state s @ '':'' @ sr_config s),
      lib_decode = (\<lambda>b. map_option (\<lambda>(a, c). \<lparr>sr_state = rev c, sr_config = rev a\<rparr>) (split_once (CHR '':'') (rev b)))\<rparr>"

definition sample_compiled :: "string compiled" where
  "sample_compiled =
     \<lparr>cp_initial = ''working'', cp_states =
       [(''done'', []),
        (''working'', [\<lparr>cr_event = ''Stop'', cr_matches = [(''/reason'', ''^(?:ok)$'')], cr_goto = Some ''done'',
            cr_respond = [(''note'', JString ''finished'')], cr_send = None, cr_action = Some RuleStop\<rparr>])],
      cp_hash = ''h1''\<rparr>"

definition sample_stop :: "string \<Rightarrow> hook_event" where
  "sample_stop reason =
     \<lparr>ev_agent = ''f/c/a'', ev_name = ''Stop'', ev_session_id = None, ev_received_at = [],
      ev_payload = JObject [(''reason'', JString reason)]\<rparr>"

lemma sample_compiles: "compile sample_lib (JBool True) = Inr sample_compiled"
  by code_simp

theorem first_matching_rule_decides_witness:
  "json_get (fs_response (machine_step sample_lib sample_compiled ''working'' (sample_stop ''ok'') (JObject [(''a'', JNull)]))) ''a''
     = Some JNull"
proof -
  obtain rules where rules: "bt_get (cp_states sample_compiled) ''working'' = Some rules"
    "list_all (\<lambda>r. bt_wf (cr_respond r)) rules" "map cr_respond rules = [[(''note'', JString ''finished'')]]"
    by (simp add: sample_compiled_def bt_get_def bt_wf_def)
  have "fs_fired (machine_step sample_lib sample_compiled ''working'' (sample_stop ''ok'') (JObject [(''a'', JNull)])) = Some 0"
    by code_simp
  then show ?thesis
    using first_matching_rule_decides[OF rules(1,2), of sample_lib "sample_stop ''ok''" "JObject [(''a'', JNull)]" "''a''"] rules(3)
    by (auto simp: bt_get_def)
qed

end
