(* ===== verification/Kv.thy ===== *)
theory Kv
  imports Flow
begin

text \<open>
  The daemon's key/value store of one plugin (crates/balerix-server/src/plugins/kv.rs over
  fsutil.rs): one file per key in a directory tree, with conflicts between a key and a directory of
  other keys, healing of empty directories and pruning on delete. The tree of files and directories is
  modelled with the errors its shape gives; disk faults and the leftovers of a crash are not. The
  vault's seal and open are parameters. The lemmas show that the tree refines a map whose keys do
  not run through one another, and that it keeps the contract the flow plugin relies on.
\<close>

section \<open>The tree\<close>

datatype io_error = NotFound | IsADirectory | NotADirectory | AlreadyExists | DirectoryNotEmpty

type_synonym path = "string list"

record kv_tree =
  kt_files :: "(path, string) btree"
  kt_dirs :: "path list"

definition is_file :: "kv_tree \<Rightarrow> path \<Rightarrow> bool" where
  "is_file t p = bt_contains (kt_files t) p"

definition is_dir :: "kv_tree \<Rightarrow> path \<Rightarrow> bool" where
  "is_dir t p = (p = [] \<or> p \<in> set (kt_dirs t))"

text \<open>The directories a path leads through, below the root.\<close>

definition ancestors :: "path \<Rightarrow> path list" where
  "ancestors p = map (\<lambda>i. take i p) [1..<length p]"

definition through_file :: "kv_tree \<Rightarrow> path \<Rightarrow> bool" where
  "through_file t p = list_ex (is_file t) (ancestors p)"

definition fs_read :: "kv_tree \<Rightarrow> path \<Rightarrow> io_error + string" where
  "fs_read t p =
     (if through_file t p then Inl NotADirectory
      else case bt_get (kt_files t) p of
        Some b \<Rightarrow> Inr b
      | None \<Rightarrow> Inl (if is_dir t p then IsADirectory else NotFound))"

definition create_dir_all :: "kv_tree \<Rightarrow> path \<Rightarrow> io_error + kv_tree" where
  "create_dir_all t d =
     (if d = [] then Inr t
      else if through_file t d then Inl NotADirectory
      else if is_file t d then Inl AlreadyExists
      else Inr (t\<lparr>kt_dirs := fold List.insert (ancestors d @ [d]) (kt_dirs t)\<rparr>))"

text \<open>A sibling temporary file renamed over the path; it is gone either way.\<close>

definition write_private :: "kv_tree \<Rightarrow> path \<Rightarrow> string \<Rightarrow> kv_tree \<times> (io_error + unit)" where
  "write_private t p bytes =
     (case create_dir_all t (butlast p) of
        Inl e \<Rightarrow> (t, Inl e)
      | Inr t \<Rightarrow>
          if is_dir t p then (t, Inl IsADirectory)
          else (t\<lparr>kt_files := bt_insert p bytes (kt_files t)\<rparr>, Inr ()))"

definition remove_dir :: "kv_tree \<Rightarrow> path \<Rightarrow> io_error + kv_tree" where
  "remove_dir t p =
     (if through_file t p \<or> is_file t p then Inl NotADirectory
      else if \<not> is_dir t p then Inl NotFound
      else if list_ex (\<lambda>q. strict_prefix p q) (bt_keys (kt_files t) @ kt_dirs t) then Inl DirectoryNotEmpty
      else Inr (t\<lparr>kt_dirs := removeAll p (kt_dirs t)\<rparr>))"

definition remove_file :: "kv_tree \<Rightarrow> path \<Rightarrow> io_error + kv_tree" where
  "remove_file t p =
     (if through_file t p then Inl NotADirectory
      else if is_file t p then Inr (t\<lparr>kt_files := bt_remove p (kt_files t)\<rparr>)
      else Inl (if is_dir t p then IsADirectory else NotFound))"

section \<open>The store\<close>

record vault =
  va_seal :: "string \<Rightarrow> string \<Rightarrow> string + string"
  va_open :: "string \<Rightarrow> string \<Rightarrow> string + string"

datatype kv_error =
    KvKey kv_key_error
  | KvConflict string
  | KvIo io_error
  | KvVault string
  | KvFormat

definition PLAIN :: char where
  "PLAIN = CHR ''p''"

definition SEALED :: char where
  "SEALED = CHR ''s''"

definition key_path :: "string \<Rightarrow> kv_error + path" where
  "key_path key = rbind (map_err KvKey (check_kv_key key)) (\<lambda>_. Inr (split_on (CHR ''/'') key))"

definition collides :: "io_error \<Rightarrow> bool" where
  "collides e = (e = IsADirectory \<or> e = NotADirectory)"

definition put_collides :: "kv_tree \<Rightarrow> path \<Rightarrow> io_error \<Rightarrow> bool" where
  "put_collides t p e = (collides e \<or> (e = AlreadyExists \<and> through_file t p))"

definition absent :: "io_error \<Rightarrow> bool" where
  "absent e = (e = NotFound \<or> collides e)"

definition aad :: "string \<Rightarrow> string \<Rightarrow> string" where
  "aad name key = name @ ''/'' @ key"

definition decode_entry :: "vault \<Rightarrow> string \<Rightarrow> string \<Rightarrow> string \<Rightarrow> kv_error + string" where
  "decode_entry v name key raw =
     (case raw of
        c # rest \<Rightarrow>
          if c = PLAIN then Inr rest
          else if c = SEALED then map_err KvVault (va_open v (aad name key) rest)
          else Inl KvFormat
      | [] \<Rightarrow> Inl KvFormat)"

definition kv_get :: "vault \<Rightarrow> string \<Rightarrow> string \<Rightarrow> kv_tree \<Rightarrow> kv_error + string option" where
  "kv_get v name key t =
     rbind (key_path key) (\<lambda>p.
       case fs_read t p of
         Inl e \<Rightarrow> if absent e then Inr None else Inl (KvIo e)
       | Inr raw \<Rightarrow> rbind (decode_entry v name key raw) (\<lambda>b. Inr (Some b)))"

definition encode_entry :: "vault \<Rightarrow> string \<Rightarrow> string \<Rightarrow> string \<Rightarrow> bool \<Rightarrow> kv_error + string" where
  "encode_entry v name key bytes secret =
     (if secret then rbind (map_err KvVault (va_seal v (aad name key) bytes)) (\<lambda>s. Inr (SEALED # s))
      else Inr (PLAIN # bytes))"

definition write_healing :: "kv_tree \<Rightarrow> path \<Rightarrow> string \<Rightarrow> kv_tree \<times> (io_error + unit)" where
  "write_healing t p out =
     (case write_private t p out of
        (t, Inl IsADirectory) \<Rightarrow>
          (case remove_dir t p of
             Inr t \<Rightarrow> write_private t p out
           | Inl _ \<Rightarrow> (t, Inl IsADirectory))
      | r \<Rightarrow> r)"

definition kv_put ::
  "vault \<Rightarrow> string \<Rightarrow> string \<Rightarrow> string \<Rightarrow> bool \<Rightarrow> kv_tree \<Rightarrow> kv_tree \<times> (kv_error + unit)" where
  "kv_put v name key bytes secret t =
     (case rbind (key_path key) (\<lambda>p. rbind (encode_entry v name key bytes secret) (\<lambda>out. Inr (p, out))) of
        Inl e \<Rightarrow> (t, Inl e)
      | Inr (p, out) \<Rightarrow>
          (case write_healing t p out of
             (t, r) \<Rightarrow> (t, map_err (\<lambda>e. if put_collides t p e then KvConflict key else KvIo e) r)))"

text \<open>The directories a delete left empty go, deepest first, up to the root.\<close>

function prune :: "kv_tree \<Rightarrow> path \<Rightarrow> kv_tree" where
  "prune t d =
     (if d = [] then t
      else case remove_dir t d of Inr t \<Rightarrow> prune t (butlast d) | Inl _ \<Rightarrow> t)"
  by pat_completeness auto
termination
  by (relation "measure (length \<circ> snd)") auto

declare prune.simps [simp del]

definition kv_delete :: "string \<Rightarrow> kv_tree \<Rightarrow> kv_tree \<times> (kv_error + bool)" where
  "kv_delete key t =
     (case key_path key of
        Inl e \<Rightarrow> (t, Inl e)
      | Inr p \<Rightarrow>
          (case remove_file t p of
             Inr t \<Rightarrow> (prune t (butlast p), Inr True)
           | Inl e \<Rightarrow> (t, if absent e then Inr False else Inl (KvIo e))))"

definition is_temp :: "string \<Rightarrow> bool" where
  "is_temp file_name = (str_starts_with file_name ''.'' \<and> str_contains file_name ''.tmp~'')"

definition kv_list :: "string \<Rightarrow> kv_tree \<Rightarrow> string list" where
  "kv_list pre t =
     sort (filter (\<lambda>k. str_starts_with k pre)
       (map (join_with (CHR ''/'')) (filter (\<lambda>p. \<not> list_ex is_temp p) (bt_keys (kt_files t)))))"

section \<open>The map the tree refines\<close>

type_synonym kv_map = "string \<rightharpoonup> kv_error + string"

abbreviation segs :: "string \<Rightarrow> path" where
  "segs k \<equiv> split_on (CHR ''/'') k"

text \<open>A key may not run through another: neither is a path above the other.\<close>

definition conflict :: "kv_map \<Rightarrow> string \<Rightarrow> bool" where
  "conflict m k \<longleftrightarrow> (\<exists>k' \<in> dom m. strict_prefix (segs k') (segs k) \<or> strict_prefix (segs k) (segs k'))"

definition spec_get :: "string \<Rightarrow> kv_map \<Rightarrow> kv_error + string option" where
  "spec_get key m =
     (case check_kv_key key of
        Inl e \<Rightarrow> Inl (KvKey e)
      | Inr _ \<Rightarrow> (case m key of None \<Rightarrow> Inr None | Some r \<Rightarrow> rbind r (\<lambda>b. Inr (Some b))))"

definition spec_put ::
  "vault \<Rightarrow> string \<Rightarrow> string \<Rightarrow> string \<Rightarrow> bool \<Rightarrow> kv_map \<Rightarrow> kv_map \<times> (kv_error + unit)" where
  "spec_put v name key bytes secret m =
     (case check_kv_key key of
        Inl e \<Rightarrow> (m, Inl (KvKey e))
      | Inr _ \<Rightarrow>
          (case encode_entry v name key bytes secret of
             Inl e \<Rightarrow> (m, Inl e)
           | Inr _ \<Rightarrow>
               if conflict m key then (m, Inl (KvConflict key)) else (m(key \<mapsto> Inr bytes), Inr ())))"

definition spec_delete :: "string \<Rightarrow> kv_map \<Rightarrow> kv_map \<times> (kv_error + bool)" where
  "spec_delete key m =
     (case check_kv_key key of
        Inl e \<Rightarrow> (m, Inl (KvKey e))
      | Inr _ \<Rightarrow> (m(key := None), Inr (m key \<noteq> None)))"

definition kv_abs :: "vault \<Rightarrow> string \<Rightarrow> kv_tree \<Rightarrow> kv_map" where
  "kv_abs v name t k =
     (if is_ok (check_kv_key k) then map_option (decode_entry v name k) (bt_get (kt_files t) (segs k)) else None)"

definition vault_ok :: "vault \<Rightarrow> bool" where
  "vault_ok v \<longleftrightarrow> (\<forall>a b s. va_seal v a b = Inr s \<longrightarrow> va_open v a s = Inr b)"

section \<open>Lemmas\<close>

definition paths :: "kv_tree \<Rightarrow> path set" where
  "paths t = {p. bt_get (kt_files t) p \<noteq> None}"

definition path_ok :: "path \<Rightarrow> bool" where
  "path_ok p \<longleftrightarrow> p = segs (join_with (CHR ''/'') p) \<and> check_kv_key (join_with (CHR ''/'') p) = Inr ()"

definition dirs_above :: "path set \<Rightarrow> path set" where
  "dirs_above K = {d. d \<noteq> [] \<and> (\<exists>p \<in> K. strict_prefix d p)}"

text \<open>The directories are exactly those some key leads through, and no key leads through a key.\<close>

definition tree_ok :: "kv_tree \<Rightarrow> bool" where
  "tree_ok t \<longleftrightarrow>
     bt_wf (kt_files t) \<and> (\<forall>p \<in> paths t. path_ok p) \<and> set (kt_dirs t) = dirs_above (paths t)
     \<and> (\<forall>p \<in> paths t. \<forall>q \<in> paths t. \<not> strict_prefix p q)"

lemma ancestors_set: "set (ancestors p) = {d. d \<noteq> [] \<and> strict_prefix d p}"
proof -
  have "d \<in> set (ancestors p)" if "d \<noteq> []" "strict_prefix d p" for d
    using that prefix_length_less[OF that(2)]
    by (auto simp: ancestors_def image_iff strict_prefix_def prefix_def Suc_le_eq intro!: bexI[of _ "length d"])
  moreover have "d \<noteq> [] \<and> strict_prefix d p" if "d \<in> set (ancestors p)" for d
    using that by (auto simp: ancestors_def strict_prefix_def take_is_prefix dest: arg_cong[of _ _ length])
  ultimately show ?thesis by blast
qed

lemma is_file_paths: "is_file t p \<longleftrightarrow> p \<in> paths t"
  by (simp add: is_file_def paths_def bt_contains_def)

lemma through_file_iff: "through_file t p \<longleftrightarrow> (\<exists>d \<in> paths t. d \<noteq> [] \<and> strict_prefix d p)"
  by (auto simp: through_file_def list_ex_iff ancestors_set is_file_paths)

lemma paths_nonempty: "tree_ok t \<Longrightarrow> p \<in> paths t \<Longrightarrow> p \<noteq> []"
  by (auto simp: tree_ok_def path_ok_def)

lemma strict_prefix_butlast:
  "p \<noteq> [] \<Longrightarrow> strict_prefix d p \<longleftrightarrow> d = butlast p \<or> strict_prefix d (butlast p)"
  by (cases p rule: rev_cases) (auto simp: strict_prefix_def)

lemma prefix_of_butlast: "prefix q (butlast p) \<Longrightarrow> prefix q p"
  by (rule prefix_order.trans[OF _ prefixeq_butlast])

lemma paths_dirs [simp]: "paths (t\<lparr>kt_dirs := ds\<rparr>) = paths t"
  by (simp add: paths_def)

lemma key_path_Inr: "key_path key = Inr p \<longleftrightarrow> check_kv_key key = Inr () \<and> p = segs key"
  by (auto simp: key_path_def rbind_Inr)

lemma key_path_ok: "check_kv_key key = Inr () \<Longrightarrow> path_ok (segs key)"
  by (simp add: path_ok_def)

lemma segs_eq: "segs a = segs b \<longleftrightarrow> a = b"
  by (metis join_split)

lemma fs_read_tree:
  assumes "tree_ok t"
  shows "(\<exists>b. fs_read t p = Inr b \<and> bt_get (kt_files t) p = Some b)
    \<or> (\<exists>e. fs_read t p = Inl e \<and> absent e \<and> bt_get (kt_files t) p = None)"
proof (cases "p \<in> paths t")
  case True
  then have "\<not> through_file t p" using assms by (auto simp: through_file_iff tree_ok_def)
  then show ?thesis using True by (auto simp: fs_read_def paths_def)
next
  case False
  then show ?thesis by (auto simp: fs_read_def paths_def absent_def collides_def)
qed

lemma kv_get_refines: "tree_ok t \<Longrightarrow> kv_get v name key t = spec_get key (kv_abs v name t)"
proof (cases "check_kv_key key")
  case (Inr u)
  assume "tree_ok t"
  then show ?thesis
    using fs_read_tree[of t "segs key"] Inr
    by (auto simp: kv_get_def key_path_def spec_get_def kv_abs_def)
qed (simp add: kv_get_def key_path_def spec_get_def)

subsection \<open>Writing\<close>

lemma fold_insert_set: "set (fold List.insert xs ys) = set xs \<union> set ys"
  by (induction xs arbitrary: ys) auto

lemma fold_insert_id: "set xs \<subseteq> set ys \<Longrightarrow> fold List.insert xs ys = ys"
  by (induction xs arbitrary: ys) auto

lemma create_dir_all_parent:
  assumes "p \<noteq> []" "\<forall>d \<in> paths t. \<not> strict_prefix d p"
  shows "\<exists>t'. create_dir_all t (butlast p) = Inr t' \<and> kt_files t' = kt_files t
    \<and> set (kt_dirs t') = set (kt_dirs t) \<union> set (ancestors p)
    \<and> (set (ancestors p) \<subseteq> set (kt_dirs t) \<longrightarrow> t' = t)"
proof (cases "butlast p = []")
  case True
  then have "set (ancestors p) = {}" using strict_prefix_butlast[OF assms(1)] by (auto simp: ancestors_set)
  then show ?thesis using True by (simp add: create_dir_all_def)
next
  case False
  have "\<not> through_file t (butlast p)" "\<not> is_file t (butlast p)"
    using assms strict_prefix_butlast[OF assms(1)] by (auto simp: through_file_iff is_file_paths)
  moreover have "set (ancestors (butlast p) @ [butlast p]) = set (ancestors p)"
    using False strict_prefix_butlast[OF assms(1)] by (auto simp: ancestors_set)
  ultimately show ?thesis
    using False by (auto simp: create_dir_all_def fold_insert_set fold_insert_id simp del: set_append fold_append)
qed

lemma dirs_above_insert: "dirs_above (insert p K) = dirs_above K \<union> set (ancestors p)"
  by (auto simp: dirs_above_def ancestors_set)

lemma paths_insert: "paths (t\<lparr>kt_files := bt_insert p b (kt_files t)\<rparr>) = insert p (paths t)"
  by (auto simp: paths_def)

lemma write_free:
  assumes "tree_ok t" "path_ok p" "\<forall>q \<in> paths t. \<not> strict_prefix q p \<and> \<not> strict_prefix p q"
  shows "\<exists>t'. write_healing t p out = (t', Inr ()) \<and> tree_ok t' \<and> kt_files t' = bt_insert p out (kt_files t)"
proof -
  have p: "p \<noteq> []" using assms(2) by (auto simp: path_ok_def)
  obtain t1 where t1: "create_dir_all t (butlast p) = Inr t1" "kt_files t1 = kt_files t"
      "set (kt_dirs t1) = set (kt_dirs t) \<union> set (ancestors p)"
    using create_dir_all_parent[OF p] assms(3) by blast
  let ?t' = "t1\<lparr>kt_files := bt_insert p out (kt_files t1)\<rparr>"
  have "\<not> is_dir t1 p"
    using assms(1,3) p t1(3) by (auto simp: is_dir_def tree_ok_def dirs_above_def ancestors_set)
  then have "write_healing t p out = (?t', Inr ())" using t1 by (simp add: write_healing_def write_private_def)
  moreover have "paths ?t' = insert p (paths t)" using t1(2) by (auto simp: paths_def)
  then have "tree_ok ?t'"
    using assms t1 by (auto simp: tree_ok_def dirs_above_insert)
  ultimately show ?thesis using t1(2) by auto
qed

lemma write_conflict:
  assumes "tree_ok t" "path_ok p" "\<exists>q \<in> paths t. strict_prefix q p \<or> strict_prefix p q"
  shows "\<exists>e. write_healing t p out = (t, Inl e) \<and> put_collides t p e"
proof -
  have p: "p \<noteq> []" using assms(2) by (auto simp: path_ok_def)
  consider q where "q \<in> paths t" "strict_prefix q p"
    | q where "q \<in> paths t" "strict_prefix p q" "\<forall>d \<in> paths t. \<not> strict_prefix d p"
    using assms(3) by blast
  then show ?thesis
  proof cases
    case 1
    have q: "q \<noteq> []" using paths_nonempty[OF assms(1) 1(1)] .
    then have "through_file t p" using 1 by (auto simp: through_file_iff)
    moreover have *: "q = butlast p \<or> strict_prefix q (butlast p)" using 1(2) strict_prefix_butlast[OF p] by blast
    have "butlast p \<noteq> []" using * q by (metis strict_prefix_simps(1))
    moreover have "through_file t (butlast p) \<or> is_file t (butlast p)"
      using * 1(1) q unfolding through_file_iff is_file_paths by blast
    ultimately have "create_dir_all t (butlast p) = Inl NotADirectory \<or> create_dir_all t (butlast p) = Inl AlreadyExists"
      by (auto simp: create_dir_all_def)
    with \<open>through_file t p\<close> show ?thesis
      by (auto simp: write_healing_def write_private_def put_collides_def collides_def)
  next
    case 2
    have dirs: "set (kt_dirs t) = dirs_above (paths t)" using assms(1) by (simp add: tree_ok_def)
    have "set (ancestors p) \<subseteq> set (kt_dirs t)"
      using 2 dirs by (auto simp: dirs_above_def ancestors_set dest: prefix_order.less_trans)
    then have create: "create_dir_all t (butlast p) = Inr t" using create_dir_all_parent[OF p 2(3)] by blast
    have dir: "is_dir t p" using 2 p dirs by (auto simp: is_dir_def dirs_above_def)
    have "\<not> through_file t p" "\<not> is_file t p"
      using 2 assms(1) by (auto simp: through_file_iff is_file_paths tree_ok_def)
    moreover have "list_ex (strict_prefix p) (bt_keys (kt_files t) @ kt_dirs t)"
      using 2 by (auto simp: list_ex_iff paths_def)
    ultimately have "remove_dir t p = Inl DirectoryNotEmpty" using dir by (simp add: remove_dir_def)
    then show ?thesis using create dir by (simp add: write_healing_def write_private_def put_collides_def collides_def)
  qed
qed

lemma conflict_paths:
  assumes "tree_ok t"
  shows "conflict (kv_abs v name t) key \<longleftrightarrow>
    (\<exists>q \<in> paths t. strict_prefix q (segs key) \<or> strict_prefix (segs key) q)"
proof -
  have "k \<in> dom (kv_abs v name t) \<longleftrightarrow> check_kv_key k = Inr () \<and> segs k \<in> paths t" for k
    by (auto simp: kv_abs_def paths_def is_ok_iff split: if_splits)
  moreover have "\<exists>k. check_kv_key k = Inr () \<and> segs k = q" if "q \<in> paths t" for q
    using assms that by (auto simp: tree_ok_def path_ok_def intro: exI[of _ "join_with (CHR ''/'') q"])
  ultimately show ?thesis unfolding conflict_def by metis
qed

lemma decode_encode:
  "vault_ok v \<or> \<not> secret \<Longrightarrow> encode_entry v name key b secret = Inr out \<Longrightarrow> decode_entry v name key out = Inr b"
  by (auto simp: encode_entry_def decode_entry_def vault_ok_def rbind_Inr PLAIN_def SEALED_def split: if_splits)

lemma kv_abs_insert:
  assumes "check_kv_key key = Inr ()" "kt_files t' = bt_insert (segs key) out (kt_files t)"
  shows "kv_abs v name t' = (kv_abs v name t)(key \<mapsto> decode_entry v name key out)"
  using assms by (auto simp: kv_abs_def segs_eq fun_eq_iff)

lemma kv_put_refines:
  assumes "tree_ok t" "vault_ok v \<or> \<not> secret" "kv_put v name key bytes secret t = (t', r)"
  shows "tree_ok t' \<and> spec_put v name key bytes secret (kv_abs v name t) = (kv_abs v name t', r)"
proof (cases "check_kv_key key")
  case (Inl e)
  then show ?thesis using assms(1,3) by (auto simp: kv_put_def key_path_def spec_put_def)
next
  case (Inr u)
  then have key: "check_kv_key key = Inr ()" by simp
  show ?thesis
  proof (cases "encode_entry v name key bytes secret")
    case (Inl e)
    then show ?thesis using assms(1,3) key by (auto simp: kv_put_def key_path_def spec_put_def)
  next
    case (Inr out)
    show ?thesis
    proof (cases "conflict (kv_abs v name t) key")
      case True
      then obtain e where "write_healing t (segs key) out = (t, Inl e)" "put_collides t (segs key) e"
        using write_conflict[OF assms(1) key_path_ok[OF key]] conflict_paths[OF assms(1)] by blast
      then show ?thesis using assms(1,3) key Inr True by (auto simp: kv_put_def key_path_def spec_put_def)
    next
      case False
      then obtain t1 where t1: "write_healing t (segs key) out = (t1, Inr ())" "tree_ok t1"
          "kt_files t1 = bt_insert (segs key) out (kt_files t)"
        using write_free[OF assms(1) key_path_ok[OF key]] conflict_paths[OF assms(1)] by blast
      then have "t' = t1" "r = Inr ()" using assms(3) key Inr by (auto simp: kv_put_def key_path_def)
      then show ?thesis
        using t1 key Inr False kv_abs_insert[OF key t1(3), of v name] decode_encode[OF assms(2) Inr]
        by (simp add: spec_put_def)
    qed
  qed
qed

subsection \<open>Deleting\<close>

lemma prune_dirs:
  assumes "set (kt_dirs t) = dirs_above (paths t) \<union> {q. q \<noteq> [] \<and> prefix q d}"
    and "\<forall>q \<in> paths t. \<not> prefix q d"
  shows "kt_files (prune t d) = kt_files t \<and> set (kt_dirs (prune t d)) = dirs_above (paths t)"
  using assms
proof (induction t d rule: prune.induct)
  case (1 t d)
  show ?case
  proof (cases "d = []")
    case True
    then show ?thesis using 1(2) by (auto simp: prune.simps)
  next
    case False
    have "\<not> through_file t d" "\<not> is_file t d" "is_dir t d"
      using 1(2,3) False by (auto simp: through_file_iff is_file_paths is_dir_def strict_prefix_def)
    then have rm: "remove_dir t d = (if \<exists>q \<in> paths t \<union> set (kt_dirs t). strict_prefix d q then Inl DirectoryNotEmpty
        else Inr (t\<lparr>kt_dirs := removeAll d (kt_dirs t)\<rparr>))"
      by (auto simp: remove_dir_def list_ex_iff paths_def)
    show ?thesis
    proof (cases "\<exists>q \<in> paths t \<union> set (kt_dirs t). strict_prefix d q")
      case True
      then obtain k where "k \<in> paths t" "strict_prefix d k"
        using 1(2) by (auto simp: dirs_above_def dest: prefix_order.less_trans)
      then have "{q. q \<noteq> [] \<and> prefix q d} \<subseteq> dirs_above (paths t)"
        by (auto simp: dirs_above_def dest: prefix_order.le_less_trans)
      then show ?thesis using rm True False 1(2) by (auto simp: prune.simps)
    next
      case none: False
      let ?t = "t\<lparr>kt_dirs := removeAll d (kt_dirs t)\<rparr>"
      have rm': "remove_dir t d = Inr ?t" using rm none by simp
      have "d \<notin> dirs_above (paths t)" using none by (auto simp: dirs_above_def)
      moreover have "q \<noteq> [] \<and> prefix q d \<longleftrightarrow> q = d \<or> (q \<noteq> [] \<and> prefix q (butlast d))" for q
        using strict_prefix_butlast[OF False, of q] False by (auto simp: strict_prefix_def)
      moreover have "\<not> prefix d (butlast d)" using False by (metis prefix_length_le length_butlast diff_less length_greater_0_conv less_numeral_extra(1) not_less)
      ultimately have "set (kt_dirs ?t) = dirs_above (paths ?t) \<union> {q. q \<noteq> [] \<and> prefix q (butlast d)}"
        using 1(2) by auto
      moreover have "\<forall>q \<in> paths ?t. \<not> prefix q (butlast d)"
        using 1(3) prefix_of_butlast by auto
      ultimately have "kt_files (prune ?t (butlast d)) = kt_files ?t \<and> set (kt_dirs (prune ?t (butlast d))) = dirs_above (paths ?t)"
        using 1(1)[OF False rm'] by simp
      then show ?thesis using rm' False by (simp add: prune.simps[of t d])
    qed
  qed
qed

lemma kv_delete_refines:
  assumes "tree_ok t" "kv_delete key t = (t', r)"
  shows "tree_ok t' \<and> spec_delete key (kv_abs v name t) = (kv_abs v name t', r)"
proof (cases "check_kv_key key")
  case (Inl e)
  then show ?thesis using assms by (auto simp: kv_delete_def key_path_def spec_delete_def)
next
  case (Inr u)
  let ?p = "segs key"
  have key: "check_kv_key key = Inr ()" using Inr by simp
  have p: "?p \<noteq> []" by simp
  show ?thesis
  proof (cases "?p \<in> paths t")
    case False
    then obtain e where "remove_file t ?p = Inl e" "absent e"
      by (cases "through_file t ?p"; cases "is_dir t ?p") (auto simp: remove_file_def is_file_paths absent_def collides_def)
    then have "t' = t" "r = Inr False" using assms(2) key by (auto simp: kv_delete_def key_path_def)
    moreover have "kv_abs v name t key = None" using False by (simp add: kv_abs_def paths_def)
    ultimately show ?thesis using assms(1) key by (auto simp: spec_delete_def)
  next
    case True
    let ?t = "t\<lparr>kt_files := bt_remove ?p (kt_files t)\<rparr>"
    have "\<not> through_file t ?p" using True assms(1) by (auto simp: through_file_iff tree_ok_def)
    then have rm: "remove_file t ?p = Inr ?t" using True by (simp add: remove_file_def is_file_paths)
    have paths: "paths ?t = paths t - {?p}" by (auto simp: paths_def)
    have "{q. q \<noteq> [] \<and> prefix q (butlast ?p)} = set (ancestors ?p)"
      using strict_prefix_butlast[OF p] by (auto simp: ancestors_set strict_prefix_def)
    moreover have "dirs_above (paths t) = dirs_above (paths ?t) \<union> set (ancestors ?p)"
      using True dirs_above_insert[of ?p "paths ?t"] by (simp add: paths insert_absorb)
    ultimately have "set (kt_dirs ?t) = dirs_above (paths ?t) \<union> {q. q \<noteq> [] \<and> prefix q (butlast ?p)}"
      using assms(1) by (simp add: tree_ok_def)
    moreover have "\<forall>q \<in> paths ?t. \<not> prefix q (butlast ?p)"
      using assms(1) True paths prefix_of_butlast[of _ ?p] by (auto simp: tree_ok_def strict_prefix_def)
    ultimately have pruned: "kt_files (prune ?t (butlast ?p)) = kt_files ?t" "set (kt_dirs (prune ?t (butlast ?p))) = dirs_above (paths ?t)"
      using prune_dirs[of ?t "butlast ?p"] by simp_all
    have t': "t' = prune ?t (butlast ?p)" "r = Inr True" using assms(2) key rm by (auto simp: kv_delete_def key_path_def)
    have "paths t' = paths ?t" using pruned(1) t'(1) by (simp add: paths_def)
    then have "tree_ok t'" using assms(1) pruned t'(1) paths by (auto simp: tree_ok_def)
    moreover have "kv_abs v name t' = (kv_abs v name t)(key := None)"
      using pruned(1) t'(1) by (auto simp: kv_abs_def segs_eq fun_eq_iff)
    moreover have "kv_abs v name t key \<noteq> None" using True key by (auto simp: kv_abs_def paths_def)
    ultimately show ?thesis using key t'(2) by (simp add: spec_delete_def)
  qed
qed

subsection \<open>Listing\<close>

lemma kv_char_no_temp: "list_all kv_char s \<Longrightarrow> \<not> str_contains s ''.tmp~''"
proof
  assume s: "list_all kv_char s" and "str_contains s ''.tmp~''"
  then have "CHR ''~'' \<in> set s" by (auto simp: str_contains_def sublist_def)
  moreover have "\<not> kv_char (CHR ''~'')" by code_simp
  ultimately show False using s by (auto simp: list_all_iff)
qed

lemma split_part_chars: "q \<in> set (split_on d s) \<Longrightarrow> set q \<subseteq> set s"
proof (induction s arbitrary: q)
  case (Cons c s)
  obtain r rs where "split_on d s = r # rs" by (cases "split_on d s") auto
  with Cons.IH[of r] Cons.IH[of q] Cons.prems show ?case by (auto split: if_splits)
qed simp

lemma path_not_temp:
  assumes "path_ok p"
  shows "\<not> list_ex is_temp p"
proof -
  let ?k = "join_with (CHR ''/'') p"
  have "list_all kv_char ?k" "p = segs ?k" using assms by (auto simp: path_ok_def check_kv_key_Inr)
  then have "\<forall>q \<in> set p. list_all kv_char q" using split_part_chars[of _ "CHR ''/''" ?k] by (auto simp: list_all_iff)
  then show ?thesis using kv_char_no_temp by (auto simp: list_ex_iff is_temp_def)
qed

lemma kv_list_refines:
  assumes "tree_ok t"
  shows "kv_list pre t = sorted_list_of_set {k \<in> dom (kv_abs v name t). prefix pre k}"
proof -
  let ?ps = "bt_keys (kt_files t)" and ?join = "join_with (CHR ''/'')"
  have ok: "\<forall>p \<in> set ?ps. path_ok p" using assms by (auto simp: tree_ok_def paths_def)
  then have "filter (\<lambda>p. \<not> list_ex is_temp p) ?ps = ?ps" using path_not_temp by (simp add: filter_id_conv)
  then have list: "kv_list pre t = sort (filter (\<lambda>k. prefix pre k) (map ?join ?ps))"
    by (simp add: kv_list_def str_starts_with_def)
  have "distinct ?ps" using assms bt_wf_distinct by (auto simp: tree_ok_def bt_keys_def)
  moreover have "inj_on ?join (set ?ps)" using ok by (intro inj_onI) (metis path_ok_def)
  ultimately have "distinct (filter (\<lambda>k. prefix pre k) (map ?join ?ps))" by (simp add: distinct_map)
  moreover have "k \<in> dom (kv_abs v name t) \<longleftrightarrow> k \<in> ?join ` set ?ps" for k
  proof
    assume "k \<in> dom (kv_abs v name t)"
    then have "segs k \<in> set ?ps" by (auto simp: kv_abs_def split: if_splits)
    then show "k \<in> ?join ` set ?ps" by (metis imageI join_split)
  next
    assume "k \<in> ?join ` set ?ps"
    then obtain p where "p \<in> set ?ps" "k = ?join p" by blast
    then show "k \<in> dom (kv_abs v name t)" using ok by (auto simp: kv_abs_def path_ok_def)
  qed
  then have "{k \<in> dom (kv_abs v name t). prefix pre k} = set (filter (\<lambda>k. prefix pre k) (map ?join ?ps))" by auto
  ultimately show ?thesis
    unfolding list by (simp only: sorted_list_of_set_sort_remdups distinct_remdups_id)
qed

subsection \<open>Sequences of calls\<close>

datatype kv_op =
    KvGet string
  | KvPut string string bool
  | KvDelete string
  | KvList string

datatype kv_answer =
    Got "kv_error + string option"
  | Stored "kv_error + unit"
  | Deleted "kv_error + bool"
  | Listed "string list"

definition kv_step :: "vault \<Rightarrow> string \<Rightarrow> kv_op \<Rightarrow> kv_tree \<Rightarrow> kv_tree \<times> kv_answer list" where
  "kv_step v name op t =
     (case op of
        KvGet key \<Rightarrow> (t, [Got (kv_get v name key t)])
      | KvPut key bytes secret \<Rightarrow> map_prod id (\<lambda>r. [Stored r]) (kv_put v name key bytes secret t)
      | KvDelete key \<Rightarrow> map_prod id (\<lambda>r. [Deleted r]) (kv_delete key t)
      | KvList pre \<Rightarrow> (t, [Listed (kv_list pre t)]))"

definition spec_step :: "vault \<Rightarrow> string \<Rightarrow> kv_op \<Rightarrow> kv_map \<Rightarrow> kv_map \<times> kv_answer list" where
  "spec_step v name op m =
     (case op of
        KvGet key \<Rightarrow> (m, [Got (spec_get key m)])
      | KvPut key bytes secret \<Rightarrow> map_prod id (\<lambda>r. [Stored r]) (spec_put v name key bytes secret m)
      | KvDelete key \<Rightarrow> map_prod id (\<lambda>r. [Deleted r]) (spec_delete key m)
      | KvList pre \<Rightarrow> (m, [Listed (sorted_list_of_set {k \<in> dom m. prefix pre k})]))"

definition empty_tree :: kv_tree where
  "empty_tree = \<lparr>kt_files = [], kt_dirs = []\<rparr>"

lemma tree_ok_empty: "tree_ok empty_tree"
  by (simp add: tree_ok_def empty_tree_def paths_def dirs_above_def)

lemma kv_step_refines:
  assumes "tree_ok t" "vault_ok v"
  shows "tree_ok (fst (kv_step v name op t))
    \<and> spec_step v name op (kv_abs v name t) = (kv_abs v name (fst (kv_step v name op t)), snd (kv_step v name op t))"
proof (cases op)
  case (KvPut key bytes secret)
  obtain t' r where "kv_put v name key bytes secret t = (t', r)" by fastforce
  then show ?thesis
    using kv_put_refines[OF assms(1), of v secret name key bytes t' r] assms(2) KvPut by (simp add: kv_step_def spec_step_def)
next
  case (KvDelete key)
  obtain t' r where "kv_delete key t = (t', r)" by fastforce
  then show ?thesis
    using kv_delete_refines[OF assms(1), of key t' r v name] KvDelete by (simp add: kv_step_def spec_step_def)
qed (use assms kv_get_refines kv_list_refines in \<open>simp_all add: kv_step_def spec_step_def\<close>)

subsection \<open>The contract of the flow plugin\<close>

text \<open>The port the plugin's host reaches the store through; the error texts are a parameter.\<close>

definition daemon_port :: "(kv_error \<Rightarrow> string) \<Rightarrow> vault \<Rightarrow> string \<Rightarrow> kv_tree kv_port" where
  "daemon_port text_of v name =
     \<lparr>port_get = (\<lambda>k t. (t, map_err text_of (kv_get v name k t))),
      port_put = (\<lambda>k b t. map_prod id (map_err text_of) (kv_put v name k b False t)),
      port_delete = (\<lambda>k t. map_prod id (\<lambda>r. rbind (map_err text_of r) (\<lambda>_. Inr ())) (kv_delete k t))\<rparr>"

definition kv_view :: "vault \<Rightarrow> string \<Rightarrow> kv_tree \<Rightarrow> string \<Rightarrow> string option" where
  "kv_view v name t k = (case kv_abs v name t k of Some (Inr b) \<Rightarrow> Some b | _ \<Rightarrow> None)"

lemma daemon_get:
  assumes "tree_ok t"
  shows "snd (port_get (daemon_port text_of v name) k t) = Inr x \<Longrightarrow> x = kv_view v name t k"
    "kv_view v name t k = Some b \<Longrightarrow> snd (port_get (daemon_port text_of v name) k t) = Inr (Some b)"
  using kv_get_refines[OF assms, of v name k]
  by (auto simp: daemon_port_def spec_get_def kv_view_def rbind_Inr kv_abs_def is_ok_iff
      split: sum.splits option.splits if_splits)

lemma daemon_put:
  assumes "tree_ok t"
  shows "tree_ok (fst (port_put (daemon_port text_of v name) k b t))"
    "k' \<noteq> k \<Longrightarrow> kv_view v name (fst (port_put (daemon_port text_of v name) k b t)) k' = kv_view v name t k'"
    "snd (port_put (daemon_port text_of v name) k b t) = Inr () \<Longrightarrow>
      kv_view v name (fst (port_put (daemon_port text_of v name) k b t)) k = Some b"
proof -
  obtain t' r where put: "kv_put v name k b False t = (t', r)" by fastforce
  note ref = kv_put_refines[OF assms _ put]
  show "tree_ok (fst (port_put (daemon_port text_of v name) k b t))"
    using ref put by (simp add: daemon_port_def)
  show "k' \<noteq> k \<Longrightarrow> kv_view v name (fst (port_put (daemon_port text_of v name) k b t)) k' = kv_view v name t k'"
    using ref put by (auto simp: daemon_port_def spec_put_def kv_view_def split: sum.splits if_splits)
      (metis fun_upd_other)+
  show "snd (port_put (daemon_port text_of v name) k b t) = Inr () \<Longrightarrow>
      kv_view v name (fst (port_put (daemon_port text_of v name) k b t)) k = Some b"
    using ref put by (auto simp: daemon_port_def spec_put_def kv_view_def split: sum.splits if_splits)
      (metis fun_upd_same option.simps(5) sum.simps(6))+
qed

lemma daemon_delete:
  assumes "tree_ok t"
  shows "tree_ok (fst (port_delete (daemon_port text_of v name) k t))"
    "k' \<noteq> k \<Longrightarrow> kv_view v name (fst (port_delete (daemon_port text_of v name) k t)) k' = kv_view v name t k'"
proof -
  obtain t' r where del: "kv_delete k t = (t', r)" by fastforce
  note ref = kv_delete_refines[OF assms del, of v name]
  show "tree_ok (fst (port_delete (daemon_port text_of v name) k t))"
    using ref del by (simp add: daemon_port_def)
  show "k' \<noteq> k \<Longrightarrow> kv_view v name (fst (port_delete (daemon_port text_of v name) k t)) k' = kv_view v name t k'"
    using ref del by (auto simp: daemon_port_def spec_delete_def kv_view_def split: sum.splits) (metis fun_upd_other)+
qed

interpretation daemon: kv_contract "daemon_port text_of v name" "kv_view v name" tree_ok for text_of v name
proof unfold_locales
  fix w k v' k' found
  assume "tree_ok w"
  note facts = daemon_get(1)[OF this] daemon_put[OF this] daemon_delete[OF this]
  show "snd (port_get (daemon_port text_of v name) k w) = Inr found \<Longrightarrow> found = kv_view v name w k" by (rule facts)
  show "tree_ok (fst (port_put (daemon_port text_of v name) k v' w))" by (rule facts)
  show "k' \<noteq> k \<Longrightarrow> kv_view v name (fst (port_put (daemon_port text_of v name) k v' w)) k' = kv_view v name w k'" by (rule facts)
  show "snd (port_put (daemon_port text_of v name) k v' w) = Inr () \<Longrightarrow>
      kv_view v name (fst (port_put (daemon_port text_of v name) k v' w)) k = Some v'" by (rule facts)
  show "tree_ok (fst (port_delete (daemon_port text_of v name) k w))" by (rule facts)
  show "k' \<noteq> k \<Longrightarrow> kv_view v name (fst (port_delete (daemon_port text_of v name) k w)) k' = kv_view v name w k'" by (rule facts)
qed (simp_all add: daemon_port_def)

section \<open>Properties\<close>

text \<open>
  C28. To a plugin the store is a map whose keys do not run through one another: over any sequence
  of reads, writes (secret or not), deletes and listings from an empty directory, the answers are
  exactly those of that map. A write is refused, with a conflict, exactly when a stored key is a
  directory on its path or its path is a directory of a stored key; deletes leave no directory
  behind that would refuse a later write.
\<close>

theorem kv_store_refines_map:
  assumes "vault_ok v"
  shows "snd (run_steps (kv_step v name) ops empty_tree) = snd (run_steps (spec_step v name) ops Map.empty)"
proof -
  let ?rel = "\<lambda>t m. tree_ok t \<and> m = kv_abs v name t"
  have "kv_abs v name empty_tree = Map.empty" by (auto simp: kv_abs_def empty_tree_def fun_eq_iff)
  then have "?rel empty_tree Map.empty" using tree_ok_empty by simp
  then show ?thesis
    using run_steps_simulation[where rel = ?rel and f = "kv_step v name" and g = "spec_step v name" and ops = ops]
      kv_step_refines[OF _ assms] by fastforce
qed


subsection \<open>Witnesses\<close>

definition sample_vault :: vault where
  "sample_vault = \<lparr>va_seal = (\<lambda>a b. Inr (rev b)), va_open = (\<lambda>a s. Inr (rev s))\<rparr>"

theorem kv_store_refines_map_witness:
  "snd (run_steps (spec_step sample_vault ''flow'') [KvPut ''a/b'' ''x'' True, KvPut ''a'' ''y'' False, KvDelete ''a/b'',
      KvPut ''a'' ''y'' False, KvGet ''a''] Map.empty)
   = [Stored (Inr ()), Stored (Inl (KvConflict ''a'')), Deleted (Inr True), Stored (Inr ()), Got (Inr (Some ''y''))]"
proof -
  have "vault_ok sample_vault" by (simp add: vault_ok_def sample_vault_def)
  moreover have "snd (run_steps (kv_step sample_vault ''flow'') [KvPut ''a/b'' ''x'' True, KvPut ''a'' ''y'' False, KvDelete ''a/b'',
      KvPut ''a'' ''y'' False, KvGet ''a''] empty_tree)
   = [Stored (Inr ()), Stored (Inl (KvConflict ''a'')), Deleted (Inr True), Stored (Inr ()), Got (Inr (Some ''y''))]"
    by code_simp
  ultimately show ?thesis using kv_store_refines_map[of sample_vault "''flow''"] by (simp only:)
qed

text \<open>A codec for any two texts: each character of the first is marked, a stop follows.\<close>

fun mark :: "string \<Rightarrow> string" where
  "mark [] = [CHR ''.'']"
| "mark (c # s) = CHR '','' # c # mark s"

fun unmark :: "string \<Rightarrow> string \<times> string" where
  "unmark (m # s) = (if m = CHR '','' then (case s of c # r \<Rightarrow> map_prod ((#) c) id (unmark r) | [] \<Rightarrow> ([], [])) else ([], s))"
| "unmark [] = ([], [])"

lemma unmark_mark: "unmark (mark a @ b) = (a, b)"
  by (induction a) auto

definition coded_lib :: "string flow_lib" where
  "coded_lib = sample_lib\<lparr>lib_encode := (\<lambda>s. mark (sr_state s) @ sr_config s),
     lib_decode := (\<lambda>b. case unmark b of (s, c) \<Rightarrow> Some \<lparr>sr_state = s, sr_config = c\<rparr>)\<rparr>"


end
