(* ===== verification/Registry.thy ===== *)
theory Registry
  imports Plugin Status
begin

text \<open>
  The daemon's registry of plugins (crates/balerix-server/src/plugins/registry.rs) and what an
  apply activates (activation.rs): load order, where each plugin listens, readiness guarded by hello
  generations, and the table of activations per agent and plugin. Each method takes the registry's
  lock once, so it is one function here. The lemmas show who an event goes to, that a stale
  record never takes back a newer hello, that a late answer never lands on another configuration,
  and that a difference of activations, carried out, gives exactly the wanted pairs.
\<close>

section \<open>State\<close>

record plugin_addr =
  pl_listen :: string
  pl_token :: string

definition trim_end_slashes :: "string \<Rightarrow> string" where
  "trim_end_slashes s = rev (dropWhile (\<lambda>c. c = CHR ''/'') (rev s))"

definition addr_base :: "plugin_addr \<Rightarrow> string" where
  "addr_base a =
     (if str_starts_with (pl_listen a) ''https://'' \<or> str_starts_with (pl_listen a) ''http://''
      then trim_end_slashes (pl_listen a) else ''http://'' @ pl_listen a)"

record subscribed_plugins =
  sub_ready :: "(agent_name \<times> plugin_addr) list"
  sub_unready :: "agent_name list"

record plugin_info =
  pi_manifest :: plugin_manifest
  pi_listen :: "string option"
  pi_token :: "string option"
  pi_ready :: bool
  pi_degraded :: "string option"
  pi_fleet_defaults :: json

definition placeholder_manifest :: "agent_name \<Rightarrow> plugin_manifest" where
  "placeholder_manifest name =
     \<lparr>mf_api_version = ''balerix/v1'', mf_kind = PLUGIN_KIND, mf_name = name, mf_version = [],
      mf_protocol = PLUGIN_PROTOCOL, mf_start = [], mf_hooks = \<lparr>hs_observe = [], hs_intercept = []\<rparr>,
      mf_needs = [], mf_routes = False, mf_sandbox = empty_object\<rparr>"

record activation_row =
  ar_config :: json
  ar_activation :: plugin_activation

record registry =
  rg_order :: "agent_name list"
  rg_plugins :: "(agent_name, plugin_info) btree"
  rg_rows :: "(agent_id \<times> agent_name, activation_row) btree"
  rg_hello_seq :: u64
  rg_hellos :: "(agent_name, u64) btree"

definition empty_registry :: registry where
  "empty_registry = \<lparr>rg_order = [], rg_plugins = [], rg_rows = [], rg_hello_seq = 0, rg_hellos = []\<rparr>"

section \<open>The plugins\<close>

definition next_hello :: "agent_name \<Rightarrow> registry \<Rightarrow> registry \<times> u64" where
  "next_hello name r =
     (let n = rg_hello_seq r + 1
      in (r\<lparr>rg_hello_seq := n, rg_hellos := bt_insert name n (rg_hellos r)\<rparr>, n))"

definition keep_rows :: "registry \<Rightarrow> registry" where
  "keep_rows r = r\<lparr>rg_rows := bt_retain (\<lambda>(_, p). p \<in> set (bt_keys (rg_plugins r))) (rg_rows r)\<rparr>"

definition replace_plugins :: "resolved_plugin list \<Rightarrow> string list \<Rightarrow> registry \<Rightarrow> registry" where
  "replace_plugins plugins keep_listen r =
     (let old = rg_plugins r;
          info = (\<lambda>p. let prev = (if rp_name p \<in> set keep_listen then bt_get old (rp_name p) else None)
            in \<lparr>pi_manifest = rp_manifest p, pi_listen = Option.bind prev pi_listen,
                pi_token = Option.bind prev pi_token,
                pi_ready = (case prev of Some i \<Rightarrow> pi_ready i | None \<Rightarrow> False),
                pi_degraded = Option.bind prev pi_degraded, pi_fleet_defaults = rp_fleet_defaults p\<rparr>)
      in keep_rows (r\<lparr>rg_order := map rp_name plugins,
           rg_plugins := bt_collect (map (\<lambda>p. (rp_name p, info p)) plugins)\<rparr>))"

definition update_plugin :: "agent_name \<Rightarrow> (plugin_info \<Rightarrow> plugin_info) \<Rightarrow> registry \<Rightarrow> registry" where
  "update_plugin name f r = r\<lparr>rg_plugins := bt_get_mut name f (rg_plugins r)\<rparr>"

definition set_listen :: "agent_name \<Rightarrow> string \<Rightarrow> string \<Rightarrow> registry \<Rightarrow> registry \<times> u64" where
  "set_listen name listen token r =
     (case next_hello name r of (r, generation) \<Rightarrow>
        (update_plugin name (\<lambda>p. p\<lparr>pi_listen := Some listen, pi_token := Some token, pi_ready := True,
           pi_degraded := None\<rparr>) r, generation))"

definition hello_generation :: "agent_name \<Rightarrow> registry \<Rightarrow> u64" where
  "hello_generation name r = (case bt_get (rg_hellos r) name of Some g \<Rightarrow> g | None \<Rightarrow> 0)"

definition clear_ready_if :: "agent_name \<Rightarrow> u64 \<Rightarrow> registry \<Rightarrow> registry \<times> bool" where
  "clear_ready_if name stamp r =
     (let newest = hello_generation name r
      in case bt_get (rg_plugins r) name of
           Some p \<Rightarrow>
             if stamp \<ge> newest then (update_plugin name (\<lambda>p. p\<lparr>pi_ready := False\<rparr>) r, True) else (r, False)
         | None \<Rightarrow> (r, False))"

definition declare_plugins :: "(agent_name \<times> json) list \<Rightarrow> agent_name list \<Rightarrow> registry \<Rightarrow> registry" where
  "declare_plugins entries keep r =
     (let old = rg_plugins r;
          info = (\<lambda>(name, defaults).
            case (if name \<in> set keep then bt_get old name else None) of
              Some p \<Rightarrow> p\<lparr>pi_fleet_defaults := defaults\<rparr>
            | None \<Rightarrow> \<lparr>pi_manifest = placeholder_manifest name, pi_listen = None, pi_token = None,
                pi_ready = False, pi_degraded = None, pi_fleet_defaults = defaults\<rparr>)
      in keep_rows (r\<lparr>rg_order := map fst entries,
           rg_plugins := bt_collect (map (\<lambda>e. (fst e, info e)) entries)\<rparr>))"

definition accept_hello :: "agent_name \<Rightarrow> plugin_manifest \<Rightarrow> string \<Rightarrow> string \<Rightarrow> registry \<Rightarrow> registry" where
  "accept_hello name manifest url token r =
     update_plugin name (\<lambda>p. p\<lparr>pi_manifest := manifest, pi_listen := Some url, pi_token := Some token,
       pi_ready := True, pi_degraded := None\<rparr>) (fst (next_hello name r))"

definition unhello :: "agent_name \<Rightarrow> registry \<Rightarrow> registry" where
  "unhello name r =
     update_plugin name (\<lambda>p. p\<lparr>pi_manifest := placeholder_manifest name, pi_listen := None, pi_token := None,
       pi_ready := False, pi_degraded := None\<rparr>) r"

definition set_ready :: "agent_name \<Rightarrow> bool \<Rightarrow> registry \<Rightarrow> registry" where
  "set_ready name ready r = update_plugin name (\<lambda>p. p\<lparr>pi_ready := ready\<rparr>) r"

definition set_degraded :: "agent_name \<Rightarrow> string option \<Rightarrow> registry \<Rightarrow> registry" where
  "set_degraded name reason r = update_plugin name (\<lambda>p. p\<lparr>pi_degraded := reason\<rparr>) r"

definition is_installed :: "string \<Rightarrow> registry \<Rightarrow> bool" where
  "is_installed name r = bt_contains (rg_plugins r) name"

definition has_capability :: "agent_name \<Rightarrow> capability \<Rightarrow> registry \<Rightarrow> bool" where
  "has_capability name cap r =
     (case bt_get (rg_plugins r) name of Some p \<Rightarrow> cap \<in> set (mf_needs (pi_manifest p)) | None \<Rightarrow> False)"

definition ready_addr :: "agent_name \<Rightarrow> registry \<Rightarrow> plugin_addr option" where
  "ready_addr name r =
     Option.bind (bt_get (rg_plugins r) name) (\<lambda>p.
       if \<not> pi_ready p then None
       else Option.bind (pi_listen p) (\<lambda>listen.
         map_option (\<lambda>token. \<lparr>pl_listen = listen, pl_token = token\<rparr>) (pi_token p)))"

section \<open>The activation rows\<close>

definition set_row :: "agent_id \<Rightarrow> agent_name \<Rightarrow> activation_row \<Rightarrow> registry \<Rightarrow> registry" where
  "set_row agent plugin row r = r\<lparr>rg_rows := bt_insert (agent, plugin) row (rg_rows r)\<rparr>"

definition set_activation ::
  "agent_id \<Rightarrow> agent_name \<Rightarrow> json \<Rightarrow> plugin_activation \<Rightarrow> registry \<Rightarrow> registry \<times> bool" where
  "set_activation agent plugin config activation r =
     (case bt_get (rg_rows r) (agent, plugin) of
        Some row \<Rightarrow>
          if ar_config row = config
          then (r\<lparr>rg_rows := bt_insert (agent, plugin) (row\<lparr>ar_activation := activation\<rparr>) (rg_rows r)\<rparr>, True)
          else (r, False)
      | None \<Rightarrow> (r, False))"

definition remove_row :: "agent_id \<Rightarrow> agent_name \<Rightarrow> registry \<Rightarrow> registry \<times> activation_row option" where
  "remove_row agent plugin r =
     (r\<lparr>rg_rows := bt_remove (agent, plugin) (rg_rows r)\<rparr>, bt_get (rg_rows r) (agent, plugin))"

definition remove_fleet :: "fleet_name \<Rightarrow> registry \<Rightarrow> registry \<times> (agent_id \<times> agent_name) list" where
  "remove_fleet fleet r =
     (let gone = filter (\<lambda>(a, _). fleet_of a = fleet) (bt_keys (rg_rows r))
      in (r\<lparr>rg_rows := fold bt_remove gone (rg_rows r)\<rparr>, gone))"

definition rows_for_fleet :: "fleet_name \<Rightarrow> registry \<Rightarrow> (agent_id \<times> agent_name \<times> activation_row) list" where
  "rows_for_fleet fleet r =
     map (\<lambda>((a, p), row). (a, p, row)) (filter (\<lambda>((a, _), _). fleet_of a = fleet) (rg_rows r))"

definition rows_for_plugin :: "agent_name \<Rightarrow> registry \<Rightarrow> (agent_id \<times> activation_row) list" where
  "rows_for_plugin name r =
     map (\<lambda>((a, _), row). (a, row)) (filter (\<lambda>((_, p), _). p = name) (rg_rows r))"

definition is_active :: "agent_id \<Rightarrow> agent_name \<Rightarrow> registry \<Rightarrow> bool" where
  "is_active agent plugin r =
     (case bt_get (rg_rows r) (agent, plugin) of
        Some row \<Rightarrow> pa_state (ar_activation row) = Active | None \<Rightarrow> False)"

definition active_agents :: "agent_name \<Rightarrow> registry \<Rightarrow> u32" where
  "active_agents name r =
     (let n = length (filter (\<lambda>((_, p), row). p = name \<and> pa_state (ar_activation row) = Active) (rg_rows r))
      in if n < 2 ^ 32 then of_nat n else u32_max)"

definition subscribe_one ::
  "registry \<Rightarrow> agent_id \<Rightarrow> (plugin_manifest \<Rightarrow> bool) \<Rightarrow> agent_name \<Rightarrow> subscribed_plugins \<Rightarrow> subscribed_plugins" where
  "subscribe_one r agent pick name out =
     (case bt_get (rg_plugins r) name of
        None \<Rightarrow> out
      | Some p \<Rightarrow>
          if \<not> is_active agent name r \<or> \<not> pick (pi_manifest p) then out
          else case (if pi_ready p then pi_listen p else None, pi_token p) of
            (Some listen, Some token) \<Rightarrow>
              out\<lparr>sub_ready := sub_ready out @ [(name, \<lparr>pl_listen = listen, pl_token = token\<rparr>)]\<rparr>
          | _ \<Rightarrow> out\<lparr>sub_unready := sub_unready out @ [name]\<rparr>)"

definition subscribed :: "registry \<Rightarrow> agent_id \<Rightarrow> (plugin_manifest \<Rightarrow> bool) \<Rightarrow> subscribed_plugins" where
  "subscribed r agent pick =
     fold (subscribe_one r agent pick) (rg_order r) \<lparr>sub_ready = [], sub_unready = []\<rparr>"

definition intercepting :: "agent_id \<Rightarrow> string \<Rightarrow> registry \<Rightarrow> subscribed_plugins" where
  "intercepting agent event r = subscribed r agent (\<lambda>m. event \<in> set (hs_intercept (mf_hooks m)))"

definition observing :: "agent_id \<Rightarrow> string \<Rightarrow> registry \<Rightarrow> subscribed_plugins" where
  "observing agent event r = subscribed r agent (\<lambda>m. event \<in> set (hs_observe (mf_hooks m)))"

definition overlay :: "registry \<Rightarrow> fleet_record \<Rightarrow> fleet_record" where
  "overlay r rec =
     rec\<lparr>fr_status := (fr_status rec)\<lparr>fs_agents :=
       map (\<lambda>(i, status). (i, status\<lparr>st_plugins :=
           bt_collect (map (\<lambda>((_, p), row). (p, ar_activation row))
             (filter (\<lambda>((a, _), _). agent_id_display a = i) (rg_rows r)))\<rparr>))
         (fs_agents (fr_status rec))\<rparr>\<rparr>"

section \<open>What an apply activates\<close>

record pair =
  pr_agent :: agent_id
  pr_plugin :: agent_name
  pr_config :: json

record activation_diff =
  df_activate :: "pair list"
  df_deactivate :: "(agent_id \<times> agent_name) list"

definition config_path :: "agent_id \<Rightarrow> agent_name \<Rightarrow> string" where
  "config_path agent plugin =
     ''crews.'' @ crew_of agent @ ''.agents.'' @ agent_of agent @ ''.plugins.'' @ plugin"

text \<open>What an activation error says after its path: the name error, or the reason a plugin name is invalid.\<close>

datatype pair_message = BadAgent name_error | BadPlugin string | BadPluginId name_error

definition plugin_pair ::
  "string \<Rightarrow> agent_id \<Rightarrow> string \<times> json \<Rightarrow> pair list \<Rightarrow> (string \<times> pair_message) + pair list" where
  "plugin_pair path i e out =
     (let path = path @ ''.plugins.'' @ fst e
      in rbind (map_err (\<lambda>reason. (path, BadPlugin reason)) (validate_name (fst e))) (\<lambda>_.
         rbind (map_err (\<lambda>err. (path, BadPluginId err)) (AgentName (fst e))) (\<lambda>plugin.
         Inr (out @ [\<lparr>pr_agent = i, pr_plugin = plugin, pr_config = snd e\<rparr>]))))"

definition agent_pairs ::
  "fleet_name \<Rightarrow> string \<Rightarrow> string \<times> agent_settings \<Rightarrow> pair list \<Rightarrow> (string \<times> pair_message) + pair list" where
  "agent_pairs fleet crew e out =
     (let path = ''crews.'' @ crew @ ''.agents.'' @ fst e
      in rbind (map_err (\<lambda>err. (path, BadAgent err)) (agent_id_parse (fleet @ ''/'' @ crew @ ''/'' @ fst e))) (\<lambda>i.
         rfold (plugin_pair path i) (as_plugins (snd e)) out))"

definition pairs :: "fleet_name \<Rightarrow> fleet_spec \<Rightarrow> (string \<times> pair_message) + pair list" where
  "pairs fleet spec =
     rbind (rfold (\<lambda>(crew, c) out. rfold (agent_pairs fleet crew) (csp_agents c) out) (fsp_crews spec) []) (\<lambda>out.
       Inr (sort_key (\<lambda>p. (pr_agent p, pr_plugin p)) out))"

definition pair_key :: "pair \<Rightarrow> agent_id \<times> agent_name" where
  "pair_key p = (pr_agent p, pr_plugin p)"

definition find_pair :: "pair list \<Rightarrow> pair \<Rightarrow> pair option" where
  "find_pair s p = find (\<lambda>q. pr_agent q = pr_agent p \<and> pr_plugin q = pr_plugin p) s"

definition diff :: "pair list \<Rightarrow> pair list \<Rightarrow> activation_diff" where
  "diff old new =
     \<lparr>df_activate = filter (\<lambda>p. case find_pair old p of Some prev \<Rightarrow> pr_config prev \<noteq> pr_config p | None \<Rightarrow> True) new,
      df_deactivate = sort (map pair_key (filter (\<lambda>p. find_pair new p = None) old))\<rparr>"

section \<open>Lemmas\<close>

subsection \<open>Subscriptions\<close>

definition wanted :: "registry \<Rightarrow> agent_id \<Rightarrow> (plugin_manifest \<Rightarrow> bool) \<Rightarrow> agent_name \<Rightarrow> bool" where
  "wanted r agent pick name \<longleftrightarrow>
     (case bt_get (rg_plugins r) name of
        Some p \<Rightarrow> is_active agent name r \<and> pick (pi_manifest p) | None \<Rightarrow> False)"

lemma subscribe_one_eq:
  "subscribe_one r agent pick name out =
     (if \<not> wanted r agent pick name then out
      else case ready_addr name r of
        Some a \<Rightarrow> out\<lparr>sub_ready := sub_ready out @ [(name, a)]\<rparr>
      | None \<Rightarrow> out\<lparr>sub_unready := sub_unready out @ [name]\<rparr>)"
proof (cases "bt_get (rg_plugins r) name")
  case (Some p)
  then show ?thesis
    by (cases "pi_ready p"; cases "pi_listen p"; cases "pi_token p")
      (simp_all add: subscribe_one_def wanted_def ready_addr_def)
qed (simp add: subscribe_one_def wanted_def)

definition ready_of :: "registry \<Rightarrow> agent_name list \<Rightarrow> (agent_name \<times> plugin_addr) list" where
  "ready_of r names = List.map_filter (\<lambda>n. map_option (Pair n) (ready_addr n r)) names"

lemma fold_subscribe:
  "fold (subscribe_one r agent pick) names out =
     \<lparr>sub_ready = sub_ready out @ ready_of r (filter (wanted r agent pick) names),
      sub_unready = sub_unready out @ filter (\<lambda>n. ready_addr n r = None) (filter (wanted r agent pick) names)\<rparr>"
proof (induction names arbitrary: out)
  case (Cons n names)
  show ?case
    unfolding fold_simps Cons.IH subscribe_one_eq[of r agent pick n out]
    by (simp add: ready_of_def List.map_filter_simps split: option.split)
qed (simp add: ready_of_def List.map_filter_simps)

lemma subscribed_eq:
  "subscribed r agent pick =
     \<lparr>sub_ready = ready_of r (filter (wanted r agent pick) (rg_order r)),
      sub_unready = filter (\<lambda>n. ready_addr n r = None) (filter (wanted r agent pick) (rg_order r))\<rparr>"
  by (simp add: subscribed_def fold_subscribe)

subsection \<open>Hello generations\<close>

datatype registry_op =
    Replace "resolved_plugin list" "string list"
  | Listen agent_name string string
  | ClearReadyIf agent_name u64
  | Declare "(agent_name \<times> json) list" "agent_name list"
  | AcceptHello agent_name plugin_manifest string string
  | Unhello agent_name
  | SetReady agent_name bool
  | SetDegraded agent_name "string option"
  | SetRow agent_id agent_name activation_row
  | SetActivation agent_id agent_name json plugin_activation
  | RemoveRow agent_id agent_name
  | RemoveFleet fleet_name

fun registry_do :: "registry_op \<Rightarrow> registry \<Rightarrow> registry" where
  "registry_do (Replace ps keep) r = replace_plugins ps keep r"
| "registry_do (Listen n l t) r = fst (set_listen n l t r)"
| "registry_do (ClearReadyIf n stamp) r = fst (clear_ready_if n stamp r)"
| "registry_do (Declare es keep) r = declare_plugins es keep r"
| "registry_do (AcceptHello n m u t) r = accept_hello n m u t r"
| "registry_do (Unhello n) r = unhello n r"
| "registry_do (SetReady n b) r = set_ready n b r"
| "registry_do (SetDegraded n why) r = set_degraded n why r"
| "registry_do (SetRow a p row) r = set_row a p row r"
| "registry_do (SetActivation a p c s) r = fst (set_activation a p c s r)"
| "registry_do (RemoveRow a p) r = fst (remove_row a p r)"
| "registry_do (RemoveFleet f) r = fst (remove_fleet f r)"

definition hellos_ok :: "registry \<Rightarrow> bool" where
  "hellos_ok r \<longleftrightarrow> (\<forall>n. hello_generation n r \<le> rg_hello_seq r)"

lemma next_hello_grows:
  assumes "hellos_ok r" "unat (rg_hello_seq r) + 1 < 2 ^ 64"
  shows "hellos_ok (fst (next_hello name r))" "rg_hello_seq r < rg_hello_seq (fst (next_hello name r))"
    "unat (rg_hello_seq (fst (next_hello name r))) = unat (rg_hello_seq r) + 1"
    "hello_generation n r \<le> hello_generation n (fst (next_hello name r))"
    "hello_generation name (fst (next_hello name r)) = rg_hello_seq (fst (next_hello name r))"
proof -
  have one: "unat (rg_hello_seq r + 1) = unat (rg_hello_seq r) + 1" using assms(2) by (simp add: unat_word_ariths)
  then have less: "rg_hello_seq r < rg_hello_seq r + 1" by (simp add: word_less_nat_alt)
  have gen: "hello_generation m (fst (next_hello name r)) = (if m = name then rg_hello_seq r + 1 else hello_generation m r)" for m
    by (simp add: hello_generation_def next_hello_def Let_def)
  have seq: "rg_hello_seq (fst (next_hello name r)) = rg_hello_seq r + 1" by (simp add: next_hello_def Let_def)
  have le: "hello_generation m r \<le> rg_hello_seq r" for m using assms(1) by (simp add: hellos_ok_def)
  show "hellos_ok (fst (next_hello name r))" using gen seq order.trans[OF le less_imp_le[OF less]] by (simp add: hellos_ok_def)
  show "rg_hello_seq r < rg_hello_seq (fst (next_hello name r))" using seq less by simp
  show "unat (rg_hello_seq (fst (next_hello name r))) = unat (rg_hello_seq r) + 1" using seq one by simp
  show "hello_generation n r \<le> hello_generation n (fst (next_hello name r))"
    using gen order.trans[OF le less_imp_le[OF less]] by simp
  show "hello_generation name (fst (next_hello name r)) = rg_hello_seq (fst (next_hello name r))" using gen seq by simp
qed

lemma same_hellos:
  assumes "rg_hello_seq r' = rg_hello_seq r" "rg_hellos r' = rg_hellos r"
  shows "hello_generation n r' = hello_generation n r" "hellos_ok r' \<longleftrightarrow> hellos_ok r"
  using assms by (simp_all add: hello_generation_def hellos_ok_def)

lemma registry_do_hellos:
  assumes "hellos_ok r" "unat (rg_hello_seq r) + 1 < 2 ^ 64"
  shows "hellos_ok (registry_do op r)" "unat (rg_hello_seq (registry_do op r)) \<le> unat (rg_hello_seq r) + 1"
    "hello_generation n r \<le> hello_generation n (registry_do op r)"
proof -
  have "rg_hello_seq (registry_do op r) = rg_hello_seq r \<and> rg_hellos (registry_do op r) = rg_hellos r
      \<or> (\<exists>m. rg_hello_seq (registry_do op r) = rg_hello_seq (fst (next_hello m r))
           \<and> rg_hellos (registry_do op r) = rg_hellos (fst (next_hello m r)))"
    by (cases op)
      (auto simp: replace_plugins_def keep_rows_def set_listen_def clear_ready_if_def update_plugin_def declare_plugins_def
        accept_hello_def unhello_def set_ready_def set_degraded_def set_row_def set_activation_def remove_row_def
        remove_fleet_def Let_def case_prod_beta split: option.splits)
  then consider "rg_hello_seq (registry_do op r) = rg_hello_seq r" "rg_hellos (registry_do op r) = rg_hellos r"
    | m where "rg_hello_seq (registry_do op r) = rg_hello_seq (fst (next_hello m r))"
        "rg_hellos (registry_do op r) = rg_hellos (fst (next_hello m r))" by blast
  then have "hellos_ok (registry_do op r) \<and> unat (rg_hello_seq (registry_do op r)) \<le> unat (rg_hello_seq r) + 1
      \<and> hello_generation n r \<le> hello_generation n (registry_do op r)"
  proof cases
    case 1
    then show ?thesis using assms(1) same_hellos[OF 1] by simp
  next
    case (2 m)
    then show ?thesis using next_hello_grows(1,3,4)[OF assms] same_hellos[OF 2] by simp
  qed
  then show "hellos_ok (registry_do op r)" "unat (rg_hello_seq (registry_do op r)) \<le> unat (rg_hello_seq r) + 1"
    "hello_generation n r \<le> hello_generation n (registry_do op r)" by blast+
qed

lemma registry_run_hellos:
  assumes "hellos_ok r" "unat (rg_hello_seq r) + length ops < 2 ^ 64"
  shows "hellos_ok (fold registry_do ops r) \<and> unat (rg_hello_seq (fold registry_do ops r)) \<le> unat (rg_hello_seq r) + length ops
    \<and> hello_generation n r \<le> hello_generation n (fold registry_do ops r)"
  using assms
proof (induction ops arbitrary: r)
  case (Cons op ops)
  have "unat (rg_hello_seq r) + 1 < 2 ^ 64" using Cons.prems(2) by simp
  note step = registry_do_hellos[OF Cons.prems(1) this, where op = op]
  have "unat (rg_hello_seq (registry_do op r)) + length ops < 2 ^ 64" using step(2) Cons.prems(2) by simp
  from Cons.IH[OF step(1) this] step(2) order.trans[OF step(3)[of n]] show ?case by simp
qed simp

lemma listen_generation:
  assumes "hellos_ok r" "unat (rg_hello_seq r) + 1 < 2 ^ 64"
  shows "rg_hello_seq r < hello_generation name (registry_do (Listen name l t) r)"
  using next_hello_grows(2,5)[OF assms, of name]
  by (simp add: set_listen_def update_plugin_def hello_generation_def split: prod.splits)
    (metis fst_conv hello_generation_def)

subsection \<open>Differences\<close>

definition configs :: "pair list \<Rightarrow> (agent_id \<times> agent_name) \<rightharpoonup> json" where
  "configs ps = map_of (map (\<lambda>p. (pair_key p, pr_config p)) ps)"

lemma find_pair_configs: "map_option pr_config (find_pair ps p) = configs ps (pair_key p)"
  by (induction ps) (auto simp: find_pair_def configs_def pair_key_def)

lemma find_pair_None: "find_pair ps p = None \<longleftrightarrow> configs ps (pair_key p) = None"
  using find_pair_configs[of ps p] by (metis option.map_disc_iff)

lemma configs_Some:
  "distinct (map pair_key ps) \<Longrightarrow> configs ps k = Some c \<longleftrightarrow> (\<exists>p \<in> set ps. pair_key p = k \<and> pr_config p = c)"
  unfolding configs_def by (subst map_of_eq_Some_iff) (auto simp: comp_def image_iff)

lemma configs_None: "configs ps k = None \<longleftrightarrow> k \<notin> pair_key ` set ps"
  by (simp add: configs_def map_of_eq_None_iff image_image)

lemma activate_filter:
  "(case find_pair old p of Some prev \<Rightarrow> pr_config prev \<noteq> pr_config p | None \<Rightarrow> True)
     \<longleftrightarrow> configs old (pair_key p) \<noteq> Some (pr_config p)"
  using find_pair_configs[of old p] by (auto split: option.splits)

section \<open>Properties\<close>

text \<open>
  An event goes to exactly the right plugins: in load order, the plugins installed, active for
  the agent and subscribed to the event; those with a ready address, the very address a direct
  lookup gives, are to be called, and every other one is listed as missing the event.
\<close>

theorem subscribed_exact:
  "intercepting agent event r =
     (let names = filter (\<lambda>n. is_active agent n r \<and> (case bt_get (rg_plugins r) n of
            Some p \<Rightarrow> event \<in> set (hs_intercept (mf_hooks (pi_manifest p))) | None \<Rightarrow> False)) (rg_order r)
      in \<lparr>sub_ready = map (\<lambda>n. (n, the (ready_addr n r))) (filter (\<lambda>n. ready_addr n r \<noteq> None) names),
          sub_unready = filter (\<lambda>n. ready_addr n r = None) names\<rparr>)"
proof -
  have w: "wanted r agent (\<lambda>m. event \<in> set (hs_intercept (mf_hooks m))) = (\<lambda>n. is_active agent n r \<and>
      (case bt_get (rg_plugins r) n of Some p \<Rightarrow> event \<in> set (hs_intercept (mf_hooks (pi_manifest p))) | None \<Rightarrow> False))"
    by (auto simp: wanted_def fun_eq_iff split: option.splits)
  have "ready_of r names = map (\<lambda>n. (n, the (ready_addr n r))) (filter (\<lambda>n. ready_addr n r \<noteq> None) names)" for names
    by (induction names) (auto simp: ready_of_def List.map_filter_simps split: option.splits)
  then show ?thesis by (simp add: intercepting_def subscribed_eq w Let_def)
qed

text \<open>
  A stale record never takes back a newer hello: from a registry whose generations are within
  its sequence, let a record be stamped with a plugin's generation; when the plugin says hello
  later, whatever else happened before and after that hello, clearing readiness with the old stamp
  changes nothing, as long as the 64-bit sequence does not run out.
\<close>

theorem hello_never_undone:
  assumes "hellos_ok r" "stamp = hello_generation name r"
    and "unat (rg_hello_seq r) + length before + length after + 1 < 2 ^ 64"
    and "r' = fold registry_do (before @ Listen name listen token # after) r"
  shows "clear_ready_if name stamp r' = (r', False)"
proof -
  let ?r1 = "fold registry_do before r"
  let ?r2 = "registry_do (Listen name listen token) ?r1"
  have 1: "hellos_ok ?r1" "unat (rg_hello_seq ?r1) \<le> unat (rg_hello_seq r) + length before" "stamp \<le> hello_generation name ?r1"
    using registry_run_hellos[OF assms(1), of before name] assms(2,3) by auto
  have room: "unat (rg_hello_seq ?r1) + 1 < 2 ^ 64" using 1(2) assms(3) by simp
  have 2: "hellos_ok ?r2" "unat (rg_hello_seq ?r2) \<le> unat (rg_hello_seq ?r1) + 1"
    using registry_do_hellos[OF 1(1) room] by blast+
  have "stamp \<le> rg_hello_seq ?r1" using 1(1,3) by (auto simp: hellos_ok_def intro: order.trans)
  also have "\<dots> < hello_generation name ?r2" by (rule listen_generation[OF 1(1) room])
  also have "\<dots> \<le> hello_generation name r'"
    using registry_run_hellos[OF 2(1), of after name] 1(2) 2(2) assms(3,4) by simp
  finally show ?thesis by (auto simp: clear_ready_if_def Let_def leD split: option.split)
qed

text \<open>
  Carrying out a difference gives exactly the wanted activations and does no more than needed:
  dropping the pairs it deactivates from the old ones and setting those it activates yields the new
  ones, every pair it activates is new or has another configuration, and every pair it deactivates was held.
\<close>

theorem diff_exact:
  assumes "distinct (map pair_key old)" "distinct (map pair_key new)"
  shows "(configs old |` (- set (df_deactivate (diff old new)))) ++ configs (df_activate (diff old new)) = configs new
    \<and> list_all (\<lambda>p. configs old (pair_key p) \<noteq> Some (pr_config p)) (df_activate (diff old new))
    \<and> list_all (\<lambda>k. configs old k \<noteq> None) (df_deactivate (diff old new))"
proof -
  let ?d = "diff old new"
  have act: "set (df_activate ?d) = {p \<in> set new. configs old (pair_key p) \<noteq> Some (pr_config p)}"
    by (auto simp: diff_def activate_filter)
  have deact: "set (df_deactivate ?d) = {k. configs old k \<noteq> None \<and> configs new k = None}"
    unfolding diff_def find_pair_None configs_None by (auto simp: image_iff simp del: split_paired_Ex)
  have "distinct (map pair_key (df_activate ?d))" using assms(2) by (simp add: diff_def distinct_map_filter)
  note get = configs_Some[OF this] configs_Some[OF assms(2)]
  have "((configs old |` (- set (df_deactivate ?d))) ++ configs (df_activate ?d)) k = configs new k" for k
  proof (cases "configs new k")
    case None
    then have "configs (df_activate ?d) k = None" unfolding configs_None by (auto simp: act)
    then show ?thesis using None deact by (cases "configs old k") (auto simp: map_add_def restrict_map_def)
  next
    case (Some c)
    then obtain p where p: "p \<in> set new" "pair_key p = k" "pr_config p = c" using get(2) by blast
    show ?thesis
    proof (cases "configs old k = Some c")
      case True
      have "configs (df_activate ?d) k = None"
      proof (rule ccontr)
        assume "configs (df_activate ?d) k \<noteq> None"
        then obtain q where "q \<in> set (df_activate ?d)" "pair_key q = k" using get(1) by blast
        then have "q \<in> set new" "configs old k \<noteq> Some (pr_config q)" "configs new k = Some (pr_config q)"
          using act get(2) by auto
        then show False using True Some by simp
      qed
      then show ?thesis using True Some deact by (simp add: map_add_def restrict_map_def)
    next
      case False
      then have "p \<in> set (df_activate ?d)" using p act by simp
      then have "configs (df_activate ?d) k = Some c" using p get(1) by blast
      then show ?thesis using Some by (simp add: map_add_def)
    qed
  qed
  then have "(configs old |` (- set (df_deactivate ?d))) ++ configs (df_activate ?d) = configs new" by (rule ext)
  moreover have "list_all (\<lambda>p. configs old (pair_key p) \<noteq> Some (pr_config p)) (df_activate ?d)"
    unfolding list_all_iff act by blast
  moreover have "list_all (\<lambda>k. configs old k \<noteq> None) (df_deactivate ?d)" unfolding list_all_iff deact by blast
  ultimately show ?thesis by blast
qed

subsection \<open>Witnesses\<close>

theorem hello_never_undone_witness:
  "snd (clear_ready_if ''web'' 0 (fold registry_do [Declare [(''web'', JNull)] [], Listen ''web'' ''127.0.0.1:1'' ''t''] empty_registry)) = False"
proof -
  have "hellos_ok empty_registry" "0 = hello_generation ''web'' empty_registry"
    by (simp_all add: hellos_ok_def hello_generation_def empty_registry_def)
  from hello_never_undone[OF this, of "[Declare [(''web'', JNull)] []]" "[]" _ "''127.0.0.1:1''" "''t''"]
  show ?thesis by (simp add: empty_registry_def)
qed

theorem diff_exact_witness:
  "configs (df_activate (diff [\<lparr>pr_agent = AgentId ''f'' ''c'' ''a'', pr_plugin = ''web'', pr_config = JNull\<rparr>]
      [\<lparr>pr_agent = AgentId ''f'' ''c'' ''a'', pr_plugin = ''web'', pr_config = JBool True\<rparr>])) (AgentId ''f'' ''c'' ''a'', ''web'')
    = Some (JBool True)"
proof -
  let ?old = "[\<lparr>pr_agent = AgentId ''f'' ''c'' ''a'', pr_plugin = ''web'', pr_config = JNull\<rparr>]"
  let ?new = "[\<lparr>pr_agent = AgentId ''f'' ''c'' ''a'', pr_plugin = ''web'', pr_config = JBool True\<rparr>]"
  have "distinct (map pair_key ?old)" "distinct (map pair_key ?new)" by simp_all
  from diff_exact[OF this] have "((configs ?old |` (- set (df_deactivate (diff ?old ?new)))) ++ configs (df_activate (diff ?old ?new)))
      (AgentId ''f'' ''c'' ''a'', ''web'') = Some (JBool True)"
    by (simp add: configs_def pair_key_def)
  moreover have "configs ?old (AgentId ''f'' ''c'' ''a'', ''web'') = Some JNull" by (simp add: configs_def pair_key_def)
  ultimately show ?thesis by (auto simp: map_add_def restrict_map_def split: option.splits if_splits)
qed

end
