(* ===== verification/Chain.thy ===== *)
theory Chain
  imports Registry Protocol Steps
begin

text \<open>
  The chain of interceptors and the queues of observers
  (crates/balerix-server/src/plugins/chain.rs, client.rs \<open>intercept\<close>, core events.rs). An
  \<open>Arc<Losses>\<close> is shared between the handler's map, a queue and the calls in flight, so the
  counters are an explicit store and every holder keeps the index of its counter. The functions are
  the critical sections of the code, what happens between two locks or two awaits; \<open>run\<close> composes
  them as the handler does, and the step function \<open>chain_step\<close> lets any number of runs, delivery
  tasks, hellos, removals and registry changes interleave at that grain. What travels over HTTP is
  a parameter. Log lines and metrics are left out. The lemmas show that the account of missed
  events balances over every interleaving, that the handler fails open, and when a removed
  plugin's queue is gone for good.
\<close>

section \<open>Calls to a plugin\<close>

datatype call_failure = CallTimeout | CallConnect | CallStatus nat string | CallBody string

definition reason :: "call_failure \<Rightarrow> string" where
  "reason f =
     (case f of CallTimeout \<Rightarrow> ''timeout'' | CallConnect \<Rightarrow> ''connect''
      | CallStatus _ _ \<Rightarrow> ''status'' | CallBody _ \<Rightarrow> ''body'')"

text \<open>
  What the handler meets outside itself: the clock when each interceptor's turn comes, by its
  position in the chain, the answer to a POST, and serde's reading of a verdict.
\<close>

record chain_env =
  ce_start :: instant
  ce_now :: "nat \<Rightarrow> instant"
  ce_post :: "plugin_addr \<Rightarrow> intercept_request \<Rightarrow> duration \<Rightarrow> u64 \<Rightarrow> call_failure + string"
  ce_verdict :: "string \<Rightarrow> string + intercept_response"

definition client_intercept ::
  "chain_env \<Rightarrow> plugin_addr \<Rightarrow> intercept_request \<Rightarrow> duration \<Rightarrow> u64 \<Rightarrow> call_failure + intercept_response" where
  "client_intercept env addr req timeout dropped =
     rbind (ce_post env addr req timeout dropped) (\<lambda>bytes.
     rbind (map_err CallBody (ce_verdict env bytes)) (\<lambda>verdict.
     case ir_response verdict of
       JObject _ \<Rightarrow> Inr verdict
     | _ \<Rightarrow> Inl (CallBody ''response is not a JSON object'')))"

record chain_outcome =
  out_response :: json
  out_actions :: "plugin_action list"

definition outcome_allow :: chain_outcome where
  "outcome_allow = \<lparr>out_response = empty_object, out_actions = []\<rparr>"

section \<open>State\<close>

type_synonym loss_id = nat

record observer_queue =
  oq_buf :: "hook_event list"
  oq_losses :: loss_id

text \<open>Where a delivery task stands between its awaits: nothing taken, a batch taken, a batch posted.\<close>

datatype delivery_task = Waiting | Drained "hook_event list" | Posting "hook_event list" u64

record observer =
  ob_queue :: observer_queue
  ob_task :: delivery_task

record chain =
  ch_registry :: registry
  ch_observers :: "(agent_name, observer) btree"
  ch_losses :: "(agent_name, loss_id) btree"
  ch_counts :: "u64 list"

definition chain_new :: "registry \<Rightarrow> chain" where
  "chain_new r = \<lparr>ch_registry = r, ch_observers = [], ch_losses = [], ch_counts = []\<rparr>"

section \<open>Losses\<close>

definition losses_add :: "loss_id \<Rightarrow> u64 \<Rightarrow> chain \<Rightarrow> chain" where
  "losses_add l n st = st\<lparr>ch_counts := (ch_counts st)[l := ch_counts st ! l + n]\<rparr>"

definition losses_take :: "loss_id \<Rightarrow> chain \<Rightarrow> chain \<times> u64" where
  "losses_take l st = (st\<lparr>ch_counts := (ch_counts st)[l := 0]\<rparr>, ch_counts st ! l)"

definition losses_for :: "agent_name \<Rightarrow> chain \<Rightarrow> chain \<times> loss_id option" where
  "losses_for name st =
     (case bt_get (ch_losses st) name of
        Some l \<Rightarrow> (st, Some l)
      | None \<Rightarrow>
          if \<not> is_installed name (ch_registry st) then (st, None)
          else let l = length (ch_counts st)
               in (st\<lparr>ch_losses := bt_insert name l (ch_losses st), ch_counts := ch_counts st @ [0]\<rparr>, Some l))"

definition missed :: "agent_name \<Rightarrow> chain \<Rightarrow> chain" where
  "missed name st = (case losses_for name st of (st, Some l) \<Rightarrow> losses_add l 1 st | (st, None) \<Rightarrow> st)"

section \<open>Observers\<close>

definition queue_for :: "agent_name \<Rightarrow> chain \<Rightarrow> chain \<times> observer option" where
  "queue_for name st =
     (case bt_get (ch_observers st) name of
        Some o' \<Rightarrow> (st, Some o')
      | None \<Rightarrow>
          (case losses_for name st of
             (st, None) \<Rightarrow> (st, None)
           | (st, Some l) \<Rightarrow>
               let o' = \<lparr>ob_queue = \<lparr>oq_buf = [], oq_losses = l\<rparr>, ob_task = Waiting\<rparr>
               in (st\<lparr>ch_observers := bt_insert name o' (ch_observers st)\<rparr>, Some o')))"

definition set_observer :: "agent_name \<Rightarrow> hook_event list \<Rightarrow> delivery_task \<Rightarrow> observer \<Rightarrow> chain \<Rightarrow> chain" where
  "set_observer name buf task o' st =
     st\<lparr>ch_observers := bt_insert name
          (o'\<lparr>ob_queue := (ob_queue o')\<lparr>oq_buf := buf\<rparr>, ob_task := task\<rparr>) (ch_observers st)\<rparr>"

definition push :: "agent_name \<Rightarrow> observer \<Rightarrow> hook_event \<Rightarrow> chain \<Rightarrow> chain \<times> bool" where
  "push name o' event st =
     (let b = oq_buf (ob_queue o')
      in if length b \<ge> OBSERVER_QUEUE
         then (losses_add (oq_losses (ob_queue o')) 1 (set_observer name (tl b @ [event]) (ob_task o') o' st), True)
         else (set_observer name (b @ [event]) (ob_task o') o' st, False))"

definition observe :: "hook_event \<Rightarrow> agent_name \<Rightarrow> chain \<Rightarrow> chain" where
  "observe event name st =
     (case queue_for name st of (st, None) \<Rightarrow> st | (st, Some o') \<Rightarrow> fst (push name o' event st))"

definition on_hello :: "agent_name \<Rightarrow> chain \<Rightarrow> chain" where
  "on_hello name st =
     (case bt_get (ch_observers st) name of
        None \<Rightarrow> st
      | Some o' \<Rightarrow>
          losses_add (oq_losses (ob_queue o')) (of_nat (length (oq_buf (ob_queue o'))))
            (set_observer name [] (ob_task o') o' st))"

text \<open>The two critical sections of \<open>remove\<close>: the task ends with its queue, then the counter goes.\<close>

definition remove_observer :: "agent_name \<Rightarrow> chain \<Rightarrow> chain" where
  "remove_observer name st = st\<lparr>ch_observers := bt_remove name (ch_observers st)\<rparr>"

definition remove_losses :: "agent_name \<Rightarrow> chain \<Rightarrow> chain" where
  "remove_losses name st = st\<lparr>ch_losses := bt_remove name (ch_losses st)\<rparr>"

definition remove_plugin :: "agent_name \<Rightarrow> chain \<Rightarrow> chain" where
  "remove_plugin name st = remove_losses name (remove_observer name st)"

definition queue_len :: "agent_name \<Rightarrow> chain \<Rightarrow> nat" where
  "queue_len name st =
     (case bt_get (ch_observers st) name of Some o' \<Rightarrow> length (oq_buf (ob_queue o')) | None \<Rightarrow> 0)"

text \<open>
  One turn of a delivery task: it drains a batch, posts it when the plugin has an address and
  takes the count to report with it, and on a failed call owes both again.
\<close>

definition deliver_drain :: "agent_name \<Rightarrow> chain \<Rightarrow> chain" where
  "deliver_drain name st =
     (case bt_get (ch_observers st) name of
        Some o' \<Rightarrow>
          let b = oq_buf (ob_queue o'); batch = take OBSERVER_BATCH b
          in if ob_task o' = Waiting \<and> batch \<noteq> []
             then set_observer name (drop OBSERVER_BATCH b) (Drained batch) o' st else st
      | None \<Rightarrow> st)"

definition deliver_post :: "agent_name \<Rightarrow> chain \<Rightarrow> chain" where
  "deliver_post name st =
     (case bt_get (ch_observers st) name of
        Some o' \<Rightarrow>
          (let l = oq_losses (ob_queue o'); b = oq_buf (ob_queue o')
           in case ob_task o' of
                Drained batch \<Rightarrow>
                  (case ready_addr name (ch_registry st) of
                     None \<Rightarrow> losses_add l (of_nat (length batch)) (set_observer name b Waiting o' st)
                   | Some addr \<Rightarrow>
                       (case losses_take l st of (st, reported) \<Rightarrow>
                          set_observer name b (Posting batch reported) o' st))
              | _ \<Rightarrow> st)
      | None \<Rightarrow> st)"

definition deliver_done :: "agent_name \<Rightarrow> bool \<Rightarrow> chain \<Rightarrow> chain" where
  "deliver_done name acknowledged st =
     (case bt_get (ch_observers st) name of
        Some o' \<Rightarrow>
          (case ob_task o' of
             Posting batch reported \<Rightarrow>
               let st = set_observer name (oq_buf (ob_queue o')) Waiting o' st
               in if acknowledged then st
                  else losses_add (oq_losses (ob_queue o')) (reported + of_nat (length batch)) st
           | _ \<Rightarrow> st)
      | None \<Rightarrow> st)"

section \<open>The handler\<close>

text \<open>An interceptor's call in flight: the counter it took from and what it took.\<close>

record intercept_call =
  ic_losses :: "loss_id option"
  ic_reported :: u64

definition begin_call :: "agent_name \<Rightarrow> chain \<Rightarrow> chain \<times> intercept_call" where
  "begin_call name st =
     (case losses_for name st of
        (st, None) \<Rightarrow> (st, \<lparr>ic_losses = None, ic_reported = 0\<rparr>)
      | (st, Some l) \<Rightarrow>
          (case losses_take l st of (st, n) \<Rightarrow> (st, \<lparr>ic_losses = Some l, ic_reported = n\<rparr>)))"

definition fail_call :: "intercept_call \<Rightarrow> chain \<Rightarrow> chain" where
  "fail_call c st =
     (case ic_losses c of Some l \<Rightarrow> losses_add l (ic_reported c + 1) st | None \<Rightarrow> st)"

definition deadline_ms :: "duration \<Rightarrow> u64" where
  "deadline_ms remaining =
     (let ms = remaining div 1000000 in if ms < 2 ^ 64 then of_nat ms else u64_max)"

definition intercept_one ::
  "chain_env \<Rightarrow> hook_event \<Rightarrow> nat \<times> agent_name \<times> plugin_addr \<Rightarrow> chain \<times> chain_outcome \<Rightarrow> chain \<times> chain_outcome" where
  "intercept_one env event = (\<lambda>(i, name, addr) (st, out).
     let deadline = ce_start env + from_millis CHAIN_BUDGET_MS; remaining = deadline - ce_now env i
     in if remaining = 0 then (missed name st, out)
        else case begin_call name st of (st, c) \<Rightarrow>
          let req = \<lparr>iq_event = event, iq_response_so_far = out_response out, iq_deadline_ms = deadline_ms remaining\<rparr>
          in case client_intercept env addr req remaining (ic_reported c) of
               Inr verdict \<Rightarrow>
                 (st, out\<lparr>out_response := ir_response verdict, out_actions := out_actions out @ ir_actions verdict\<rparr>)
             | Inl _ \<Rightarrow> (fail_call c st, out))"

definition run_intercepts ::
  "chain_env \<Rightarrow> hook_event \<Rightarrow> subscribed_plugins \<Rightarrow> chain \<Rightarrow> chain \<times> chain_outcome" where
  "run_intercepts env event subs st =
     fold (intercept_one env event) (List.enumerate 0 (sub_ready subs))
       (fold missed (sub_unready subs) st, outcome_allow)"

definition run_observers :: "hook_event \<Rightarrow> subscribed_plugins \<Rightarrow> chain \<Rightarrow> chain" where
  "run_observers event subs st =
     fold missed (sub_unready subs) (fold (observe event) (map fst (sub_ready subs)) st)"

definition chain_run :: "chain_env \<Rightarrow> hook_event \<Rightarrow> chain \<Rightarrow> chain \<times> chain_outcome" where
  "chain_run env event st =
     (case agent_id_parse (ev_agent event) of
        Inl _ \<Rightarrow> (st, outcome_allow)
      | Inr agent \<Rightarrow>
          (case run_intercepts env event (intercepting agent (ev_name event) (ch_registry st)) st of
             (st, out) \<Rightarrow> (run_observers event (observing agent (ev_name event) (ch_registry st)) st, out)))"

section \<open>Interleavings\<close>

text \<open>
  The handler with the intercept calls its runs have in flight, and what may happen next: an
  interceptor or an unready observer misses an event, a call begins or ends, an event is queued, a
  delivery task moves on, a plugin says hello, one half of a removal, a change of the registry.
\<close>

record chain_world =
  cw_chain :: chain
  cw_calls :: "intercept_call list"

datatype chain_op =
    RegistryOp registry_op
  | Miss agent_name
  | BeginCall agent_name
  | EndCall nat bool
  | Observe agent_name hook_event
  | Drain agent_name
  | Post agent_name
  | Posted agent_name bool
  | Hello agent_name
  | RemoveObserver agent_name
  | RemoveLosses agent_name

text \<open>
  What a step says of the events of a counter: one is due to the plugin, some were in a call it
  acknowledged, a number was reported to it in such a call, some went with a removed queue.
\<close>

datatype chain_note = Due loss_id | Delivered loss_id nat | Reported loss_id u64 | Discarded loss_id u64

definition task_size :: "delivery_task \<Rightarrow> u64" where
  "task_size t = (case t of Waiting \<Rightarrow> 0 | Drained b \<Rightarrow> of_nat (length b) | Posting b r \<Rightarrow> of_nat (length b) + r)"

definition observer_size :: "observer \<Rightarrow> u64" where
  "observer_size o' = of_nat (length (oq_buf (ob_queue o'))) + task_size (ob_task o')"

fun chain_step :: "chain_op \<Rightarrow> chain_world \<Rightarrow> chain_world \<times> chain_note list" where
  "chain_step (RegistryOp op) w =
     (w\<lparr>cw_chain := (cw_chain w)\<lparr>ch_registry := registry_do op (ch_registry (cw_chain w))\<rparr>\<rparr>, [])"
| "chain_step (Miss name) w =
     (w\<lparr>cw_chain := missed name (cw_chain w)\<rparr>,
      case snd (losses_for name (cw_chain w)) of Some l \<Rightarrow> [Due l] | None \<Rightarrow> [])"
| "chain_step (BeginCall name) w =
     (case begin_call name (cw_chain w) of (st, c) \<Rightarrow>
        (\<lparr>cw_chain = st, cw_calls = c # cw_calls w\<rparr>, case ic_losses c of Some l \<Rightarrow> [Due l] | None \<Rightarrow> []))"
| "chain_step (EndCall i answered) w =
     (if i < length (cw_calls w)
      then let c = cw_calls w ! i; calls = take i (cw_calls w) @ drop (Suc i) (cw_calls w)
           in if answered
              then (w\<lparr>cw_calls := calls\<rparr>,
                    case ic_losses c of Some l \<Rightarrow> [Delivered l 1, Reported l (ic_reported c)] | None \<Rightarrow> [])
              else (\<lparr>cw_chain = fail_call c (cw_chain w), cw_calls = calls\<rparr>, [])
      else (w, []))"
| "chain_step (Observe name event) w =
     (w\<lparr>cw_chain := observe event name (cw_chain w)\<rparr>,
      case snd (queue_for name (cw_chain w)) of Some o' \<Rightarrow> [Due (oq_losses (ob_queue o'))] | None \<Rightarrow> [])"
| "chain_step (Drain name) w = (w\<lparr>cw_chain := deliver_drain name (cw_chain w)\<rparr>, [])"
| "chain_step (Post name) w = (w\<lparr>cw_chain := deliver_post name (cw_chain w)\<rparr>, [])"
| "chain_step (Posted name acknowledged) w =
     (w\<lparr>cw_chain := deliver_done name acknowledged (cw_chain w)\<rparr>,
      case bt_get (ch_observers (cw_chain w)) name of
        Some o' \<Rightarrow>
          (case ob_task o' of
             Posting batch reported \<Rightarrow>
               if acknowledged
               then [Delivered (oq_losses (ob_queue o')) (length batch), Reported (oq_losses (ob_queue o')) reported]
               else []
           | _ \<Rightarrow> [])
      | None \<Rightarrow> [])"
| "chain_step (Hello name) w = (w\<lparr>cw_chain := on_hello name (cw_chain w)\<rparr>, [])"
| "chain_step (RemoveObserver name) w =
     (w\<lparr>cw_chain := remove_observer name (cw_chain w)\<rparr>,
      case bt_get (ch_observers (cw_chain w)) name of
        Some o' \<Rightarrow> [Discarded (oq_losses (ob_queue o')) (observer_size o')] | None \<Rightarrow> [])"
| "chain_step (RemoveLosses name) w = (w\<lparr>cw_chain := remove_losses name (cw_chain w)\<rparr>, [])"

definition due :: "loss_id \<Rightarrow> chain_note \<Rightarrow> u64" where
  "due l n = (if n = Due l then 1 else 0)"

definition settled :: "loss_id \<Rightarrow> chain_note \<Rightarrow> u64" where
  "settled l n =
     (case n of Due _ \<Rightarrow> 0
      | Delivered l' k \<Rightarrow> if l' = l then of_nat k else 0
      | Reported l' k \<Rightarrow> if l' = l then k else 0
      | Discarded l' k \<Rightarrow> if l' = l then k else 0)"

section \<open>Lemmas\<close>

subsection \<open>The account of one counter\<close>

definition count :: "loss_id \<Rightarrow> chain \<Rightarrow> u64" where
  "count l st = (if l < length (ch_counts st) then ch_counts st ! l else 0)"

definition observer_owed :: "loss_id \<Rightarrow> observer \<Rightarrow> u64" where
  "observer_owed l o' = (if oq_losses (ob_queue o') = l then observer_size o' else 0)"

definition chain_owed :: "loss_id \<Rightarrow> chain \<Rightarrow> u64" where
  "chain_owed l st = count l st + bt_weight (\<lambda>_. observer_owed l) (ch_observers st)"

definition call_owed :: "loss_id \<Rightarrow> intercept_call \<Rightarrow> u64" where
  "call_owed l c = (if ic_losses c = Some l then ic_reported c + 1 else 0)"

definition owed :: "loss_id \<Rightarrow> chain_world \<Rightarrow> u64" where
  "owed l w = chain_owed l (cw_chain w) + sum_list (map (call_owed l) (cw_calls w))"

definition task_bounded :: "delivery_task \<Rightarrow> bool" where
  "task_bounded t \<longleftrightarrow>
     (case t of Waiting \<Rightarrow> True | Drained b \<Rightarrow> length b \<le> OBSERVER_BATCH | Posting b _ \<Rightarrow> length b \<le> OBSERVER_BATCH)"

definition observer_ok :: "nat \<Rightarrow> observer \<Rightarrow> bool" where
  "observer_ok n o' \<longleftrightarrow>
     oq_losses (ob_queue o') < n \<and> length (oq_buf (ob_queue o')) \<le> OBSERVER_QUEUE \<and> task_bounded (ob_task o')"

definition chain_ok :: "chain \<Rightarrow> bool" where
  "chain_ok st \<longleftrightarrow>
     bt_wf (ch_observers st)
     \<and> (\<forall>name l. bt_get (ch_losses st) name = Some l \<longrightarrow> l < length (ch_counts st))
     \<and> (\<forall>name o'. bt_get (ch_observers st) name = Some o' \<longrightarrow> observer_ok (length (ch_counts st)) o')"

definition world_ok :: "chain_world \<Rightarrow> bool" where
  "world_ok w \<longleftrightarrow> chain_ok (cw_chain w)
     \<and> (\<forall>c \<in> set (cw_calls w). \<forall>l. ic_losses c = Some l \<longrightarrow> l < length (ch_counts (cw_chain w)))"

lemma losses_add_facts [simp]:
  "ch_observers (losses_add l n st) = ch_observers st" "ch_losses (losses_add l n st) = ch_losses st"
  "length (ch_counts (losses_add l n st)) = length (ch_counts st)"
  "ch_registry (losses_add l n st) = ch_registry st"
  "chain_ok (losses_add l n st) \<longleftrightarrow> chain_ok st"
  by (simp_all add: losses_add_def chain_ok_def)

lemma owed_losses_add:
  "l' < length (ch_counts st) \<Longrightarrow> chain_owed l (losses_add l' n st) = chain_owed l st + (if l' = l then n else 0)"
  by (simp add: chain_owed_def count_def losses_add_def)

lemma losses_take_facts [simp]:
  "ch_observers (fst (losses_take l st)) = ch_observers st" "ch_losses (fst (losses_take l st)) = ch_losses st"
  "length (ch_counts (fst (losses_take l st))) = length (ch_counts st)"
  "ch_registry (fst (losses_take l st)) = ch_registry st"
  "chain_ok (fst (losses_take l st)) \<longleftrightarrow> chain_ok st"
  by (simp_all add: losses_take_def chain_ok_def)

lemma owed_losses_take:
  "l' < length (ch_counts st) \<Longrightarrow>
     chain_owed l st = chain_owed l (fst (losses_take l' st)) + (if l' = l then snd (losses_take l' st) else 0)"
  by (simp add: chain_owed_def count_def losses_take_def)

lemma observer_ok_Suc: "observer_ok n o' \<Longrightarrow> observer_ok (Suc n) o'"
  by (simp add: observer_ok_def)

lemma losses_for_facts:
  assumes "chain_ok st" "losses_for name st = (st', r)"
  shows "chain_ok st'" "chain_owed l st' = chain_owed l st" "ch_observers st' = ch_observers st"
    "length (ch_counts st) \<le> length (ch_counts st')" "\<And>k. r = Some k \<Longrightarrow> k < length (ch_counts st')"
proof -
  have "chain_ok st' \<and> chain_owed l st' = chain_owed l st \<and> ch_observers st' = ch_observers st
      \<and> length (ch_counts st) \<le> length (ch_counts st') \<and> (\<forall>k. r = Some k \<longrightarrow> k < length (ch_counts st'))"
  proof (cases "bt_get (ch_losses st) name")
    case None
    then show ?thesis using assms
      by (auto simp: losses_for_def Let_def chain_ok_def chain_owed_def count_def nth_append less_Suc_eq
          split: if_splits) (blast intro: observer_ok_Suc)+
  next
    case (Some l')
    then show ?thesis using assms by (auto simp: losses_for_def chain_ok_def)
  qed
  then show "chain_ok st'" "chain_owed l st' = chain_owed l st" "ch_observers st' = ch_observers st"
    "length (ch_counts st) \<le> length (ch_counts st')" "\<And>k. r = Some k \<Longrightarrow> k < length (ch_counts st')" by blast+
qed

subsection \<open>Each critical section\<close>

lemma missed_account:
  assumes "chain_ok st"
  shows "chain_ok (missed name st)" "length (ch_counts st) \<le> length (ch_counts (missed name st))"
    "chain_owed l (missed name st) = chain_owed l st + (if snd (losses_for name st) = Some l then 1 else 0)"
proof -
  obtain st' r where lf: "losses_for name st = (st', r)" by fastforce
  note facts = losses_for_facts[OF assms lf]
  show "chain_ok (missed name st)" "length (ch_counts st) \<le> length (ch_counts (missed name st))"
    "chain_owed l (missed name st) = chain_owed l st + (if snd (losses_for name st) = Some l then 1 else 0)"
    using facts(1,4) facts(2)[of l] facts(5)
    by (auto simp: missed_def lf owed_losses_add split: option.split)
qed

lemma set_observer_facts [simp]:
  "ch_losses (set_observer name buf task o' st) = ch_losses st"
  "ch_counts (set_observer name buf task o' st) = ch_counts st"
  "ch_registry (set_observer name buf task o' st) = ch_registry st"
  by (simp_all add: set_observer_def)

lemma set_observer_ok:
  assumes "chain_ok st" "bt_get (ch_observers st) name = Some o'" "length buf \<le> OBSERVER_QUEUE" "task_bounded task"
  shows "chain_ok (set_observer name buf task o' st)"
  using assms by (auto simp: chain_ok_def set_observer_def observer_ok_def)

lemma owed_set_observer:
  assumes "chain_ok st" "bt_get (ch_observers st) name = Some o'"
  shows "chain_owed l (set_observer name buf task o' st) + observer_owed l o'
    = chain_owed l st + (if oq_losses (ob_queue o') = l then of_nat (length buf) + task_size task else 0)"
proof -
  have "bt_wf (ch_observers st)" using assms(1) by (simp add: chain_ok_def)
  note weights = bt_weight_insert[OF this] bt_weight_remove[OF this, where k = name]
  show ?thesis
    using weights(2)[of "\<lambda>_. observer_owed l"] assms(2)
    by (simp add: chain_owed_def count_def set_observer_def weights(1) observer_owed_def observer_size_def algebra_simps)
qed

lemma stored_observer:
  assumes "chain_ok st" "bt_get (ch_observers st) name = Some o'"
  shows "oq_losses (ob_queue o') < length (ch_counts st)" "length (oq_buf (ob_queue o')) \<le> OBSERVER_QUEUE"
    "task_bounded (ob_task o')"
  using assms by (auto simp: chain_ok_def observer_ok_def)

lemma queue_for_facts:
  assumes "chain_ok st" "queue_for name st = (st', r)"
  shows "chain_ok st'" "chain_owed l st' = chain_owed l st" "length (ch_counts st) \<le> length (ch_counts st')"
    "\<And>o'. r = Some o' \<Longrightarrow> bt_get (ch_observers st') name = Some o'"
proof -
  have "chain_ok st' \<and> chain_owed l st' = chain_owed l st \<and> length (ch_counts st) \<le> length (ch_counts st')
      \<and> (\<forall>o'. r = Some o' \<longrightarrow> bt_get (ch_observers st') name = Some o')"
  proof (cases "bt_get (ch_observers st) name")
    case None
    obtain st1 k where lf: "losses_for name st = (st1, k)" by fastforce
    note facts = losses_for_facts[OF assms(1) lf]
    show ?thesis
    proof (cases k)
      case (Some i)
      let ?o = "\<lparr>ob_queue = \<lparr>oq_buf = [], oq_losses = i\<rparr>, ob_task = Waiting\<rparr>"
      have st': "st' = st1\<lparr>ch_observers := bt_insert name ?o (ch_observers st1)\<rparr>" "r = Some ?o"
        using assms(2) None lf Some by (simp_all add: queue_for_def Let_def)
      have wf: "bt_wf (ch_observers st1)" using facts(1) by (simp add: chain_ok_def)
      have "bt_get (ch_observers st1) name = None" using None facts(3) by simp
      then have "chain_owed l st' = chain_owed l st1"
        using bt_weight_remove[OF wf, of "\<lambda>_. observer_owed l" name] bt_weight_insert[OF wf, of "\<lambda>_. observer_owed l" name ?o]
        by (simp add: st' chain_owed_def count_def observer_owed_def observer_size_def task_size_def)
      moreover have "chain_ok st'"
        using facts(1) facts(5)[of i] Some by (auto simp: st' chain_ok_def observer_ok_def task_bounded_def)
      ultimately show ?thesis using facts(2)[of l] facts(4) st' by simp
    qed (use assms None lf facts(1,4) facts(2)[of l] in \<open>auto simp: queue_for_def\<close>)
  qed (use assms in \<open>auto simp: queue_for_def\<close>)
  then show "chain_ok st'" "chain_owed l st' = chain_owed l st" "length (ch_counts st) \<le> length (ch_counts st')"
    "\<And>o'. r = Some o' \<Longrightarrow> bt_get (ch_observers st') name = Some o'" by blast+
qed

lemma push_account:
  assumes "chain_ok st" "bt_get (ch_observers st) name = Some o'"
  shows "chain_ok (fst (push name o' event st))" "length (ch_counts (fst (push name o' event st))) = length (ch_counts st)"
    "chain_owed l (fst (push name o' event st)) = chain_owed l st + (if oq_losses (ob_queue o') = l then 1 else 0)"
proof -
  let ?b = "oq_buf (ob_queue o')"
  note held = stored_observer[OF assms]
  have ok: "chain_ok (set_observer name b (ob_task o') o' st)" if "length b \<le> OBSERVER_QUEUE" for b
    using set_observer_ok[OF assms that held(3)] .
  note eq = owed_set_observer[OF assms, of l _ "ob_task o'"]
  show "chain_ok (fst (push name o' event st))"
    using ok[of "tl ?b @ [event]"] ok[of "?b @ [event]"] held(2) by (auto simp: push_def Let_def OBSERVER_QUEUE_def)
  show "length (ch_counts (fst (push name o' event st))) = length (ch_counts st)" by (simp add: push_def Let_def)
  show "chain_owed l (fst (push name o' event st)) = chain_owed l st + (if oq_losses (ob_queue o') = l then 1 else 0)"
  proof (cases "length ?b \<ge> OBSERVER_QUEUE")
    case True
    then have "length (tl ?b @ [event]) = length ?b" by (cases ?b) (auto simp: OBSERVER_QUEUE_def)
    then have "chain_owed l (set_observer name (tl ?b @ [event]) (ob_task o') o' st) = chain_owed l st"
      using eq[of "tl ?b @ [event]"] by (simp add: observer_owed_def observer_size_def del: length_append length_tl split: if_splits)
    then show ?thesis using True held(1) by (simp add: push_def Let_def owed_losses_add)
  next
    case False
    then show ?thesis using eq[of "?b @ [event]"]
      by (simp add: push_def Let_def observer_owed_def observer_size_def algebra_simps split: if_splits)
  qed
qed

lemma observe_account:
  assumes "chain_ok st"
  shows "chain_ok (observe event name st)" "length (ch_counts st) \<le> length (ch_counts (observe event name st))"
    "chain_owed l (observe event name st) = chain_owed l st
       + (case snd (queue_for name st) of Some o' \<Rightarrow> if oq_losses (ob_queue o') = l then 1 else 0 | None \<Rightarrow> 0)"
proof -
  obtain st' r where q: "queue_for name st = (st', r)" by fastforce
  note facts = queue_for_facts[OF assms q]
  show "chain_ok (observe event name st)" "length (ch_counts st) \<le> length (ch_counts (observe event name st))"
    "chain_owed l (observe event name st) = chain_owed l st
       + (case snd (queue_for name st) of Some o' \<Rightarrow> if oq_losses (ob_queue o') = l then 1 else 0 | None \<Rightarrow> 0)"
    using facts(1,3) facts(2)[of l] push_account[OF facts(1), where name = name and event = event] facts(4)
    by (auto simp: observe_def q split: option.split)
qed

lemma on_hello_account:
  assumes "chain_ok st"
  shows "chain_ok (on_hello name st)" "length (ch_counts (on_hello name st)) = length (ch_counts st)"
    "chain_owed l (on_hello name st) = chain_owed l st"
proof -
  have "chain_ok (on_hello name st) \<and> length (ch_counts (on_hello name st)) = length (ch_counts st)
      \<and> chain_owed l (on_hello name st) = chain_owed l st"
  proof (cases "bt_get (ch_observers st) name")
    case (Some o')
    then show ?thesis
      using set_observer_ok[OF assms Some, of "[]"] stored_observer[OF assms Some]
        owed_set_observer[OF assms Some, of l "[]" "ob_task o'"]
      by (auto simp: on_hello_def owed_losses_add observer_owed_def observer_size_def algebra_simps split: if_splits)
  qed (simp add: on_hello_def assms)
  then show "chain_ok (on_hello name st)" "length (ch_counts (on_hello name st)) = length (ch_counts st)"
    "chain_owed l (on_hello name st) = chain_owed l st" by blast+
qed

lemma remove_account:
  assumes "chain_ok st"
  shows "chain_ok (remove_observer name st)" "chain_ok (remove_losses name st)"
    "chain_owed l (remove_losses name st) = chain_owed l st"
    "chain_owed l st = chain_owed l (remove_observer name st)
       + (case bt_get (ch_observers st) name of Some o' \<Rightarrow> observer_owed l o' | None \<Rightarrow> 0)"
  using assms bt_weight_remove[of "ch_observers st" "\<lambda>_. observer_owed l" name]
  by (auto simp: chain_ok_def remove_observer_def remove_losses_def chain_owed_def count_def split: option.split)

lemma deliver_drain_account:
  assumes "chain_ok st"
  shows "chain_ok (deliver_drain name st)" "length (ch_counts (deliver_drain name st)) = length (ch_counts st)"
    "chain_owed l (deliver_drain name st) = chain_owed l st"
proof -
  have "chain_ok (deliver_drain name st) \<and> length (ch_counts (deliver_drain name st)) = length (ch_counts st)
      \<and> chain_owed l (deliver_drain name st) = chain_owed l st"
  proof (cases "bt_get (ch_observers st) name")
    case (Some o')
    let ?b = "oq_buf (ob_queue o')" and ?n = OBSERVER_BATCH
    have "chain_ok (set_observer name (drop ?n ?b) (Drained (take ?n ?b)) o' st)"
      using stored_observer(2)[OF assms Some] by (intro set_observer_ok[OF assms Some]) (auto simp: task_bounded_def)
    moreover have "chain_owed l (set_observer name (drop ?n ?b) (Drained (take ?n ?b)) o' st) = chain_owed l st"
      if "ob_task o' = Waiting"
    proof -
      have "of_nat (length (drop ?n ?b)) + of_nat (length (take ?n ?b)) = (of_nat (length ?b) :: u64)"
        by (simp add: min_def flip: of_nat_add)
      then show ?thesis
        using owed_set_observer[OF assms Some, of l "drop ?n ?b" "Drained (take ?n ?b)"] that
        by (auto simp: observer_owed_def observer_size_def task_size_def simp del: length_drop length_take split: if_splits)
    qed
    ultimately show ?thesis using Some assms by (simp add: deliver_drain_def Let_def)
  qed (simp add: deliver_drain_def assms)
  then show "chain_ok (deliver_drain name st)" "length (ch_counts (deliver_drain name st)) = length (ch_counts st)"
    "chain_owed l (deliver_drain name st) = chain_owed l st" by blast+
qed

lemma deliver_post_account:
  assumes "chain_ok st"
  shows "chain_ok (deliver_post name st)" "length (ch_counts (deliver_post name st)) = length (ch_counts st)"
    "chain_owed l (deliver_post name st) = chain_owed l st"
proof -
  have "chain_ok (deliver_post name st) \<and> length (ch_counts (deliver_post name st)) = length (ch_counts st)
      \<and> chain_owed l (deliver_post name st) = chain_owed l st"
  proof (cases "bt_get (ch_observers st) name")
    case (Some o')
    let ?b = "oq_buf (ob_queue o')" and ?l = "oq_losses (ob_queue o')"
    note held = stored_observer[OF assms Some]
    show ?thesis
    proof (cases "ob_task o'")
      case (Drained batch)
      let ?st1 = "fst (losses_take ?l st)" and ?r = "snd (losses_take ?l st)"
      have batch: "length batch \<le> OBSERVER_BATCH" using held(3) Drained by (simp add: task_bounded_def)
      show ?thesis
      proof (cases "ready_addr name (ch_registry st)")
        case None
        then show ?thesis
          using set_observer_ok[OF assms Some held(2), of Waiting] owed_set_observer[OF assms Some, of l ?b Waiting] held(1) Drained Some
          by (auto simp: deliver_post_def Let_def owed_losses_add task_bounded_def observer_owed_def observer_size_def
              task_size_def algebra_simps split: if_splits)
      next
        case (Some addr)
        have st1: "chain_ok ?st1" "bt_get (ch_observers ?st1) name = Some o'"
          using assms \<open>bt_get (ch_observers st) name = Some o'\<close> by simp_all
        have "deliver_post name st = set_observer name ?b (Posting batch ?r) o' ?st1"
          using Some Drained \<open>bt_get (ch_observers st) name = Some o'\<close>
          by (simp add: deliver_post_def Let_def case_prod_unfold)
        then show ?thesis
          using set_observer_ok[OF st1 held(2), of "Posting batch ?r"] owed_set_observer[OF st1, of l ?b "Posting batch ?r"]
            owed_losses_take[OF held(1), of l] batch Drained
          by (auto simp: task_bounded_def observer_owed_def observer_size_def task_size_def algebra_simps split: if_splits)
      qed
    qed (use Some assms in \<open>simp_all add: deliver_post_def\<close>)
  qed (simp add: deliver_post_def assms)
  then show "chain_ok (deliver_post name st)" "length (ch_counts (deliver_post name st)) = length (ch_counts st)"
    "chain_owed l (deliver_post name st) = chain_owed l st" by blast+
qed

text \<open>What an acknowledged batch settles: its own events and the count it carried.\<close>

definition posted :: "agent_name \<Rightarrow> bool \<Rightarrow> loss_id \<Rightarrow> chain \<Rightarrow> u64" where
  "posted name acknowledged l st =
     (case bt_get (ch_observers st) name of
        Some o' \<Rightarrow> if acknowledged \<and> oq_losses (ob_queue o') = l
          then (case ob_task o' of Posting batch reported \<Rightarrow> of_nat (length batch) + reported | _ \<Rightarrow> 0) else 0
      | None \<Rightarrow> 0)"

lemma deliver_done_account:
  assumes "chain_ok st"
  shows "chain_ok (deliver_done name ack st)" "length (ch_counts (deliver_done name ack st)) = length (ch_counts st)"
    "chain_owed l st = chain_owed l (deliver_done name ack st) + posted name ack l st"
proof -
  have "chain_ok (deliver_done name ack st) \<and> length (ch_counts (deliver_done name ack st)) = length (ch_counts st)
      \<and> chain_owed l st = chain_owed l (deliver_done name ack st) + posted name ack l st"
  proof (cases "bt_get (ch_observers st) name")
    case (Some o')
    let ?b = "oq_buf (ob_queue o')" and ?l = "oq_losses (ob_queue o')"
    note held = stored_observer[OF assms Some]
    show ?thesis
      using set_observer_ok[OF assms Some held(2), of Waiting] owed_set_observer[OF assms Some, of l ?b Waiting] held(1) Some assms
      by (cases "ob_task o'"; cases ack)
        (auto simp: deliver_done_def posted_def Let_def owed_losses_add task_bounded_def observer_owed_def observer_size_def
          task_size_def algebra_simps split: if_splits)
  qed (simp add: deliver_done_def posted_def assms)
  then show "chain_ok (deliver_done name ack st)" "length (ch_counts (deliver_done name ack st)) = length (ch_counts st)"
    "chain_owed l st = chain_owed l (deliver_done name ack st) + posted name ack l st" by blast+
qed

lemma begin_call_account:
  assumes "chain_ok st" "begin_call name st = (st', c)"
  shows "chain_ok st'" "length (ch_counts st) \<le> length (ch_counts st')"
    "\<And>l. ic_losses c = Some l \<Longrightarrow> l < length (ch_counts st')"
    "chain_owed l st' + call_owed l c = chain_owed l st + (if ic_losses c = Some l then 1 else 0)"
proof -
  obtain st1 k where lf: "losses_for name st = (st1, k)" by fastforce
  note facts = losses_for_facts[OF assms(1) lf]
  have "chain_ok st' \<and> length (ch_counts st) \<le> length (ch_counts st')
      \<and> (\<forall>l. ic_losses c = Some l \<longrightarrow> l < length (ch_counts st'))
      \<and> chain_owed l st' + call_owed l c = chain_owed l st + (if ic_losses c = Some l then 1 else 0)"
  proof (cases k)
    case (Some i)
    obtain st2 n where take: "losses_take i st1 = (st2, n)" by fastforce
    then have st': "st' = st2" "c = \<lparr>ic_losses = Some i, ic_reported = n\<rparr>"
      using assms(2) lf Some by (simp_all add: begin_call_def)
    have i: "i < length (ch_counts st1)" using facts(5) Some by blast
    show ?thesis
      using facts(1,4) facts(2)[of l] i owed_losses_take[OF i, of l] losses_take_facts(3,5)[of i st1] take
      by (auto simp: st' call_owed_def algebra_simps)
  next
    case None
    then show ?thesis using assms(2) lf facts(1,4) facts(2)[of l] by (auto simp: begin_call_def call_owed_def)
  qed
  then show "chain_ok st'" "length (ch_counts st) \<le> length (ch_counts st')"
    "\<And>l. ic_losses c = Some l \<Longrightarrow> l < length (ch_counts st')"
    "chain_owed l st' + call_owed l c = chain_owed l st + (if ic_losses c = Some l then 1 else 0)" by blast+
qed

lemma fail_call_account:
  assumes "chain_ok st" "\<And>l. ic_losses c = Some l \<Longrightarrow> l < length (ch_counts st)"
  shows "chain_ok (fail_call c st)" "length (ch_counts (fail_call c st)) = length (ch_counts st)"
    "chain_owed l (fail_call c st) = chain_owed l st + call_owed l c"
  using assms by (auto simp: fail_call_def call_owed_def owed_losses_add split: option.split)

subsection \<open>Every interleaving\<close>

lemma world_ok_chain:
  assumes "world_ok w" "chain_ok st" "length (ch_counts (cw_chain w)) \<le> length (ch_counts st)"
  shows "world_ok (w\<lparr>cw_chain := st\<rparr>)"
  using assms by (fastforce simp: world_ok_def)

lemma owed_chain: "owed l (w\<lparr>cw_chain := st\<rparr>) = owed l w + chain_owed l st - chain_owed l (cw_chain w)"
  by (simp add: owed_def)

lemma world_okD: "world_ok w \<Longrightarrow> chain_ok (cw_chain w)"
  by (simp add: world_ok_def)

lemma registry_account:
  "chain_ok (st\<lparr>ch_registry := r\<rparr>) \<longleftrightarrow> chain_ok st" "chain_owed l (st\<lparr>ch_registry := r\<rparr>) = chain_owed l st"
  by (simp_all add: chain_ok_def chain_owed_def count_def)

lemma remove_counts:
  "ch_counts (remove_observer name st) = ch_counts st" "ch_counts (remove_losses name st) = ch_counts st"
  by (simp_all add: remove_observer_def remove_losses_def)

lemmas critical_sections = registry_account missed_account observe_account deliver_drain_account
  deliver_post_account deliver_done_account(1,2) on_hello_account remove_account(1,2,3) remove_counts

lemma calls_split:
  assumes "i < length cs"
  shows "sum_list (map f cs) = sum_list (map f (take i cs @ drop (Suc i) cs)) + (f (cs ! i) :: u64)"
  by (subst id_take_nth_drop[OF assms]) (simp add: algebra_simps)

lemma chain_step_keeps: "world_ok w \<Longrightarrow> world_ok (fst (chain_step op w))"
proof (induction op w rule: chain_step.induct)
  case (3 name w)
  obtain st c where b: "begin_call name (cw_chain w) = (st, c)" by fastforce
  have "chain_ok (cw_chain w)" using 3 by (simp add: world_ok_def)
  from begin_call_account(1-3)[OF this b] show ?case using 3 by (fastforce simp: b world_ok_def)
next
  case (4 i answered w)
  let ?c = "cw_calls w ! i"
  have ok: "chain_ok (cw_chain w)" using 4 by (simp add: world_ok_def)
  have "\<And>l. ic_losses ?c = Some l \<Longrightarrow> l < length (ch_counts (cw_chain w))" if "i < length (cw_calls w)"
    using 4 that nth_mem[OF that] by (auto simp: world_ok_def)
  then show ?case using 4 fail_call_account(1,2)[OF ok, of ?c]
    by (auto simp: world_ok_def Let_def dest: in_set_takeD in_set_dropD)
qed (simp_all add: world_ok_chain world_okD critical_sections)

lemma chain_step_balances:
  "world_ok w \<Longrightarrow> owed l w + sum_list (map (due l) (snd (chain_step op w)))
     = owed l (fst (chain_step op w)) + sum_list (map (settled l) (snd (chain_step op w)))"
proof (induction op w rule: chain_step.induct)
  case (3 name w)
  obtain st c where b: "begin_call name (cw_chain w) = (st, c)" by fastforce
  from begin_call_account(4)[OF world_okD[OF 3] b, of l] show ?case
    by (auto simp: b owed_def due_def settled_def algebra_simps split: option.split if_splits)
next
  case (4 i answered w)
  let ?c = "cw_calls w ! i"
  show ?case
  proof (cases "i < length (cw_calls w)")
    case True
    have "\<And>l. ic_losses ?c = Some l \<Longrightarrow> l < length (ch_counts (cw_chain w))"
      using 4 nth_mem[OF True] by (auto simp: world_ok_def)
    note fail = fail_call_account(3)[where c = ?c and l = l, OF world_okD[OF 4] this]
    from calls_split[OF True, of "call_owed l"] fail True show ?thesis
      by (cases "ic_losses ?c") (auto simp: owed_def due_def settled_def call_owed_def Let_def algebra_simps)
  qed simp
next
  case (5 name event w)
  then show ?case
    by (cases "snd (queue_for name (cw_chain w))") (simp_all add: owed_chain critical_sections world_okD due_def settled_def)
next
  case (8 name ack w)
  have "sum_list (map (settled l) (snd (chain_step (Posted name ack) w))) = posted name ack l (cw_chain w)"
    by (simp add: posted_def settled_def split: option.split delivery_task.split)
  moreover have "sum_list (map (due l) (snd (chain_step (Posted name ack) w))) = 0"
    by (simp add: due_def split: option.split delivery_task.split)
  ultimately show ?case using deliver_done_account(3)[OF world_okD[OF 8], of l name ack] by (simp add: owed_chain)
next
  case (10 name w)
  from remove_account(4)[OF world_okD[OF 10], of l name] show ?case
    by (cases "bt_get (ch_observers (cw_chain w)) name") (simp_all add: owed_chain due_def settled_def observer_owed_def)
qed (auto simp: owed_chain critical_sections world_okD due_def settled_def split: option.split)

interpretation handler: accounted_steps chain_step world_ok "owed l" "due l" "settled l" for l
  by unfold_locales (auto intro: chain_step_keeps chain_step_balances)

subsection \<open>A run of the handler\<close>

lemma losses_take_registry [simp]: "ch_registry (fst (losses_take l st)) = ch_registry st"
  by (simp add: losses_take_def)

text \<open>The steps of one run, each ending with the calls in flight it found.\<close>

definition reaches :: "chain_op list \<Rightarrow> chain \<Rightarrow> chain \<Rightarrow> bool" where
  "reaches ops st st' \<longleftrightarrow>
     (\<forall>calls. fst (run_steps chain_step ops \<lparr>cw_chain = st, cw_calls = calls\<rparr>) = \<lparr>cw_chain = st', cw_calls = calls\<rparr>)"

lemma reaches_append: "reaches xs st st' \<Longrightarrow> reaches ys st' st'' \<Longrightarrow> reaches (xs @ ys) st st''"
  by (simp add: reaches_def run_steps_append case_prod_unfold)

lemma reaches_fold:
  assumes "\<And>x st. \<exists>ops. reaches ops st (f x st)"
  shows "\<exists>ops. reaches ops st (fold f xs st)"
proof (induction xs arbitrary: st)
  case Nil
  then show ?case by (intro exI[of _ "[]"]) (simp add: reaches_def)
next
  case (Cons x xs)
  then show ?case using assms[of st x] reaches_append by fastforce
qed

lemma reaches_missed: "reaches [Miss name] st (missed name st)"
  by (simp add: reaches_def)

lemma reaches_observe: "reaches [Observe name event] st (observe event name st)"
  by (simp add: reaches_def)

lemma reaches_intercept: "\<exists>ops. reaches ops st (fst (intercept_one env event p (st, out)))"
proof -
  obtain i name addr where p: "p = (i, name, addr)" by (cases p) auto
  let ?left = "ce_start env + from_millis CHAIN_BUDGET_MS - ce_now env i"
  obtain st1 c where b: "begin_call name st = (st1, c)" by fastforce
  let ?answer = "client_intercept env addr \<lparr>iq_event = event, iq_response_so_far = out_response out,
    iq_deadline_ms = deadline_ms ?left\<rparr> ?left (ic_reported c)"
  show ?thesis
  proof (cases "?left = 0")
    case True
    then show ?thesis using reaches_missed[of name st] by (auto simp: p intercept_one_def)
  next
    case False
    then have "reaches [BeginCall name, EndCall 0 (\<not> isl ?answer)] st (fst (intercept_one env event p (st, out)))"
      using b by (cases ?answer) (simp_all add: p intercept_one_def reaches_def Let_def)
    then show ?thesis by blast
  qed
qed

lemma reaches_intercepts:
  "\<exists>ops. reaches ops st (fst (fold (intercept_one env event) ps (st, out)))"
proof (induction ps arbitrary: st out)
  case Nil
  then show ?case by (intro exI[of _ "[]"]) (simp add: reaches_def)
next
  case (Cons p ps)
  obtain st1 out1 where one: "intercept_one env event p (st, out) = (st1, out1)" by fastforce
  then obtain ops where "reaches ops st st1" using reaches_intercept[of st env event p out] by auto
  moreover obtain ops' where "reaches ops' st1 (fst (fold (intercept_one env event) ps (st1, out1)))"
    using Cons.IH by blast
  ultimately show ?case using one reaches_append by fastforce
qed

lemma reaches_observers: "\<exists>ops. reaches ops st (run_observers event subs st)"
proof -
  let ?st = "fold (observe event) (map fst (sub_ready subs)) st"
  have "\<exists>ops. reaches ops st ?st" by (rule reaches_fold) (rule exI, rule reaches_observe)
  moreover have "\<exists>ops. reaches ops ?st (fold missed (sub_unready subs) ?st)"
    by (rule reaches_fold) (rule exI, rule reaches_missed)
  ultimately show ?thesis unfolding run_observers_def using reaches_append by blast
qed

lemma verdict_object: "client_intercept env addr req t n = Inr v \<Longrightarrow> \<exists>m. ir_response v = JObject m"
proof -
  assume "client_intercept env addr req t n = Inr v"
  then obtain v' :: intercept_response
    where "(case ir_response v' of JObject _ \<Rightarrow> Inr v' | _ \<Rightarrow> Inl (CallBody ''response is not a JSON object'')) = Inr v"
    unfolding client_intercept_def rbind_Inr by blast
  then show ?thesis by (cases "ir_response v'") auto
qed

lemma intercepts_object:
  "\<exists>m. out_response out = JObject m \<Longrightarrow>
     \<exists>m. out_response (snd (fold (intercept_one env event) ps (st, out))) = JObject m"
proof (induction ps arbitrary: st out)
  case (Cons p ps)
  obtain st1 out1 where one: "intercept_one env event p (st, out) = (st1, out1)" by fastforce
  then have "\<exists>m. out_response out1 = JObject m"
    using Cons.prems by (auto simp: intercept_one_def Let_def dest: verdict_object split: prod.splits if_splits sum.splits)
  then show ?case using Cons.IH one by simp
qed simp

lemma failing_intercepts:
  assumes "\<And>addr req t n. isl (ce_post env addr req t n)"
  shows "snd (fold (intercept_one env event) ps (st, out)) = out"
proof (induction ps arbitrary: st)
  case (Cons p ps)
  have "isl (client_intercept env addr req t n)" for addr req t n
    using assms[of addr req t n] by (auto simp: client_intercept_def isl_def)
  then have "snd (intercept_one env event p (st, out)) = out"
    by (auto simp: intercept_one_def Let_def isl_def split: prod.splits sum.splits)
       (metis Inr_Inl_False)
  then show ?case using Cons.IH by (metis (no_types) comp_apply fold_simps(2) prod.collapse)
qed simp

subsection \<open>Removed plugins\<close>

definition gone :: "agent_name \<Rightarrow> chain \<Rightarrow> bool" where
  "gone name st \<longleftrightarrow> \<not> is_installed name (ch_registry st)
     \<and> bt_get (ch_observers st) name = None \<and> bt_get (ch_losses st) name = None"

fun installs :: "agent_name \<Rightarrow> chain_op \<Rightarrow> bool" where
  "installs name (RegistryOp (Replace ps _)) = (name \<in> set (map rp_name ps))"
| "installs name (RegistryOp (Declare es _)) = (name \<in> set (map fst es))"
| "installs name _ = False"

lemma collect_installs: "bt_contains (bt_collect kvs) k \<longleftrightarrow> k \<in> set (map fst kvs)"
  by (simp add: bt_contains_def bt_get_collect map_of_eq_None_iff)

lemma is_installed_do:
  assumes "\<not> is_installed name r" "\<not> installs name (RegistryOp op)"
  shows "\<not> is_installed name (registry_do op r)"
  using assms
  by (cases op) (auto simp: is_installed_def bt_contains_def bt_get_collect map_of_eq_None_iff image_iff
      replace_plugins_def keep_rows_def set_listen_def next_hello_def clear_ready_if_def update_plugin_def
      declare_plugins_def accept_hello_def unhello_def set_ready_def set_degraded_def set_row_def set_activation_def
      remove_row_def remove_fleet_def Let_def split: option.splits if_splits)

lemma losses_for_gone: "gone name st \<Longrightarrow> gone name (fst (losses_for n st)) \<and> (n = name \<longrightarrow> losses_for n st = (st, None))"
  by (auto simp: gone_def losses_for_def Let_def split: option.split)

lemma gone_frame:
  "ch_observers st' = ch_observers st \<Longrightarrow> ch_losses st' = ch_losses st \<Longrightarrow> ch_registry st' = ch_registry st
     \<Longrightarrow> gone name st' \<longleftrightarrow> gone name st"
  by (simp add: gone_def)

lemma gone_losses [simp]:
  "gone name (losses_add l n st) \<longleftrightarrow> gone name st" "gone name (fst (losses_take l st)) \<longleftrightarrow> gone name st"
  by (simp_all add: gone_def)

lemma gone_set_observer: "gone name st \<Longrightarrow> n \<noteq> name \<Longrightarrow> gone name (set_observer n buf task o' st)"
  by (simp add: gone_def set_observer_def)

lemma gone_missed: "gone name st \<Longrightarrow> gone name (missed n st)"
  using losses_for_gone[of name st n] by (auto simp: missed_def split: prod.split option.split)

lemma gone_begin: "gone name st \<Longrightarrow> gone name (fst (begin_call n st))"
  using losses_for_gone[of name st n] by (auto simp: begin_call_def case_prod_unfold split: option.split)

lemma gone_queue:
  assumes "gone name st"
  shows "gone name (fst (queue_for n st))" "snd (queue_for n st) \<noteq> None \<Longrightarrow> n \<noteq> name"
proof -
  obtain st' r where lf: "losses_for n st = (st', r)" by fastforce
  have g: "gone name st'" "n = name \<Longrightarrow> r = None" using losses_for_gone[OF assms, of n] lf by auto
  show "snd (queue_for n st) \<noteq> None \<Longrightarrow> n \<noteq> name"
    using assms g(2) by (auto simp: queue_for_def lf gone_def split: option.splits)
  show "gone name (fst (queue_for n st))"
    using assms g by (auto simp: queue_for_def lf Let_def gone_def split: option.split)
qed

lemma gone_observe: "gone name st \<Longrightarrow> gone name (observe event n st)"
  using gone_queue[of name st n]
  by (auto simp: observe_def push_def Let_def gone_set_observer split: prod.split option.split)

lemma gone_delivery:
  assumes "gone name st"
  shows "gone name (deliver_drain n st)" "gone name (deliver_post n st)" "gone name (deliver_done n ack st)"
    "gone name (on_hello n st)" "gone name (remove_observer n st)" "gone name (remove_losses n st)"
    "gone name (fail_call c st)"
proof -
  have other: "n \<noteq> name" if "bt_get (ch_observers st) n = Some o'" for o' using assms that by (auto simp: gone_def)
  show "gone name (deliver_drain n st)" "gone name (deliver_done n ack st)" "gone name (on_hello n st)"
    "gone name (remove_observer n st)" "gone name (remove_losses n st)" "gone name (fail_call c st)"
    using assms other
    by (auto simp: deliver_drain_def deliver_done_def on_hello_def fail_call_def Let_def gone_set_observer
        remove_observer_def remove_losses_def gone_def[of name "_\<lparr>ch_losses := _\<rparr>"] gone_def[of name "_\<lparr>ch_observers := _\<rparr>"]
        split: option.split delivery_task.split)
       (auto simp: gone_def)
  show "gone name (deliver_post n st)"
    using assms other
    by (auto simp: deliver_post_def Let_def gone_set_observer case_prod_unfold split: option.split delivery_task.split)
qed

lemma gone_step: "gone name (cw_chain w) \<Longrightarrow> \<not> installs name op \<Longrightarrow> gone name (cw_chain (fst (chain_step op w)))"
proof (cases op)
  case (RegistryOp rop)
  assume "gone name (cw_chain w)" "\<not> installs name op"
  then show ?thesis using is_installed_do[of name "ch_registry (cw_chain w)" rop] RegistryOp by (simp add: gone_def)
next
  case (BeginCall n)
  assume "gone name (cw_chain w)"
  then show ?thesis using gone_begin[of name "cw_chain w" n] BeginCall by (simp add: case_prod_unfold)
qed (simp_all add: gone_missed gone_observe gone_delivery Let_def)

lemma gone_run:
  assumes "gone name (cw_chain w)" "list_all (\<lambda>op. \<not> installs name op) ops"
  shows "gone name (cw_chain (fst (run_steps chain_step ops w)))"
  using assms by (intro run_steps_invariant[where ok = "\<lambda>w. gone name (cw_chain w)"]) (auto intro: gone_step simp: list_all_iff)

section \<open>Properties\<close>



text \<open>
  C32. A removed plugin keeps nothing: once the registry no longer lists it and it has been removed,
  neither a queue nor a counter of its name exists again, whatever happens, until it is installed again.
\<close>

theorem removed_plugin_stays_gone:
  assumes "\<not> is_installed name (ch_registry st)" "list_all (\<lambda>op. \<not> installs name op) ops"
    and "w = fst (run_steps chain_step ops \<lparr>cw_chain = remove_plugin name st, cw_calls = calls\<rparr>)"
  shows "bt_get (ch_observers (cw_chain w)) name = None \<and> bt_get (ch_losses (cw_chain w)) name = None"
proof -
  have "gone name (remove_plugin name st)"
    using assms(1) by (simp add: gone_def remove_plugin_def remove_observer_def remove_losses_def)
  then have "gone name (cw_chain w)" unfolding assms(3) using assms(2) by (intro gone_run) simp_all
  then show ?thesis by (simp add: gone_def)
qed


subsection \<open>Witnesses\<close>

theorem removed_plugin_stays_gone_witness:
  "bt_get (ch_observers (cw_chain (fst (run_steps chain_step [Miss ''flow'', BeginCall ''flow'']
     \<lparr>cw_chain = remove_plugin ''flow'' (chain_new empty_registry), cw_calls = []\<rparr>)))) ''flow'' = None"
proof -
  have "\<not> is_installed ''flow'' (ch_registry (chain_new empty_registry))"
    by (simp add: chain_new_def empty_registry_def is_installed_def bt_contains_def)
  from removed_plugin_stays_gone[OF this, of "[Miss ''flow'', BeginCall ''flow'']"] show ?thesis by simp
qed

end
