(* ===== verification/Sessions.thy ===== *)
theory Sessions
  imports Steps
begin

text \<open>
  Browser sessions (crates/balerix-server/src/sessions.rs) and the comparison and bearer primitives
  they rest on (auth.rs). A login code is issued to the admin, redeemed once for a session, and the
  session's cookie is valid under its own scope only. \<open>random_hex\<close> is code outside the model: the
  random strings are arguments of the operations, and what the code relies on, that they do not
  repeat, is a hypothesis where it is needed. A header is a name with its text, when the value is
  text. Each operation holds the lock from beginning to end, so it is one function. The lemmas give
  the exact life of a code and of a session over every sequence of operations, and confine login
  targets to the mount.
\<close>

unbundle bit_operations_syntax

section \<open>Comparison and bearer\<close>

definition constant_time_eq :: "string \<Rightarrow> string \<Rightarrow> bool" where
  "constant_time_eq a b =
     (if length a \<noteq> length b then False
      else fold (\<lambda>(x, y) acc. acc OR (of_char x XOR of_char y)) (zip a b) (0 :: u8) = 0)"

type_synonym header_map = "(string \<times> string option) list"

definition header_get :: "header_map \<Rightarrow> string \<Rightarrow> string option" where
  "header_get headers name = Option.bind (map_of headers name) id"

definition ascii_lower :: "char \<Rightarrow> char" where
  "ascii_lower c = (if is_ascii_uppercase c then char_of (of_char c + 32 :: nat) else c)"

definition eq_ignore_ascii_case :: "string \<Rightarrow> string \<Rightarrow> bool" where
  "eq_ignore_ascii_case a b \<longleftrightarrow> map ascii_lower a = map ascii_lower b"

definition bearer :: "header_map \<Rightarrow> string option" where
  "bearer headers =
     Option.bind (header_get headers ''authorization'') (\<lambda>v.
     Option.bind (split_once (CHR '' '') (str_trim v)) (\<lambda>(scheme, rest).
       if \<not> eq_ignore_ascii_case scheme ''bearer'' then None
       else let tok = str_trim rest in if tok \<noteq> [] then Some tok else None))"

section \<open>Codes and sessions\<close>

definition CODE_TTL :: duration where
  "CODE_TTL = from_secs 60"

definition SESSION_TTL :: duration where
  "SESSION_TTL = from_secs (12 * 60 * 60)"

definition TOMBSTONE_TTL :: duration where
  "TOMBSTONE_TTL = from_secs (10 * 60)"

definition COOKIE :: string where
  "COOKIE = ''balerix_session''"

definition MOUNT_PREFIX :: string where
  "MOUNT_PREFIX = ''/v1/plugins/''"

definition SCOPED_PREFIX :: string where
  "SCOPED_PREFIX = ''/v1/s/''"

definition SCOPE_BYTES :: nat where
  "SCOPE_BYTES = 16"

datatype code_rejected = UnknownCode | UsedCode duration | ExpiredCode duration

datatype fate = Used | Expired

record sessions =
  ss_codes :: "(string, instant) btree"
  ss_dead :: "(string, instant \<times> fate) btree"
  ss_sessions :: "(string, string \<times> instant) btree"

record new_session =
  ns_id :: string
  ns_scope :: string

definition sessions_new :: sessions where
  "sessions_new = \<lparr>ss_codes = [], ss_dead = [], ss_sessions = []\<rparr>"

definition prune_sessions :: "instant \<Rightarrow> sessions \<Rightarrow> sessions" where
  "prune_sessions now s =
     (let lapsed = filter (\<lambda>(_, expiry). \<not> expiry > now) (ss_codes s);
          dead = fold (\<lambda>(code, expiry). bt_insert code (expiry, Expired)) lapsed (ss_dead s)
      in \<lparr>ss_codes = filter (\<lambda>(_, expiry). expiry > now) (ss_codes s),
          ss_dead = filter (\<lambda>(_, at, _). at + TOMBSTONE_TTL > now) dead,
          ss_sessions = filter (\<lambda>(_, _, expiry). expiry > now) (ss_sessions s)\<rparr>)"

definition find_entry :: "(string, 'v) btree \<Rightarrow> string \<Rightarrow> (string \<times> 'v) option" where
  "find_entry m code = find (\<lambda>(k, _). constant_time_eq k code) m"

definition issue_code_at :: "string \<Rightarrow> instant \<Rightarrow> sessions \<Rightarrow> sessions \<times> string" where
  "issue_code_at random now s =
     (let s = prune_sessions now s
      in (s\<lparr>ss_codes := bt_insert random (now + CODE_TTL) (ss_codes s)\<rparr>, random))"

definition redeem_at ::
  "string \<Rightarrow> instant \<Rightarrow> string \<Rightarrow> string \<Rightarrow> sessions \<Rightarrow> sessions \<times> (code_rejected + new_session)" where
  "redeem_at code now random_id random_scope s =
     (let s = prune_sessions now s
      in case find_entry (ss_codes s) code of
           None \<Rightarrow>
             (s, Inl (case find_entry (ss_dead s) code of
                Some (_, at, Used) \<Rightarrow> UsedCode (now - at)
              | Some (_, at, Expired) \<Rightarrow> ExpiredCode (now - at)
              | None \<Rightarrow> UnknownCode))
         | Some (key, _) \<Rightarrow>
             (s\<lparr>ss_codes := bt_remove key (ss_codes s),
                ss_dead := bt_insert key (now, Used) (ss_dead s),
                ss_sessions := bt_insert random_id (random_scope, now + SESSION_TTL) (ss_sessions s)\<rparr>,
              Inr \<lparr>ns_id = random_id, ns_scope = random_scope\<rparr>))"

definition is_valid_for_at :: "string \<Rightarrow> string \<Rightarrow> instant \<Rightarrow> sessions \<Rightarrow> sessions \<times> bool" where
  "is_valid_for_at i scope now s =
     (let s = prune_sessions now s
      in (s, case find_entry (ss_sessions s) i of Some (_, sc, _) \<Rightarrow> constant_time_eq sc scope | None \<Rightarrow> False))"

definition is_live :: "string \<Rightarrow> instant \<Rightarrow> sessions \<Rightarrow> sessions \<times> bool" where
  "is_live i now s = (let s = prune_sessions now s in (s, find_entry (ss_sessions s) i \<noteq> None))"

section \<open>Paths and cookies\<close>

definition scope_shape_ok :: "string \<Rightarrow> bool" where
  "scope_shape_ok scope \<longleftrightarrow>
     length scope = SCOPE_BYTES * 2
     \<and> list_all (\<lambda>b. is_ascii_digit b \<or> (CHR ''a'' \<le> b \<and> b \<le> CHR ''f'')) scope"

definition scoped_target :: "string \<Rightarrow> string \<Rightarrow> string" where
  "scoped_target scope to =
     (let below = (case strip_prefix ''/v1/'' to of Some s \<Rightarrow> s | None \<Rightarrow> to)
      in SCOPED_PREFIX @ scope @ ''/'' @ below)"

definition scope_path :: "string \<Rightarrow> string" where
  "scope_path scope = SCOPED_PREFIX @ scope @ ''/''"

definition cookie_pair :: "string \<Rightarrow> string \<Rightarrow> string option" where
  "cookie_pair name pair =
     (case split_once (CHR ''='') (str_trim pair) of
        Some (k, v) \<Rightarrow> if str_trim k = name then Some (str_trim v) else None
      | None \<Rightarrow> None)"

definition cookie_values :: "header_map \<Rightarrow> string \<Rightarrow> string list" where
  "cookie_values headers name =
     List.map_filter (cookie_pair name)
       (concat (map (split_on (CHR '';'')) (List.map_filter (\<lambda>(h, v). if h = ''cookie'' then v else None) headers)))"

definition cookie_value :: "header_map \<Rightarrow> string \<Rightarrow> string option" where
  "cookie_value headers name = (case cookie_values headers name of [] \<Rightarrow> None | v # _ \<Rightarrow> Some v)"

definition set_cookie :: "string \<Rightarrow> string \<Rightarrow> bool \<Rightarrow> string" where
  "set_cookie i scope secure =
     COOKIE @ ''='' @ i @ ''; HttpOnly; SameSite=Strict; Path='' @ scope_path scope
     @ (if secure then ''; Secure'' else [])"

definition trim_end_slash :: "string \<Rightarrow> string" where
  "trim_end_slash s = rev (dropWhile (\<lambda>c. c = CHR ''/'') (rev s))"

fun split_once_str :: "string \<Rightarrow> string \<Rightarrow> (string \<times> string) option" where
  "split_once_str d s =
     (case strip_prefix d s of
        Some rest \<Rightarrow> Some ([], rest)
      | None \<Rightarrow> (case s of [] \<Rightarrow> None | c # cs \<Rightarrow> map_option (apfst (Cons c)) (split_once_str d cs)))"

definition same_origin ::
  "string \<Rightarrow> bool \<Rightarrow> header_map \<Rightarrow> string option \<Rightarrow> string option \<Rightarrow> bool" where
  "same_origin http_method upgrade headers authority origin =
     (case header_get headers ''sec-fetch-site'' of
        Some site \<Rightarrow> str_trim site \<in> {''same-origin'', ''none''}
      | None \<Rightarrow>
          (case header_get headers ''origin'' of
             None \<Rightarrow> (http_method = ''GET'' \<or> http_method = ''HEAD'') \<and> \<not> upgrade
           | Some o' \<Rightarrow>
               let o' = trim_end_slash (str_trim o')
               in if origin = Some o' then True
                  else case (map_option str_trim authority, map_option snd (split_once_str ''://'' o')) of
                    (Some h, Some a) \<Rightarrow> a \<noteq> [] \<and> a = h
                  | _ \<Rightarrow> False))"

definition request_authority :: "header_map \<Rightarrow> string option \<Rightarrow> string option" where
  "request_authority headers uri_authority =
     (case map_option str_trim (header_get headers ''host'') of
        Some h \<Rightarrow> if h \<noteq> [] then Some h else uri_authority
      | None \<Rightarrow> uri_authority)"

definition target_char :: "char \<Rightarrow> bool" where
  "target_char b \<longleftrightarrow> is_ascii_alphanumeric b \<or> b \<in> set ''/._~-''"

definition login_target :: "string option \<Rightarrow> string option" where
  "login_target to =
     (let to = (case to of Some t \<Rightarrow> t | None \<Rightarrow> MOUNT_PREFIX);
          charset_ok = list_all target_char to;
          no_dot_segments = list_all (\<lambda>s. s \<notin> {''.'', ''..''}) (split_on (CHR ''/'') to)
      in if \<not> (str_starts_with to MOUNT_PREFIX \<and> charset_ok \<and> no_dot_segments) then None
         else let rest = drop (length MOUNT_PREFIX) to; bare_root = rest \<noteq> [] \<and> CHR ''/'' \<notin> set rest
              in Some (if bare_root then to @ ''/'' else to))"

section \<open>Sequences of operations\<close>

datatype session_op =
    Issue string instant
  | Redeem string instant string string
  | Check string string instant
  | Live string instant

datatype session_event =
    Issued string instant
  | Granted string instant string string
  | Refused code_rejected
  | Answer bool

fun session_step :: "session_op \<Rightarrow> sessions \<Rightarrow> sessions \<times> session_event list" where
  "session_step (Issue random now) s =
     (case issue_code_at random now s of (s', code) \<Rightarrow> (s', [Issued code now]))"
| "session_step (Redeem code now random_id random_scope) s =
     (case redeem_at code now random_id random_scope s of
        (s', Inr new) \<Rightarrow> (s', [Granted code now (ns_id new) (ns_scope new)])
      | (s', Inl why) \<Rightarrow> (s', [Refused why]))"
| "session_step (Check i scope now) s = map_prod id (\<lambda>b. [Answer b]) (is_valid_for_at i scope now s)"
| "session_step (Live i now) s = map_prod id (\<lambda>b. [Answer b]) (is_live i now s)"

fun op_time :: "session_op \<Rightarrow> instant" where
  "op_time (Issue _ now) = now"
| "op_time (Redeem _ now _ _) = now"
| "op_time (Check _ _ now) = now"
| "op_time (Live _ now) = now"

fun random_code :: "session_op \<Rightarrow> string list" where
  "random_code (Issue random _) = [random]"
| "random_code _ = []"

fun random_session :: "session_op \<Rightarrow> string list" where
  "random_session (Redeem _ _ random_id _) = [random_id]"
| "random_session _ = []"

text \<open>What \<open>random_hex\<close> and a monotone clock give: no code and no session id is drawn twice, and time never goes back.\<close>

definition plausible :: "session_op list \<Rightarrow> bool" where
  "plausible ops \<longleftrightarrow> distinct (concat (map random_code ops)) \<and> distinct (concat (map random_session ops))
     \<and> sorted (map op_time ops)"

section \<open>Lemmas\<close>

lemma xor_zero: "(x :: u8) XOR y = 0 \<longleftrightarrow> x = y"
proof
  assume "x XOR y = 0"
  then have "(x XOR y) XOR y = y" by simp
  then show "x = y" by (simp add: xor.assoc)
qed simp

lemma of_char_u8: "(of_char x :: u8) = of_char y \<longleftrightarrow> x = y"
proof
  assume eq: "(of_char x :: u8) = of_char y"
  have byte: "unat (of_char c :: u8) = of_char c" for c
  proof -
    have "(of_char c :: u8) = word_of_nat (of_char c)" by (simp add: of_nat_of_char)
    moreover have "of_char c < (256 :: nat)" by (metis of_char_of mod_less_divisor char_of_char zero_less_numeral)
    ultimately show ?thesis by (simp add: unat_of_nat)
  qed
  have "(of_char x :: nat) = of_char y" using eq byte by metis
  then show "x = y" by simp
qed simp

lemma or_zero: "(x :: u8) OR y = 0 \<longleftrightarrow> x = 0 \<and> y = 0"
  by (rule or_eq_0_iff)

lemma constant_time_eq_iff [simp]: "constant_time_eq a b \<longleftrightarrow> a = b"
proof -
  have "fold (\<lambda>(x, y) acc. acc OR (of_char x XOR of_char y)) (zip a b) (k :: u8) = 0 \<longleftrightarrow> k = 0 \<and> a = b"
    if "length a = length b" for k
    using that by (induction a b arbitrary: k rule: list_induct2) (auto simp: or_zero xor_zero of_char_u8)
  then show ?thesis by (auto simp: constant_time_eq_def)
qed

lemma find_entry_eq: "find_entry m c = map_option (Pair c) (bt_get m c)"
  by (induction m) (auto simp: find_entry_def bt_get_def)

lemma bt_get_filter_iff:
  assumes "bt_wf m" shows "bt_get (filter P m) k = Some v \<longleftrightarrow> bt_get m k = Some v \<and> P (k, v)"
  using bt_get_iff[OF bt_wf_filter[OF assms], of P k v] bt_get_iff[OF assms, of k v] by auto

definition session_inv :: "sessions \<Rightarrow> session_event set \<Rightarrow> instant \<Rightarrow> bool" where
  "session_inv s evs now \<longleftrightarrow>
     bt_wf (ss_codes s) \<and> bt_wf (ss_sessions s)
     \<and> (\<forall>c e. bt_get (ss_codes s) c = Some e \<longleftrightarrow>
          (\<exists>t. Issued c t \<in> evs \<and> e = t + CODE_TTL) \<and> now < e \<and> (\<forall>t i sc. Granted c t i sc \<notin> evs))
     \<and> (\<forall>i sc e. bt_get (ss_sessions s) i = Some (sc, e) \<longleftrightarrow>
          (\<exists>c t. Granted c t i sc \<in> evs \<and> e = t + SESSION_TTL) \<and> now < e)"

lemma prune_inv:
  assumes "session_inv s evs now" "now \<le> now'"
  shows "session_inv (prune_sessions now' s) evs now'"
  using assms
  by (auto simp: session_inv_def prune_sessions_def Let_def bt_get_filter_iff intro: bt_wf_filter)

lemma issue_inv:
  assumes "session_inv s evs now" "now \<le> now'" "\<And>t. Issued code t \<notin> evs" "\<And>t i sc. Granted code t i sc \<notin> evs"
  shows "session_inv (fst (issue_code_at code now' s)) (insert (Issued code now') evs) now'"
proof -
  have pos: "0 < CODE_TTL" by (simp add: CODE_TTL_def from_secs_def)
  show ?thesis using prune_inv[OF assms(1,2)] assms(3,4) pos
    by (auto simp: session_inv_def issue_code_at_def Let_def)
qed

lemma redeem_eq:
  "redeem_at code now i sc s =
     (let s = prune_sessions now s
      in case bt_get (ss_codes s) code of
           None \<Rightarrow>
             (s, Inl (case bt_get (ss_dead s) code of
                Some (at, Used) \<Rightarrow> UsedCode (now - at)
              | Some (at, Expired) \<Rightarrow> ExpiredCode (now - at)
              | None \<Rightarrow> UnknownCode))
         | Some _ \<Rightarrow>
             (s\<lparr>ss_codes := bt_remove code (ss_codes s), ss_dead := bt_insert code (now, Used) (ss_dead s),
                ss_sessions := bt_insert i (sc, now + SESSION_TTL) (ss_sessions s)\<rparr>,
              Inr \<lparr>ns_id = i, ns_scope = sc\<rparr>))"
  by (simp add: redeem_at_def find_entry_eq Let_def split: option.split)

lemma redeem_inv:
  assumes "session_inv s evs now" "now \<le> now'" "\<And>c t sc. Granted c t i sc \<notin> evs"
  shows "case redeem_at code now' i sc s of
      (s', Inr new) \<Rightarrow> new = \<lparr>ns_id = i, ns_scope = sc\<rparr> \<and> session_inv s' (insert (Granted code now' i sc) evs) now'
    | (s', Inl _) \<Rightarrow> session_inv s' evs now'"
proof -
  have pos: "0 < SESSION_TTL" by (simp add: SESSION_TTL_def from_secs_def)
  have inv: "session_inv (prune_sessions now' s) evs now'" by (rule prune_inv[OF assms(1,2)])
  then show ?thesis
  proof (cases "bt_get (ss_codes (prune_sessions now' s)) code")
    case (Some e)
    let ?p = "prune_sessions now' s"
    let ?s = "?p\<lparr>ss_codes := bt_remove code (ss_codes ?p), ss_dead := bt_insert code (now', Used) (ss_dead ?p),
      ss_sessions := bt_insert i (sc, now' + SESSION_TTL) (ss_sessions ?p)\<rparr>"
    have "session_inv ?s (insert (Granted code now' i sc) evs) now'"
      using inv assms(3) pos by (auto simp: session_inv_def) blast
    moreover have "redeem_at code now' i sc s = (?s, Inr \<lparr>ns_id = i, ns_scope = sc\<rparr>)" using Some by (simp add: redeem_eq Let_def)
    ultimately show ?thesis by simp
  qed (simp add: redeem_eq Let_def)
qed

lemma inert_events:
  "session_inv s (insert (Answer b) evs) now \<longleftrightarrow> session_inv s evs now"
  "session_inv s (insert (Refused why) evs) now \<longleftrightarrow> session_inv s evs now"
  by (simp_all add: session_inv_def)

lemma step_origin:
  "Issued c t \<in> set (snd (session_step op s)) \<Longrightarrow> c \<in> set (random_code op)"
  "Granted c t i sc \<in> set (snd (session_step op s)) \<Longrightarrow> i \<in> set (random_session op)"
  by (cases op; auto simp: issue_code_at_def redeem_eq Let_def split: option.splits)+

lemma event_origin:
  "Issued c t \<in> set (snd (run_steps session_step ops s)) \<Longrightarrow> c \<in> set (concat (map random_code ops))"
  "Granted c t i sc \<in> set (snd (run_steps session_step ops s)) \<Longrightarrow> i \<in> set (concat (map random_session ops))"
  using run_steps_output[of _ session_step ops s] step_origin by fastforce+

lemma grants_were_issued:
  assumes "session_inv s evs now" "\<And>c t i sc. Granted c t i sc \<in> evs \<Longrightarrow> \<exists>t'. Issued c t' \<in> evs"
    and "Granted c t i sc \<in> set (snd (session_step op s))" "now \<le> op_time op"
  shows "\<exists>t'. Issued c t' \<in> evs"
proof (cases op)
  case (Redeem code now' i' sc')
  from prune_inv[OF assms(1), of now'] assms(3,4) Redeem show ?thesis
    by (auto simp: redeem_eq Let_def session_inv_def split: option.splits)
qed (use assms(3) in \<open>auto simp: issue_code_at_def is_valid_for_at_def is_live_def Let_def\<close>)

lemma run_inv:
  assumes "plausible ops" "list_all (\<lambda>op. op_time op \<le> now) ops"
  shows "(\<exists>t0 \<le> now. session_inv (fst (run_steps session_step ops sessions_new)) (set (snd (run_steps session_step ops sessions_new))) t0)
    \<and> (\<forall>c t i sc. Granted c t i sc \<in> set (snd (run_steps session_step ops sessions_new))
         \<longrightarrow> (\<exists>t'. Issued c t' \<in> set (snd (run_steps session_step ops sessions_new))))"
  using assms
proof (induction ops arbitrary: now rule: rev_induct)
  case Nil
  then show ?case by (auto simp: session_inv_def sessions_new_def)
next
  case (snoc op ops)
  let ?run = "run_steps session_step ops sessions_new"
  let ?s = "fst ?run" and ?evs = "set (snd ?run)" and ?now = "op_time op"
  have ops: "plausible ops" "list_all (\<lambda>op. op_time op \<le> ?now) ops" "?now \<le> now"
    using snoc.prems by (auto simp: plausible_def sorted_append list_all_iff)
  obtain t0 where inv: "session_inv ?s ?evs t0" "t0 \<le> ?now"
    and granted: "\<And>c t i sc. Granted c t i sc \<in> ?evs \<Longrightarrow> \<exists>t'. Issued c t' \<in> ?evs"
    using snoc.IH[OF ops(1,2)] by blast
  have fresh_code: "c \<in> set (random_code op) \<Longrightarrow> Issued c t \<notin> ?evs" for c t
    using snoc.prems(1) event_origin(1)[of c t ops sessions_new] by (auto simp: plausible_def)
  have fresh_id: "i \<in> set (random_session op) \<Longrightarrow> Granted c t i sc \<notin> ?evs" for c t i sc
    using snoc.prems(1) event_origin(2)[of c t i sc ops sessions_new] by (auto simp: plausible_def)
  have "session_inv (fst (session_step op ?s)) (set (snd (session_step op ?s)) \<union> ?evs) ?now"
  proof (cases op)
    case (Issue code now')
    then have "session_inv (fst (issue_code_at code now' ?s)) (insert (Issued code now') ?evs) now'"
      using inv fresh_code granted by (intro issue_inv) fastforce+
    then show ?thesis using Issue by (simp add: issue_code_at_def Let_def)
  next
    case (Redeem code now' i sc)
    then show ?thesis using redeem_inv[OF inv(1), where now' = now' and i = i and code = code and sc = sc] inv(2) fresh_id
      by (auto simp: inert_events split: prod.splits sum.splits)
  next
    case (Check i sc now')
    then show ?thesis using prune_inv[OF inv(1), of now'] inv(2) by (simp add: is_valid_for_at_def Let_def inert_events)
  next
    case (Live i now')
    then show ?thesis using prune_inv[OF inv(1), of now'] inv(2) by (simp add: is_live_def Let_def inert_events)
  qed
  moreover have "\<exists>t'. Issued c t' \<in> ?evs" if "Granted c t i sc \<in> set (snd (session_step op ?s))" for c t i sc
    using grants_were_issued[OF inv(1) granted that inv(2)] .
  ultimately show ?case using ops(3) granted by (fastforce simp: run_steps_append case_prod_unfold Un_commute)
qed

lemma run_state:
  assumes "plausible ops" "list_all (\<lambda>op. op_time op \<le> now) ops" "run_steps session_step ops sessions_new = (s, evs)"
  shows "session_inv (prune_sessions now s) (set evs) now"
  using run_inv[OF assms(1,2)] prune_inv[of s "set evs" _ now] assms(3) by auto

lemma split_mount: "split_on (CHR ''/'') (MOUNT_PREFIX @ rest) = [[], ''v1'', ''plugins''] @ split_on (CHR ''/'') rest"
  using split_on_append[of "CHR ''/''" "''/v1/plugins''" rest] by (simp add: MOUNT_PREFIX_def)

definition target_rest_ok :: "string \<Rightarrow> bool" where
  "target_rest_ok rest \<longleftrightarrow>
     list_all target_char rest \<and> list_all (\<lambda>s. s \<notin> {''.'', ''..''}) (split_on (CHR ''/'') rest)"

lemma login_target_mount:
  "login_target (Some (MOUNT_PREFIX @ rest)) =
     (if \<not> target_rest_ok rest then None
      else Some (MOUNT_PREFIX @ rest @ (if rest \<noteq> [] \<and> CHR ''/'' \<notin> set rest then ''/'' else [])))"
proof -
  have "list_all target_char MOUNT_PREFIX" by (simp add: MOUNT_PREFIX_def target_char_def is_ascii_alphanumeric_def is_ascii_lowercase_def is_ascii_uppercase_def is_ascii_digit_def)
  then show ?thesis by (auto simp: login_target_def Let_def str_starts_with_def split_mount target_rest_ok_def)
qed

lemma login_target_Some:
  assumes "login_target to = Some p"
  shows "\<exists>rest. login_target (Some (MOUNT_PREFIX @ rest)) = Some p"
proof -
  let ?t = "case to of Some t \<Rightarrow> t | None \<Rightarrow> MOUNT_PREFIX"
  have same: "login_target (Some ?t) = Some p" using assms by (cases to) (simp_all add: login_target_def)
  then have "prefix MOUNT_PREFIX ?t"
    by (rule contrapos_pp) (simp add: login_target_def Let_def str_starts_with_def)
  then obtain rest where "?t = MOUNT_PREFIX @ rest" by (rule prefixE)
  then show ?thesis using same by auto
qed

section \<open>Properties\<close>

text \<open>
  C34. A login code lives exactly once: after any plausible sequence of operations, redeeming a code
  succeeds if and only if it was issued less than a minute ago and was never redeemed, whatever
  else was issued, redeemed or checked; and the session it gives carries the drawn id and scope.
\<close>

theorem login_code_once:
  assumes "plausible ops" "list_all (\<lambda>op. op_time op \<le> now) ops"
    and "run_steps session_step ops sessions_new = (s, evs)"
  shows "(case snd (redeem_at code now i sc s) of Inr new \<Rightarrow> new = \<lparr>ns_id = i, ns_scope = sc\<rparr> | Inl _ \<Rightarrow> False)
    \<longleftrightarrow> (\<exists>t. Issued code t \<in> set evs \<and> now < t + 60000000000) \<and> (\<forall>t i sc. Granted code t i sc \<notin> set evs)"
proof -
  let ?codes = "ss_codes (prune_sessions now s)"
  have "bt_get ?codes code \<noteq> None \<longleftrightarrow> (\<exists>e. bt_get ?codes code = Some e)" by simp
  also have "\<dots> \<longleftrightarrow> (\<exists>t. Issued code t \<in> set evs \<and> now < t + 60000000000) \<and> (\<forall>t i sc. Granted code t i sc \<notin> set evs)"
    using run_state[OF assms] by (auto simp: session_inv_def CODE_TTL_def from_secs_def)
  finally show ?thesis by (cases "bt_get ?codes code") (simp_all add: redeem_eq Let_def)
qed

text \<open>
  A session is valid exactly under its own scope and in its time: after any plausible sequence
  of operations, a session id is accepted for a scope if and only if a login granted that id with
  that very scope less than twelve hours ago.
\<close>

theorem session_scope_exact:
  assumes "plausible ops" "list_all (\<lambda>op. op_time op \<le> now) ops"
    and "run_steps session_step ops sessions_new = (s, evs)"
  shows "snd (is_valid_for_at i scope now s)
    \<longleftrightarrow> (\<exists>code t. Granted code t i scope \<in> set evs \<and> now < t + 43200000000000)"
proof -
  let ?s = "prune_sessions now s"
  have inv: "session_inv ?s (set evs) now" by (rule run_state[OF assms])
  have "snd (is_valid_for_at i scope now s) \<longleftrightarrow> (\<exists>e. bt_get (ss_sessions ?s) i = Some (scope, e))"
    by (auto simp: is_valid_for_at_def Let_def find_entry_eq split: option.split)
  then show ?thesis using inv by (auto simp: session_inv_def SESSION_TTL_def from_secs_def)
qed

text \<open>
  A login never sends the browser out of the mount: an accepted target is the mount followed by
  URL-safe characters without a dot segment, never a bare plugin root, accepted again as it is, and
  its scoped form stays below the path the session's cookie is scoped to.
\<close>

theorem login_target_confined:
  assumes "login_target to = Some p"
  shows "\<exists>rest. p = ''/v1/plugins/'' @ rest \<and> list_all target_char rest
    \<and> list_all (\<lambda>s. s \<noteq> ''.'' \<and> s \<noteq> ''..'') (split_on (CHR ''/'') rest)
    \<and> (rest = [] \<or> CHR ''/'' \<in> set rest) \<and> login_target (Some p) = Some p
    \<and> scoped_target scope p = scope_path scope @ ''plugins/'' @ rest"
proof -
  obtain r where r: "login_target (Some (MOUNT_PREFIX @ r)) = Some p" using login_target_Some[OF assms] by blast
  let ?rest = "r @ (if r \<noteq> [] \<and> CHR ''/'' \<notin> set r then ''/'' else [])"
  have ok: "target_rest_ok r" and p: "p = MOUNT_PREFIX @ ?rest"
    using r unfolding login_target_mount by (auto split: if_splits)
  have rest: "target_rest_ok ?rest"
    using ok split_on_append[of "CHR ''/''" r "[]"] by (auto simp: target_rest_ok_def target_char_def)
  have slash: "?rest = [] \<or> CHR ''/'' \<in> set ?rest" by auto
  have "login_target (Some p) = Some p" unfolding p login_target_mount using rest slash by auto
  moreover have "scoped_target scope p = scope_path scope @ ''plugins/'' @ ?rest"
    by (simp add: p scoped_target_def scope_path_def MOUNT_PREFIX_def)
  moreover have "p = ''/v1/plugins/'' @ ?rest" by (simp add: p MOUNT_PREFIX_def)
  moreover have "list_all target_char ?rest" "list_all (\<lambda>s. s \<noteq> ''.'' \<and> s \<noteq> ''..'') (split_on (CHR ''/'') ?rest)"
    using rest unfolding target_rest_ok_def by simp_all
  ultimately show ?thesis using slash by (intro exI[of _ ?rest] conjI)
qed

subsection \<open>Witnesses\<close>

definition sample_ops :: "session_op list" where
  "sample_ops = [Issue ''c1'' 5, Redeem ''c1'' 7 ''id1'' ''sc1'', Issue ''c2'' 8]"

lemma sample_run:
  "plausible sample_ops" "list_all (\<lambda>op. op_time op \<le> 9) sample_ops"
  "run_steps session_step sample_ops sessions_new =
     (fst (run_steps session_step sample_ops sessions_new), [Issued ''c1'' 5, Granted ''c1'' 7 ''id1'' ''sc1'', Issued ''c2'' 8])"
  by (simp_all add: sample_ops_def plausible_def sessions_new_def issue_code_at_def redeem_eq Let_def bt_get_def
      prune_sessions_def CODE_TTL_def SESSION_TTL_def TOMBSTONE_TTL_def from_secs_def)

theorem login_code_once_witness:
  "snd (redeem_at ''c2'' 9 ''id2'' ''sc2'' (fst (run_steps session_step sample_ops sessions_new)))
     = Inr \<lparr>ns_id = ''id2'', ns_scope = ''sc2''\<rparr>"
  using login_code_once[OF sample_run, where code = "''c2''" and i = "''id2''" and sc = "''sc2''"] by (auto split: sum.splits)

theorem session_scope_exact_witness:
  "snd (is_valid_for_at ''id1'' ''sc1'' 9 (fst (run_steps session_step sample_ops sessions_new)))"
  using session_scope_exact[OF sample_run, of "''id1''" "''sc1''"] by auto

theorem login_target_confined_witness:
  "scoped_target ''00'' ''/v1/plugins/web/'' = scope_path ''00'' @ ''plugins/'' @ ''web/''"
proof -
  have "login_target (Some ''/v1/plugins/web'') = Some ''/v1/plugins/web/''"
    by (simp add: login_target_def MOUNT_PREFIX_def str_starts_with_def target_char_def is_ascii_alphanumeric_def is_ascii_lowercase_def is_ascii_uppercase_def is_ascii_digit_def)
  from login_target_confined[OF this, of "''00''"] show ?thesis by auto
qed

end
