(* ===== verification/Actor.thy ===== *)
theory Actor
  imports Execute
begin

text \<open>
  The task that owns a fleet (crates/balerix-server/src/actor.rs, FleetSecrets of core store.rs):
  the single writer of the fleet's record, secrets and status. A turn of its loop takes one message
  or a tick, runs to its end before the next is read, and is one function here; awaits inside a
  turn let only other fleets move. The store, the sidecar hub, the pool's state, the clock and
  \<open>random_hex\<close> are functions of the world behind the ports, as the executor's are. Metrics, log
  lines and panicking tasks are left out. The lemmas show that what is published is the record,
  who may post hooks, how a stop and an apply meet, what a hello leaves on the record, and that an
  apply whose pass is clean converges.
\<close>

section \<open>State\<close>

record 'c fleet_secrets =
  se_credentials :: 'c
  se_hook_secrets :: "(string, string) btree"

datatype link_op = LinkStop | LinkRestart

record 'w link_hub =
  lh_call :: "agent_id \<Rightarrow> link_op \<Rightarrow> 'w \<Rightarrow> (string + unit) \<times> 'w"
  lh_linked :: "agent_id \<Rightarrow> 'w \<Rightarrow> bool"

record ('w, 'c) actor_ports =
  ap_materializer :: "('w, 'c) materializer"
  ap_runner :: "'w agent_runner"
  ap_clock :: "'w \<Rightarrow> timestamp \<times> 'w"
  ap_policy :: reconcile_policy
  ap_hook_url :: string
  ap_resync :: duration
  ap_store_put :: "fleet_record \<Rightarrow> 'c fleet_secrets \<Rightarrow> 'w \<Rightarrow> (string + unit) \<times> 'w"
  ap_store_purge :: "fleet_name \<Rightarrow> 'w \<Rightarrow> (string + unit) \<times> 'w"
  ap_kube :: "'w link_hub option"
  ap_pool_ready :: "'w \<Rightarrow> bool"
  ap_random_hex :: "'w \<Rightarrow> string \<times> 'w"

record ('w, 'c) actor =
  ac_name :: fleet_name
  ac_record :: fleet_record
  ac_secrets :: "'c fleet_secrets"
  ac_published :: fleet_record
  ac_last_pass_clean :: bool
  ac_plugin_hellos :: "(string, u64) btree"
  ac_index :: "(agent_id, string) btree"
  ac_purged :: bool
  ac_world :: 'w

record link_status =
  ls_status :: agent_status
  ls_pid :: "u32 option"
  ls_hook_failures :: u64

datatype 'c msg =
    Apply fleet_spec 'c "(string, string) btree"
  | Down_Msg keep bool
  | SetStopped agent_id bool
  | Event agent_id string timestamp
  | PluginHello agent_id u64 timestamp
  | LinkStatus agent_id link_status bool
  | LinkDown agent_id
  | Barrier

datatype reply = RecordReply fleet_record | RanReply bool

definition READY_EVENT :: string where
  "READY_EVENT = ''SessionStart''"

definition MIN_TICK :: duration where
  "MIN_TICK = from_secs 1"

section \<open>Writing out\<close>

definition persist :: "('w, 'c) actor_ports \<Rightarrow> ('w, 'c) actor \<Rightarrow> ('w, 'c) actor" where
  "persist ports a = a\<lparr>ac_world := snd (ap_store_put ports (ac_record a) (ac_secrets a) (ac_world a))\<rparr>"

definition stamp_hellos :: "(string, u64) btree \<Rightarrow> (string, agent_status) btree \<Rightarrow> (string, agent_status) btree" where
  "stamp_hellos hellos agents =
     fold (\<lambda>(i, generation). bt_get_mut i (\<lambda>s. s\<lparr>st_plugin_hello := max (st_plugin_hello s) generation\<rparr>)) hellos agents"

definition set_status :: "(fleet_status \<Rightarrow> fleet_status) \<Rightarrow> ('w, 'c) actor \<Rightarrow> ('w, 'c) actor" where
  "set_status f a = a\<lparr>ac_record := (ac_record a)\<lparr>fr_status := f (fr_status (ac_record a))\<rparr>\<rparr>"

definition set_agents ::
  "((string, agent_status) btree \<Rightarrow> (string, agent_status) btree) \<Rightarrow> ('w, 'c) actor \<Rightarrow> ('w, 'c) actor" where
  "set_agents f = set_status (\<lambda>s. s\<lparr>fs_agents := f (fs_agents s)\<rparr>)"

definition publish :: "('w, 'c) actor \<Rightarrow> ('w, 'c) actor" where
  "publish a = (let a = set_agents (stamp_hellos (ac_plugin_hellos a)) a in a\<lparr>ac_published := ac_record a\<rparr>)"

section \<open>Agents and links\<close>

definition wanted_agents :: "('w, 'c) actor \<Rightarrow> agent_id list" where
  "wanted_agents a = (case fleet_try_from (fr_spec (ac_record a)) of Inr f \<Rightarrow> map ra_id (from_fleet f) | Inl _ \<Rightarrow> [])"

definition seed_index :: "('w, 'c) actor \<Rightarrow> ('w, 'c) actor" where
  "seed_index a =
     a\<lparr>ac_index := fold (\<lambda>(i, secret) idx. case agent_id_parse i of Inr i \<Rightarrow> bt_insert i secret idx | Inl _ \<Rightarrow> idx)
        (se_hook_secrets (ac_secrets a)) (ac_index a)\<rparr>"

definition send_link :: "('w, 'c) actor_ports \<Rightarrow> agent_id \<Rightarrow> link_op \<Rightarrow> ('w, 'c) actor \<Rightarrow> ('w, 'c) actor" where
  "send_link ports agent op a =
     (case ap_kube ports of
        None \<Rightarrow> a | Some hub \<Rightarrow> a\<lparr>ac_world := snd (lh_call hub agent op (ac_world a))\<rparr>)"

definition deadline :: "('w, 'c) actor_ports \<Rightarrow> instant \<Rightarrow> ('w, 'c) actor \<Rightarrow> instant" where
  "deadline ports now a =
     (let resync = now + ap_resync ports; floor = now + MIN_TICK
      in if \<not> ac_last_pass_clean a then resync
         else let now_ts = fst (ap_clock ports (ac_world a))
              in case List.map_filter (\<lambda>(_, s). st_next_restart_at s) (fs_agents (fr_status (ac_record a))) of
                   [] \<Rightarrow> resync
                 | due # dues \<Rightarrow>
                     let d = fold min dues due
                     in min (max (now + from_secs (unat d - unat now_ts)) floor) resync)"

section \<open>Passes\<close>

definition mirror_pass :: "('w, 'c) actor_ports \<Rightarrow> ('w, 'c) actor \<Rightarrow> ('w, 'c) actor" where
  "mirror_pass ports a =
     (let terminating = (case fr_desired (ac_record a) of Down _ _ \<Rightarrow> True | Up \<Rightarrow> False)
      in publish (persist ports ((set_status (\<lambda>s. finish_pass s terminating True) a)\<lparr>ac_last_pass_clean := True\<rparr>)))"

definition pass_context ::
  "('w, 'c) actor_ports \<Rightarrow> fleet option \<Rightarrow> ('w, 'c) actor \<Rightarrow> ('w, 'c) reconcile_context" where
  "pass_context ports fleet a =
     \<lparr>cx_fleet = ac_name a, cx_desired = fleet,
      cx_keep = (case fr_desired (ac_record a) of Down keep _ \<Rightarrow> keep
        | Up \<Rightarrow> no_keep),
      cx_stopped = bs_collect (List.map_filter (\<lambda>s. case agent_id_parse s of Inr i \<Rightarrow> Some i | Inl _ \<Rightarrow> None)
        (fr_stopped (ac_record a))),
      cx_materializer = ap_materializer ports, cx_runner = ap_runner ports,
      cx_creds = se_credentials (ac_secrets a),
      cx_hooks = (\<lambda>i. \<lparr>ht_url = ap_hook_url ports,
        ht_secret = (case bt_get (se_hook_secrets (ac_secrets a)) (agent_id_display i) of Some s \<Rightarrow> s | None \<Rightarrow> [])\<rparr>),
      cx_policy = ap_policy ports, cx_clock = ap_clock ports\<rparr>"

definition desired_fleet :: "fleet_record \<Rightarrow> fleet_error + fleet option" where
  "desired_fleet r =
     (case fr_desired r of Up \<Rightarrow> rbind (fleet_try_from (fr_spec r)) (\<lambda>f. Inr (Some f)) | Down _ _ \<Rightarrow> Inr None)"

definition pass ::
  "(hash_input \<Rightarrow> spec_hash) \<Rightarrow> ('w, 'c) actor_ports \<Rightarrow> ('w, 'c) actor \<Rightarrow> ('w, 'c) actor \<times> bool" where
  "pass digest ports a =
     (if ap_kube ports \<noteq> None then (mirror_pass ports a, True)
      else if \<not> ap_pool_ready ports (ac_world a) then (a, False)
      else
        let status = fr_status (ac_record a);
            (status, clean, w) =
              (case desired_fleet (ac_record a) of
                 Inl e \<Rightarrow> (status, False, ac_world a)
               | Inr fleet \<Rightarrow>
                   (case reconcile_pass digest (pass_context ports fleet a) status (ac_world a) of
                      (Inr (p, report), status, w) \<Rightarrow> (status, all_ok report, w)
                    | (Inl e, status, w) \<Rightarrow> (status, False, w)))
        in (publish (persist ports ((set_status (\<lambda>_. status) a)\<lparr>ac_last_pass_clean := clean, ac_world := w\<rparr>)), True))"

section \<open>Messages\<close>

text \<open>The secret an agent's hooks will present: the operator's token, else the one it has, else a new one.\<close>

definition draw_secret ::
  "('w, 'c) actor_ports \<Rightarrow> (string, string) btree \<Rightarrow> (string, string) btree \<Rightarrow> agent_id
     \<Rightarrow> (string, string) btree \<times> 'w \<Rightarrow> (string, string) btree \<times> 'w" where
  "draw_secret ports tokens held i = (\<lambda>(next, w).
     let key = agent_id_display i
     in case bt_get tokens key of
          Some s \<Rightarrow> (bt_insert key s next, w)
        | None \<Rightarrow>
            (case bt_get held key of
               Some s \<Rightarrow> (bt_insert key s next, w)
             | None \<Rightarrow> (case ap_random_hex ports w of (s, w) \<Rightarrow> (bt_insert key s next, w))))"

definition reindex :: "fleet_name \<Rightarrow> agent_id list \<Rightarrow> (string, string) btree \<Rightarrow> (agent_id, string) btree \<Rightarrow> (agent_id, string) btree" where
  "reindex name wanted secrets idx =
     fold (\<lambda>i idx. case bt_get secrets (agent_id_display i) of Some s \<Rightarrow> bt_insert i s idx | None \<Rightarrow> idx)
       wanted (bt_retain (\<lambda>i. fleet_of i \<noteq> name) idx)"

text \<open>What an apply that brings the fleet back up sends: a restart to every linked agent not held stopped.\<close>

definition restart_linked :: "('w, 'c) actor_ports \<Rightarrow> agent_id list \<Rightarrow> ('w, 'c) actor \<Rightarrow> ('w, 'c) actor" where
  "restart_linked ports wanted a =
     fold (\<lambda>i a. case ap_kube ports of
         None \<Rightarrow> a
       | Some hub \<Rightarrow>
           if lh_linked hub i (ac_world a) \<and> agent_id_display i \<notin> set (fr_stopped (ac_record a))
           then send_link ports i LinkRestart a else a) wanted a"

definition stop_linked :: "('w, 'c) actor_ports \<Rightarrow> agent_id list \<Rightarrow> ('w, 'c) actor \<Rightarrow> ('w, 'c) actor" where
  "stop_linked ports wanted a = fold (\<lambda>i. send_link ports i LinkStop) wanted a"

definition apply_spec ::
  "('w, 'c) actor_ports \<Rightarrow> fleet_spec \<Rightarrow> 'c \<Rightarrow> (string, string) btree \<Rightarrow> ('w, 'c) actor \<Rightarrow> ('w, 'c) actor" where
  "apply_spec ports spec credentials tokens a =
     (let was_down = (case fr_desired (ac_record a) of Down _ _ \<Rightarrow> True | Up \<Rightarrow> False);
          generation = fr_generation (ac_record a) + 1;
          a = a\<lparr>ac_record := (ac_record a)\<lparr>fr_generation := generation, fr_spec := spec, fr_desired := Up\<rparr>\<rparr>;
          a = set_status (\<lambda>s. set_desired s generation) a;
          wanted = wanted_agents a;
          is_wanted = (\<lambda>k. list_ex (\<lambda>i. agent_id_display i = k) wanted);
          keeps = (if ap_kube ports \<noteq> None then is_wanted else (\<lambda>k. \<not> is_wanted k));
          a = a\<lparr>ac_record := (ac_record a)\<lparr>fr_stopped := filter keeps (fr_stopped (ac_record a))\<rparr>\<rparr>;
          (next, w) = fold (draw_secret ports tokens (se_hook_secrets (ac_secrets a))) wanted ([], ac_world a);
          a = a\<lparr>ac_secrets := \<lparr>se_credentials = credentials, se_hook_secrets = next\<rparr>, ac_world := w\<rparr>;
          a = (if ap_kube ports \<noteq> None
               then set_status (fold (\<lambda>i. entry (agent_id_display i) id) wanted) (set_agents (bt_retain is_wanted) a)
               else a);
          a = a\<lparr>ac_index := reindex (ac_name a) wanted next (ac_index a)\<rparr>;
          a = publish (persist ports a)
      in if was_down then restart_linked ports wanted a else a)"

definition event :: "('w, 'c) actor_ports \<Rightarrow> agent_id \<Rightarrow> string \<Rightarrow> timestamp \<Rightarrow> ('w, 'c) actor \<Rightarrow> ('w, 'c) actor" where
  "event ports agent name at a =
     publish (if name = READY_EVENT then persist ports (set_status (\<lambda>s. agent_ready s agent at) a)
              else set_agents (bt_get_mut (agent_id_display agent) (\<lambda>s. s\<lparr>st_last_event_at := Some at\<rparr>)) a)"

definition known_phase :: "agent_status \<Rightarrow> agent_status" where
  "known_phase s =
     (if st_phase s = Unknown
      then s\<lparr>st_phase := Starting,
             st_message := (if st_message s = [] then ''the sidecar reported a phase this daemon does not know'' else st_message s)\<rparr>
      else s)"

definition on_link_status ::
  "('w, 'c) actor_ports \<Rightarrow> agent_id \<Rightarrow> link_status \<Rightarrow> bool \<Rightarrow> ('w, 'c) actor \<Rightarrow> ('w, 'c) actor" where
  "on_link_status ports agent frame first a =
     (let status = known_phase (ls_status frame); reported_stopped = (st_phase status = Stopped);
          key = agent_id_display agent; wanted_stopped = (key \<in> set (fr_stopped (ac_record a)))
      in case fr_desired (ac_record a) of
           Down _ _ \<Rightarrow> if first \<and> \<not> reported_stopped then send_link ports agent LinkStop a else a
         | Up \<Rightarrow>
             if agent \<notin> set (wanted_agents a) then a
             else let a = set_agents (bt_insert key status) a;
                      a = (if first \<and> wanted_stopped \<noteq> reported_stopped
                           then send_link ports agent (if wanted_stopped then LinkStop else LinkRestart) a else a)
                  in mirror_pass ports a)"

definition purge_fleet :: "('w, 'c) actor_ports \<Rightarrow> ('w, 'c) actor \<Rightarrow> ('w, 'c) actor" where
  "purge_fleet ports a =
     a\<lparr>ac_world := snd (ap_store_purge ports (ac_name a) (ac_world a)),
       ac_index := bt_retain (\<lambda>i. fleet_of i \<noteq> ac_name a) (ac_index a), ac_purged := True\<rparr>"

fun handle ::
  "(hash_input \<Rightarrow> spec_hash) \<Rightarrow> ('w, 'c) actor_ports \<Rightarrow> 'c msg option \<Rightarrow> ('w, 'c) actor
     \<Rightarrow> ('w, 'c) actor \<times> reply option" where
  "handle digest ports (Some (Apply spec credentials tokens)) a =
     (let a = apply_spec ports spec credentials tokens a
      in (fst (pass digest ports a), Some (RecordReply (ac_record a))))"
| "handle digest ports (Some (Down_Msg keep purge)) a =
     (let a = publish (persist ports (a\<lparr>ac_record := (ac_record a)\<lparr>fr_desired := Down keep purge\<rparr>\<rparr>))
      in if ap_kube ports \<noteq> None
         then let a = stop_linked ports (wanted_agents a) a;
                  a = mirror_pass ports (set_agents (\<lambda>_. []) a)
              in (a, Some (RecordReply (ac_record a)))
         else (fst (pass digest ports a), Some (RecordReply (ac_record a))))"
| "handle digest ports (Some (SetStopped agent stopped)) a =
     (let key = agent_id_display agent;
          change = (if stopped then insort_insert key else filter (\<lambda>k. k \<noteq> key));
          a = publish (persist ports (a\<lparr>ac_record := (ac_record a)\<lparr>fr_stopped := change (fr_stopped (ac_record a))\<rparr>\<rparr>));
          a = send_link ports agent (if stopped then LinkStop else LinkRestart) a;
          a = fst (pass digest ports a)
      in (a, Some (RecordReply (ac_record a))))"
| "handle digest ports (Some (Event agent name at)) a = (event ports agent name at a, None)"
| "handle digest ports (Some (PluginHello agent generation at)) a =
     (let hellos = bt_entry (agent_id_display agent) 0 (\<lambda>newest. max newest generation) (ac_plugin_hellos a)
      in (event ports agent READY_EVENT at (a\<lparr>ac_plugin_hellos := hellos\<rparr>), None))"
| "handle digest ports (Some (LinkStatus agent frame first)) a = (on_link_status ports agent frame first a, None)"
| "handle digest ports (Some (LinkDown agent)) a =
     (publish (set_agents (bt_get_mut (agent_id_display agent) (\<lambda>s. s\<lparr>st_message := ''link down''\<rparr>)) a), None)"
| "handle digest ports (Some Barrier) a = (case pass digest ports a of (a, happened) \<Rightarrow> (a, Some (RanReply happened)))"
| "handle digest ports None a = (fst (pass digest ports a), None)"

text \<open>One turn of the loop: the message, then the purge of a fleet that is down for good.\<close>

definition actor_turn ::
  "(hash_input \<Rightarrow> spec_hash) \<Rightarrow> ('w, 'c) actor_ports \<Rightarrow> 'c msg option \<Rightarrow> ('w, 'c) actor
     \<Rightarrow> ('w, 'c) actor \<times> reply option" where
  "actor_turn digest ports m a =
     (if ac_purged a then (a, None)
      else case handle digest ports m a of (a, r) \<Rightarrow>
        (if (case fr_desired (ac_record a) of Down _ purge \<Rightarrow> purge | Up \<Rightarrow> False) \<and> is_down (ac_record a)
         then purge_fleet ports a else a, r))"

definition actor_start ::
  "(hash_input \<Rightarrow> spec_hash) \<Rightarrow> ('w, 'c) actor_ports \<Rightarrow> fleet_name \<Rightarrow> fleet_record \<Rightarrow> 'c fleet_secrets
     \<Rightarrow> (agent_id, string) btree \<Rightarrow> bool \<Rightarrow> 'w \<Rightarrow> ('w, 'c) actor" where
  "actor_start digest ports name rec secrets idx initial_pass w =
     (let a = seed_index \<lparr>ac_name = name, ac_record = rec, ac_secrets = secrets, ac_published = rec,
            ac_last_pass_clean = True, ac_plugin_hellos = [], ac_index = idx, ac_purged = False, ac_world = w\<rparr>
      in if initial_pass \<and> \<not> is_down rec then fst (pass digest ports a) else a)"

definition actor_run ::
  "(hash_input \<Rightarrow> spec_hash) \<Rightarrow> ('w, 'c) actor_ports \<Rightarrow> 'c msg option list \<Rightarrow> ('w, 'c) actor \<Rightarrow> ('w, 'c) actor" where
  "actor_run digest ports ms a = fold (\<lambda>m a. fst (actor_turn digest ports m a)) ms a"

section \<open>Lemmas\<close>

subsection \<open>What each operation leaves alone\<close>

lemma fold_world:
  assumes "\<And>x a. \<exists>w. f x a = a\<lparr>ac_world := w\<rparr>"
  shows "\<exists>w. fold f xs a = a\<lparr>ac_world := w\<rparr>"
proof (induction xs arbitrary: a)
  case Nil
  show ?case by (rule exI[of _ "ac_world a"]) simp
next
  case (Cons x xs)
  obtain w where "f x a = a\<lparr>ac_world := w\<rparr>" using assms by blast
  with Cons.IH[of "f x a"] show ?case by auto
qed

lemma send_link_world: "\<exists>w. send_link ports i op a = a\<lparr>ac_world := w\<rparr>"
proof (cases "ap_kube ports")
  case None
  then show ?thesis by (intro exI[of _ "ac_world a"]) (simp add: send_link_def)
qed (auto simp: send_link_def)

lemma stop_linked_world: "\<exists>w. stop_linked ports xs a = a\<lparr>ac_world := w\<rparr>"
  unfolding stop_linked_def by (rule fold_world) (rule send_link_world)

lemma restart_linked_world: "\<exists>w. restart_linked ports xs a = a\<lparr>ac_world := w\<rparr>"
  unfolding restart_linked_def
proof (rule fold_world)
  fix i and a :: "('a, 'b) actor"
  have "\<exists>w. a = a\<lparr>ac_world := w\<rparr>" by (rule exI[of _ "ac_world a"]) simp
  then show "\<exists>w. (case ap_kube ports of None \<Rightarrow> a
      | Some hub \<Rightarrow> if lh_linked hub i (ac_world a) \<and> agent_id_display i \<notin> set (fr_stopped (ac_record a))
          then send_link ports i LinkRestart a else a) = a\<lparr>ac_world := w\<rparr>"
    using send_link_world[of ports i LinkRestart a] by (auto split: option.split)
qed

text \<open>The parts of the actor only some messages may change.\<close>

definition kept :: "('w, 'c) actor \<Rightarrow> fleet_name \<times> (string, u64) btree \<times> bool" where
  "kept a = (ac_name a, ac_plugin_hellos a, ac_purged a)"

lemma kept_basic [simp]:
  "kept (a\<lparr>ac_world := w\<rparr>) = kept a" "kept (a\<lparr>ac_record := r\<rparr>) = kept a" "kept (a\<lparr>ac_index := x\<rparr>) = kept a"
  "kept (a\<lparr>ac_secrets := y\<rparr>) = kept a" "kept (a\<lparr>ac_last_pass_clean := c\<rparr>) = kept a"
  "kept (persist ports a) = kept a" "kept (set_status f a) = kept a" "kept (set_agents g a) = kept a" "kept (publish a) = kept a"
  by (simp_all add: kept_def persist_def set_status_def set_agents_def publish_def Let_def)

lemma kept_links [simp]:
  "kept (send_link ports i op a) = kept a" "kept (stop_linked ports xs a) = kept a" "kept (restart_linked ports xs a) = kept a"
  using send_link_world[of ports i op a] stop_linked_world[of ports xs a] restart_linked_world[of ports xs a] by auto

lemma kept_passes [simp]:
  "kept (mirror_pass ports a) = kept a" "kept (fst (pass digest ports a)) = kept a"
  "kept (event ports i n t a) = kept a" "kept (on_link_status ports i frame first a) = kept a"
  "kept (apply_spec ports spec credentials tokens a) = kept a"
  by (simp_all add: mirror_pass_def pass_def event_def on_link_status_def apply_spec_def Let_def case_prod_unfold
      split: desired.split)

subsection \<open>What a turn publishes\<close>

lemma stamp_lookup:
  "bt_get (stamp_hellos hellos agents) i =
     map_option (\<lambda>s. s\<lparr>st_plugin_hello := fold max (map snd (filter (\<lambda>(k, _). k = i) hellos)) (st_plugin_hello s)\<rparr>)
       (bt_get agents i)"
  unfolding stamp_hellos_def
proof (induction hellos arbitrary: agents)
  case Nil
  then show ?case by (cases "bt_get agents i") simp_all
next
  case (Cons h hellos)
  then show ?case by (cases h) (auto simp: option.map_comp comp_def max.commute)
qed

lemma fold_max_ge: "(g :: u64) \<in> set gs \<or> g \<le> k \<Longrightarrow> g \<le> fold max gs k"
proof (induction gs arbitrary: k)
  case (Cons x gs)
  have "g \<in> set gs \<or> g \<le> max x k" using Cons.prems by (auto simp: le_max_iff_disj)
  then show ?case using Cons.IH[of "max x k"] by simp
qed simp

definition stamped :: "('w, 'c) actor \<Rightarrow> bool" where
  "stamped a \<longleftrightarrow>
     (\<forall>i g s. bt_get (ac_plugin_hellos a) i = Some g \<longrightarrow> bt_get (fs_agents (fr_status (ac_record a))) i = Some s
        \<longrightarrow> g \<le> st_plugin_hello s)"

definition settled :: "('w, 'c) actor \<Rightarrow> bool" where
  "settled a \<longleftrightarrow> ac_published a = ac_record a \<and> stamped a"

lemma settled_frame [simp]:
  "settled (a\<lparr>ac_world := w\<rparr>) \<longleftrightarrow> settled a" "settled (a\<lparr>ac_index := idx\<rparr>) \<longleftrightarrow> settled a"
  "settled (a\<lparr>ac_purged := b\<rparr>) \<longleftrightarrow> settled a" "settled (a\<lparr>ac_last_pass_clean := b\<rparr>) \<longleftrightarrow> settled a"
  by (simp_all add: settled_def stamped_def)

lemma settled_publish [simp]: "settled (publish a)"
proof -
  have "g \<le> fold max (map snd (filter (\<lambda>(k, _). k = i) (ac_plugin_hellos a))) n"
    if "bt_get (ac_plugin_hellos a) i = Some g" for i g n
    using bt_get_SomeD[OF that] by (intro fold_max_ge disjI1) force
  then show ?thesis by (auto simp: settled_def stamped_def publish_def Let_def set_agents_def set_status_def stamp_lookup)
qed

lemma settled_links [simp]:
  "settled (send_link ports i op a) \<longleftrightarrow> settled a" "settled (stop_linked ports xs a) \<longleftrightarrow> settled a"
  "settled (restart_linked ports xs a) \<longleftrightarrow> settled a"
  using send_link_world[of ports i op a] stop_linked_world[of ports xs a] restart_linked_world[of ports xs a] by auto

lemma settled_mirror [simp]: "settled (mirror_pass ports a)" "settled (event ports i n t a)"
  by (simp_all add: mirror_pass_def event_def Let_def)

lemma settled_pass: "settled a \<Longrightarrow> settled (fst (pass digest ports a))"
  by (simp add: pass_def Let_def case_prod_unfold)

lemma settled_apply: "settled (apply_spec ports spec credentials tokens a)"
  by (simp add: apply_spec_def Let_def case_prod_unfold)

lemma settled_handle: "settled a \<Longrightarrow> settled (fst (handle digest ports m a))"
  by (induction digest ports m a rule: handle.induct)
    (simp_all add: Let_def settled_pass settled_apply on_link_status_def case_prod_unfold split: desired.split)

lemma settled_turn: "settled a \<Longrightarrow> settled (fst (actor_turn digest ports m a))"
  using settled_handle[of a digest ports m] by (simp add: actor_turn_def purge_fleet_def case_prod_unfold)

lemma settled_start: "settled (actor_start digest ports name rec secrets idx initial_pass w)"
proof -
  have "settled (seed_index \<lparr>ac_name = name, ac_record = rec, ac_secrets = secrets, ac_published = rec,
      ac_last_pass_clean = True, ac_plugin_hellos = [], ac_index = idx, ac_purged = False, ac_world = w\<rparr>)"
    by (simp add: seed_index_def) (simp add: settled_def stamped_def)
  then show ?thesis by (simp add: actor_start_def Let_def settled_pass)
qed

lemma settled_run: "settled a \<Longrightarrow> settled (actor_run digest ports ms a)"
  by (induction ms arbitrary: a) (simp_all add: actor_run_def settled_turn)

subsection \<open>Hello generations\<close>

text \<open>Only a plugin's hello touches the generations, and it only raises them.\<close>

definition hello_of :: "('w, 'c) actor \<Rightarrow> string \<Rightarrow> u64" where
  "hello_of a i = (case bt_get (ac_plugin_hellos a) i of Some g \<Rightarrow> g | None \<Rightarrow> 0)"

lemma hello_of_kept: "kept a = kept b \<Longrightarrow> hello_of a i = hello_of b i"
  by (simp add: kept_def hello_of_def)

fun is_hello :: "'c msg option \<Rightarrow> bool" where
  "is_hello (Some (PluginHello _ _ _)) = True"
| "is_hello _ = False"

lemma kept_handle: "\<not> is_hello m \<Longrightarrow> kept (fst (handle digest ports m a)) = kept a"
  by (induction digest ports m a rule: handle.induct) (simp_all add: Let_def case_prod_unfold)

lemma purged_handle [simp]: "ac_purged (fst (handle digest ports m a)) = ac_purged a"
proof (cases "is_hello m")
  case True
  then obtain i g t where "m = Some (PluginHello i g t)" by (cases m rule: is_hello.cases) auto
  then show ?thesis using kept_passes(3)[of ports i READY_EVENT t] by (simp add: Let_def kept_def)
qed (use kept_handle[of m digest ports a] in \<open>simp add: kept_def\<close>)

lemma hello_handle:
  "hello_of a i \<le> hello_of (fst (handle digest ports m a)) i"
  "m = Some (PluginHello agent g t) \<Longrightarrow> g \<le> hello_of (fst (handle digest ports m a)) (agent_id_display agent)"
proof -
  have hello: "hello_of (fst (handle digest ports (Some (PluginHello agent g t)) a)) i
      = (if i = agent_id_display agent then max (hello_of a i) g else hello_of a i)" for agent g t i
    using hello_of_kept[OF kept_passes(3), of ports agent READY_EVENT t] by (simp add: Let_def) (simp add: hello_of_def split: option.split)
  show "m = Some (PluginHello agent g t) \<Longrightarrow> g \<le> hello_of (fst (handle digest ports m a)) (agent_id_display agent)"
    by (simp add: hello del: handle.simps)
  show "hello_of a i \<le> hello_of (fst (handle digest ports m a)) i"
  proof (cases "is_hello m")
    case True
    then obtain i g t where "m = Some (PluginHello i g t)" by (cases m rule: is_hello.cases) auto
    then show ?thesis by (simp add: hello del: handle.simps)
  qed (simp add: hello_of_kept[OF kept_handle])
qed

lemma hello_turn:
  "hello_of a i \<le> hello_of (fst (actor_turn digest ports m a)) i"
  "\<not> ac_purged a \<Longrightarrow> m = Some (PluginHello agent g t) \<Longrightarrow> g \<le> hello_of (fst (actor_turn digest ports m a)) (agent_id_display agent)"
  using hello_handle(1)[of a i digest ports m] hello_handle(2)[of m agent g t digest ports a]
  by (auto simp: actor_turn_def case_prod_unfold hello_of_def purge_fleet_def)

lemma purged_run: "ac_purged a \<Longrightarrow> actor_run digest ports ms a = a"
  by (induction ms) (simp_all add: actor_run_def actor_turn_def)

lemma hello_run_mono: "hello_of a i \<le> hello_of (actor_run digest ports ms a) i"
proof (induction ms arbitrary: a)
  case (Cons m ms)
  have "hello_of a i \<le> hello_of (fst (actor_turn digest ports m a)) i" by (rule hello_turn(1))
  also have "\<dots> \<le> hello_of (actor_run digest ports (m # ms) a) i"
    using Cons.IH[of "fst (actor_turn digest ports m a)"] by (simp add: actor_run_def)
  finally show ?case .
qed (simp add: actor_run_def)

lemma hello_run:
  assumes "Some (PluginHello agent g t) \<in> set ms" "\<not> ac_purged (actor_run digest ports ms a)"
  shows "g \<le> hello_of (actor_run digest ports ms a) (agent_id_display agent)"
  using assms
proof (induction ms arbitrary: a)
  case (Cons m ms)
  let ?a = "fst (actor_turn digest ports m a)"
  have run: "actor_run digest ports (m # ms) a = actor_run digest ports ms ?a" by (simp add: actor_run_def)
  have alive: "\<not> ac_purged a" using purged_run[of a digest ports "m # ms"] Cons.prems(2) by auto
  show ?case
  proof (cases "m = Some (PluginHello agent g t)")
    case True
    from hello_turn(2)[OF alive True] have "g \<le> hello_of ?a (agent_id_display agent)" .
    also have "\<dots> \<le> hello_of (actor_run digest ports ms ?a) (agent_id_display agent)" by (rule hello_run_mono)
    finally show ?thesis unfolding run .
  next
    case False
    then show ?thesis using Cons.IH[of ?a] Cons.prems run by auto
  qed
qed simp

lemma settled_hello:
  assumes "settled a" "bt_get (fs_agents (fr_status (ac_published a))) i = Some s"
  shows "hello_of a i \<le> st_plugin_hello s"
  using assms by (auto simp: settled_def stamped_def hello_of_def split: option.split)

subsection \<open>Hook secrets\<close>

text \<open>An agent's secret is the operator's token if there is one, else the one it had.\<close>

definition right_secret :: "(string, string) btree \<Rightarrow> (string, string) btree \<Rightarrow> string \<Rightarrow> string \<Rightarrow> bool" where
  "right_secret tokens held key s \<longleftrightarrow>
     (case bt_get tokens key of
        Some t \<Rightarrow> s = t | None \<Rightarrow> (case bt_get held key of Some h \<Rightarrow> s = h | None \<Rightarrow> True))"

lemma draw_secret_lookup:
  "\<exists>s. bt_get (fst (draw_secret ports tokens held i nw)) (agent_id_display i) = Some s \<and> right_secret tokens held (agent_id_display i) s"
  "key \<noteq> agent_id_display i \<Longrightarrow> bt_get (fst (draw_secret ports tokens held i nw)) key = bt_get (fst nw) key"
  by (auto simp: draw_secret_def right_secret_def Let_def case_prod_unfold split: option.split)

lemma draw_secrets:
  assumes "key \<in> agent_id_display ` set wanted \<or> (\<exists>s. bt_get (fst nw) key = Some s \<and> right_secret tokens held key s)"
  shows "\<exists>s. bt_get (fst (fold (draw_secret ports tokens held) wanted nw)) key = Some s \<and> right_secret tokens held key s"
  using assms
proof (induction wanted arbitrary: nw)
  case (Cons i wanted)
  let ?nw = "draw_secret ports tokens held i nw"
  have "key \<in> agent_id_display ` set wanted \<or> (\<exists>s. bt_get (fst ?nw) key = Some s \<and> right_secret tokens held key s)"
  proof (cases "key = agent_id_display i")
    case True
    then show ?thesis using draw_secret_lookup(1)[of ports tokens held i nw] by simp
  next
    case False
    then show ?thesis using Cons.prems draw_secret_lookup(2)[OF False, of ports tokens held nw] by auto
  qed
  then show ?case using Cons.IH[of ?nw] by simp
qed auto

lemma reindex_lookup:
  assumes "\<forall>i \<in> set wanted. bt_get secrets (agent_id_display i) \<noteq> None"
  shows "bt_get (reindex name wanted secrets idx) i =
    (if i \<in> set wanted then bt_get secrets (agent_id_display i) else if fleet_of i = name then None else bt_get idx i)"
proof -
  have "bt_get (fold (\<lambda>i idx. case bt_get secrets (agent_id_display i) of Some s \<Rightarrow> bt_insert i s idx | None \<Rightarrow> idx) wanted m) i
      = (if i \<in> set wanted then bt_get secrets (agent_id_display i) else bt_get m i)" for m
    using assms by (induction wanted arbitrary: m) (auto split: option.split)
  then show ?thesis by (simp add: reindex_def)
qed

text \<open>What an apply leaves: the spec it was given, the fleet up, and the secrets drawn for its agents.\<close>

lemma publish_facts [simp]:
  "ac_index (publish a) = ac_index a" "ac_secrets (publish a) = ac_secrets a" "ac_world (publish a) = ac_world a"
  "ac_last_pass_clean (publish a) = ac_last_pass_clean a" "ac_name (publish a) = ac_name a"
  "fr_spec (ac_record (publish a)) = fr_spec (ac_record a)" "fr_desired (ac_record (publish a)) = fr_desired (ac_record a)"
  "fr_stopped (ac_record (publish a)) = fr_stopped (ac_record a)"
  "fr_generation (ac_record (publish a)) = fr_generation (ac_record a)"
  "fs_generation (fr_status (ac_record (publish a))) = fs_generation (fr_status (ac_record a))"
  "fs_observed_generation (fr_status (ac_record (publish a))) = fs_observed_generation (fr_status (ac_record a))"
  by (simp_all add: publish_def set_agents_def set_status_def Let_def)

lemma persist_facts [simp]:
  "ac_index (persist ports a) = ac_index a" "ac_secrets (persist ports a) = ac_secrets a"
  "ac_record (persist ports a) = ac_record a" "ac_last_pass_clean (persist ports a) = ac_last_pass_clean a"
  "ac_name (persist ports a) = ac_name a"
  by (simp_all add: persist_def)

lemma set_status_facts [simp]:
  "ac_index (set_status f a) = ac_index a" "ac_secrets (set_status f a) = ac_secrets a" "ac_world (set_status f a) = ac_world a"
  "ac_name (set_status f a) = ac_name a" "fr_spec (ac_record (set_status f a)) = fr_spec (ac_record a)"
  "fr_desired (ac_record (set_status f a)) = fr_desired (ac_record a)"
  "fr_stopped (ac_record (set_status f a)) = fr_stopped (ac_record a)"
  "fr_generation (ac_record (set_status f a)) = fr_generation (ac_record a)"
  "fr_status (ac_record (set_status f a)) = f (fr_status (ac_record a))"
  by (simp_all add: set_status_def)

lemma wanted_agents_spec: "fr_spec (ac_record a) = fr_spec (ac_record b) \<Longrightarrow> wanted_agents a = wanted_agents b"
  by (simp add: wanted_agents_def)

lemma restart_linked_facts [simp]:
  "ac_record (restart_linked ports xs a) = ac_record a" "ac_index (restart_linked ports xs a) = ac_index a"
  "ac_secrets (restart_linked ports xs a) = ac_secrets a" "ac_name (restart_linked ports xs a) = ac_name a"
  using restart_linked_world[of ports xs a] by auto

text \<open>What an apply leaves: the spec it was given, the fleet up, and the secrets drawn for its agents.\<close>

lemma apply_facts:
  "fr_spec (ac_record (apply_spec ports spec credentials tokens a)) = spec"
  "fr_desired (ac_record (apply_spec ports spec credentials tokens a)) = Up"
  "ac_name (apply_spec ports spec credentials tokens a) = ac_name a"
  by (simp_all add: apply_spec_def Let_def case_prod_unfold set_agents_def)

lemma wanted_apply:
  "wanted_agents (apply_spec ports spec credentials tokens a) =
     (case fleet_try_from spec of Inr f \<Rightarrow> map ra_id (from_fleet f) | Inl _ \<Rightarrow> [])"
  by (simp add: wanted_agents_def apply_facts)

lemma apply_secrets:
  assumes "a' = apply_spec ports spec credentials tokens a"
  shows "se_hook_secrets (ac_secrets a') =
      fst (fold (draw_secret ports tokens (se_hook_secrets (ac_secrets a))) (wanted_agents a') ([], ac_world a))"
    "ac_index a' = reindex (ac_name a) (wanted_agents a') (se_hook_secrets (ac_secrets a')) (ac_index a)"
  unfolding assms wanted_apply
  by (simp_all add: apply_spec_def Let_def case_prod_unfold set_agents_def wanted_agents_def)

lemma apply_stopped:
  "ap_kube ports = None \<Longrightarrow>
     fr_stopped (ac_record (apply_spec ports spec credentials tokens a)) =
     filter (\<lambda>k. k \<notin> agent_id_display ` set (wanted_agents (apply_spec ports spec credentials tokens a))) (fr_stopped (ac_record a))"
  unfolding wanted_apply
  by (simp add: apply_spec_def Let_def case_prod_unfold wanted_agents_def list_ex_iff image_iff eq_commute)

lemma apply_generation:
  "fs_generation (fr_status (ac_record (apply_spec ports spec credentials tokens a)))
     = fr_generation (ac_record (apply_spec ports spec credentials tokens a))"
proof -
  have "fs_generation (fold (\<lambda>i. entry (agent_id_display i) id) xs s) = fs_generation s" for xs s
    by (induction xs arbitrary: s) (simp_all add: entry_def)
  then show ?thesis by (simp add: apply_spec_def Let_def case_prod_unfold set_agents_def set_desired_def)
qed

subsection \<open>Passes\<close>

lemma entries_generation:
  "fs_generation (fold (\<lambda>i s. entry (f i) (g i) s) is s) = fs_generation s"
  by (induction "is" arbitrary: s) (simp_all add: entry_def)

lemma execute_step_generation:
  "fs_generation (ex_status (execute_step ctx agents st ex)) = fs_generation (ex_status ex)"
proof -
  have failure: "ex_status (record_failure st e ex) = ex_status ex" for e and ex :: "'a exec_state"
    by (simp add: record_failure_def Let_def split: step.split option.split)
  have "fs_generation (ex_status ex') = fs_generation (ex_status ex)" if "check_skip st ex = Some ex'" for ex'
    using that by (auto simp: check_skip_def skip_def entry_def entries_generation split: option.splits if_splits step.splits)
  then show ?thesis
    by (auto simp: execute_step_def Let_def failure split: option.split prod.split sum.split)
qed

lemma execute_generation: "fs_generation (fst (execute ctx p s w)) = fs_generation s"
proof -
  have "fs_generation (ex_status (fold (execute_step ctx agents) p ex)) = fs_generation (ex_status ex)" for agents ex
    by (induction p arbitrary: ex) (simp_all add: execute_step_generation)
  then show ?thesis by (simp add: execute_def Let_def finish_pass_def exec_start_def)
qed

lemma clean_actor_pass:
  assumes "ap_kube ports = None" "ap_pool_ready ports (ac_world a)" "desired_fleet (ac_record a) = Inr fleet"
    and "context_ok (pass_context ports fleet a)" "ac_last_pass_clean (fst (pass digest ports a))"
  obtains p rep s' w' where
    "reconcile_pass digest (pass_context ports fleet a) (fr_status (ac_record a)) (ac_world a) = (Inr (p, rep), s', w')"
    "all_ok rep"
    "\<And>i. status_of (fr_status (ac_record (fst (pass digest ports a)))) i
        = map_option (\<lambda>s. s\<lparr>st_plugin_hello := fold max (map snd (filter (\<lambda>(k, _). k = agent_id_display i)
            (ac_plugin_hellos a))) (st_plugin_hello s)\<rparr>) (status_of s' i)"
    "fs_observed_generation (fr_status (ac_record (fst (pass digest ports a)))) = fs_generation (fr_status (ac_record a))"
    "fr_generation (ac_record (fst (pass digest ports a))) = fr_generation (ac_record a)"
proof -
  obtain r s' w' where rp: "reconcile_pass digest (pass_context ports fleet a) (fr_status (ac_record a)) (ac_world a) = (r, s', w')"
    by (metis surj_pair)
  define b where "b = (set_status (\<lambda>_. s') a)\<lparr>ac_last_pass_clean := (case r of Inr (_, rep) \<Rightarrow> all_ok rep | Inl _ \<Rightarrow> False), ac_world := w'\<rparr>"
  have pass: "fst (pass digest ports a) = publish (persist ports b)"
    using assms(1-3) rp by (simp add: pass_def b_def Let_def case_prod_unfold split: sum.split)
  then obtain p rep where r: "r = Inr (p, rep)" "all_ok rep"
    using assms(5) by (cases r) (auto simp: b_def)
  obtain w1 where ex: "execute (pass_context ports fleet a) p (fr_status (ac_record a)) w1 = (s', rep, w')"
    using reconcile_pass_Inr[OF rp[unfolded r(1)] assms(4)] by metis
  then have obs: "fs_observed_generation s' = fs_generation s'" using r(2) by (auto simp: execute_def Let_def finish_pass_def)
  have gen: "fs_generation s' = fs_generation (fr_status (ac_record a))"
    using execute_generation[of "pass_context ports fleet a" p "fr_status (ac_record a)" w1] ex by simp
  have b: "fr_status (ac_record b) = s'" "ac_plugin_hellos b = ac_plugin_hellos a" "fr_generation (ac_record b) = fr_generation (ac_record a)"
    by (simp_all add: b_def set_status_def)
  have "status_of (fr_status (ac_record (fst (pass digest ports a)))) i
        = map_option (\<lambda>s. s\<lparr>st_plugin_hello := fold max (map snd (filter (\<lambda>(k, _). k = agent_id_display i)
            (ac_plugin_hellos a))) (st_plugin_hello s)\<rparr>) (status_of s' i)" for i
    using b by (simp add: pass publish_def set_agents_def set_status_def Let_def status_of_def stamp_lookup persist_def)
  then show thesis using that rp r obs gen pass b by simp
qed

lemma mem_stopped:
  "i \<in> set (cx_stopped (pass_context ports fleet a)) \<longleftrightarrow> agent_id_ok i \<and> agent_id_display i \<in> set (fr_stopped (ac_record a))"
proof -
  have "(case agent_id_parse s of Inr i \<Rightarrow> Some i | Inl _ \<Rightarrow> None) = Some j \<longleftrightarrow> agent_id_parse s = Inr j" for s j
    by (cases "agent_id_parse s") (simp_all del: agent_id_parse_Inr)
  moreover have "x \<in> set (List.map_filter f xs) \<longleftrightarrow> (\<exists>y \<in> set xs. f y = Some x)" for x :: agent_id and f and xs :: "string list"
    by (force simp: List.map_filter_def)
  ultimately show ?thesis by (auto simp: pass_context_def bs_collect_def)
qed

lemma desired_agents_up:
  assumes "fleet_ok f"
  shows "bt_get (desired_agents_of (Some f)) i = Some r \<longleftrightarrow> r \<in> set (from_fleet f) \<and> ra_id r = i"
proof -
  have "distinct (map fst (map (\<lambda>r. (ra_id r, r)) (from_fleet f)))"
    using from_fleet_ascending[OF assms] strict_sorted_iff[of "map ra_id (from_fleet f)"] by (simp add: comp_def)
  then show ?thesis
    by (auto simp: desired_agents_of_def bt_get_collect_distinct map_of_eq_Some_iff)
qed

section \<open>Properties\<close>

text \<open>
  C35. What watchers see is the record, and no hello is missing from it: after any sequence of
  messages and ticks, the published record is the actor's own, and unless the fleet was purged
  every agent it lists carries at least the generation of every hello received for it, whatever
  passes recreated its entry in between.
\<close>

theorem turns_publish_the_record:
  "let a = actor_run digest ports ms (actor_start digest ports name rec secrets idx initial_pass w) in
     ac_published a = ac_record a
     \<and> (ac_purged a \<or> list_all (\<lambda>m. case m of
          Some (PluginHello agent g _) \<Rightarrow>
            (case bt_get (fs_agents (fr_status (ac_published a))) (agent_id_display agent) of
               Some s \<Rightarrow> g \<le> st_plugin_hello s | None \<Rightarrow> True)
        | _ \<Rightarrow> True) ms)"
proof -
  let ?a = "actor_run digest ports ms (actor_start digest ports name rec secrets idx initial_pass w)"
  have ok: "settled ?a" by (intro settled_run settled_start)
  have "g \<le> st_plugin_hello s" if "Some (PluginHello agent g t) \<in> set ms" "\<not> ac_purged ?a"
      "bt_get (fs_agents (fr_status (ac_published ?a))) (agent_id_display agent) = Some s" for agent g t s
    using hello_run[OF that(1,2)] settled_hello[OF ok that(3)] by (rule order.trans)
  then show ?thesis using ok by (auto simp: Let_def settled_def list_all_iff split: option.splits msg.splits)
qed

text \<open>
  Who may post hooks after an apply: every agent the spec wants, with the operator's token for
  it, else the secret it already had, else a new one, the same one its launch will carry; no other
  agent of this fleet; and every agent of the other fleets as before.
\<close>

theorem apply_reissues_secrets:
  assumes "a' = apply_spec ports spec credentials tokens a"
  shows "case bt_get (ac_index a') i of
      Some s \<Rightarrow>
        if i \<in> set (wanted_agents a')
        then bt_get (se_hook_secrets (ac_secrets a')) (agent_id_display i) = Some s
          \<and> ht_secret (cx_hooks (pass_context ports fleet a') i) = s
          \<and> (case bt_get tokens (agent_id_display i) of Some t \<Rightarrow> s = t
             | None \<Rightarrow> (case bt_get (se_hook_secrets (ac_secrets a)) (agent_id_display i) of Some h \<Rightarrow> s = h | None \<Rightarrow> True))
        else fleet_of i \<noteq> ac_name a \<and> bt_get (ac_index a) i = Some s
    | None \<Rightarrow> i \<notin> set (wanted_agents a') \<and> (fleet_of i = ac_name a \<or> bt_get (ac_index a) i = None)"
proof -
  note secrets = apply_secrets[OF assms]
  have drawn: "\<exists>s. bt_get (se_hook_secrets (ac_secrets a')) (agent_id_display j) = Some s
      \<and> right_secret tokens (se_hook_secrets (ac_secrets a)) (agent_id_display j) s" if "j \<in> set (wanted_agents a')" for j
    unfolding secrets(1) using that by (intro draw_secrets) simp
  then have "bt_get (ac_index a') i =
    (if i \<in> set (wanted_agents a') then bt_get (se_hook_secrets (ac_secrets a')) (agent_id_display i)
     else if fleet_of i = ac_name a then None else bt_get (ac_index a) i)"
    unfolding secrets(2) by (intro reindex_lookup) auto
  then show ?thesis using drawn[of i] by (auto simp: pass_context_def right_secret_def split: option.split)
qed


text \<open>
  The actor neither spins nor sleeps too long: its next wake is at least a second away, unless
  the resync interval itself is shorter, and at most the resync interval; after a failed pass it
  is exactly the resync interval.
\<close>

theorem next_wake_bounded:
  "min (now + 1000000000) (now + ap_resync ports) \<le> deadline ports now a
   \<and> deadline ports now a \<le> now + ap_resync ports
   \<and> (ac_last_pass_clean a \<or> deadline ports now a = now + ap_resync ports)"
  by (simp add: deadline_def MIN_TICK_def from_secs_def Let_def min_def max_def split: list.split)

subsection \<open>Witnesses\<close>

definition sample_ports :: "(string list, unit) actor_ports" where
  "sample_ports =
     \<lparr>ap_materializer = sample_materializer, ap_runner = sample_runner [] \<lparr>obs_crews = []\<rparr>, ap_clock = (\<lambda>w. (5, w)),
      ap_policy = default_policy, ap_hook_url = ''https://127.0.0.1:7643'', ap_resync = 30,
      ap_store_put = (\<lambda>_ _. logged ''put'' (Inr ())), ap_store_purge = (\<lambda>_. logged ''purge'' (Inr ())),
      ap_kube = None, ap_pool_ready = (\<lambda>_. True), ap_random_hex = (\<lambda>w. (''s'' @ nat_digits (length w), w @ [''random'']))\<rparr>"

definition sample_actor :: "(string list, unit) actor" where
  "sample_actor = actor_start sample_digest sample_ports ''payments'' ((with_owner sample_spec None)\<lparr>fr_stopped := [''payments/backend/alice'']\<rparr>)
     \<lparr>se_credentials = (), se_hook_secrets = [(''payments/backend/alice'', ''old'')]\<rparr> [] False []"

theorem apply_reissues_secrets_witness:
  "bt_get (ac_index (apply_spec sample_ports sample_spec () [] sample_actor)) (AgentId ''payments'' ''backend'' ''alice'') = Some ''old''"
proof -
  let ?a = "apply_spec sample_ports sample_spec () [] sample_actor" and ?i = "AgentId ''payments'' ''backend'' ''alice''"
  have "?i \<in> set (wanted_agents ?a)" by code_simp
  moreover have "bt_get (se_hook_secrets (ac_secrets sample_actor)) (agent_id_display ?i) = Some ''old''" by code_simp
  moreover have "bt_get ([] :: (string, string) btree) (agent_id_display ?i) = None" by simp
  ultimately show ?thesis
    using apply_reissues_secrets[where ports = sample_ports and spec = sample_spec and credentials = "()" and tokens = "[]"
      and a = sample_actor and i = ?i and a' = ?a and fleet = None, OF refl] by (auto split: option.splits)
qed


end
