(* ===== verification/Lanes.thy ===== *)
theory Lanes
  imports Protocol Steps
begin

text \<open>
  The command queue a chat plugin feeds its actor from, and its health cell
  (plugins/common/src/queue.rs): a bounded lane that drops its oldest entry, and a kept lane that
  never drops, with one arrival counter over both. Each method takes the queue's lock once, so it is
  one function here; \<open>pop\<close> is \<open>try_pop\<close> repeated until it gives a command, so a \<open>None\<close> is a wait.
  What a command is, is up to the plugin: its lane and its bytes (the trait \<open>Laned\<close>) are parameters.
  The lemmas show that the two lanes refine one list in arrival order, that nothing but the oldest
  event of a full bounded lane is ever lost, and that the counters never underflow.
\<close>

section \<open>The queue\<close>

definition QUEUE :: nat where
  "QUEUE = OBSERVER_QUEUE"

definition KEPT :: nat where
  "KEPT = 4096"

definition KEPT_BYTES :: nat where
  "KEPT_BYTES = 64 * 2 ^ 20"

datatype lane = Control | Inbound | Lossy | Latest

record 'c laned =
  ln_lane :: "'c \<Rightarrow> lane"
  ln_bytes :: "'c \<Rightarrow> nat"

record 'c lanes =
  la_kept :: "(u64 \<times> 'c) list"
  la_lossy :: "(u64 \<times> 'c) list"
  la_inbound :: nat
  la_inbound_bytes :: nat
  la_latest :: bool
  la_next :: u64

record 'c queue =
  qu_lanes :: "'c lanes"
  qu_dropped :: nat
  qu_gap :: bool

definition new_queue :: "'c queue" where
  "new_queue =
     \<lparr>qu_lanes = \<lparr>la_kept = [], la_lossy = [], la_inbound = 0, la_inbound_bytes = 0, la_latest = False, la_next = 0\<rparr>,
      qu_dropped = 0, qu_gap = False\<rparr>"

text \<open>\<open>usize::saturating_add\<close>.\<close>

definition usize_saturating_add :: "nat \<Rightarrow> nat \<Rightarrow> nat" where
  "usize_saturating_add a b = min (a + b) (2 ^ 64 - 1)"

text \<open>\<open>Full\<close> hands the refused command back.\<close>

definition queue_push :: "'c laned \<Rightarrow> 'c \<Rightarrow> 'c queue \<Rightarrow> 'c queue \<times> ('c + unit)" where
  "queue_push ld command q =
     (let la = qu_lanes q;
          seq = la_next la;
          bump = (\<lambda>q la. (q\<lparr>qu_lanes := la\<lparr>la_next := la_next la + 1\<rparr>\<rparr>, Inr ()))
      in case ln_lane ld command of
           Control \<Rightarrow> bump q (la\<lparr>la_kept := la_kept la @ [(seq, command)]\<rparr>)
         | Inbound \<Rightarrow>
             let bytes = ln_bytes ld command
             in if la_inbound la \<ge> KEPT \<or> usize_saturating_add (la_inbound_bytes la) bytes > KEPT_BYTES
                then (q, Inl command)
                else bump q (la\<lparr>la_inbound := la_inbound la + 1, la_inbound_bytes := la_inbound_bytes la + bytes,
                                la_kept := la_kept la @ [(seq, command)]\<rparr>)
         | Latest \<Rightarrow>
             if la_latest la then (q, Inr ())
             else bump q (la\<lparr>la_latest := True, la_kept := la_kept la @ [(seq, command)]\<rparr>)
         | Lossy \<Rightarrow>
             if length (la_lossy la) \<ge> QUEUE
             then bump (q\<lparr>qu_dropped := qu_dropped q + 1, qu_gap := True\<rparr>)
                    (la\<lparr>la_lossy := tl (la_lossy la) @ [(seq, command)]\<rparr>)
             else bump q (la\<lparr>la_lossy := la_lossy la @ [(seq, command)]\<rparr>))"

definition front :: "'a list \<Rightarrow> 'a option" where
  "front xs = (case xs of [] \<Rightarrow> None | x # _ \<Rightarrow> Some x)"

definition try_pop :: "'c laned \<Rightarrow> 'c queue \<Rightarrow> 'c queue \<times> 'c option" where
  "try_pop ld q =
     (let la = qu_lanes q;
          kept_first = (case (front (la_kept la), front (la_lossy la)) of
              (Some (k, _), Some (l, _)) \<Rightarrow> k < l
            | (k, _) \<Rightarrow> k \<noteq> None)
      in if \<not> kept_first
         then (q\<lparr>qu_lanes := la\<lparr>la_lossy := tl (la_lossy la)\<rparr>\<rparr>, map_option snd (front (la_lossy la)))
         else case la_kept la of
                [] \<Rightarrow> (q, None)
              | (_, command) # rest \<Rightarrow>
                  let la = la\<lparr>la_kept := rest\<rparr>;
                      la = (case ln_lane ld command of
                          Inbound \<Rightarrow> la\<lparr>la_inbound := la_inbound la - 1,
                                        la_inbound_bytes := la_inbound_bytes la - ln_bytes ld command\<rparr>
                        | Latest \<Rightarrow> la\<lparr>la_latest := False\<rparr>
                        | _ \<Rightarrow> la)
                  in (q\<lparr>qu_lanes := la\<rparr>, Some command))"

definition take_gap :: "'c queue \<Rightarrow> 'c queue \<times> bool" where
  "take_gap q = (q\<lparr>qu_gap := False\<rparr>, qu_gap q)"

definition queue_len :: "'c queue \<Rightarrow> nat" where
  "queue_len q = length (la_kept (qu_lanes q)) + length (la_lossy (qu_lanes q))"

definition queue_is_empty :: "'c queue \<Rightarrow> bool" where
  "queue_is_empty q \<longleftrightarrow> queue_len q = 0"

text \<open>The health cell: the last failure, if any.\<close>

type_synonym health = "string option"

definition health_ok :: "health \<Rightarrow> health" where
  "health_ok h = None"

definition health_fail :: "string \<Rightarrow> health \<Rightarrow> health" where
  "health_fail message h = Some message"

definition health_get :: "health \<Rightarrow> string + unit" where
  "health_get h = (case h of Some m \<Rightarrow> Inl m | None \<Rightarrow> Inr ())"

datatype 'c queue_op = Push 'c | TryPop | TakeGap | Len

datatype 'c queue_out = Pushed 'c "'c + unit" | Popped "'c option" | Gap bool | Length nat

definition queue_step :: "'c laned \<Rightarrow> 'c queue_op \<Rightarrow> 'c queue \<Rightarrow> 'c queue \<times> 'c queue_out list" where
  "queue_step ld op q =
     (case op of
        Push c \<Rightarrow> (case queue_push ld c q of (q, r) \<Rightarrow> (q, [Pushed c r]))
      | TryPop \<Rightarrow> (case try_pop ld q of (q, c) \<Rightarrow> (q, [Popped c]))
      | TakeGap \<Rightarrow> (case take_gap q of (q, g) \<Rightarrow> (q, [Gap g]))
      | Len \<Rightarrow> (q, [Length (queue_len q)]))"

section \<open>The abstract queue\<close>

text \<open>
  One list in arrival order. A command is refused or merged by what the list holds, and an event that
  finds as many events as the bounded lane takes removes the oldest of them.
\<close>

record 'c arrivals =
  ar_queue :: "'c list"
  ar_gap :: bool

fun remove_first :: "('a \<Rightarrow> bool) \<Rightarrow> 'a list \<Rightarrow> 'a list" where
  "remove_first P [] = []"
| "remove_first P (x # xs) = (if P x then xs else x # remove_first P xs)"

definition in_lane :: "'c laned \<Rightarrow> lane \<Rightarrow> 'c \<Rightarrow> bool" where
  "in_lane ld l c \<longleftrightarrow> ln_lane ld c = l"

definition arrive :: "'c laned \<Rightarrow> 'c \<Rightarrow> 'c arrivals \<Rightarrow> 'c arrivals \<times> ('c + unit)" where
  "arrive ld c a =
     (let xs = ar_queue a; inbound = filter (in_lane ld Inbound) xs
      in case ln_lane ld c of
           Control \<Rightarrow> (a\<lparr>ar_queue := xs @ [c]\<rparr>, Inr ())
         | Inbound \<Rightarrow>
             if length inbound \<ge> KEPT \<or> sum_list (map (ln_bytes ld) (inbound @ [c])) > KEPT_BYTES then (a, Inl c)
             else (a\<lparr>ar_queue := xs @ [c]\<rparr>, Inr ())
         | Latest \<Rightarrow> if list_ex (in_lane ld Latest) xs then (a, Inr ()) else (a\<lparr>ar_queue := xs @ [c]\<rparr>, Inr ())
         | Lossy \<Rightarrow>
             if length (filter (in_lane ld Lossy) xs) \<ge> QUEUE
             then (\<lparr>ar_queue = remove_first (in_lane ld Lossy) xs @ [c], ar_gap = True\<rparr>, Inr ())
             else (a\<lparr>ar_queue := xs @ [c]\<rparr>, Inr ()))"

definition arrivals_step :: "'c laned \<Rightarrow> 'c queue_op \<Rightarrow> 'c arrivals \<Rightarrow> 'c arrivals \<times> 'c queue_out list" where
  "arrivals_step ld op a =
     (case op of
        Push c \<Rightarrow> (case arrive ld c a of (a, r) \<Rightarrow> (a, [Pushed c r]))
      | TryPop \<Rightarrow> (a\<lparr>ar_queue := tl (ar_queue a)\<rparr>, [Popped (front (ar_queue a))])
      | TakeGap \<Rightarrow> (a\<lparr>ar_gap := False\<rparr>, [Gap (ar_gap a)])
      | Len \<Rightarrow> (a, [Length (length (ar_queue a))]))"

section \<open>The two lanes are one list\<close>

text \<open>
  The entries of both lanes, in arrival order, with their stamps: the kept lane is what is not
  \<open>Lossy\<close> of them, and the counters count what they name.
\<close>

definition stamped :: "'c laned \<Rightarrow> 'c queue \<Rightarrow> (u64 \<times> 'c) list \<Rightarrow> bool" where
  "stamped ld q zs \<longleftrightarrow>
     sorted_wrt (\<lambda>x y. fst x < fst y) zs
     \<and> (\<forall>z \<in> set zs. fst z < la_next (qu_lanes q))
     \<and> la_kept (qu_lanes q) = filter (\<lambda>z. \<not> in_lane ld Lossy (snd z)) zs
     \<and> la_lossy (qu_lanes q) = filter (\<lambda>z. in_lane ld Lossy (snd z)) zs
     \<and> la_inbound (qu_lanes q) = length (filter (in_lane ld Inbound) (map snd zs))
     \<and> la_inbound_bytes (qu_lanes q) = sum_list (map (ln_bytes ld) (filter (in_lane ld Inbound) (map snd zs)))
     \<and> la_latest (qu_lanes q) = list_ex (in_lane ld Latest) (map snd zs)"

definition latest_once :: "'c laned \<Rightarrow> 'c list \<Rightarrow> bool" where
  "latest_once ld xs \<longleftrightarrow> length (filter (in_lane ld Latest) xs) \<le> 1"

definition queue_rel :: "'c laned \<Rightarrow> 'c queue \<Rightarrow> 'c arrivals \<Rightarrow> bool" where
  "queue_rel ld q a \<longleftrightarrow>
     (\<exists>zs. stamped ld q zs \<and> ar_queue a = map snd zs) \<and> ar_gap a = qu_gap q \<and> latest_once ld (ar_queue a)"

lemma map_remove_first: "map f (remove_first (\<lambda>x. P (f x)) xs) = remove_first P (map f xs)"
  by (induction xs) auto

lemma filter_remove_first:
  "filter P (remove_first P xs) = tl (filter P xs)"
  "(\<And>x. Q x \<Longrightarrow> \<not> P x) \<Longrightarrow> filter Q (remove_first P xs) = filter Q xs"
  by (induction xs) auto

lemma set_remove_first: "x \<in> set (remove_first P xs) \<Longrightarrow> x \<in> set xs"
  by (induction xs) (auto split: if_splits)

lemma sorted_remove_first: "sorted_wrt R xs \<Longrightarrow> sorted_wrt R (remove_first P xs)"
  by (induction xs) (auto dest: set_remove_first)

lemma list_ex_filter: "list_ex P xs \<longleftrightarrow> filter P xs \<noteq> []"
  by (induction xs) auto

lemma in_lane_apart: "in_lane ld a c \<Longrightarrow> a \<noteq> b \<Longrightarrow> \<not> in_lane ld b c"
  by (auto simp: in_lane_def)

lemma latest_once_append [simp]:
  "latest_once ld (xs @ [c]) \<longleftrightarrow>
     (if in_lane ld Latest c then \<not> list_ex (in_lane ld Latest) xs else latest_once ld xs)"
  by (auto simp: latest_once_def filter_empty_conv list_ex_iff)

lemma stamps_append:
  assumes "stamped ld q zs" and "la_next (qu_lanes q) + 1 \<noteq> 0"
  shows "sorted_wrt (\<lambda>x y. fst x < fst y) (zs @ [(la_next (qu_lanes q), c)])"
    and "\<forall>z \<in> set (zs @ [(la_next (qu_lanes q), c)]). fst z < la_next (qu_lanes q) + 1"
proof -
  let ?n = "la_next (qu_lanes q)"
  have less: "?n < ?n + 1" using assms(2) unatSuc[of ?n] by (simp add: word_less_nat_alt add.commute)
  have old: "\<forall>z \<in> set zs. fst z < ?n" using assms(1) by (simp add: stamped_def)
  show "sorted_wrt (\<lambda>x y. fst x < fst y) (zs @ [(?n, c)])"
    using assms(1) old by (simp add: stamped_def sorted_wrt_append)
  show "\<forall>z \<in> set (zs @ [(?n, c)]). fst z < ?n + 1"
    using old less by (auto intro: less_trans)
qed


text \<open>What the oldest event leaves behind when the bounded lane drops it.\<close>

lemma stamped_drop:
  assumes "stamped ld q zs"
  defines "ys \<equiv> remove_first (\<lambda>z. in_lane ld Lossy (snd z)) zs"
  shows "sorted_wrt (\<lambda>x y. fst x < fst y) ys"
    and "filter (\<lambda>z. \<not> in_lane ld Lossy (snd z)) ys = la_kept (qu_lanes q)"
    and "filter (\<lambda>z. in_lane ld Lossy (snd z)) ys = tl (la_lossy (qu_lanes q))"
    and "la_inbound (qu_lanes q) = length (filter (in_lane ld Inbound) (map snd ys))"
    and "la_inbound_bytes (qu_lanes q) = sum_list (map (ln_bytes ld) (filter (in_lane ld Inbound) (map snd ys)))"
    and "list_ex (in_lane ld Latest) (map snd ys) = la_latest (qu_lanes q)"
proof -
  have other: "filter (in_lane ld l) (map snd ys) = filter (in_lane ld l) (map snd zs)" if "l \<noteq> Lossy" for l
    unfolding ys_def map_remove_first using that by (intro filter_remove_first(2)) (simp add: in_lane_def)
  show "la_inbound (qu_lanes q) = length (filter (in_lane ld Inbound) (map snd ys))"
    "la_inbound_bytes (qu_lanes q) = sum_list (map (ln_bytes ld) (filter (in_lane ld Inbound) (map snd ys)))"
    using other[of Inbound] assms(1) unfolding stamped_def by (simp_all only: lane.distinct not_False_eq_True simp_thms)
  show "list_ex (in_lane ld Latest) (map snd ys) = la_latest (qu_lanes q)"
    using other[of Latest] assms(1) by (simp add: stamped_def list_ex_filter)
qed (use assms in \<open>simp_all add: stamped_def filter_remove_first sorted_remove_first\<close>)

lemma push_step:
  assumes rel: "queue_rel ld q a" and room: "la_next (qu_lanes q) + 1 \<noteq> 0"
  shows "queue_rel ld (fst (queue_push ld c q)) (fst (arrive ld c a))
    \<and> snd (queue_push ld c q) = snd (arrive ld c a)
    \<and> unat (la_next (qu_lanes (fst (queue_push ld c q)))) \<le> Suc (unat (la_next (qu_lanes q)))"
proof -
  obtain zs where zs: "stamped ld q zs" "ar_queue a = map snd zs" and rest: "ar_gap a = qu_gap q" "latest_once ld (ar_queue a)"
    using rel by (auto simp: queue_rel_def)
  note app = stamps_append[OF zs(1) room, of c]
  have succ: "unat (la_next (qu_lanes q) + 1) = Suc (unat (la_next (qu_lanes q)))"
    using unatSuc[of "la_next (qu_lanes q)"] room by (simp add: add.commute)
  let ?new = "zs @ [(la_next (qu_lanes q), c)]"
  show ?thesis
  proof (cases "ln_lane ld c")
    case Control
    have "stamped ld (fst (queue_push ld c q)) ?new"
      using app zs(1) Control by (auto simp: stamped_def queue_push_def Let_def in_lane_def)
    with Control zs(2) rest succ show ?thesis
      by (auto simp: queue_push_def arrive_def queue_rel_def in_lane_def Let_def intro!: exI[of _ ?new])
  next
    case Inbound
    have full: "la_inbound (qu_lanes q) \<ge> KEPT \<or> usize_saturating_add (la_inbound_bytes (qu_lanes q)) (ln_bytes ld c) > KEPT_BYTES
      \<longleftrightarrow> length (filter (in_lane ld Inbound) (ar_queue a)) \<ge> KEPT
        \<or> sum_list (map (ln_bytes ld) (filter (in_lane ld Inbound) (ar_queue a) @ [c])) > KEPT_BYTES"
      using zs by (auto simp: stamped_def usize_saturating_add_def KEPT_BYTES_def min_def)
    have "stamped ld (fst (queue_push ld c q)) ?new"
      if "snd (queue_push ld c q) = Inr ()"
      using app zs(1) Inbound that by (auto simp: stamped_def queue_push_def Let_def in_lane_def split: if_splits)
    with Inbound zs rest succ rel full show ?thesis
      by (auto simp: queue_push_def arrive_def queue_rel_def in_lane_def Let_def split: if_splits intro!: exI[of _ ?new])
  next
    case Latest
    have "la_latest (qu_lanes q) = list_ex (in_lane ld Latest) (ar_queue a)" using zs by (simp add: stamped_def)
    moreover have "stamped ld (fst (queue_push ld c q)) ?new" if "\<not> la_latest (qu_lanes q)"
      using app zs(1) Latest that by (auto simp: stamped_def queue_push_def Let_def in_lane_def list_ex_iff)
    ultimately show ?thesis using Latest zs rest succ rel
      by (auto simp: queue_push_def arrive_def queue_rel_def in_lane_def Let_def split: if_splits intro!: exI[of _ ?new])
  next
    case Lossy
    let ?drop = "remove_first (\<lambda>z. in_lane ld Lossy (snd z)) zs @ [(la_next (qu_lanes q), c)]"
    have full: "length (la_lossy (qu_lanes q)) = length (filter (in_lane ld Lossy) (ar_queue a))"
      using zs by (simp add: stamped_def filter_map comp_def)
    show ?thesis
    proof (cases "length (la_lossy (qu_lanes q)) \<ge> QUEUE")
      case True
      have "stamped ld (fst (queue_push ld c q)) ?drop"
        using stamped_drop[OF zs(1)] app Lossy True
        by (auto simp: stamped_def queue_push_def Let_def in_lane_def sorted_wrt_append dest: set_remove_first)
      moreover have "map snd ?drop = remove_first (in_lane ld Lossy) (ar_queue a) @ [c]"
        by (simp add: zs(2) map_remove_first)
      moreover have "latest_once ld (remove_first (in_lane ld Lossy) (ar_queue a) @ [c])"
        using rest(2) Lossy filter_remove_first(2)[of "in_lane ld Latest" "in_lane ld Lossy"] in_lane_apart[of ld Latest]
        by (simp add: latest_once_def) (simp add: in_lane_def)
      ultimately show ?thesis using Lossy rest succ True full
        by (auto simp: queue_push_def arrive_def queue_rel_def in_lane_def Let_def intro!: exI[of _ ?drop])
    next
      case False
      have "stamped ld (fst (queue_push ld c q)) ?new"
        using app zs(1) Lossy False by (auto simp: stamped_def queue_push_def Let_def in_lane_def)
      with False Lossy zs(2) rest succ full show ?thesis
        by (auto simp: queue_push_def arrive_def queue_rel_def in_lane_def Let_def intro!: exI[of _ ?new])
    qed
  qed
qed


lemma try_pop_lossy:
  assumes "la_lossy (qu_lanes q) = (l, c) # rest" and "\<And>k b r. la_kept (qu_lanes q) = (k, b) # r \<Longrightarrow> \<not> k < l"
  shows "try_pop ld q = (q\<lparr>qu_lanes := (qu_lanes q)\<lparr>la_lossy := rest\<rparr>\<rparr>, Some c)"
  using assms by (auto simp: try_pop_def Let_def front_def split: list.split)

lemma try_pop_kept:
  assumes "la_kept (qu_lanes q) = (k, c) # rest" and "\<And>l b r. la_lossy (qu_lanes q) = (l, b) # r \<Longrightarrow> k < l"
  shows "try_pop ld q =
    (q\<lparr>qu_lanes := (case ln_lane ld c of
        Inbound \<Rightarrow> (qu_lanes q)\<lparr>la_kept := rest, la_inbound := la_inbound (qu_lanes q) - 1,
                      la_inbound_bytes := la_inbound_bytes (qu_lanes q) - ln_bytes ld c\<rparr>
      | Latest \<Rightarrow> (qu_lanes q)\<lparr>la_kept := rest, la_latest := False\<rparr>
      | _ \<Rightarrow> (qu_lanes q)\<lparr>la_kept := rest\<rparr>)\<rparr>, Some c)"
  using assms by (auto simp: try_pop_def Let_def front_def split: list.split lane.split)

lemma pop_step:
  assumes "queue_rel ld q a"
  shows "queue_rel ld (fst (try_pop ld q)) (a\<lparr>ar_queue := tl (ar_queue a)\<rparr>)
    \<and> snd (try_pop ld q) = front (ar_queue a)
    \<and> la_next (qu_lanes (fst (try_pop ld q))) = la_next (qu_lanes q)"
proof -
  obtain zs where zs: "stamped ld q zs" "ar_queue a = map snd zs" and rest: "ar_gap a = qu_gap q" "latest_once ld (ar_queue a)"
    using assms by (auto simp: queue_rel_def)
  show ?thesis
  proof (cases zs)
    case Nil
    with zs rest show ?thesis
      by (auto simp: try_pop_def queue_rel_def stamped_def front_def latest_once_def Let_def intro!: exI[of _ "[]"])
  next
    case (Cons z ys)
    have first: "fst z < fst y" if "y \<in> set ys" for y using zs(1) that by (auto simp: stamped_def Cons)
    then have nearer: "fst z < fst y" if "filter P ys = y # r" for P y r
      using first[of y] arg_cong[OF that, of "\<lambda>l. y \<in> set l"] by simp
    have "stamped ld (fst (try_pop ld q)) ys \<and> snd (try_pop ld q) = Some (snd z)
      \<and> qu_gap (fst (try_pop ld q)) = qu_gap q \<and> la_next (qu_lanes (fst (try_pop ld q))) = la_next (qu_lanes q)"
    proof (cases "in_lane ld Lossy (snd z)")
      case True
      then have "\<not> in_lane ld Inbound (snd z)" "\<not> in_lane ld Latest (snd z)" by (auto simp: in_lane_def)
      moreover have "try_pop ld q = (q\<lparr>qu_lanes := (qu_lanes q)\<lparr>la_lossy := filter (\<lambda>z. in_lane ld Lossy (snd z)) ys\<rparr>\<rparr>, Some (snd z))"
      proof (rule try_pop_lossy[where l = "fst z"])
        fix k b r assume "la_kept (qu_lanes q) = (k, b) # r"
        then have "filter (\<lambda>z. \<not> in_lane ld Lossy (snd z)) ys = (k, b) # r"
          using True zs(1) by (simp add: Cons stamped_def)
        from nearer[OF this] show "\<not> k < fst z" by auto
      qed (use True zs(1) in \<open>simp add: Cons stamped_def\<close>)
      ultimately show ?thesis using True zs(1) by (simp add: Cons stamped_def)
    next
      case False
      have kept: "la_kept (qu_lanes q) = (fst z, snd z) # filter (\<lambda>z. \<not> in_lane ld Lossy (snd z)) ys"
        and lossy: "la_lossy (qu_lanes q) = filter (\<lambda>z. in_lane ld Lossy (snd z)) ys"
        using False zs(1) by (simp_all add: Cons stamped_def)
      have pop: "try_pop ld q = (q\<lparr>qu_lanes := (case ln_lane ld (snd z) of
          Inbound \<Rightarrow> (qu_lanes q)\<lparr>la_kept := filter (\<lambda>z. \<not> in_lane ld Lossy (snd z)) ys, la_inbound := la_inbound (qu_lanes q) - 1,
                      la_inbound_bytes := la_inbound_bytes (qu_lanes q) - ln_bytes ld (snd z)\<rparr>
        | Latest \<Rightarrow> (qu_lanes q)\<lparr>la_kept := filter (\<lambda>z. \<not> in_lane ld Lossy (snd z)) ys, la_latest := False\<rparr>
        | _ \<Rightarrow> (qu_lanes q)\<lparr>la_kept := filter (\<lambda>z. \<not> in_lane ld Lossy (snd z)) ys\<rparr>)\<rparr>, Some (snd z))"
        by (rule try_pop_kept[OF kept]) (metis nearer fst_conv lossy)
      have "\<not> list_ex (in_lane ld Latest) (map snd ys)" if "in_lane ld Latest (snd z)"
        using rest(2) zs(2) that by (simp add: Cons latest_once_def list_ex_filter filter_map)
      with False zs(1) show ?thesis
        by (cases "ln_lane ld (snd z)") (simp_all add: pop Cons stamped_def in_lane_def)
    qed
    moreover have "latest_once ld (map snd ys)" using rest(2) zs(2) Cons by (auto simp: latest_once_def split: if_splits)
    ultimately show ?thesis using zs(2) rest(1) Cons by (auto simp: queue_rel_def front_def)
  qed
qed


lemma queue_step_rel:
  assumes "queue_rel ld q a" and "la_next (qu_lanes q) + 1 \<noteq> 0"
  shows "queue_rel ld (fst (queue_step ld op q)) (fst (arrivals_step ld op a))
    \<and> snd (queue_step ld op q) = snd (arrivals_step ld op a)
    \<and> unat (la_next (qu_lanes (fst (queue_step ld op q)))) \<le> Suc (unat (la_next (qu_lanes q)))"
proof (cases op)
  case (Push c)
  with push_step[OF assms, of c] show ?thesis
    by (simp add: queue_step_def arrivals_step_def case_prod_beta)
next
  case TryPop
  with pop_step[OF assms(1)] show ?thesis by (simp add: queue_step_def arrivals_step_def case_prod_beta)
next
  case TakeGap
  with assms(1) show ?thesis
    by (auto simp: queue_step_def arrivals_step_def take_gap_def queue_rel_def stamped_def split: prod.splits)
next
  case Len
  obtain zs where "stamped ld q zs" "ar_queue a = map snd zs" using assms(1) by (auto simp: queue_rel_def)
  then have "queue_len q = length (ar_queue a)"
    using sum_length_filter_compl[of "\<lambda>z. in_lane ld Lossy (snd z)" zs] by (simp add: stamped_def queue_len_def)
  with Len assms(1) show ?thesis by (simp add: queue_step_def arrivals_step_def)
qed

lemma queue_run_rel:
  assumes "queue_rel ld q a" and "unat (la_next (qu_lanes q)) + length ops < 2 ^ 64"
  shows "queue_rel ld (fst (run_steps (queue_step ld) ops q)) (fst (run_steps (arrivals_step ld) ops a))
    \<and> snd (run_steps (queue_step ld) ops q) = snd (run_steps (arrivals_step ld) ops a)"
  using assms
proof (induction ops arbitrary: q a)
  case (Cons op ops)
  have "la_next (qu_lanes q) + 1 \<noteq> 0"
  proof
    assume "la_next (qu_lanes q) + 1 = 0"
    then have "(unat (la_next (qu_lanes q)) + 1) mod 2 ^ 64 = 0"
      using unat_word_ariths(1)[of "la_next (qu_lanes q)" 1] by simp
    then show False using Cons.prems(2) by simp
  qed
  from queue_step_rel[OF Cons.prems(1) this, of op]
  have step: "queue_rel ld (fst (queue_step ld op q)) (fst (arrivals_step ld op a))"
      "snd (queue_step ld op q) = snd (arrivals_step ld op a)"
      "unat (la_next (qu_lanes (fst (queue_step ld op q)))) + length ops < 2 ^ 64"
    using Cons.prems(2) by simp_all
  from Cons.IH[OF step(1,3)] step(2) show ?case by (simp add: case_prod_beta)
qed simp

definition no_arrivals :: "'c arrivals" where
  "no_arrivals = \<lparr>ar_queue = [], ar_gap = False\<rparr>"

lemma new_queue_rel: "queue_rel ld new_queue no_arrivals"
  by (simp add: queue_rel_def stamped_def new_queue_def no_arrivals_def latest_once_def)


text \<open>
  C25. The two-lane queue is one list in arrival order: over any sequence of fewer than \<open>2^64\<close>
  operations every result (what is refused, what is popped, whether a gap is reported, the length) is that
  of a single list, in which a command leaves only by being popped, or as the oldest event of a full
  bounded lane.
\<close>

theorem queue_refines_arrivals:
  assumes "length ops < 2 ^ 64"
  shows "snd (run_steps (queue_step ld) ops new_queue) = snd (run_steps (arrivals_step ld) ops no_arrivals)"
  using queue_run_rel[OF new_queue_rel, of ops ld] assms by (simp add: new_queue_def)

definition sample_laned :: "nat laned" where
  "sample_laned = \<lparr>ln_lane = (\<lambda>n. if n < 10 then Lossy else if n < 20 then Inbound else if n < 30 then Latest else Control),
                   ln_bytes = (\<lambda>n. n)\<rparr>"

theorem queue_refines_arrivals_witness:
  "snd (run_steps (arrivals_step sample_laned) [Push 3, Push 30, Push 20, Push 21, Push 4, TryPop, TryPop, TryPop, TryPop, TryPop, Len] no_arrivals)
   = [Pushed 3 (Inr ()), Pushed 30 (Inr ()), Pushed 20 (Inr ()), Pushed 21 (Inr ()), Pushed 4 (Inr ()),
      Popped (Some 3), Popped (Some 30), Popped (Some 20), Popped (Some 4), Popped None, Length 0]"
proof -
  let ?ops = "[Push 3, Push 30, Push 20, Push 21, Push 4, TryPop, TryPop, TryPop, TryPop, TryPop, Len] :: nat queue_op list"
  have "snd (run_steps (queue_step sample_laned) ?ops new_queue)
      = [Pushed 3 (Inr ()), Pushed 30 (Inr ()), Pushed 20 (Inr ()), Pushed 21 (Inr ()), Pushed 4 (Inr ()),
         Popped (Some 3), Popped (Some 30), Popped (Some 20), Popped (Some 4), Popped None, Length 0]"
    by (simp add: queue_step_def queue_push_def try_pop_def new_queue_def sample_laned_def front_def queue_len_def
        QUEUE_def OBSERVER_QUEUE_def Let_def)
  then show ?thesis using queue_refines_arrivals[of ?ops sample_laned] by simp
qed

subsection \<open>What is never lost\<close>

text \<open>The commands of the kept lane a run accepted, and those it popped, in order.\<close>

definition accepted :: "'c laned \<Rightarrow> 'c queue_out \<Rightarrow> 'c list" where
  "accepted ld out =
     (case out of Pushed c (Inr _) \<Rightarrow> if ln_lane ld c \<in> {Control, Inbound} then [c] else [] | _ \<Rightarrow> [])"

definition popped :: "'c laned \<Rightarrow> 'c queue_out \<Rightarrow> 'c list" where
  "popped ld out =
     (case out of Popped (Some c) \<Rightarrow> if ln_lane ld c \<in> {Control, Inbound} then [c] else [] | _ \<Rightarrow> [])"

definition must_keep :: "'c laned \<Rightarrow> 'c \<Rightarrow> bool" where
  "must_keep ld c \<longleftrightarrow> ln_lane ld c \<in> {Control, Inbound}"

lemma must_keep_remove_first: "filter (must_keep ld) (remove_first (in_lane ld Lossy) xs) = filter (must_keep ld) xs"
  by (rule filter_remove_first(2)) (auto simp: must_keep_def in_lane_def)

lemma arrivals_step_keeps:
  "filter (must_keep ld) (ar_queue a) @ concat (map (accepted ld) (snd (arrivals_step ld op a)))
   = concat (map (popped ld) (snd (arrivals_step ld op a))) @ filter (must_keep ld) (ar_queue (fst (arrivals_step ld op a)))"
proof (cases op)
  case (Push c)
  note unfolds = arrivals_step_def arrive_def accepted_def popped_def must_keep_remove_first Let_def Push
  show ?thesis by (cases "ln_lane ld c") (simp_all add: unfolds must_keep_def)
next
  case TryPop
  then show ?thesis
    by (cases "ar_queue a") (simp_all add: arrivals_step_def accepted_def popped_def must_keep_def front_def)
qed (simp_all add: arrivals_step_def accepted_def popped_def)

lemma arrivals_run_keeps:
  "filter (must_keep ld) (ar_queue a) @ concat (map (accepted ld) (snd (run_steps (arrivals_step ld) ops a)))
   = concat (map (popped ld) (snd (run_steps (arrivals_step ld) ops a)))
     @ filter (must_keep ld) (ar_queue (fst (run_steps (arrivals_step ld) ops a)))"
proof (induction ops arbitrary: a)
  case (Cons op ops)
  from arrivals_step_keeps[of ld a op] Cons.IH[of "fst (arrivals_step ld op a)"] show ?case
    by (simp add: case_prod_beta) (metis append.assoc)
qed simp


definition arrivals_ok :: "'c laned \<Rightarrow> 'c arrivals \<Rightarrow> bool" where
  "arrivals_ok ld a \<longleftrightarrow>
     length (filter (in_lane ld Lossy) (ar_queue a)) \<le> QUEUE
     \<and> length (filter (in_lane ld Inbound) (ar_queue a)) \<le> KEPT
     \<and> sum_list (map (ln_bytes ld) (filter (in_lane ld Inbound) (ar_queue a))) \<le> KEPT_BYTES"

lemma other_lane_remove_first:
  "l \<noteq> Lossy \<Longrightarrow> filter (in_lane ld l) (remove_first (in_lane ld Lossy) xs) = filter (in_lane ld l) xs"
  by (rule filter_remove_first(2)) (simp add: in_lane_def)

lemma lane_eq: "ln_lane ld c = l \<Longrightarrow> in_lane ld k c \<longleftrightarrow> k = l"
  by (auto simp: in_lane_def)

lemma arrivals_step_ok:
  assumes "arrivals_ok ld a"
  shows "arrivals_ok ld (fst (arrivals_step ld op a))"
proof (cases op)
  case (Push c)
  note unfolds = arrivals_step_def arrive_def Let_def Push arrivals_ok_def lane_eq
  show ?thesis
  proof (cases "ln_lane ld c")
    case Lossy
    with assms show ?thesis
      by (auto simp: unfolds other_lane_remove_first filter_remove_first(1) QUEUE_def OBSERVER_QUEUE_def)
  qed (use assms in \<open>simp_all add: unfolds split: if_splits\<close>)
next
  case TryPop
  with assms show ?thesis by (cases "ar_queue a") (auto simp: arrivals_step_def arrivals_ok_def split: if_splits)
qed (use assms in \<open>simp_all add: arrivals_step_def arrivals_ok_def\<close>)

lemma queue_rel_counts:
  assumes "queue_rel ld q a"
  shows "map snd (filter (must_keep ld \<circ> snd) (la_kept (qu_lanes q))) = filter (must_keep ld) (ar_queue a)"
    and "length (la_lossy (qu_lanes q)) = length (filter (in_lane ld Lossy) (ar_queue a))"
    and "la_inbound (qu_lanes q) = length (filter (in_lane ld Inbound) (ar_queue a))"
    and "la_inbound_bytes (qu_lanes q) = sum_list (map (ln_bytes ld) (filter (in_lane ld Inbound) (ar_queue a)))"
proof -
  obtain zs where zs: "stamped ld q zs" "ar_queue a = map snd zs" using assms by (auto simp: queue_rel_def)
  have "filter (must_keep ld \<circ> snd) (filter (\<lambda>z. \<not> in_lane ld Lossy (snd z)) zs) = filter (must_keep ld \<circ> snd) zs"
    by (auto simp: must_keep_def in_lane_def intro: filter_cong)
  with zs show "map snd (filter (must_keep ld \<circ> snd) (la_kept (qu_lanes q))) = filter (must_keep ld) (ar_queue a)"
    by (simp add: stamped_def filter_map)
qed (use assms in \<open>auto simp: queue_rel_def stamped_def filter_map comp_def\<close>)

text \<open>
  Over any sequence of fewer than \<open>2^64\<close> operations, the control and inbound commands the queue
  accepted are, in order, those it handed out followed by those it still holds: none is lost,
  repeated or overtaken. The bounded lane never exceeds its depth, and the inbound items stay within their
  count and their bytes.
\<close>

theorem kept_commands_never_lost:
  assumes "length ops < 2 ^ 64"
  shows "case run_steps (queue_step ld) ops new_queue of (q, outs) \<Rightarrow>
    concat (map (accepted ld) outs)
      = concat (map (popped ld) outs) @ map snd (filter (must_keep ld \<circ> snd) (la_kept (qu_lanes q)))
    \<and> length (la_lossy (qu_lanes q)) \<le> QUEUE
    \<and> la_inbound (qu_lanes q) \<le> KEPT \<and> la_inbound_bytes (qu_lanes q) \<le> KEPT_BYTES"
proof -
  let ?a = "fst (run_steps (arrivals_step ld) ops no_arrivals)"
  have "arrivals_ok ld ?a"
    by (rule run_steps_invariant[where ok = "arrivals_ok ld", OF arrivals_step_ok]) (simp_all add: no_arrivals_def arrivals_ok_def)
  moreover have "queue_rel ld (fst (run_steps (queue_step ld) ops new_queue)) ?a"
    and "snd (run_steps (queue_step ld) ops new_queue) = snd (run_steps (arrivals_step ld) ops no_arrivals)"
    using queue_run_rel[OF new_queue_rel, of ops ld] assms by (simp_all add: new_queue_def)
  ultimately show ?thesis
    using queue_rel_counts[of ld _ ?a] arrivals_run_keeps[of ld no_arrivals ops]
    by (simp add: case_prod_beta arrivals_ok_def no_arrivals_def)
qed

theorem kept_commands_never_lost_witness:
  "concat (map (accepted sample_laned) (snd (run_steps (queue_step sample_laned) [Push 30, Push 3, Push 12, TryPop] new_queue))) = [30, 12]
   \<and> length (la_lossy (qu_lanes (fst (run_steps (queue_step sample_laned) [Push 30, Push 3, Push 12, TryPop] new_queue)))) \<le> QUEUE"
proof -
  let ?ops = "[Push 30, Push 3, Push 12, TryPop] :: nat queue_op list"
  have "concat (map (popped sample_laned) (snd (run_steps (queue_step sample_laned) ?ops new_queue)))
      @ map snd (filter (must_keep sample_laned \<circ> snd) (la_kept (qu_lanes (fst (run_steps (queue_step sample_laned) ?ops new_queue))))) = [30, 12]"
    by (simp add: queue_step_def queue_push_def try_pop_def new_queue_def sample_laned_def front_def popped_def must_keep_def
        QUEUE_def OBSERVER_QUEUE_def KEPT_def KEPT_BYTES_def usize_saturating_add_def Let_def)
  then show ?thesis using kept_commands_never_lost[of ?ops sample_laned] by (simp add: case_prod_beta)
qed

end
