(* ===== verification/Question.thy ===== *)
theory Question
  imports Delivery
begin

text \<open>
  \<open>AskUserQuestion\<close> dialogs (plugins/common/src/question.rs): the tool input parsed into questions, a
  thread reply matched against their options, and the keystrokes that answer the dialog. Texts are
  lists of code points; a question's own text stays in bytes, since it is the key of the recorded
  answers. \<open>str::to_lowercase\<close> and \<open>char::is_alphanumeric\<close> rest on Unicode's tables and are a
  parameter. A \<open>usize\<close> subtraction that would underflow or an index out of range is \<open>None\<close>. The abstract
  specification is the dialog itself, as \<open>plan\<close> documents its rows: the lemmas show that whatever a
  reply is matched to is well formed, and that the planned keys make the dialog record exactly it.
\<close>

section \<open>Questions\<close>

definition TOOL :: string where
  "TOOL = ''AskUserQuestion''"

record opt =
  op_label :: ustr
  op_description :: ustr

record question =
  qn_text :: string
  qn_header :: ustr
  qn_multi_select :: bool
  qn_options :: "opt list"

definition qn_name :: "question \<Rightarrow> ustr" where
  "qn_name q = (if qn_header q = [] then chars (qn_text q) else qn_header q)"

record selection =
  sl_options :: "nat list"
  sl_other :: "ustr option"

datatype matched = Answers "selection list" bool | Skip

datatype refusal = Refusal ustr

text \<open>What is used of the Unicode tables.\<close>

record unicode =
  uc_lower :: "ustr \<Rightarrow> ustr"
  uc_alphanumeric :: "nat \<Rightarrow> bool"

subsection \<open>Parsing\<close>

definition as_array :: "json \<Rightarrow> json list option" where
  "as_array v = (case v of JArray xs \<Rightarrow> Some xs | _ \<Rightarrow> None)"

definition as_bool :: "json \<Rightarrow> bool option" where
  "as_bool v = (case v of JBool b \<Rightarrow> Some b | _ \<Rightarrow> None)"

text \<open>\<open>collect::<Option<_>>\<close> is the library's \<open>those\<close>.\<close>

definition text_of :: "json \<Rightarrow> string \<Rightarrow> ustr" where
  "text_of v k = text_trim (chars (case Option.bind (json_get v k) as_str of Some s \<Rightarrow> s | None \<Rightarrow> []))"

definition parse_opt :: "json \<Rightarrow> opt option" where
  "parse_opt v =
     Option.bind (json_get v ''label'') (\<lambda>l.
     Option.bind (as_str l) (\<lambda>s.
       let label = text_trim (chars s)
       in if label \<noteq> [] then Some \<lparr>op_label = label, op_description = text_of v ''description''\<rparr> else None))"

definition parse_question :: "json \<Rightarrow> question option" where
  "parse_question q =
     Option.bind (json_get q ''options'') (\<lambda>os.
     Option.bind (as_array os) (\<lambda>os.
     Option.bind (those (map parse_opt os)) (\<lambda>options.
       if options = [] then None
       else
         Option.bind (json_get q ''question'') (\<lambda>t.
         Option.bind (as_str t) (\<lambda>text.
           Some \<lparr>qn_text = text, qn_header = text_of q ''header'',
                 qn_multi_select = (case Option.bind (json_get q ''multiSelect'') as_bool of Some b \<Rightarrow> b | None \<Rightarrow> False),
                 qn_options = options\<rparr>)))))"

definition question_parse :: "json \<Rightarrow> question list option" where
  "question_parse tool_input =
     Option.bind (json_get tool_input ''questions'') (\<lambda>qs.
     Option.bind (as_array qs) (\<lambda>qs.
     Option.bind (those (map parse_question qs)) (\<lambda>questions.
       if questions \<noteq> [] then Some questions else None)))"

section \<open>Matching a reply\<close>

definition normalise :: "unicode \<Rightarrow> ustr \<Rightarrow> ustr" where
  "normalise uc s = join_with 32 (split_whitespace (map (\<lambda>c. if uc_alphanumeric uc c then c else 32) (uc_lower uc s)))"

definition ascii_lower :: "nat \<Rightarrow> nat" where
  "ascii_lower c = (if 65 \<le> c \<and> c \<le> 90 then c + 32 else c)"

definition eq_ignore_ascii_case :: "ustr \<Rightarrow> ustr \<Rightarrow> bool" where
  "eq_ignore_ascii_case a b \<longleftrightarrow> map ascii_lower a = map ascii_lower b"

definition ucomma :: nat where
  "ucomma = of_char CHR '',''"

definition decimal :: "nat \<Rightarrow> ustr" where
  "decimal n = points (nat_digits n)"

text \<open>Texts joined with a separator: \<open>join\<close> on a list of strings.\<close>

fun join_text :: "ustr \<Rightarrow> ustr list \<Rightarrow> ustr" where
  "join_text sep [] = []"
| "join_text sep [s] = s"
| "join_text sep (s # t # r) = s @ sep @ join_text sep (t # r)"

definition option_line :: "nat \<times> opt \<Rightarrow> ustr" where
  "option_line e = decimal (fst e + 1) @ points ''. '' @ op_label (snd e)"

definition options_list :: "question \<Rightarrow> ustr" where
  "options_list q = join_text (points '', '') (map option_line (List.enumerate 0 (qn_options q)))"

definition bold :: "ustr \<Rightarrow> ustr" where
  "bold s = points ''**'' @ s @ points ''**''"

definition dquoted :: "ustr \<Rightarrow> ustr" where
  "dquoted s = [34] @ s @ [34]"

definition labelled_skip :: "unicode \<Rightarrow> question list \<Rightarrow> bool" where
  "labelled_skip uc questions \<longleftrightarrow>
     (case questions of
        [q] \<Rightarrow> list_ex (\<lambda>x. normalise uc (op_label x) = points ''skip'') (qn_options q)
      | _ \<Rightarrow> False)"

subsection \<open>One item: the ladder\<close>

definition is_digit :: "nat \<Rightarrow> bool" where
  "is_digit c \<longleftrightarrow> 48 \<le> c \<and> c \<le> 57"

fun decimal_value :: "nat \<Rightarrow> ustr \<Rightarrow> nat" where
  "decimal_value n [] = n"
| "decimal_value n (c # s) = decimal_value (10 * n + (c - 48)) s"

text \<open>\<open>str::parse::<usize>\<close> of a run of digits.\<close>

definition parse_usize :: "ustr \<Rightarrow> nat option" where
  "parse_usize s = (if decimal_value 0 s < 2 ^ 64 then Some (decimal_value 0 s) else None)"

definition trim_end_of :: "nat list \<Rightarrow> ustr \<Rightarrow> ustr" where
  "trim_end_of cs s = rev (dropWhile (\<lambda>c. c \<in> set cs) (rev s))"

definition no_answer :: "question \<Rightarrow> refusal" where
  "no_answer q = Refusal (points ''no answer given for '' @ bold (qn_name q) @ points ''. Options: '' @ options_list q)"

definition candidates :: "question \<Rightarrow> ustr \<Rightarrow> nat list \<Rightarrow> refusal" where
  "candidates q item hits =
     Refusal (dquoted (text_trim item) @ points '' could be ''
       @ join_text (points '' or '') (map (\<lambda>i. option_line (i, qn_options q ! i)) hits)
       @ points '' in '' @ bold (qn_name q) @ points ''. Reply with the number.'')"

definition unique :: "question \<Rightarrow> ustr \<Rightarrow> nat list \<Rightarrow> (refusal + nat \<times> bool) option" where
  "unique q item hits =
     (case hits of
        [] \<Rightarrow> None
      | [i] \<Rightarrow> Some (Inr (i, False))
      | _ \<Rightarrow> Some (Inl (candidates q item hits)))"

definition indices :: "('a \<Rightarrow> bool) \<Rightarrow> 'a list \<Rightarrow> nat list" where
  "indices P xs = filter (\<lambda>i. P (xs ! i)) [0..<length xs]"

definition match_label :: "unicode \<Rightarrow> question \<Rightarrow> ustr \<Rightarrow> bool \<Rightarrow> ustr \<Rightarrow> refusal + nat \<times> bool" where
  "match_label uc q item numeric digits =
     (let want = normalise uc item;
          labels = map (normalise uc \<circ> op_label) (qn_options q);
          equal = indices ((=) want) labels
      in if want = [] then Inl (no_answer q)
         else case equal of
           [i] \<Rightarrow> Inr (i, True)
         | _ # _ # _ \<Rightarrow>
             (case filter (\<lambda>i. uc_lower uc (text_trim (op_label (qn_options q ! i))) = uc_lower uc (text_trim item)) equal of
                [i] \<Rightarrow> Inr (i, True)
              | _ \<Rightarrow> Inl (candidates q item equal))
         | [] \<Rightarrow>
             (case unique q item (indices (\<lambda>l. str_starts_with l want) labels) of
                Some r \<Rightarrow> r
              | None \<Rightarrow>
                  let words = split_on 32 want
                  in case unique q item (indices (\<lambda>l. list_all (\<lambda>w. w \<in> set (split_on 32 l)) words) labels) of
                       Some r \<Rightarrow> r
                     | None \<Rightarrow>
                         Inl (Refusal (if numeric
                           then bold (qn_name q) @ points '' has no option '' @ digits @ points ''. Options: '' @ options_list q
                           else dquoted (text_trim item) @ points '' matches nothing in '' @ bold (qn_name q)
                                  @ points ''. Options: '' @ options_list q))))"

definition match_item :: "unicode \<Rightarrow> question \<Rightarrow> ustr \<Rightarrow> refusal + nat \<times> bool" where
  "match_item uc q item =
     (let digits = trim_end_of (points ''.):'') (text_trim item);
          numeric = (digits \<noteq> [] \<and> list_all is_digit digits);
          counted = (if numeric then parse_usize digits else None)
      in case counted of
           Some n \<Rightarrow>
             if 1 \<le> n \<and> n \<le> length (qn_options q)
             then let shadowed = list_ex (\<lambda>(i, x). i \<noteq> n - 1 \<and> normalise uc (op_label x) = digits)
                                   (List.enumerate 0 (qn_options q))
                  in Inr (n - 1, \<not> shadowed)
             else match_label uc q item numeric digits
         | None \<Rightarrow> match_label uc q item numeric digits)"

subsection \<open>One answer\<close>

definition OTHER_MARK :: ustr where
  "OTHER_MARK = points ''other:''"

text \<open>\<open>str::find\<close>: where a text first occurs.\<close>

fun find_text :: "ustr \<Rightarrow> ustr \<Rightarrow> nat option" where
  "find_text p [] = (if p = [] then Some 0 else None)"
| "find_text p (c # s) = (if prefix p (c # s) then Some 0 else map_option Suc (find_text p s))"

lemma find_text_Some:
  "find_text p s = Some i \<Longrightarrow> prefix p (drop i s) \<and> i + length p \<le> length s"
  by (induction s arbitrary: i) (auto split: if_splits dest: prefix_length_le)

function split_other_from :: "ustr \<Rightarrow> nat \<Rightarrow> ustr \<times> ustr option" where
  "split_other_from part i =
     (case find_text OTHER_MARK (drop i (map ascii_lower part)) of
        None \<Rightarrow> (part, None)
      | Some found \<Rightarrow>
          let at = i + found; before = text_trim_end (take at part)
          in if before = [] \<or> last before = ucomma
             then (text_trim_end (trim_end_of [ucomma] before), Some (text_trim (drop (at + length OTHER_MARK) part)))
             else split_other_from part (at + length OTHER_MARK))"
  by pat_completeness auto
termination
proof (relation "measure (\<lambda>(part, i). length part - i)")
  fix part i found x xa
  assume found: "find_text OTHER_MARK (drop i (map ascii_lower part)) = Some found"
    and x: "x = i + found"
  have "found + length OTHER_MARK \<le> length part - i" using find_text_Some[OF found] by simp
  moreover have "length OTHER_MARK = 6" by (simp add: OTHER_MARK_def points_def)
  ultimately show "((part, x + length OTHER_MARK), part, i) \<in> measure (\<lambda>(part, i). length part - i)"
    by (simp add: x)
qed simp

declare split_other_from.simps [simp del]

definition split_other :: "ustr \<Rightarrow> ustr \<times> ustr option" where
  "split_other part = split_other_from part 0"

definition check_other :: "question \<Rightarrow> ustr \<Rightarrow> refusal + ustr" where
  "check_other q text =
     (let needs = Refusal (points ''`other:` needs some text for '' @ bold (qn_name q) @ points ''.'')
      in if text = [] then Inl needs
         else if list_ex is_control text
         then Inl (Refusal (points ''`other:` for '' @ bold (qn_name q) @ points '' must be one line.''))
         else let text = prompt_text text
              in if text = [] then Inl needs
                 else if utf8_len text > MAX_KEY_TEXT
                 then Inl (Refusal (points ''`other:` for '' @ bold (qn_name q) @ points '' is limited to ''
                        @ decimal MAX_KEY_TEXT @ points '' bytes.''))
                 else Inr text)"

definition choose_item :: "unicode \<Rightarrow> question \<Rightarrow> ustr \<Rightarrow> nat list \<times> bool \<Rightarrow> refusal + nat list \<times> bool" where
  "choose_item uc q item s =
     rbind (match_item uc q item) (\<lambda>(i, e).
       if i \<in> set (fst s)
       then Inl (Refusal (bold (qn_name q) @ points '' names '' @ op_label (qn_options q ! i) @ points '' twice.''))
       else Inr (bs_collect (i # fst s), snd s \<and> e))"

definition match_answer :: "unicode \<Rightarrow> question \<Rightarrow> ustr \<Rightarrow> refusal + selection \<times> bool" where
  "match_answer uc q part =
     (case split_other part of (listed, other) \<Rightarrow>
      rbind (case other of Some text \<Rightarrow> map_sum id Some (check_other q text) | None \<Rightarrow> Inr None) (\<lambda>other.
      let items = (if qn_multi_select q then filter (\<lambda>i. i \<noteq> []) (map text_trim (split_on ucomma listed))
                   else if text_trim listed = [] then [] else [text_trim listed])
      in rbind (rfold (choose_item uc q) items ([], other = None)) (\<lambda>(options, exact).
         let chosen = length options + (if other = None then 0 else 1)
         in if chosen = 0 then Inl (no_answer q)
            else if \<not> qn_multi_select q \<and> chosen > 1
            then Inl (Refusal (bold (qn_name q) @ points '' takes one answer: an option or `other:`, not both.''))
            else Inr (\<lparr>sl_options = options, sl_other = other\<rparr>, exact))))"

subsection \<open>One reply\<close>

text \<open>\<open>str::lines\<close> over code points.\<close>

definition text_lines :: "ustr \<Rightarrow> ustr list" where
  "text_lines s =
     (let parts = split_on newline s
      in map (\<lambda>l. case strip_suffix [13] l of Some l' \<Rightarrow> l' | None \<Rightarrow> l) (butlast parts)
         @ (if last parts = [] then [] else [last parts]))"

definition header_line :: "unicode \<Rightarrow> question list \<Rightarrow> ustr \<Rightarrow> (nat \<times> ustr) option" where
  "header_line uc questions line =
     Option.bind (split_once (of_char CHR '':'') line) (\<lambda>(head, rest).
       let head = normalise uc head
       in map_option (\<lambda>i. (i, text_trim rest))
            (position (\<lambda>q. qn_header q \<noteq> [] \<and> normalise uc (qn_header q) = head) questions))"

definition place_part ::
  "question list \<Rightarrow> nat \<times> ustr \<Rightarrow> ustr option list \<Rightarrow> refusal + ustr option list" where
  "place_part questions p parts =
     (case p of (i, rest) \<Rightarrow>
        if parts ! i \<noteq> None
        then Inl (Refusal (bold (qn_name (questions ! i)) @ points '' is answered twice.''))
        else Inr (parts[i := Some rest]))"

definition require_part :: "question list \<Rightarrow> nat \<times> ustr option \<Rightarrow> refusal + ustr" where
  "require_part questions e =
     ok_or (Refusal (points ''no answer for '' @ bold (qn_name (questions ! fst e)) @ points ''.'')) (snd e)"

definition split_reply :: "unicode \<Rightarrow> question list \<Rightarrow> ustr \<Rightarrow> refusal + ustr list" where
  "split_reply uc questions reply =
     (if length questions = 1 then Inr [reply]
      else
        let lines = filter (\<lambda>l. l \<noteq> []) (map text_trim (text_lines reply));
            by_header = those (map (header_line uc questions) lines);
            positional =
              (if length lines \<noteq> length questions
               then Inl (Refusal (decimal (length questions) @ points '' questions need '' @ decimal (length questions)
                      @ points '' lines, one answer per line in order; got '' @ decimal (length lines) @ points ''.''))
               else Inr lines)
        in case by_header of
             Some pairs \<Rightarrow>
               if length pairs > 1
               then rbind (rfold (place_part questions) pairs (replicate (length questions) None)) (\<lambda>parts.
                      decode_list (require_part questions) (List.enumerate 0 parts))
               else positional
           | None \<Rightarrow> positional)"

definition match_part ::
  "unicode \<Rightarrow> question \<times> ustr \<Rightarrow> selection list \<times> bool \<Rightarrow> refusal + selection list \<times> bool" where
  "match_part uc qp s =
     rbind (match_answer uc (fst qp) (snd qp)) (\<lambda>(selection, e). Inr (fst s @ [selection], snd s \<and> e))"

definition match_reply :: "unicode \<Rightarrow> question list \<Rightarrow> ustr \<Rightarrow> refusal + matched" where
  "match_reply uc questions reply =
     (let reply = text_trim reply
      in if eq_ignore_ascii_case reply (points ''skip!'') then Inr Skip
         else let skips = eq_ignore_ascii_case reply (points ''skip''); labelled = (skips \<and> labelled_skip uc questions)
              in if skips \<and> \<not> labelled then Inr Skip
                 else rbind (split_reply uc questions reply) (\<lambda>parts.
                      rbind (rfold (match_part uc) (zip questions parts) ([], \<not> labelled)) (\<lambda>(selections, exact).
                        Inr (Answers selections exact))))"

section \<open>The keystrokes\<close>

definition down :: "nat \<Rightarrow> key_step list" where
  "down n = replicate n (KeyPress Down)"

text \<open>\<open>usize\<close> subtraction, which panics below zero.\<close>

definition usize_sub :: "nat \<Rightarrow> nat \<Rightarrow> nat option" where
  "usize_sub a b = (if b \<le> a then Some (a - b) else None)"

fun toggle_keys :: "nat \<Rightarrow> nat list \<Rightarrow> (nat \<times> key_step list) option" where
  "toggle_keys row [] = Some (row, [])"
| "toggle_keys row (i # is) =
     Option.bind (usize_sub i row) (\<lambda>d.
       map_option (\<lambda>(row, keys). (row, down d @ [KeyPress Enter] @ keys)) (toggle_keys i is))"

definition question_keys :: "question \<Rightarrow> selection \<Rightarrow> key_step list option" where
  "question_keys q s =
     (let n = length (qn_options q)
      in if qn_multi_select q
         then Option.bind (toggle_keys 0 (sl_options s)) (\<lambda>(row, keys).
              Option.bind (case sl_other s of
                  Some text \<Rightarrow> map_option (\<lambda>d. (n, keys @ down d @ [KeyText (utf8 text)])) (usize_sub n row)
                | None \<Rightarrow> Some (row, keys)) (\<lambda>(row, keys).
              map_option (\<lambda>d. keys @ down d @ [KeyPress Enter]) (usize_sub (n + 1) row)))
         else case sl_other s of
                Some text \<Rightarrow> Some (down n @ [KeyText (utf8 text), KeyPress Enter])
              | None \<Rightarrow> (case sl_options s of [] \<Rightarrow> None | i # _ \<Rightarrow> Some (down i @ [KeyPress Enter])))"

definition lone_single :: "question list \<Rightarrow> bool" where
  "lone_single questions \<longleftrightarrow> length questions = 1 \<and> \<not> qn_multi_select (hd questions)"

definition question_plan :: "question list \<Rightarrow> selection list \<Rightarrow> key_step list option" where
  "question_plan questions selections =
     map_option (\<lambda>keys. concat keys @ (if lone_single questions then [] else [KeyPress Enter]))
       (those (map (\<lambda>(q, s). question_keys q s) (zip questions selections)))"

definition skip_plan :: "key_step list" where
  "skip_plan = [KeyPress Escape]"

section \<open>What was recorded\<close>

definition arrow :: ustr where
  "arrow = [32, 0x2192, 32]"

definition dot :: ustr where
  "dot = [32, 0xB7, 32]"

definition answer_text :: "question \<Rightarrow> selection \<Rightarrow> ustr" where
  "answer_text q s =
     join_text (points '', '') (map (\<lambda>i. op_label (qn_options q ! i)) (sl_options s) @ opt_list (sl_other s))"

definition describe :: "question list \<Rightarrow> selection list \<Rightarrow> ustr" where
  "describe questions selections =
     join_text dot (map (\<lambda>(q, s). qn_name q @ arrow @ answer_text q s) (zip questions selections))"

definition recorded_answer :: "json \<Rightarrow> question \<Rightarrow> ustr option" where
  "recorded_answer answers q = map_option chars (Option.bind (json_get answers (qn_text q)) as_str)"

definition describe_recorded :: "question list \<Rightarrow> json \<Rightarrow> ustr" where
  "describe_recorded questions answers =
     join_text dot (map (\<lambda>q. qn_name q @ arrow
       @ (case recorded_answer answers q of Some got \<Rightarrow> got | None \<Rightarrow> points ''(nothing)'')) questions)"

text \<open>\<open>str::split\<close> with a text as the separator.\<close>

function split_text :: "ustr \<Rightarrow> ustr \<Rightarrow> ustr list" where
  "split_text sep s =
     (case find_text sep s of
        None \<Rightarrow> [s]
      | Some i \<Rightarrow> if sep = [] then [s] else take i s # split_text sep (drop (i + length sep) s))"
  by pat_completeness auto
termination
proof (relation "measure (\<lambda>(sep, s). length s)")
  fix sep s i assume "find_text sep s = Some i" "sep \<noteq> []"
  then show "((sep, drop (i + length sep) s), sep, s) \<in> measure (\<lambda>(sep, s). length s)"
    using find_text_Some[of sep s i] by (auto simp flip: length_greater_0_conv)
qed simp

declare split_text.simps [simp del]

definition answer_set :: "ustr \<Rightarrow> ustr list" where
  "answer_set t = bs_collect (map text_trim (split_text (points '', '') t))"

definition recorded_matches :: "question list \<Rightarrow> selection list \<Rightarrow> json \<Rightarrow> bool" where
  "recorded_matches questions selections answers \<longleftrightarrow>
     list_all (\<lambda>(q, s).
         case recorded_answer answers q of
           None \<Rightarrow> False
         | Some got \<Rightarrow>
             let want = answer_text q s
             in text_trim got = want \<or> qn_multi_select q \<and> answer_set got = answer_set want)
       (zip questions selections)"

section \<open>The dialog\<close>

text \<open>
  The dialog as the documentation of \<open>plan\<close> describes it. A question shows its options, then a row to
  type into, then, when several options may be chosen, a row that submits it. The highlight starts on the
  first row of every question. Enter chooses an option, or toggles it; the answers are submitted at once
  for a lone question of one choice, and from a review screen otherwise.
\<close>

record dialog =
  dg_rest :: "question list"
  dg_row :: nat
  dg_ticked :: "nat set"
  dg_typed :: "string option"
  dg_answers :: "(nat list \<times> string option) list"
  dg_submitted :: bool
  dg_declined :: bool

definition dialog_open :: "question list \<Rightarrow> dialog" where
  "dialog_open qs =
     \<lparr>dg_rest = qs, dg_row = 0, dg_ticked = {}, dg_typed = None, dg_answers = [], dg_submitted = False, dg_declined = False\<rparr>"

definition dialog_record :: "bool \<Rightarrow> nat list \<times> string option \<Rightarrow> dialog \<Rightarrow> dialog" where
  "dialog_record lone answer d =
     d\<lparr>dg_rest := tl (dg_rest d), dg_row := 0, dg_ticked := {}, dg_typed := None,
       dg_answers := dg_answers d @ [answer], dg_submitted := lone\<rparr>"

definition dialog_enter :: "bool \<Rightarrow> question \<Rightarrow> dialog \<Rightarrow> dialog" where
  "dialog_enter lone q d =
     (let n = length (qn_options q); row = dg_row d
      in if row < n
         then if qn_multi_select q
              then d\<lparr>dg_ticked := (if row \<in> dg_ticked d then dg_ticked d - {row} else insert row (dg_ticked d))\<rparr>
              else dialog_record lone ([row], None) d
         else if row = n \<and> \<not> qn_multi_select q
         then (case dg_typed d of None \<Rightarrow> d | Some t \<Rightarrow> dialog_record lone ([], Some t) d)
         else if row = n then d
         else dialog_record lone (sorted_list_of_set (dg_ticked d), dg_typed d) d)"

definition dialog_press :: "bool \<Rightarrow> key_step \<Rightarrow> dialog \<Rightarrow> dialog" where
  "dialog_press lone step d =
     (if dg_submitted d \<or> dg_declined d then d
      else case dg_rest d of
        [] \<Rightarrow> (case step of
            KeyPress Enter \<Rightarrow> d\<lparr>dg_submitted := True\<rparr>
          | KeyPress Escape \<Rightarrow> d\<lparr>dg_declined := True\<rparr>
          | _ \<Rightarrow> d)
      | q # _ \<Rightarrow> (case step of
            KeyPress Down \<Rightarrow>
              d\<lparr>dg_row := min (dg_row d + 1) (if qn_multi_select q then length (qn_options q) + 1 else length (qn_options q))\<rparr>
          | KeyPress Up \<Rightarrow> d\<lparr>dg_row := dg_row d - 1\<rparr>
          | KeyPress Escape \<Rightarrow> d\<lparr>dg_declined := True\<rparr>
          | KeyPress Enter \<Rightarrow> dialog_enter lone q d
          | KeyText t \<Rightarrow> if dg_row d = length (qn_options q) then d\<lparr>dg_typed := Some t\<rparr> else d))"

definition dialog_run :: "question list \<Rightarrow> key_step list \<Rightarrow> dialog" where
  "dialog_run qs keys = fold (dialog_press (lone_single qs)) keys (dialog_open qs)"

text \<open>What the documentation of \<open>Selection\<close> asks of one.\<close>

definition selection_ok :: "question \<Rightarrow> selection \<Rightarrow> bool" where
  "selection_ok q s \<longleftrightarrow>
     sorted_wrt (<) (sl_options s) \<and> list_all (\<lambda>i. i < length (qn_options q)) (sl_options s)
     \<and> (if qn_multi_select q then sl_options s \<noteq> [] \<or> sl_other s \<noteq> None
        else length (sl_options s) + (if sl_other s = None then 0 else 1) = 1)"

definition recorded_as :: "selection \<Rightarrow> nat list \<times> string option" where
  "recorded_as s = (sl_options s, map_option utf8 (sl_other s))"

section \<open>The keys give the answers\<close>

definition at_question :: "question \<Rightarrow> question list \<Rightarrow> nat \<Rightarrow> nat set \<Rightarrow> string option \<Rightarrow> dialog \<Rightarrow> bool" where
  "at_question q qs row ticked typed d \<longleftrightarrow>
     dg_rest d = q # qs \<and> dg_row d = row \<and> dg_ticked d = ticked \<and> dg_typed d = typed
     \<and> \<not> dg_submitted d \<and> \<not> dg_declined d"

lemma press_down:
  assumes "at_question q qs row T t d"
    and "row + k \<le> (if qn_multi_select q then length (qn_options q) + 1 else length (qn_options q))"
  shows "fold (dialog_press lone) (down k) d = d\<lparr>dg_row := row + k\<rparr>"
  using assms
proof (induction k arbitrary: row d)
  case 0
  then show ?case by (simp add: down_def at_question_def)
next
  case (Suc k)
  have "dialog_press lone (KeyPress Down) d = d\<lparr>dg_row := row + 1\<rparr>"
    using Suc.prems by (simp add: dialog_press_def at_question_def split: if_splits)
  moreover have "at_question q qs (row + 1) T t (d\<lparr>dg_row := row + 1\<rparr>)" using Suc.prems by (simp add: at_question_def)
  ultimately show ?case using Suc.IH[of "row + 1"] Suc.prems(2) by (simp add: down_def)
qed

lemma toggle_keys_run:
  assumes "at_question q qs row T t d" "qn_multi_select q" "sorted_wrt (<) is" "list_all (\<lambda>i. i < length (qn_options q)) is"
    and "\<And>i. i \<in> set is \<Longrightarrow> row \<le> i \<and> i \<notin> T" and "row \<le> length (qn_options q)"
  shows "\<exists>row' keys. toggle_keys row is = Some (row', keys) \<and> row' \<le> length (qn_options q)
    \<and> fold (dialog_press lone) keys d = d\<lparr>dg_row := row', dg_ticked := T \<union> set is\<rparr>"
  using assms
proof (induction "is" arbitrary: row T d)
  case Nil
  then show ?case by (auto simp: at_question_def)
next
  case (Cons i "is")
  have i: "row \<le> i" "i < length (qn_options q)" "i \<notin> T" using Cons.prems by auto
  let ?d = "d\<lparr>dg_row := i, dg_ticked := insert i T\<rparr>"
  have "fold (dialog_press lone) (down (i - row)) d = d\<lparr>dg_row := i\<rparr>"
    using press_down[OF Cons.prems(1), of "i - row" lone] i by simp
  moreover have "dialog_press lone (KeyPress Enter) (d\<lparr>dg_row := i\<rparr>) = ?d"
    using Cons.prems(1,2) i by (simp add: dialog_press_def dialog_enter_def at_question_def Let_def)
  ultimately have first: "fold (dialog_press lone) (down (i - row) @ [KeyPress Enter]) d = ?d" by simp
  have "at_question q qs i (insert i T) t ?d" using Cons.prems(1) by (simp add: at_question_def)
  from Cons.IH[OF this] Cons.prems i obtain row' keys where rest: "toggle_keys i is = Some (row', keys)" "row' \<le> length (qn_options q)"
      "fold (dialog_press lone) keys ?d = ?d\<lparr>dg_row := row', dg_ticked := insert i T \<union> set is\<rparr>"
    by fastforce
  with first i show ?case by (simp add: usize_sub_def)
qed


lemma question_keys_run:
  assumes at: "at_question q qs 0 {} None d" and ok: "selection_ok q s"
  shows "\<exists>keys. question_keys q s = Some keys \<and> fold (dialog_press lone) keys d = dialog_record lone (recorded_as s) d"
proof (cases "qn_multi_select q")
  case True
  let ?n = "length (qn_options q)"
  obtain row keys where toggles: "toggle_keys 0 (sl_options s) = Some (row, keys)" "row \<le> ?n"
      "fold (dialog_press lone) keys d = d\<lparr>dg_row := row, dg_ticked := set (sl_options s)\<rparr>"
    using toggle_keys_run[OF at True, of "sl_options s" lone] ok by (auto simp: selection_ok_def)
  let ?d = "d\<lparr>dg_row := row, dg_ticked := set (sl_options s)\<rparr>"
  have at': "at_question q qs row (set (sl_options s)) None ?d" using at by (simp add: at_question_def)
  have sorted: "sorted_list_of_set (set (sl_options s)) = sl_options s"
    using ok by (simp add: selection_ok_def sorted_list_of_set.idem_if_sorted_distinct strict_sorted_iff)
  show ?thesis
  proof (cases "sl_other s")
    case None
    have "fold (dialog_press lone) (down (?n + 1 - row)) ?d = ?d\<lparr>dg_row := ?n + 1\<rparr>"
      using press_down[OF at', of "?n + 1 - row" lone] toggles(2) True by simp
    with None True toggles sorted at show ?thesis
      by (simp add: question_keys_def usize_sub_def dialog_press_def dialog_enter_def at_question_def recorded_as_def
          dialog_record_def Let_def)
  next
    case (Some typed)
    let ?e = "?d\<lparr>dg_row := ?n, dg_typed := Some (utf8 typed)\<rparr>"
    have "fold (dialog_press lone) (down (?n - row)) ?d = ?d\<lparr>dg_row := ?n\<rparr>"
      using press_down[OF at', of "?n - row" lone] toggles(2) True by simp
    moreover have "dialog_press lone (KeyText (utf8 typed)) (?d\<lparr>dg_row := ?n\<rparr>) = ?e"
      using at by (simp add: dialog_press_def at_question_def)
    moreover have "at_question q qs ?n (set (sl_options s)) (Some (utf8 typed)) ?e" using at by (simp add: at_question_def)
    from press_down[OF this, of 1 lone] True have "fold (dialog_press lone) (down 1) ?e = ?e\<lparr>dg_row := ?n + 1\<rparr>" by simp
    ultimately show ?thesis using Some True toggles sorted at
      by (simp add: question_keys_def usize_sub_def dialog_press_def dialog_enter_def at_question_def recorded_as_def
          dialog_record_def Let_def)
  qed
next
  case False
  let ?n = "length (qn_options q)"
  show ?thesis
  proof (cases "sl_other s")
    case (Some typed)
    then have "sl_options s = []" using ok False by (simp add: selection_ok_def)
    moreover have "fold (dialog_press lone) (down ?n) d = d\<lparr>dg_row := ?n\<rparr>"
      using press_down[OF at, of ?n lone] False by simp
    ultimately show ?thesis using Some False at
      by (simp add: question_keys_def dialog_press_def dialog_enter_def at_question_def recorded_as_def dialog_record_def Let_def)
  next
    case None
    then obtain i where i: "sl_options s = [i]" "i < ?n"
      using ok False by (auto simp: selection_ok_def length_Suc_conv)
    then have "fold (dialog_press lone) (down i) d = d\<lparr>dg_row := i\<rparr>" using press_down[OF at, of i lone] False by simp
    with None False at i show ?thesis
      by (simp add: question_keys_def dialog_press_def dialog_enter_def at_question_def recorded_as_def dialog_record_def Let_def)
  qed
qed

lemma questions_keys_run:
  assumes "list_all2 selection_ok qs ss" and "lone \<longrightarrow> length qs \<le> 1"
    and "dg_rest d = qs" "dg_row d = 0" "dg_ticked d = {}" "dg_typed d = None" "\<not> dg_submitted d" "\<not> dg_declined d"
  shows "\<exists>keys. those (map (\<lambda>(q, s). question_keys q s) (zip qs ss)) = Some keys
    \<and> fold (dialog_press lone) (concat keys) d
      = d\<lparr>dg_rest := [], dg_answers := dg_answers d @ map recorded_as ss, dg_submitted := lone \<and> qs \<noteq> []\<rparr>"
  using assms
proof (induction qs arbitrary: ss d)
  case Nil
  then show ?case by simp
next
  case (Cons q qs)
  then obtain s ss' where ss: "ss = s # ss'" "selection_ok q s" "list_all2 selection_ok qs ss'"
    by (auto simp: list_all2_Cons1)
  have "at_question q qs 0 {} None d" using Cons.prems by (simp add: at_question_def)
  from question_keys_run[OF this ss(2), of lone] obtain keys where keys: "question_keys q s = Some keys"
      "fold (dialog_press lone) keys d = dialog_record lone (recorded_as s) d" by auto
  let ?d = "dialog_record lone (recorded_as s) d"
  have rest: "dg_rest ?d = qs" "dg_row ?d = 0" "dg_ticked ?d = {}" "dg_typed ?d = None" "\<not> dg_declined ?d"
      "dg_submitted ?d = lone" "dg_answers ?d = dg_answers d @ [recorded_as s]"
    using Cons.prems by (simp_all add: dialog_record_def)
  show ?case
  proof (cases qs)
    case Nil
    with ss have "ss' = []" by simp
    with Nil ss keys Cons.prems show ?thesis by (simp add: dialog_record_def)
  next
    case (Cons q' qs')
    then have "\<not> lone" using Cons.prems(2) by simp
    then obtain more where "those (map (\<lambda>(q, s). question_keys q s) (zip qs ss')) = Some more"
        "fold (dialog_press lone) (concat more) ?d
          = ?d\<lparr>dg_rest := [], dg_answers := dg_answers ?d @ map recorded_as ss', dg_submitted := lone \<and> qs \<noteq> []\<rparr>"
      using Cons.IH[OF ss(3), of ?d] rest by auto
    with keys ss(1) \<open>\<not> lone\<close> Cons.prems show ?thesis by (cases d) (simp add: dialog_record_def)
  qed
qed

lemma dialog_keys_exist:
  assumes "questions \<noteq> []" and "list_all2 selection_ok questions selections"
  shows "\<exists>keys. question_plan questions selections = Some keys
    \<and> dg_submitted (dialog_run questions keys) \<and> \<not> dg_declined (dialog_run questions keys)
    \<and> dg_answers (dialog_run questions keys) = map recorded_as selections"
proof -
  let ?lone = "lone_single questions"
  obtain keys where keys: "those (map (\<lambda>(q, s). question_keys q s) (zip questions selections)) = Some keys"
    and run: "fold (dialog_press ?lone) (concat keys) (dialog_open questions)
      = (dialog_open questions)\<lparr>dg_rest := [], dg_answers := map recorded_as selections, dg_submitted := ?lone \<and> questions \<noteq> []\<rparr>"
    using questions_keys_run[OF assms(2), of ?lone "dialog_open questions"]
    by (auto simp: dialog_open_def lone_single_def)
  show ?thesis
    using assms(1) keys run
    by (cases ?lone) (simp_all add: question_plan_def dialog_run_def dialog_press_def dialog_open_def)
qed



definition sample_question :: "bool \<Rightarrow> question" where
  "sample_question multi =
     \<lparr>qn_text = ''Which color?'', qn_header = points ''Color'', qn_multi_select = multi,
      qn_options = map (\<lambda>l. \<lparr>op_label = points l, op_description = []\<rparr>) [''Red'', ''Green'', ''Blue'']\<rparr>"


section \<open>What a reply is matched to\<close>

lemma indices_less: "i \<in> set (indices P xs) \<Longrightarrow> i < length xs"
  by (auto simp: indices_def)

lemma unique_Inr: "unique q item hits = Some (Inr (i, e)) \<longleftrightarrow> hits = [i] \<and> \<not> e"
  by (auto simp: unique_def split: list.splits)

definition only :: "nat \<Rightarrow> (nat \<Rightarrow> bool) \<Rightarrow> nat \<Rightarrow> bool" where
  "only n P i \<longleftrightarrow> i < n \<and> (\<forall>j < n. P j \<longleftrightarrow> j = i)"

lemma filter_upt_single: "filter P [0..<n] = [i] \<longleftrightarrow> only n P i"
proof
  assume one: "filter P [0..<n] = [i]"
  have "j \<in> set (filter P [0..<n]) \<longleftrightarrow> j \<in> set [i]" for j by (simp only: one)
  then have "j < n \<and> P j \<longleftrightarrow> j = i" for j by simp
  then show "only n P i" unfolding only_def by blast
next
  assume i: "only n P i"
  have "filter (\<lambda>j. j = i) [0..<m] = (if i < m then [i] else [])" for m by (induction m) auto
  moreover have "filter P [0..<n] = filter (\<lambda>j. j = i) [0..<n]" using i by (intro filter_cong) (auto simp: only_def)
  ultimately show "filter P [0..<n] = [i]" using i by (simp add: only_def)
qed

text \<open>The row a number counts to, and the ways a label can be meant.\<close>

definition label_of :: "unicode \<Rightarrow> question \<Rightarrow> nat \<Rightarrow> ustr" where
  "label_of uc q i = normalise uc (op_label (qn_options q ! i))"

definition names_row :: "ustr \<Rightarrow> nat \<Rightarrow> bool" where
  "names_row item n \<longleftrightarrow>
     (let digits = trim_end_of (points ''.):'') (text_trim item)
      in digits \<noteq> [] \<and> list_all is_digit digits \<and> decimal_value 0 digits = n)"

definition spells :: "unicode \<Rightarrow> question \<Rightarrow> ustr \<Rightarrow> nat \<Rightarrow> bool" where
  "spells uc q item i \<longleftrightarrow> label_of uc q i = normalise uc item"

definition same_text :: "unicode \<Rightarrow> question \<Rightarrow> ustr \<Rightarrow> nat \<Rightarrow> bool" where
  "same_text uc q item i \<longleftrightarrow> uc_lower uc (text_trim (op_label (qn_options q ! i))) = uc_lower uc (text_trim item)"

definition begins :: "unicode \<Rightarrow> question \<Rightarrow> ustr \<Rightarrow> nat \<Rightarrow> bool" where
  "begins uc q item i \<longleftrightarrow> prefix (normalise uc item) (label_of uc q i)"

definition has_words :: "unicode \<Rightarrow> question \<Rightarrow> ustr \<Rightarrow> nat \<Rightarrow> bool" where
  "has_words uc q item i \<longleftrightarrow> set (split_on 32 (normalise uc item)) \<subseteq> set (split_on 32 (label_of uc q i))"

lemma match_label_sound:
  assumes "match_label uc q item numeric digits = Inr (i, e)"
  defines "n \<equiv> length (qn_options q)"
  shows "e \<and> (only n (spells uc q item) i \<or> only n (\<lambda>j. spells uc q item j \<and> same_text uc q item j) i)
    \<or> \<not> e \<and> (\<forall>j < n. \<not> spells uc q item j) \<and> (only n (begins uc q item) i \<or> only n (has_words uc q item) i)"
proof -
  let ?labels = "map (normalise uc \<circ> op_label) (qn_options q)" and ?want = "normalise uc item"
  have at: "indices P ?labels = filter (\<lambda>i. P (label_of uc q i)) [0..<n]" for P
    by (auto simp: indices_def label_of_def n_def intro!: filter_cong)
  let ?equal = "indices ((=) ?want) ?labels"
  have equal: "?equal = filter (spells uc q item) [0..<n]"
    unfolding at by (auto simp: spells_def intro!: filter_cong)
  have one: "indices P ?labels = [i] \<longleftrightarrow> only n (\<lambda>j. P (label_of uc q j)) i" for P
    by (simp add: at filter_upt_single)
  have words: "list_all (\<lambda>w. w \<in> set (split_on 32 l)) ws \<longleftrightarrow> set ws \<subseteq> set (split_on 32 l)" for l :: ustr and ws
    by (auto simp: list_all_iff)
  consider "?equal = []" | j where "?equal = [j]" | j k js where "?equal = j # k # js"
    by (metis list.exhaust)
  then show ?thesis
  proof cases
    case 1
    then have none: "\<forall>j < n. \<not> spells uc q item j" by (auto simp: equal filter_empty_conv)
    have "\<not> e \<and> (indices (\<lambda>l. str_starts_with l ?want) ?labels = [i]
        \<or> indices (\<lambda>l. list_all (\<lambda>w. w \<in> set (split_on 32 l)) (split_on 32 ?want)) ?labels = [i])"
      using assms(1) 1 by (auto simp: match_label_def Let_def unique_Inr split: if_splits option.splits)
    then show ?thesis using none unfolding one words begins_def has_words_def str_starts_with_def by blast
  next
    case 2
    then have "e \<and> ?equal = [i]" using assms(1) by (auto simp: match_label_def Let_def split: if_splits)
    then show ?thesis using one[of "(=) ?want"] by (auto simp: spells_def only_def)
  next
    case 3
    have "same_text uc q item
        = (\<lambda>i. uc_lower uc (text_trim (op_label (qn_options q ! i))) = uc_lower uc (text_trim item))"
      by (simp add: same_text_def fun_eq_iff)
    with 3 have "e \<and> filter (same_text uc q item) ?equal = [i]"
      using assms(1) by (auto simp: match_label_def Let_def split: if_splits list.splits)
    then have "e \<and> filter (\<lambda>j. spells uc q item j \<and> same_text uc q item j) [0..<n] = [i]"
      by (simp add: equal conj_commute)
    then show ?thesis by (simp add: filter_upt_single)
  qed
qed

definition item_digits :: "ustr \<Rightarrow> ustr" where
  "item_digits item = trim_end_of (points ''.):'') (text_trim item)"

lemma match_item_number:
  assumes "names_row item n" "1 \<le> n" "n \<le> length (qn_options q)" "n < 2 ^ 64"
  shows "match_item uc q item
    = Inr (n - 1, \<forall>j < length (qn_options q). j \<noteq> n - 1 \<longrightarrow> label_of uc q j \<noteq> item_digits item)"
  using assms
  by (auto simp: match_item_def names_row_def item_digits_def parse_usize_def label_of_def Let_def list_ex_iff
      in_set_enumerate_eq)

text \<open>
  A reply item is never guessed: it is matched to an option only when it counts that option's row
  (exactly, unless another option is labelled with that number), spells its whole label as no other option does
  in the same text, or, inexactly, no label is spelled and it is the beginning, or gives all its words, of that
  label alone.
\<close>

theorem matched_item_unambiguous:
  assumes "match_item uc q item = Inr (i, e)"
  defines "n \<equiv> length (qn_options q)"
  shows "i < n
    \<and> (names_row item (i + 1) \<and> (e \<longleftrightarrow> (\<forall>j < n. j \<noteq> i \<longrightarrow> label_of uc q j \<noteq> item_digits item))
       \<or> e \<and> (only n (spells uc q item) i \<or> only n (\<lambda>j. spells uc q item j \<and> same_text uc q item j) i)
       \<or> \<not> e \<and> (\<forall>j < n. \<not> spells uc q item j) \<and> (only n (begins uc q item) i \<or> only n (has_words uc q item) i))"
proof (cases "\<exists>k. names_row item k \<and> 1 \<le> k \<and> k \<le> n \<and> k < 2 ^ 64")
  case True
  then obtain k where k: "names_row item k" "1 \<le> k" "k \<le> n" "k < 2 ^ 64" by blast
  with match_item_number[of item k q uc] assms show ?thesis by auto
next
  case False
  let ?digits = "item_digits item"
  have "match_item uc q item = match_label uc q item (?digits \<noteq> [] \<and> list_all is_digit ?digits) ?digits"
    using False
    by (auto simp: match_item_def item_digits_def names_row_def parse_usize_def n_def Let_def)
  with match_label_sound[of uc q item _ ?digits i e] assms show ?thesis by (auto simp: only_def)
qed

definition sample_unicode :: unicode where
  "sample_unicode = \<lparr>uc_lower = map ascii_lower, uc_alphanumeric = (\<lambda>c. is_digit c \<or> 97 \<le> c \<and> c \<le> 122)\<rparr>"

theorem matched_item_unambiguous_witness:
  "match_item sample_unicode (sample_question False) (points ''gr'') = Inr (1, False)
   \<and> \<not> spells sample_unicode (sample_question False) (points ''gr'') 0
   \<and> \<not> spells sample_unicode (sample_question False) (points ''gr'') 2"
proof -
  let ?q = "sample_question False" and ?item = "points ''gr''"
  note trims = text_trim_def text_trim_start_def text_trim_end_def trim_end_of_def is_whitespace_def
  have m: "match_item sample_unicode ?q ?item = Inr (1, False)"
    by (simp add: match_item_def match_label_def sample_unicode_def sample_question_def normalise_def indices_def unique_def
        points_def is_digit_def ascii_lower_def str_starts_with_def trims)
  have "\<not> names_row ?item k" for k by (simp add: names_row_def points_def is_digit_def trims)
  moreover have "length (qn_options ?q) = 3" by (simp add: sample_question_def)
  ultimately show ?thesis using matched_item_unambiguous[OF m] m by simp
qed

lemma match_item_index: "match_item uc q item = Inr (i, e) \<Longrightarrow> i < length (qn_options q)"
proof -
  assume "match_item uc q item = Inr (i, e)"
  then show ?thesis
    using match_label_sound[of uc q item _ _ i e]
    by (auto simp: match_item_def only_def Let_def split: option.splits if_splits)
qed

lemma choose_items:
  assumes "rfold (choose_item uc q) items (opts, ex) = Inr (opts', ex')"
    and "sorted_wrt (<) opts" "list_all (\<lambda>i. i < length (qn_options q)) opts"
  shows "sorted_wrt (<) opts' \<and> list_all (\<lambda>i. i < length (qn_options q)) opts' \<and> length opts' = length opts + length items"
  using assms
proof (induction items arbitrary: opts ex)
  case (Cons item items)
  from Cons.prems(1) obtain i e where i: "match_item uc q item = Inr (i, e)" "i \<notin> set opts"
      "rfold (choose_item uc q) items (bs_collect (i # opts), ex \<and> e) = Inr (opts', ex')"
    by (auto simp: choose_item_def[of _ _ item] rbind_Inr split: if_splits)
  have "distinct (i # opts)" using i(2) Cons.prems(2) by (simp add: strict_sorted_iff)
  then have "length (bs_collect (i # opts)) = Suc (length opts)" by (simp add: bs_collect_def)
  with Cons.IH[OF i(3)] Cons.prems(3) match_item_index[OF i(1)] show ?case
    by (simp add: bs_collect_ascending list_all_iff)
qed simp

lemma check_other_Inr:
  "check_other q t = Inr u \<Longrightarrow> u = prompt_text t \<and> u \<noteq> [] \<and> utf8_len u \<le> MAX_KEY_TEXT \<and> \<not> list_ex is_control t"
  by (auto simp: check_other_def Let_def split: if_splits)

definition typed_ok :: "selection \<Rightarrow> bool" where
  "typed_ok s \<longleftrightarrow>
     (case sl_other s of None \<Rightarrow> True
      | Some t \<Rightarrow> t \<noteq> [] \<and> utf8_len t \<le> MAX_KEY_TEXT \<and> \<not> list_ex is_control t)"

lemma prompt_text_no_control: "\<not> list_ex is_control t \<Longrightarrow> \<not> list_ex is_control (prompt_text t)"
  by (auto simp: prompt_text_def strip_terminal_controls_def Let_def list_ex_iff points_def is_control_def
      dest!: set_dropWhileD split: if_splits)

lemma match_answer_ok:
  assumes "match_answer uc q part = Inr (s, e)"
  shows "selection_ok q s \<and> typed_ok s"
proof -
  obtain listed other where split: "split_other part = (listed, other)" by (cases "split_other part")
  let ?items = "if qn_multi_select q then filter (\<lambda>i. i \<noteq> []) (map text_trim (split_on ucomma listed))
                else if text_trim listed = [] then [] else [text_trim listed]"
  from assms split obtain typed options where
    typed: "(case other of Some t \<Rightarrow> map_sum id Some (check_other q t) | None \<Rightarrow> Inr None) = Inr typed"
    and fold: "rfold (choose_item uc q) ?items ([], typed = None) = Inr (options, e)"
    and s: "s = \<lparr>sl_options = options, sl_other = typed\<rparr>"
    and count: "length options + (if typed = None then 0 else 1) \<noteq> 0"
      "qn_multi_select q \<or> length options + (if typed = None then 0 else 1) \<le> 1"
    by (auto simp: match_answer_def Let_def rbind_Inr split: if_splits)
  have "sorted_wrt (<) options \<and> list_all (\<lambda>i. i < length (qn_options q)) options"
    using choose_items[OF fold] by simp
  moreover have "typed_ok s"
  proof (cases other)
    case None
    with typed show ?thesis by (simp add: s typed_ok_def)
  next
    case (Some t)
    with typed obtain u where "check_other q t = Inr u" "typed = Some u" by (cases "check_other q t") auto
    with check_other_Inr prompt_text_no_control show ?thesis by (fastforce simp: s typed_ok_def)
  qed
  ultimately show ?thesis using count by (cases options) (auto simp: s selection_ok_def split: if_splits)
qed


lemma decode_list_length: "decode_list f xs = Inr ys \<Longrightarrow> length ys = length xs"
  by (induction xs arbitrary: ys) (auto simp: rbind_Inr)

lemma split_reply_length: "split_reply uc qs reply = Inr parts \<Longrightarrow> length parts = length qs"
proof -
  assume split: "split_reply uc qs reply = Inr parts"
  have placed: "length ps = length qs" if "rfold (place_part qs) pairs (replicate (length qs) None) = Inr ps" for pairs ps
    by (rule rfold_invariant[OF that]) (auto simp: place_part_def split: prod.splits if_splits)
  show ?thesis
    using split placed
    by (auto simp: split_reply_def Let_def rbind_Inr split: if_splits option.splits dest!: decode_list_length)
qed

lemma match_parts:
  assumes "rfold (match_part uc) (zip qs parts) (acc, ex) = Inr (ss, e)" "length parts = length qs"
  shows "\<exists>ss'. ss = acc @ ss' \<and> list_all2 (\<lambda>q s. selection_ok q s \<and> typed_ok s) qs ss'"
  using assms
proof (induction qs arbitrary: parts acc ex)
  case (Cons q qs)
  then obtain part parts' where parts: "parts = part # parts'" "length parts' = length qs" by (cases parts) auto
  with Cons.prems(1) obtain s e' where s: "match_answer uc q part = Inr (s, e')"
      "rfold (match_part uc) (zip qs parts') (acc @ [s], ex \<and> e') = Inr (ss, e)"
    by (auto simp: match_part_def[of _ "(q, part)"] rbind_Inr)
  from Cons.IH[OF s(2) parts(2)] match_answer_ok[OF s(1)] show ?case by auto
qed simp

lemma match_reply_parts:
  assumes "match_reply uc qs reply = Inr (Answers ss e)"
  shows "list_all2 (\<lambda>q s. selection_ok q s \<and> typed_ok s) qs ss"
proof -
  from assms obtain parts ex where "split_reply uc qs (text_trim reply) = Inr parts"
      "rfold (match_part uc) (zip qs parts) ([], ex) = Inr (ss, e)"
    by (auto simp: match_reply_def Let_def rbind_Inr split: if_splits)
  with match_parts[of uc qs parts "[]"] split_reply_length show ?thesis by auto
qed

text \<open>
  C23. Whatever a reply is matched to is a well-formed answer of every question: one selection per question, its
  options in range, ascending and without repetition, exactly one choice for a single-select question and at
  least one for a multi-select, and a typed text that is not empty, holds no control character and fits one key step.
  So \<open>plan\<close> never panics on it, and its keys make the dialog record it.
\<close>

theorem matched_reply_well_formed:
  assumes "match_reply uc questions reply = Inr (Answers selections exact)" "questions \<noteq> []"
  shows "list_all2 selection_ok questions selections \<and> list_all typed_ok selections
    \<and> (\<exists>keys. question_plan questions selections = Some keys
         \<and> dg_submitted (dialog_run questions keys) \<and> dg_answers (dialog_run questions keys) = map recorded_as selections)"
proof -
  have all: "list_all2 (\<lambda>q s. selection_ok q s \<and> typed_ok s) questions selections" by (rule match_reply_parts[OF assms(1)])
  then have ok: "list_all2 selection_ok questions selections" by (rule list_all2_mono) simp
  moreover have "list_all typed_ok selections"
    using all by (auto simp: list_all_length list_all2_conv_all_nth)
  ultimately show ?thesis using dialog_keys_exist[OF assms(2) ok] by auto
qed


theorem matched_reply_well_formed_witness:
  "\<exists>keys. question_plan [sample_question True] [\<lparr>sl_options = [0, 2], sl_other = None\<rparr>] = Some keys
     \<and> dg_answers (dialog_run [sample_question True] keys) = [([0, 2], None)]"
proof -
  let ?q = "sample_question True" and ?s = "\<lparr>sl_options = [0, 2], sl_other = None\<rparr>"
  note trims = text_trim_def text_trim_start_def text_trim_end_def trim_end_of_def is_whitespace_def
  have whole: "text_trim (points ''3, 1'') = points ''3, 1''" by (simp add: points_def trims)
  have "split_other (points ''3, 1'') = (points ''3, 1'', None)"
    by (simp add: split_other_def split_other_from.simps OTHER_MARK_def points_def ascii_lower_def)
  moreover have "match_item sample_unicode ?q [51] = Inr (2, True)" "match_item sample_unicode ?q [49] = Inr (0, True)"
    by (simp_all add: match_item_def sample_unicode_def sample_question_def normalise_def parse_usize_def
        points_def is_digit_def ascii_lower_def trims)
  moreover have "qn_multi_select ?q" by (simp add: sample_question_def)
  moreover have "filter (\<lambda>i. i \<noteq> []) (map text_trim (split_on ucomma (points ''3, 1''))) = [[51], [49]]"
    by (simp add: points_def ucomma_def trims)
  ultimately have "match_answer sample_unicode ?q (points ''3, 1'') = Inr (?s, True)"
    by (simp add: match_answer_def choose_item_def bs_collect_def Let_def)
  moreover have "\<not> eq_ignore_ascii_case (points ''3, 1'') (points ''skip!'')" "\<not> eq_ignore_ascii_case (points ''3, 1'') (points ''skip'')"
    by (simp_all add: eq_ignore_ascii_case_def points_def ascii_lower_def)
  ultimately have "match_reply sample_unicode [?q] (points ''3, 1'') = Inr (Answers [?s] True)"
    by (simp add: match_reply_def split_reply_def match_part_def whole)
  from matched_reply_well_formed[OF this] show ?thesis by (auto simp: recorded_as_def)
qed

section \<open>Numbers always work\<close>

lemma digits_decimal:
  "decimal n \<noteq> []" "list_all is_digit (decimal n)"
proof -
  show "decimal n \<noteq> []" by (simp add: decimal_def points_def nat_digits_shape)
  have "is_ascii_digit c \<Longrightarrow> is_digit (of_char c)" for c by (cases c) (auto simp: is_ascii_digit_def is_digit_def less_eq_char_def)
  then show "list_all is_digit (decimal n)"
    using nat_digits_shape(2)[of n] by (auto simp: decimal_def points_def list_all_iff)
qed

lemma decimal_value_points: "decimal_value n (points s) = digits_value n s"
  by (induction s arbitrary: n) (auto simp: points_def)

lemma decimal_value_decimal: "decimal_value 0 (decimal n) = n"
  by (simp add: decimal_def decimal_value_points nat_digits_value)

lemma digit_not_blank: "is_digit c \<Longrightarrow> \<not> is_whitespace c \<and> c \<notin> set (points ''.):'') \<and> c \<noteq> ucomma \<and> ascii_lower c = c"
  by (auto simp: is_digit_def is_whitespace_def points_def ucomma_def ascii_lower_def)

lemma dropWhile_none: "list_all (\<lambda>c. \<not> P c) s \<Longrightarrow> dropWhile P s = s"
  by (cases s) auto

lemma digits_trim:
  assumes "list_all is_digit s"
  shows "text_trim s = s" "trim_end_of (points ''.):'') s = s"
proof -
  have "list_all (\<lambda>c. \<not> is_whitespace c) s" "list_all (\<lambda>c. c \<notin> set (points ''.):'')) s"
    using assms digit_not_blank by (auto simp: list_all_iff)
  then show "text_trim s = s" "trim_end_of (points ''.):'') s = s"
    by (simp_all add: text_trim_def text_trim_start_def text_trim_end_def trim_end_of_def dropWhile_none)
qed

lemma find_text_hd: "find_text (p # ps) s = Some i \<Longrightarrow> p \<in> set s"
proof -
  assume "find_text (p # ps) s = Some i"
  then have "prefix (p # ps) (drop i s)" using find_text_Some[of "p # ps" s i] by simp
  then show "p \<in> set s" by (metis in_set_dropD list.set_intros(1) set_mono_prefix subsetD)
qed

lemma digits_no_other:
  assumes "list_all is_digit s"
  shows "split_other s = (s, None)"
proof -
  have "map ascii_lower s = s" using assms digit_not_blank by (auto simp: list_all_iff intro!: map_idI)
  moreover have "find_text OTHER_MARK s = None"
  proof (rule ccontr)
    assume "find_text OTHER_MARK s \<noteq> None"
    then have "111 \<in> set s" using find_text_hd[of 111 _ s] by (auto simp: OTHER_MARK_def points_def)
    then show False using assms by (auto simp: list_all_iff is_digit_def)
  qed
  ultimately show ?thesis by (simp add: split_other_def split_other_from.simps)
qed

text \<open>
  Every option can be chosen by its number, whatever the labels: the reply that counts to a row of a lone
  question is read as that option alone, and as an exact answer unless another option is labelled with that
  number.
\<close>

theorem number_reply_selects:
  assumes "i < length (qn_options q)" "length (qn_options q) < 2 ^ 64"
  shows "match_reply uc [q] (decimal (i + 1)) = Inr (Answers [\<lparr>sl_options = [i], sl_other = None\<rparr>]
    (\<forall>j < length (qn_options q). j \<noteq> i \<longrightarrow> label_of uc q j \<noteq> decimal (i + 1)))"
proof -
  let ?r = "decimal (Suc i)"
  note digits = digits_decimal[of "Suc i"] and trim = digits_trim[OF digits_decimal(2)[of "Suc i"]]
  have "names_row ?r (Suc i)" using digits by (simp add: names_row_def trim decimal_value_decimal)
  from match_item_number[OF this, of q uc] assms
  have item: "match_item uc q ?r = Inr (i, \<forall>j < length (qn_options q). j \<noteq> i \<longrightarrow> label_of uc q j \<noteq> ?r)"
    by (simp add: item_digits_def trim)
  have low: "map ascii_lower ?r = ?r" using digits(2) digit_not_blank by (auto simp: list_all_iff intro!: map_idI)
  have "\<not> eq_ignore_ascii_case ?r (115 # s)" for s
    using digits low by (cases ?r) (auto simp: eq_ignore_ascii_case_def ascii_lower_def is_digit_def)
  then have noskip: "\<not> eq_ignore_ascii_case ?r (points ''skip'')" "\<not> eq_ignore_ascii_case ?r (points ''skip!'')"
    by (simp_all add: points_def)
  have "ucomma \<notin> set ?r" using digits(2) digit_not_blank by (auto simp: list_all_iff)
  then have "split_on ucomma ?r = [?r]" by (rule split_on_single)
  then have "match_answer uc q ?r = Inr (\<lparr>sl_options = [i], sl_other = None\<rparr>,
      \<forall>j < length (qn_options q). j \<noteq> i \<longrightarrow> label_of uc q j \<noteq> ?r)"
    using digits(1) by (simp add: match_answer_def digits_no_other[OF digits(2)] trim choose_item_def item bs_collect_def)
  then show ?thesis by (simp add: match_reply_def trim noskip split_reply_def match_part_def)
qed

theorem number_reply_selects_witness:
  "match_reply sample_unicode [sample_question False] (decimal 2)
   = Inr (Answers [\<lparr>sl_options = [1], sl_other = None\<rparr>]
       (\<forall>j < 3. j \<noteq> 1 \<longrightarrow> label_of sample_unicode (sample_question False) j \<noteq> decimal 2))"
proof -
  have len: "length (qn_options (sample_question False)) = 3" by (simp add: sample_question_def)
  show ?thesis
    using number_reply_selects[where i = 1 and q = "sample_question False" and uc = sample_unicode, unfolded len one_add_one] by simp
qed

end
