(* ===== verification/Answer.thy ===== *)
theory Answer
  imports Question Flow
begin

text \<open>
  The question each agent is waiting on and what a reply to it does (plugins/common/src/pending.rs,
  answer.rs): the stages of an open question, its mirror in the daemon's key/value store, and the
  decision taken on a reply or when the dialog closes. serde's printing and reading of a JSON value
  are parameters; \<open>None\<close> is a panic, as in the theory of questions. A decision's effects are executed by the
  plugin under the contract its documentation states. The lemmas show what may ever be typed into a dialog:
  an answer the thread was shown, or one Escape.
\<close>

section \<open>Open questions\<close>

definition QUESTION_PREFIX :: string where
  "QUESTION_PREFIX = ''question/''"

definition question_key :: "string \<Rightarrow> string" where
  "question_key agent = QUESTION_PREFIX @ agent"

datatype stage =
    Open
  | Confirming "selection list" "string option"
  | Sent "selection list option" "string option" instant

fun with_echo :: "string option \<Rightarrow> stage \<Rightarrow> stage" where
  "with_echo echo Open = Open"
| "with_echo echo (Confirming selections _) = Confirming selections echo"
| "with_echo echo (Sent selections _ since) = Sent selections echo since"

record open_question =
  oq_questions :: "question list"
  oq_stage :: stage
  oq_posted :: bool
  oq_notified :: bool

definition opened :: "question list \<Rightarrow> open_question" where
  "opened questions = \<lparr>oq_questions = questions, oq_stage = Open, oq_posted = False, oq_notified = False\<rparr>"

type_synonym questions = "(string, open_question) btree"

text \<open>The daemon as the plugin's host reaches it, and serde's text of a JSON value.\<close>

record 'w host = "'w kv_port" +
  host_list :: "string \<Rightarrow> 'w \<Rightarrow> 'w \<times> (string + string list)"
  host_action :: "string \<Rightarrow> plugin_action \<Rightarrow> 'w \<Rightarrow> 'w \<times> (string + unit)"

record json_text =
  js_print :: "json \<Rightarrow> string"
  js_parse :: "string \<Rightarrow> json option"

definition load_question ::
  "json_text \<Rightarrow> 'w host \<Rightarrow> string \<Rightarrow> 'w \<times> questions \<Rightarrow> (('w \<times> string) + 'w \<times> questions)" where
  "load_question js host key wq =
     (case port_get host key (fst wq) of
        (w, Inl e) \<Rightarrow> Inl (w, e)
      | (w, Inr None) \<Rightarrow> Inr (w, snd wq)
      | (w, Inr (Some bytes)) \<Rightarrow>
          Inr (w, case Option.bind (js_parse js bytes) question_parse of
                    Some list \<Rightarrow> bt_insert (drop (length QUESTION_PREFIX) key) (opened list) (snd wq)
                  | None \<Rightarrow> snd wq))"

definition questions_load :: "json_text \<Rightarrow> 'w host \<Rightarrow> 'w \<Rightarrow> 'w \<times> (string + questions)" where
  "questions_load js host w =
     (case host_list host QUESTION_PREFIX w of
        (w, Inl e) \<Rightarrow> (w, Inl e)
      | (w, Inr keys) \<Rightarrow>
          (case rfold (load_question js host) keys (w, []) of
             Inl (w, e) \<Rightarrow> (w, Inl e)
           | Inr (w, qs) \<Rightarrow> (w, Inr qs)))"

definition is_open :: "questions \<Rightarrow> string \<Rightarrow> bool" where
  "is_open qs agent \<longleftrightarrow> bt_get qs agent \<noteq> None"

definition update_open :: "string \<Rightarrow> (open_question \<Rightarrow> open_question) \<Rightarrow> questions \<Rightarrow> questions" where
  "update_open agent f qs = (case bt_get qs agent of Some oq \<Rightarrow> bt_insert agent (f oq) qs | None \<Rightarrow> qs)"

definition set_stage :: "string \<Rightarrow> stage \<Rightarrow> questions \<Rightarrow> questions" where
  "set_stage agent st = update_open agent (\<lambda>oq. oq\<lparr>oq_stage := st\<rparr>)"

definition mark_posted :: "string \<Rightarrow> questions \<Rightarrow> questions" where
  "mark_posted agent = update_open agent (\<lambda>oq. oq\<lparr>oq_posted := True\<rparr>)"

fun is_sent :: "stage \<Rightarrow> bool" where
  "is_sent (Sent _ _ _) = True"
| "is_sent _ = False"

definition suppress_permission_prompt :: "string \<Rightarrow> questions \<Rightarrow> questions \<times> bool" where
  "suppress_permission_prompt agent qs =
     (case bt_get qs agent of
        None \<Rightarrow> (qs, False)
      | Some oq \<Rightarrow>
          if \<not> oq_posted oq \<or> oq_notified oq \<or> is_sent (oq_stage oq) then (qs, False)
          else (bt_insert agent (oq\<lparr>oq_notified := True\<rparr>) qs, True))"

definition question_open ::
  "json_text \<Rightarrow> 'w host \<Rightarrow> string \<Rightarrow> json \<Rightarrow> question list \<Rightarrow> questions \<times> 'w \<Rightarrow> questions \<times> 'w" where
  "question_open js host agent tool_input questions qw =
     (bt_insert agent (opened questions) (fst qw),
      fst (port_put host (question_key agent) (js_print js tool_input) (snd qw)))"

definition question_clear ::
  "'w host \<Rightarrow> string \<Rightarrow> questions \<times> 'w \<Rightarrow> (questions \<times> 'w) \<times> open_question option" where
  "question_clear host agent qw =
     (case bt_get (fst qw) agent of
        None \<Rightarrow> (qw, None)
      | Some was \<Rightarrow> ((bt_remove agent (fst qw), fst (port_delete host (question_key agent) (snd qw))), Some was))"

section \<open>A reply\<close>

definition SENT_GRACE :: duration where
  "SENT_GRACE = from_secs 30"

definition COMMAND_REFUSED :: ustr where
  "COMMAND_REFUSED = points ''this command isn'' @ [39] @ points ''t enabled for this channel''"

datatype reaction = Ack | Refused | Failed | Confirmed

record decision =
  dn_post :: "ustr option"
  dn_send :: "plugin_action option"
  dn_stage :: stage
  dn_fallback :: stage
  dn_react :: "reaction option"
  dn_outcome :: "string option"

fun is_confirming :: "stage \<Rightarrow> bool" where
  "is_confirming (Confirming _ _) = True"
| "is_confirming _ = False"

definition gates_on_post :: "decision \<Rightarrow> bool" where
  "gates_on_post d \<longleftrightarrow> dn_post d \<noteq> None \<and> (dn_send d \<noteq> None \<or> is_confirming (dn_stage d))"

definition refused :: "stage \<Rightarrow> ustr \<Rightarrow> decision" where
  "refused st post =
     \<lparr>dn_post = Some post, dn_send = None, dn_stage = st, dn_fallback = st, dn_react = Some Refused,
      dn_outcome = Some ''answer_refused''\<rparr>"

text \<open>The texts \<open>PluginAction::validate\<close> refuses with.\<close>

definition action_error_text :: "action_error \<Rightarrow> ustr" where
  "action_error_text e =
     (case e of
        TextTooLong n \<Rightarrow> points ''text: expected at most '' @ decimal MAX_SEND_TEXT @ points '' bytes, got '' @ decimal n
      | BadStepCount n \<Rightarrow> points ''steps: expected 1 to '' @ decimal MAX_KEY_STEPS @ points '' steps, got '' @ decimal n
      | BadDelay d \<Rightarrow> points ''delay_ms: expected '' @ decimal (unat MIN_KEY_DELAY_MS) @ points '' to ''
          @ decimal (unat MAX_KEY_DELAY_MS) @ points '', got '' @ decimal (unat d)
      | SequenceTooLong n d t \<Rightarrow> points ''steps: '' @ decimal n @ points '' steps at '' @ decimal (unat d) @ points '' ms is ''
          @ decimal (unat t) @ points '' ms, over the '' @ decimal (unat MAX_KEY_SEQUENCE_MS) @ points '' ms limit''
      | BadStepText i n \<Rightarrow> points ''steps['' @ decimal i @ points ''].text: expected 1 to '' @ decimal MAX_KEY_TEXT
          @ points '' bytes, got '' @ decimal n
      | StepControl i \<Rightarrow> points ''steps['' @ decimal i @ points ''].text: a control character is not allowed'')"

definition plan_action :: "question list \<Rightarrow> selection list option \<Rightarrow> u64 \<Rightarrow> (ustr + plugin_action) option" where
  "plan_action questions selections key_delay_ms =
     map_option (\<lambda>steps.
         let action = SendKeys steps key_delay_ms
         in case action_validate action of
              Inl reason \<Rightarrow>
                Inl (points ''this answer needs more keystrokes than can be sent from here ('' @ action_error_text reason
                     @ points ''); answer at the terminal.'')
            | Inr _ \<Rightarrow> Inr action)
       (case selections of Some s \<Rightarrow> question_plan questions s | None \<Rightarrow> Some skip_plan)"

text \<open>A decision that sends the keys of a plan, or refuses with why they cannot be sent.\<close>

definition send_plan ::
  "question list \<Rightarrow> selection list option \<Rightarrow> u64 \<Rightarrow> (plugin_action \<Rightarrow> decision) \<Rightarrow> (ustr \<Rightarrow> decision) \<Rightarrow> decision option" where
  "send_plan questions selections key_delay_ms ok err =
     map_option (\<lambda>r. case r of Inr action \<Rightarrow> ok action | Inl message \<Rightarrow> err message)
       (plan_action questions selections key_delay_ms)"

definition declining :: "instant \<Rightarrow> stage \<Rightarrow> plugin_action \<Rightarrow> decision" where
  "declining now fallback action =
     \<lparr>dn_post = Some (points ''**declining the question**''), dn_send = Some action, dn_stage = Sent None None now,
      dn_fallback = fallback, dn_react = Some Ack, dn_outcome = Some ''skipped''\<rparr>"

definition is_skip :: "ustr \<Rightarrow> bool" where
  "is_skip reply \<longleftrightarrow> eq_ignore_ascii_case reply (points ''skip'') \<or> eq_ignore_ascii_case reply (points ''skip!'')"

definition types_command :: "ustr list \<Rightarrow> selection \<Rightarrow> bool" where
  "types_command commands s \<longleftrightarrow>
     (case sl_other s of Some t \<Rightarrow> classify t = Command \<and> \<not> allows commands t | None \<Rightarrow> False)"

definition fresh_answer ::
  "unicode \<Rightarrow> question list \<Rightarrow> ustr \<Rightarrow> u64 \<Rightarrow> instant \<Rightarrow> ustr list \<Rightarrow> decision option" where
  "fresh_answer uc questions reply key_delay_ms now commands =
     (case match_reply uc questions reply of
        Inl (Refusal reason) \<Rightarrow> Some (refused Open reason)
      | Inr Skip \<Rightarrow> send_plan questions None key_delay_ms (declining now Open) (refused Open)
      | Inr (Answers selections exact) \<Rightarrow>
          if list_ex (types_command commands) selections
          then Some (refused Open (points ''`other:` '' @ COMMAND_REFUSED))
          else
            let chosen = describe questions selections
            in if exact
               then send_plan questions (Some selections) key_delay_ms
                 (\<lambda>action. \<lparr>dn_post = Some (points ''**answering** '' @ chosen), dn_send = Some action,
                    dn_stage = Sent (Some selections) None now, dn_fallback = Open, dn_react = Some Ack,
                    dn_outcome = Some ''answered''\<rparr>)
                 (refused Open)
               else Some \<lparr>dn_post = Some (points ''**I read that as** '' @ chosen @ points ''. Reply **yes** to send.''),
                    dn_send = None, dn_stage = Confirming selections None, dn_fallback = Open, dn_react = None,
                    dn_outcome = Some ''confirm_asked''\<rparr>)"

definition on_reply ::
  "unicode \<Rightarrow> open_question \<Rightarrow> ustr \<Rightarrow> u64 \<Rightarrow> instant \<Rightarrow> ustr list \<Rightarrow> decision option" where
  "on_reply uc oq reply key_delay_ms now commands =
     (let questions = oq_questions oq; fresh = fresh_answer uc questions reply key_delay_ms now commands
      in case oq_stage oq of
           Sent selections echo since \<Rightarrow>
             if now - since < SENT_GRACE
             then Some (refused (oq_stage oq) (points ''an answer is already on its way; wait for the agent.''))
             else if \<not> is_skip (text_trim reply)
             then Some (refused (oq_stage oq) (points
                    ''the answer may not have landed; check the terminal, or reply `skip` to clear it (this sends Escape, which interrupts the agent if it is running).''))
             else send_plan questions None key_delay_ms (declining now (oq_stage oq)) (refused (oq_stage oq))
         | Confirming selections echo \<Rightarrow>
             let word = map ascii_lower (text_trim reply)
             in if word \<in> {points ''yes'', points ''y''}
                then send_plan questions (Some selections) key_delay_ms
                  (\<lambda>action. \<lparr>dn_post = None, dn_send = Some action, dn_stage = Sent (Some selections) echo now,
                     dn_fallback = Open, dn_react = Some Ack, dn_outcome = Some ''confirmed''\<rparr>)
                  (refused Open)
                else if word \<in> {points ''no'', points ''n''}
                then Some \<lparr>dn_post = None, dn_send = None, dn_stage = Open, dn_fallback = Open, dn_react = Some Ack,
                     dn_outcome = None\<rparr>
                else fresh
         | Open \<Rightarrow> fresh)"

section \<open>The dialog closes\<close>

datatype verdict =
    ConfirmedAnswer "string option"
  | Mismatch ustr
  | AnsweredAtTerminal ustr
  | Nothing

definition on_closed :: "open_question \<Rightarrow> json \<Rightarrow> verdict" where
  "on_closed oq answers =
     (let recorded = describe_recorded (oq_questions oq) answers
      in case oq_stage oq of
           Sent (Some selections) echo _ \<Rightarrow>
             if recorded_matches (oq_questions oq) selections answers then ConfirmedAnswer echo
             else Mismatch (points ''**recorded answer differs** '' @ [0x2014] @ points '' Claude recorded '' @ recorded
                    @ points ''; you chose '' @ describe (oq_questions oq) selections @ points ''. Tell the agent if that matters.'')
         | Sent None _ _ \<Rightarrow> Nothing
         | _ \<Rightarrow> AnsweredAtTerminal (points ''**answered at the terminal** '' @ recorded))"

section \<open>What may be typed into a dialog\<close>

definition stage_ok :: "question list \<Rightarrow> stage \<Rightarrow> bool" where
  "stage_ok questions st \<longleftrightarrow>
     (case st of Confirming selections _ \<Rightarrow> list_all2 selection_ok questions selections | _ \<Rightarrow> True)"

definition open_ok :: "open_question \<Rightarrow> bool" where
  "open_ok oq \<longleftrightarrow> oq_questions oq \<noteq> [] \<and> stage_ok (oq_questions oq) (oq_stage oq)"

lemma question_parse_nonempty: "question_parse v = Some qs \<Longrightarrow> qs \<noteq> []"
  by (auto simp: question_parse_def bind_eq_Some_conv split: if_splits)

lemma opened_ok: "question_parse v = Some qs \<Longrightarrow> open_ok (opened qs)"
  by (simp add: open_ok_def opened_def stage_ok_def question_parse_nonempty)

lemma match_reply_selections:
  "match_reply uc questions reply = Inr (Answers selections exact) \<Longrightarrow> list_all2 selection_ok questions selections"
  by (rule list_all2_mono[OF match_reply_parts]) simp_all

lemma plan_action_total:
  assumes "questions \<noteq> []" and "\<And>s. selections = Some s \<Longrightarrow> list_all2 selection_ok questions s"
  shows "\<exists>r. plan_action questions selections delay = Some r"
proof (cases selections)
  case (Some s)
  with dialog_keys_exist[OF assms(1) assms(2)] show ?thesis by (auto simp: plan_action_def)
qed (simp add: plan_action_def)

lemma plan_action_Inr:
  assumes "plan_action questions selections delay = Some (Inr act)"
  shows "\<exists>keys. act = SendKeys keys delay \<and> action_validate act = Inr ()
    \<and> (case selections of Some s \<Rightarrow> question_plan questions s = Some keys | None \<Rightarrow> keys = skip_plan)"
proof -
  obtain keys where keys: "(case selections of Some s \<Rightarrow> question_plan questions s | None \<Rightarrow> Some skip_plan) = Some keys"
    using assms by (auto simp: plan_action_def)
  moreover from this assms have "act = SendKeys keys delay \<and> action_validate (SendKeys keys delay) = Inr ()"
    by (cases "action_validate (SendKeys keys delay)") (auto simp: plan_action_def Let_def)
  ultimately show ?thesis by (cases selections) auto
qed

lemma send_plan_Some:
  "send_plan questions selections delay ok err = Some d \<longleftrightarrow>
     (\<exists>act. plan_action questions selections delay = Some (Inr act) \<and> d = ok act)
     \<or> (\<exists>m. plan_action questions selections delay = Some (Inl m) \<and> d = err m)"
  by (auto simp: send_plan_def split: sum.splits) (metis sum.exhaust_sel)+

lemma send_plan_total:
  assumes "questions \<noteq> []" and "\<And>s. selections = Some s \<Longrightarrow> list_all2 selection_ok questions s"
    and "\<And>act. P (ok act)" "\<And>m. P (err m)"
  shows "\<exists>d. send_plan questions selections delay ok err = Some d \<and> P d"
proof -
  have "\<exists>r. plan_action questions selections delay = Some r" by (rule plan_action_total) (use assms in auto)
  then obtain r where "plan_action questions selections delay = Some r" ..
  with assms(3,4) show ?thesis by (cases r) (auto simp: send_plan_def)
qed

definition keeps_ok :: "question list \<Rightarrow> decision \<Rightarrow> bool" where
  "keeps_ok questions d \<longleftrightarrow> stage_ok questions (dn_stage d) \<and> stage_ok questions (dn_fallback d)"

lemma keeps_ok_simps [simp]:
  "keeps_ok qs (refused st m) \<longleftrightarrow> stage_ok qs st"
  "keeps_ok qs (declining now st act) \<longleftrightarrow> stage_ok qs st"
  "stage_ok qs Open" "stage_ok qs (Sent a b c)"
  "stage_ok qs (Confirming ss e) \<longleftrightarrow> list_all2 selection_ok qs ss"
  by (auto simp: keeps_ok_def refused_def declining_def stage_ok_def)

lemma fresh_answer_total:
  assumes "questions \<noteq> []"
  shows "\<exists>d. fresh_answer uc questions reply delay now commands = Some d \<and> keeps_ok questions d"
proof (cases "match_reply uc questions reply")
  case (Inl r)
  then show ?thesis by (cases r) (simp add: fresh_answer_def)
next
  case (Inr m)
  show ?thesis
  proof (cases m)
    case Skip
    with Inr assms show ?thesis by (auto simp: fresh_answer_def intro!: send_plan_total)
  next
    case (Answers ss e)
    then have "list_all2 selection_ok questions ss" using Inr match_reply_selections by blast
    with Inr Answers assms show ?thesis
      by (auto simp: fresh_answer_def Let_def intro!: send_plan_total) (simp_all add: keeps_ok_def)
  qed
qed

lemma on_reply_total_lemma:
  assumes "open_ok oq"
  shows "\<exists>d. on_reply uc oq reply delay now commands = Some d \<and> keeps_ok (oq_questions oq) d"
proof -
  have ne: "oq_questions oq \<noteq> []" and st: "stage_ok (oq_questions oq) (oq_stage oq)" using assms by (auto simp: open_ok_def)
  note fresh = fresh_answer_total[OF ne, of uc reply delay now commands]
  show ?thesis
  proof (cases "oq_stage oq")
    case Open
    with fresh show ?thesis by (simp add: on_reply_def)
  next
    case (Confirming ss e)
    show ?thesis
    proof (cases "map ascii_lower (text_trim reply) \<in> {points ''yes'', points ''y''}")
      case True
      with Confirming st ne show ?thesis
        by (auto simp: on_reply_def Let_def intro!: send_plan_total) (simp_all add: keeps_ok_def)
    next
      case False
      with Confirming fresh show ?thesis by (auto simp: on_reply_def Let_def keeps_ok_def)
    qed
  next
    case (Sent a b c)
    with ne show ?thesis by (auto simp: on_reply_def intro!: send_plan_total)
  qed
qed


text \<open>
  A reply to an open question always gets a decision: whatever its stage, however the reply reads, nothing in
  the matching or the planning panics, and every stage the decision may commit is again one a reply can meet.
\<close>

theorem reply_always_decided:
  assumes "open_ok oq"
  shows "\<exists>d. on_reply uc oq reply delay now commands = Some d
    \<and> open_ok (oq\<lparr>oq_stage := dn_stage d\<rparr>) \<and> open_ok (oq\<lparr>oq_stage := dn_fallback d\<rparr>)"
  using on_reply_total_lemma[OF assms, of uc reply delay now commands] assms
  by (auto simp: open_ok_def keeps_ok_def)

definition sample_open :: "stage \<Rightarrow> open_question" where
  "sample_open st = \<lparr>oq_questions = [sample_question False], oq_stage = st, oq_posted = True, oq_notified = False\<rparr>"

theorem reply_always_decided_witness:
  "\<exists>d. on_reply sample_unicode (sample_open (Confirming [\<lparr>sl_options = [1], sl_other = None\<rparr>] None)) (points ''yes'') 100 0 [] = Some d"
proof -
  have "open_ok (sample_open (Confirming [\<lparr>sl_options = [1], sl_other = None\<rparr>] None))"
    by (simp add: open_ok_def sample_open_def selection_ok_def sample_question_def)
  from reply_always_decided[OF this, of sample_unicode "points ''yes''" 100 0 "[]"] show ?thesis by blast
qed

definition says_yes :: "ustr \<Rightarrow> bool" where
  "says_yes reply \<longleftrightarrow> map ascii_lower (text_trim reply) \<in> {points ''yes'', points ''y''}"

text \<open>The keys of a decision are one Escape, or the keys of the reading it commits.\<close>

definition sends_escape :: "u64 \<Rightarrow> instant \<Rightarrow> decision \<Rightarrow> bool" where
  "sends_escape delay now d \<longleftrightarrow>
     dn_send d = Some (SendKeys [KeyPress Escape] delay) \<and> dn_stage d = Sent None None now \<and> gates_on_post d"

definition sends_reading :: "question list \<Rightarrow> u64 \<Rightarrow> instant \<Rightarrow> selection list \<Rightarrow> string option \<Rightarrow> decision \<Rightarrow> bool" where
  "sends_reading questions delay now ss echo d \<longleftrightarrow>
     (\<exists>keys. dn_send d = Some (SendKeys keys delay) \<and> action_validate (SendKeys keys delay) = Inr ()
        \<and> dn_stage d = Sent (Some ss) echo now
        \<and> dg_submitted (dialog_run questions keys) \<and> dg_answers (dialog_run questions keys) = map recorded_as ss)"

lemma plan_reading:
  assumes "questions \<noteq> []" "list_all2 selection_ok questions ss"
    and "plan_action questions (Some ss) delay = Some (Inr act)"
    and "dn_send d = Some act" "dn_stage d = Sent (Some ss) echo now"
  shows "sends_reading questions delay now ss echo d"
  using plan_action_Inr[OF assms(3)] dialog_keys_exist[OF assms(1,2)] assms(4,5)
  by (auto simp: sends_reading_def)

lemma plan_escape:
  assumes "plan_action questions None delay = Some (Inr act)" "d = declining now st act"
  shows "sends_escape delay now d"
  using plan_action_Inr[OF assms(1)] assms(2)
  by (auto simp: sends_escape_def declining_def gates_on_post_def skip_plan_def)

lemma fresh_answer_sends:
  assumes "fresh_answer uc questions reply delay now commands = Some d" "dn_send d \<noteq> None" "questions \<noteq> []"
  shows "sends_escape delay now d \<and> match_reply uc questions reply = Inr Skip
    \<or> (\<exists>ss. match_reply uc questions reply = Inr (Answers ss True) \<and> sends_reading questions delay now ss None d
         \<and> gates_on_post d \<and> dn_post d = Some (points ''**answering** '' @ describe questions ss))"
proof (cases "match_reply uc questions reply")
  case (Inl r)
  with assms show ?thesis by (cases r) (auto simp: fresh_answer_def refused_def)
next
  case (Inr m)
  show ?thesis
  proof (cases m)
    case Skip
    with Inr assms show ?thesis by (auto simp: fresh_answer_def send_plan_Some refused_def intro: plan_escape)
  next
    case (Answers ss e)
    note ok = match_reply_selections[OF Inr[unfolded Answers]]
    from Inr Answers assms have "e" "\<not> list_ex (types_command commands) ss"
      by (auto simp: fresh_answer_def Let_def refused_def split: if_splits)
    with Inr Answers assms obtain act where act: "plan_action questions (Some ss) delay = Some (Inr act)"
      and d: "d = \<lparr>dn_post = Some (points ''**answering** '' @ describe questions ss), dn_send = Some act,
                    dn_stage = Sent (Some ss) None now, dn_fallback = Open, dn_react = Some Ack,
                    dn_outcome = Some ''answered''\<rparr>"
      by (auto simp: fresh_answer_def Let_def send_plan_Some refused_def split: if_splits)
    have "sends_reading questions delay now ss None d" by (rule plan_reading[OF assms(3) ok act]) (simp_all add: d)
    with Inr Answers \<open>e\<close> d show ?thesis by (simp add: gates_on_post_def)
  qed
qed

lemma reply_sends_shown:
  assumes "open_ok oq" "on_reply uc oq reply delay now commands = Some d" "dn_send d \<noteq> None"
  shows "sends_escape delay now d
      \<and> (is_skip (text_trim reply) \<and> (case oq_stage oq of Sent _ _ since \<Rightarrow> SENT_GRACE \<le> now - since | _ \<Rightarrow> True))
    \<or> \<not> is_sent (oq_stage oq)
      \<and> (\<exists>ss echo. sends_reading (oq_questions oq) delay now ss echo d
           \<and> (match_reply uc (oq_questions oq) reply = Inr (Answers ss True) \<and> gates_on_post d
                \<and> dn_post d = Some (points ''**answering** '' @ describe (oq_questions oq) ss)
              \<or> oq_stage oq = Confirming ss echo \<and> says_yes reply))"
proof -
  have ne: "oq_questions oq \<noteq> []" and st: "stage_ok (oq_questions oq) (oq_stage oq)" using assms(1) by (auto simp: open_ok_def)
  have skip: "is_skip (text_trim reply)" if "match_reply uc (oq_questions oq) reply = Inr Skip"
    using that by (auto simp: match_reply_def is_skip_def Let_def rbind_Inr split: if_splits)
  have fresh: ?thesis if "fresh_answer uc (oq_questions oq) reply delay now commands = Some d" "\<not> is_sent (oq_stage oq)"
    using fresh_answer_sends[OF that(1) assms(3) ne] that(2) skip by (cases "oq_stage oq") auto
  show ?thesis
  proof (cases "oq_stage oq")
    case Open
    with assms(2) fresh show ?thesis by (simp add: on_reply_def)
  next
    case (Confirming ss echo)
    show ?thesis
    proof (cases "says_yes reply")
      case True
      with Confirming assms(2,3) obtain act where act: "plan_action (oq_questions oq) (Some ss) delay = Some (Inr act)"
        and d: "d = \<lparr>dn_post = None, dn_send = Some act, dn_stage = Sent (Some ss) echo now,
                     dn_fallback = Open, dn_react = Some Ack, dn_outcome = Some ''confirmed''\<rparr>"
        by (auto simp: on_reply_def says_yes_def Let_def send_plan_Some refused_def split: if_splits)
      have "sends_reading (oq_questions oq) delay now ss echo d"
        using st Confirming by (intro plan_reading[OF ne _ act]) (simp_all add: d)
      with Confirming True show ?thesis by auto
    next
      case False
      with Confirming assms(2,3) have "fresh_answer uc (oq_questions oq) reply delay now commands = Some d"
        by (auto simp: on_reply_def says_yes_def Let_def split: if_splits)
      with fresh Confirming show ?thesis by simp
    qed
  next
    case (Sent a b since)
    with assms(2,3) obtain act where "SENT_GRACE \<le> now - since" "is_skip (text_trim reply)"
      "plan_action (oq_questions oq) None delay = Some (Inr act)" "d = declining now (oq_stage oq) act"
      by (auto simp: on_reply_def Let_def send_plan_Some refused_def not_less split: if_splits)
    with plan_escape Sent show ?thesis by auto
  qed
qed

text \<open>
  C16. What a reply types into a dialog is exactly what its thread was shown. When a decision sends keys, they are
  either one Escape, for a reply that declines, or the keys of one reading that pass the daemon's own
  check and make the dialog submit just that reading; and that reading is either exact and announced in a post that must
  land first, or the one the thread was asked to confirm, to which the reply said yes. Once keys were
  sent, only an Escape may follow, and only after the grace period.
\<close>

theorem keys_are_what_was_shown:
  assumes "open_ok oq" "on_reply uc oq reply delay now commands = Some d" "dn_send d \<noteq> None"
  shows "sends_escape delay now d
      \<and> (is_skip (text_trim reply) \<and> (case oq_stage oq of Sent _ _ since \<Rightarrow> SENT_GRACE \<le> now - since | _ \<Rightarrow> True))
    \<or> \<not> is_sent (oq_stage oq)
      \<and> (\<exists>ss echo. sends_reading (oq_questions oq) delay now ss echo d
           \<and> (match_reply uc (oq_questions oq) reply = Inr (Answers ss True) \<and> gates_on_post d
                \<and> dn_post d = Some (points ''**answering** '' @ describe (oq_questions oq) ss)
              \<or> oq_stage oq = Confirming ss echo \<and> says_yes reply))"
  using assms by (rule reply_sends_shown)

definition sample_reading :: selection where
  "sample_reading = \<lparr>sl_options = [1], sl_other = None\<rparr>"

lemma sample_plan:
  "plan_action [sample_question False] (Some [sample_reading]) 100 = Some (Inr (SendKeys [KeyPress Down, KeyPress Enter] 100))"
proof -
  have "question_plan [sample_question False] [sample_reading] = Some [KeyPress Down, KeyPress Enter]"
    by (simp add: question_plan_def question_keys_def sample_question_def sample_reading_def lone_single_def down_def)
  then show ?thesis
    by (simp add: plan_action_def action_validate_def MAX_KEY_STEPS_def MIN_KEY_DELAY_MS_def MAX_KEY_DELAY_MS_def
        MAX_KEY_SEQUENCE_MS_def check_step_def)
qed

lemma sample_confirms:
  "on_reply sample_unicode (sample_open (Confirming [sample_reading] (Some ''e''))) (points ''Yes'') 100 now commands
     = Some \<lparr>dn_post = None, dn_send = Some (SendKeys [KeyPress Down, KeyPress Enter] 100),
         dn_stage = Sent (Some [sample_reading]) (Some ''e'') now, dn_fallback = Open, dn_react = Some Ack,
         dn_outcome = Some ''confirmed''\<rparr>"
  using sample_plan
  by (simp add: on_reply_def sample_open_def send_plan_def points_def text_trim_def text_trim_start_def text_trim_end_def
      is_whitespace_def ascii_lower_def)

lemma sample_open_ok: "open_ok (sample_open (Confirming [sample_reading] echo))"
  by (simp add: open_ok_def sample_open_def selection_ok_def sample_question_def sample_reading_def)

theorem keys_are_what_was_shown_witness:
  "\<exists>d. on_reply sample_unicode (sample_open (Confirming [sample_reading] (Some ''e''))) (points ''Yes'') 100 0 [] = Some d
     \<and> dn_send d \<noteq> None \<and> (\<exists>ss echo. sends_reading [sample_question False] 100 0 ss echo d)"
  using keys_are_what_was_shown[OF sample_open_ok sample_confirms[of 0 "[]"]] sample_confirms[of 0 "[]"]
  by (auto simp: sample_open_def sends_escape_def)

end
