(* ===== verification/Render.thy ===== *)
theory Render
  imports Question Status
begin

text \<open>
  The message bodies a chat plugin posts (plugins/common/src/render.rs, phases.rs): the texts of events,
  questions and phase changes, and the chunker that splits a long markdown body into parts that each fit a
  limit, closing and reopening code fences around a break. A text is its list of code points; lengths and budgets
  count its UTF-8 bytes, and a cut falls between code points. The lemmas show that the chunker's loops end, that
  its pieces are the text and each fit the budget, and that every part posted fits the limit.
\<close>

section \<open>Messages\<close>

definition short_session :: "ustr \<Rightarrow> ustr" where
  "short_session session_id = take 8 session_id"

definition rsplit_last :: "nat \<Rightarrow> ustr \<Rightarrow> ustr" where
  "rsplit_last d s = last (split_on d s)"

definition thread_root :: "ustr \<Rightarrow> ustr \<Rightarrow> ustr \<Rightarrow> ustr" where
  "thread_root agent session_id source =
     bold (rsplit_last (of_char CHR ''/'') agent) @ points '' session `'' @ short_session session_id
       @ points ''` started ('' @ source @ points '')'' @ [newline, newline] @ points ''`'' @ agent @ points ''`''"

definition payload_text :: "json \<Rightarrow> string \<Rightarrow> string \<Rightarrow> ustr" where
  "payload_text payload key fallback =
     (case Option.bind (json_get payload key) as_str of
        Some s \<Rightarrow> if text_trim (chars s) \<noteq> [] then chars s else points fallback
      | None \<Rightarrow> points fallback)"

definition input_field :: "json \<Rightarrow> string \<Rightarrow> ustr option" where
  "input_field payload key =
     map_option chars (Option.bind (Option.bind (json_get payload ''tool_input'') (\<lambda>i. json_get i key)) as_str)"

definition tool_summary :: "json \<Rightarrow> ustr" where
  "tool_summary payload =
     (let name = payload_text payload ''tool_name'' ''tool'';
          ticked = points ''`'' @ name @ points ''`''
      in case find_map (input_field payload) [''command'', ''file_path'', ''pattern''] of
           Some detail \<Rightarrow> ticked @ points '' '' @ detail
         | None \<Rightarrow> ticked)"

definition with_message :: "json \<Rightarrow> ustr \<Rightarrow> ustr" where
  "with_message payload heading =
     (case map_option (text_trim \<circ> chars) (Option.bind (json_get payload ''last_assistant_message'') as_str) of
        Some message \<Rightarrow> if message \<noteq> [] then heading @ [newline, newline] @ message else heading
      | None \<Rightarrow> heading)"

definition event_message :: "hook_event \<Rightarrow> ustr" where
  "event_message event =
     (let p = ev_payload event; name = ev_name event
      in if name = ''SessionStart'' then points ''session restarted ('' @ payload_text p ''source'' ''unknown'' @ points '')''
         else if name = ''SessionEnd'' then points ''**session ended** ('' @ payload_text p ''reason'' ''unknown'' @ points '')''
         else if name = ''Notification'' then points ''**needs you:** '' @ payload_text p ''message'' ''notification''
         else if name = ''Stop'' then with_message p (points ''**turn finished**'')
         else if name = ''SubagentStop'' then with_message p (points ''subagent finished'')
         else if name = ''UserPromptSubmit'' then points ''**prompt**'' @ [newline, newline] @ payload_text p ''prompt'' ''(empty)''
         else if name = ''PreToolUse'' then points ''running '' @ tool_summary p
         else if name = ''PostToolUse'' then points ''finished '' @ tool_summary p
         else if name = ''PreCompact'' then points ''compacting ('' @ payload_text p ''trigger'' ''unknown'' @ points '')''
         else chars name)"

text \<open>A run of whitespace holding a newline becomes one space; any other run is kept.\<close>

function one_line :: "ustr \<Rightarrow> ustr" where
  "one_line [] = []"
| "one_line (c # s) =
     (if is_whitespace c
      then let run = c # takeWhile is_whitespace s
           in (if newline \<in> set run then [32] else run) @ one_line (dropWhile is_whitespace s)
      else c # one_line s)"
  by pat_completeness auto
termination
  by (relation "measure length") (auto simp: le_imp_less_Suc length_dropWhile_le)

definition question_paragraphs :: "nat \<Rightarrow> nat \<times> question \<Rightarrow> ustr list" where
  "question_paragraphs how_many e =
     (case e of (i, q) \<Rightarrow>
        [(if how_many > 1 then points ''**question '' @ decimal (i + 1) @ points '' of '' @ decimal how_many @ points ''**''
          else points ''**question**'')
           @ (if qn_header q \<noteq> [] then dot @ one_line (qn_header q) else []),
         one_line (text_trim (chars (qn_text q)))
           @ (if qn_multi_select q then points '' *(choose any, separated by commas)*'' else []),
         join_text [newline] (map (\<lambda>(n, opt).
             decimal (n + 1) @ points ''. '' @ bold (one_line (op_label opt))
               @ (if op_description opt = [] then [] else [32, 0x2014, 32] @ one_line (op_description opt)))
           (List.enumerate 0 (qn_options q)))])"

definition question_message :: "unicode \<Rightarrow> question list \<Rightarrow> ustr" where
  "question_message uc questions =
     join_text [newline, newline]
       (concat (map (question_paragraphs (length questions)) (List.enumerate 0 questions))
        @ [if length questions > 1
           then points ''Reply with one line per question, in order: a number or a label. `other: '' @ [0x2026]
             @ points ''` gives your own answer, `skip` declines.''
           else if labelled_skip uc questions
           then points ''Reply with a number or a label. `other: '' @ [0x2026]
             @ points ''` gives your own answer, `skip` chooses the option labelled skip, `skip!` declines.''
           else points ''Reply with a number or a label. `other: '' @ [0x2026]
             @ points ''` gives your own answer, `skip` declines.''])"

section \<open>Phase changes\<close>

record phase_change =
  pc_agent :: string
  pc_from :: agent_phase
  pc_to :: agent_phase
  pc_message :: string

definition flatten :: "fleet_record list \<Rightarrow> (string, agent_status) btree" where
  "flatten fleets = fold (\<lambda>(k, s). bt_insert k s) (concat (map (\<lambda>f. fs_agents (fr_status f)) fleets)) []"

definition phase_changes :: "fleet_record list option \<Rightarrow> fleet_record list \<Rightarrow> phase_change list" where
  "phase_changes previous current =
     (case previous of
        None \<Rightarrow> []
      | Some previous \<Rightarrow>
          let before = flatten previous
          in List.map_filter (\<lambda>(agent, status).
               Option.bind (bt_get before agent) (\<lambda>prior.
                 if st_phase prior = st_phase status then None
                 else Some \<lparr>pc_agent = agent, pc_from = st_phase prior, pc_to = st_phase status,
                            pc_message = st_message status\<rparr>))
             (flatten current))"

definition phase_debug :: "agent_phase \<Rightarrow> string" where
  "phase_debug p =
     (case p of
        Pending \<Rightarrow> ''Pending'' | Materializing \<Rightarrow> ''Materializing'' | Starting \<Rightarrow> ''Starting'' | Ready \<Rightarrow> ''Ready''
      | Failed \<Rightarrow> ''Failed'' | Dead \<Rightarrow> ''Dead'' | Stopped \<Rightarrow> ''Stopped'' | Unknown \<Rightarrow> ''Unknown'')"

definition phase_message :: "phase_change \<Rightarrow> ustr" where
  "phase_message change =
     (let base = points ''phase '' @ bold (points (phase_debug (pc_from change))) @ points '' to ''
            @ bold (points (phase_debug (pc_to change)))
      in if text_trim (chars (pc_message change)) = [] then base else base @ points '': '' @ chars (pc_message change))"

section \<open>The chunker\<close>

definition PART_OVERHEAD :: nat where
  "PART_OVERHEAD = 64"

definition MAX_INFO :: nat where
  "MAX_INFO = 32"

record fence =
  fn_marker :: ustr
  fn_info :: ustr

definition reopen_line :: "fence \<Rightarrow> ustr" where
  "reopen_line f =
     fn_marker f @ (if str_starts_with (fn_info f) (take 1 (fn_marker f)) then [32] else []) @ fn_info f @ [newline]"

text \<open>The longest beginning of a text that takes at most \<open>room\<close> bytes.\<close>

fun text_prefix :: "nat \<Rightarrow> ustr \<Rightarrow> ustr" where
  "text_prefix room [] = []"
| "text_prefix room (c # s) =
     (if length (utf8_char c) \<le> room then c # text_prefix (room - length (utf8_char c)) s else [])"

definition fence_of :: "ustr \<Rightarrow> fence option" where
  "fence_of line =
     (let t = text_trim_start line
      in case t of
           [] \<Rightarrow> None
         | ch # _ \<Rightarrow>
             if ch \<notin> set (points ''`~'') then None
             else let marker = takeWhile (\<lambda>c. c = ch) t
                  in if utf8_len marker \<ge> 3
                     then Some \<lparr>fn_marker = marker, fn_info = text_prefix MAX_INFO (text_trim (drop (length marker) t))\<rparr>
                     else None)"

definition track_line :: "ustr \<Rightarrow> fence option \<Rightarrow> fence option" where
  "track_line line open_fence =
     (case (open_fence, fence_of line) of
        (None, Some f) \<Rightarrow> Some f
      | (Some cur, Some f) \<Rightarrow>
          if str_starts_with (fn_marker f) (fn_marker cur) \<and> fn_info f = [] then None else open_fence
      | _ \<Rightarrow> open_fence)"

definition track :: "fence option \<Rightarrow> ustr \<Rightarrow> fence option" where
  "track open_fence piece = fold track_line (text_lines piece) open_fence"

text \<open>Where a character last occurs.\<close>

definition rfind :: "nat \<Rightarrow> ustr \<Rightarrow> nat option" where
  "rfind c s = map_option (\<lambda>i. length s - 1 - i) (position (\<lambda>d. d = c) (rev s))"

definition cut_within :: "ustr \<Rightarrow> nat \<Rightarrow> nat" where
  "cut_within rest room =
     (let head = text_prefix room rest
      in case rfind newline head of
           Some i \<Rightarrow> if i > 0 then i + 1 else length head
         | None \<Rightarrow> length head)"

record piece =
  pe_reopen :: ustr
  pe_body :: ustr
  pe_close :: ustr

definition piece_len :: "piece \<Rightarrow> nat" where
  "piece_len p = utf8_len (pe_reopen p) + utf8_len (pe_body p) + utf8_len (pe_close p)"

definition close_line :: "fence option \<Rightarrow> ustr \<Rightarrow> ustr" where
  "close_line after body =
     (case after of
        None \<Rightarrow> []
      | Some f \<Rightarrow> (if str_ends_with body [newline] then [] else [newline]) @ fn_marker f @ [newline])"

lemma utf8_len_append [simp]: "utf8_len (a @ b) = utf8_len a + utf8_len b"
  by (simp add: utf8_len_def utf8_def)

lemma text_prefix_take: "text_prefix room s = take (length (text_prefix room s)) s"
  by (induction s arbitrary: room) auto

lemma text_prefix_bytes: "utf8_len (text_prefix room s) \<le> room"
proof (induction s arbitrary: room)
  case (Cons c s)
  from Cons[of "room - length (utf8_char c)"] show ?case by auto
qed simp

lemma text_prefix_length: "length (text_prefix room s) \<le> length s"
  by (induction s arbitrary: room) auto

lemma position_less: "position P xs = Some i \<Longrightarrow> i < length xs"
  by (induction xs arbitrary: i) (auto split: if_splits)

lemma rfind_less: "rfind c s = Some i \<Longrightarrow> i < length s"
  by (auto simp: rfind_def dest: position_less)

lemma cut_within_le: "cut_within rest room \<le> length (text_prefix room rest)"
  by (auto simp: cut_within_def Let_def dest: rfind_less split: option.split)

lemma utf8_len_take: "utf8_len (take n s) \<le> utf8_len s"
  by (metis append_take_drop_id le_add1 utf8_len_append)

lemma cut_within_bytes: "utf8_len (take (cut_within rest room) rest) \<le> room"
proof -
  have "take (cut_within rest room) rest = take (cut_within rest room) (text_prefix room rest)"
    using text_prefix_take[of room rest] cut_within_le[of rest room] by (metis min.absorb1 take_take)
  then show ?thesis using utf8_len_take text_prefix_bytes le_trans by metis
qed

lemma cut_within_length: "cut_within rest room \<le> length rest"
  using cut_within_le text_prefix_length le_trans by blast

lemma utf8_len_pos: "s \<noteq> [] \<Longrightarrow> 0 < utf8_len s"
  using utf8_char_nonempty by (cases s) auto

lemma take_cut_nonempty: "cut_within rest room \<noteq> 0 \<Longrightarrow> take (cut_within rest room) rest \<noteq> []"
  using cut_within_length[of rest room] by auto

text \<open>The loop of \<open>fit\<close>: the room shrinks on every turn.\<close>

function fit_loop :: "ustr \<Rightarrow> nat \<Rightarrow> fence option \<Rightarrow> ustr \<Rightarrow> nat \<Rightarrow> (piece \<times> fence option) option" where
  "fit_loop rest budget open_fence reopen room =
     (let cut = cut_within rest room
      in if cut = 0 then None
         else
           let body = take cut rest;
               after = track open_fence body;
               piece = \<lparr>pe_reopen = reopen, pe_body = body, pe_close = close_line after body\<rparr>
           in if piece_len piece \<le> budget then Some (piece, after)
              else fit_loop rest budget open_fence reopen
                     (min (utf8_len body - 1) (budget - (utf8_len reopen + utf8_len (pe_close piece)))))"
  by pat_completeness auto
termination
proof (relation "measure (\<lambda>(_, _, _, _, room). room)")
  fix rest :: ustr and budget :: nat and open_fence :: "fence option" and reopen room cut body after piece
  assume "cut = cut_within rest room" "cut \<noteq> 0" "body = take cut rest"
  then have "utf8_len body \<le> room" "0 < utf8_len body"
    using cut_within_bytes[of rest room] utf8_len_pos[OF take_cut_nonempty[of rest room]] by simp_all
  then show "((rest, budget, open_fence, reopen,
      min (utf8_len body - 1) (budget - (utf8_len reopen + utf8_len (pe_close piece)))), rest, budget, open_fence, reopen, room)
    \<in> measure (\<lambda>(_, _, _, _, room). room)" by auto
qed simp

declare fit_loop.simps [simp del]

definition fit :: "ustr \<Rightarrow> nat \<Rightarrow> fence option \<Rightarrow> (piece \<times> fence option) option" where
  "fit rest budget open_fence =
     (let reopen = (case open_fence of Some f \<Rightarrow> reopen_line f | None \<Rightarrow> [])
      in if utf8_len reopen \<le> budget then fit_loop rest budget open_fence reopen (budget - utf8_len reopen) else None)"

definition bare_piece :: "ustr \<Rightarrow> piece" where
  "bare_piece body = \<lparr>pe_reopen = [], pe_body = body, pe_close = []\<rparr>"

definition next_piece :: "ustr \<Rightarrow> nat \<Rightarrow> fence option \<Rightarrow> piece \<times> fence option" where
  "next_piece rest budget open_fence =
     (case fit rest budget open_fence of
        Some fitted \<Rightarrow> fitted
      | None \<Rightarrow>
          (case fit rest budget None of
             Some fitted \<Rightarrow> fitted
           | None \<Rightarrow>
               let at = cut_within rest budget
               in (bare_piece (take (if at = 0 then 1 else at) rest), None)))"

lemma fit_loop_piece:
  assumes "fit_loop rest budget open_fence reopen room = Some (p, after)"
  shows "\<exists>k. 0 < k \<and> k \<le> length rest \<and> pe_body p = take k rest \<and> piece_len p \<le> budget"
  using assms
proof (induction rest budget open_fence reopen room rule: fit_loop.induct)
  case (1 rest budget open_fence reopen room)
  let ?cut = "cut_within rest room"
  let ?body = "take ?cut rest"
  let ?piece = "\<lparr>pe_reopen = reopen, pe_body = ?body, pe_close = close_line (track open_fence ?body) ?body\<rparr>"
  have cut: "?cut \<noteq> 0" using "1.prems" by (subst (asm) fit_loop.simps) (simp add: Let_def split: if_splits)
  show ?case
  proof (cases "piece_len ?piece \<le> budget")
    case True
    then have "p = ?piece" using "1.prems" cut by (subst (asm) fit_loop.simps) (auto simp: Let_def)
    with True cut show ?thesis using cut_within_length[of rest room] by auto
  next
    case False
    then show ?thesis using "1.IH"[OF refl cut refl refl refl False] "1.prems" cut
      by (subst (asm) (2) fit_loop.simps) (simp add: Let_def)
  qed
qed

lemma next_piece_body:
  assumes "rest \<noteq> []"
  shows "\<exists>k. 0 < k \<and> k \<le> length rest \<and> pe_body (fst (next_piece rest budget open_fence)) = take k rest"
proof -
  have fitted: "\<exists>k. 0 < k \<and> k \<le> length rest \<and> pe_body (fst r) = take k rest" if "fit rest budget open_fence = Some r" for r open_fence
    using that fit_loop_piece[of rest budget open_fence _ _ "fst r" "snd r"] by (auto simp: fit_def Let_def split: if_splits)
  have "1 \<le> length rest" using assms by (cases rest) auto
  with cut_within_length[of rest budget] fitted show ?thesis
    by (auto simp: next_piece_def bare_piece_def Let_def split: option.split)
qed

lemma next_piece_shrinks:
  "(p, after) = next_piece rest budget open_fence \<Longrightarrow> rest \<noteq> [] \<Longrightarrow> length rest - length (pe_body p) < length rest"
  using next_piece_body[of rest budget open_fence] by (cases "next_piece rest budget open_fence") auto

function pieces_from :: "ustr \<Rightarrow> nat \<Rightarrow> fence option \<Rightarrow> piece list" where
  "pieces_from rest budget open_fence =
     (if rest = [] then []
      else if open_fence = None \<and> utf8_len rest \<le> budget then [bare_piece rest]
      else case next_piece rest budget open_fence of
             (piece, after) \<Rightarrow> piece # pieces_from (drop (length (pe_body piece)) rest) budget after)"
  by pat_completeness auto
termination
  by (relation "measure (\<lambda>(rest, _, _). length rest)") (auto dest: next_piece_shrinks)

declare pieces_from.simps [simp del]

definition pieces :: "ustr \<Rightarrow> nat \<Rightarrow> piece list" where
  "pieces body budget = pieces_from body budget None"

definition chunks :: "ustr \<Rightarrow> nat \<Rightarrow> ustr list" where
  "chunks body budget =
     (let out = map (\<lambda>p. pe_reopen p @ pe_body p @ pe_close p) (pieces body budget)
      in if out = [] then [[]] else out)"

definition truncated_note :: "nat \<Rightarrow> ustr" where
  "truncated_note omitted =
     [newline, newline, 0x2026] @ points '' truncated, '' @ decimal omitted @ points '' ''
       @ points (if omitted = 1 then ''part'' else ''parts'') @ points '' omitted''"

definition part_marker :: "nat \<Rightarrow> nat \<Rightarrow> ustr" where
  "part_marker i parts_total = [newline, newline] @ points ''('' @ decimal (i + 1) @ points ''/'' @ decimal parts_total @ points '')''"

definition split_body :: "ustr \<Rightarrow> nat \<Rightarrow> nat \<Rightarrow> ustr list" where
  "split_body body limit max_parts =
     (if utf8_len body \<le> limit then [body]
      else
        let max_parts = max max_parts 1;
            parts = chunks body (max (limit - PART_OVERHEAD) 1)
        in if length parts \<le> 1 then parts
           else
             let omitted = length parts - max_parts;
                 parts = (if length parts > max_parts
                          then butlast (take max_parts parts) @ [last (take max_parts parts) @ truncated_note omitted]
                          else parts);
                 parts_total = length parts
             in map (\<lambda>(i, p). text_trim_end p @ part_marker i parts_total) (List.enumerate 0 parts))"


section \<open>The pieces are the text, and fit\<close>

lemma utf8_char_le: "length (utf8_char c) \<le> 4"
  by (simp add: utf8_char_def)

lemma cut_within_pos:
  assumes "4 \<le> room" "rest \<noteq> []"
  shows "cut_within rest room \<noteq> 0"
proof -
  have "text_prefix room rest \<noteq> []"
  proof (cases rest)
    case (Cons c s)
    have "length (utf8_char c) \<le> room" using utf8_char_le[of c] assms(1) by linarith
    then show ?thesis by (simp add: Cons)
  qed (use assms in simp)
  then show ?thesis by (simp add: cut_within_def Let_def split: option.split)
qed

lemma next_piece_fits:
  assumes "rest \<noteq> []" "4 \<le> budget"
  shows "piece_len (fst (next_piece rest budget open_fence)) \<le> budget"
proof -
  have fitted: "piece_len (fst r) \<le> budget" if "fit rest budget open_fence = Some r" for r open_fence
    using that fit_loop_piece[of rest budget open_fence _ _ "fst r" "snd r"] by (auto simp: fit_def Let_def split: if_splits)
  show ?thesis
    using fitted cut_within_pos[OF assms(2,1)] cut_within_bytes[of rest budget]
    by (auto simp: next_piece_def bare_piece_def piece_len_def Let_def split: option.split)
qed

lemma pieces_from_text:
  "concat (map pe_body (pieces_from rest budget open_fence)) = rest
   \<and> list_all (\<lambda>p. pe_body p \<noteq> []) (pieces_from rest budget open_fence)
   \<and> (4 \<le> budget \<longrightarrow> list_all (\<lambda>p. piece_len p \<le> budget) (pieces_from rest budget open_fence))"
proof (induction rest budget open_fence rule: pieces_from.induct)
  case (1 rest budget open_fence)
  consider "rest = []" | "rest \<noteq> []" "open_fence = None \<and> utf8_len rest \<le> budget"
    | "rest \<noteq> []" "\<not> (open_fence = None \<and> utf8_len rest \<le> budget)" by blast
  then show ?case
  proof cases
    case 1
    then show ?thesis by (subst (1 2 3) pieces_from.simps) simp
  next
    case 2
    then have "pieces_from rest budget open_fence = [bare_piece rest]" by (subst pieces_from.simps) simp
    with 2 show ?thesis by (simp add: bare_piece_def piece_len_def)
  next
    case 3
    obtain p after where next_p: "next_piece rest budget open_fence = (p, after)" by fastforce
    obtain k where k: "0 < k" "k \<le> length rest" "pe_body p = take k rest"
      using next_piece_body[OF 3(1), of budget open_fence] next_p by auto
    have "pieces_from rest budget open_fence = p # pieces_from (drop k rest) budget after"
      using 3 next_p k by (subst pieces_from.simps) (simp, blast)
    moreover have "concat (map pe_body (pieces_from (drop k rest) budget after)) = drop k rest"
      and "list_all (\<lambda>p. pe_body p \<noteq> []) (pieces_from (drop k rest) budget after)"
      and "4 \<le> budget \<longrightarrow> list_all (\<lambda>p. piece_len p \<le> budget) (pieces_from (drop k rest) budget after)"
      using "1.IH"[OF 3 next_p[symmetric]] k by simp_all
    moreover have "4 \<le> budget \<longrightarrow> piece_len p \<le> budget" using next_piece_fits[OF 3(1), of budget open_fence] next_p by simp
    ultimately show ?thesis using k 3(1) by auto
  qed
qed

lemma concat_length: "list_all (\<lambda>x. f x \<noteq> []) xs \<Longrightarrow> length xs \<le> length (concat (map f xs))"
proof (induction xs)
  case (Cons x xs)
  then have "1 \<le> length (f x)" by (cases "f x") auto
  with Cons show ?case by simp
qed simp

lemma pieces_text:
  "concat (map pe_body (pieces body budget)) = body"
  "list_all (\<lambda>p. pe_body p \<noteq> []) (pieces body budget)"
  "4 \<le> budget \<Longrightarrow> list_all (\<lambda>p. piece_len p \<le> budget) (pieces body budget)"
  using pieces_from_text[of body budget None] by (simp_all add: pieces_def)

lemma pieces_count: "length (pieces body budget) \<le> length body"
  using concat_length[OF pieces_text(2), of body budget] by (simp add: pieces_text)

text \<open>
  C24. The chunker ends on every text, for every budget, even one of zero: it takes at least one character per piece,
  so it makes at most one piece per character, and the bodies of the pieces, in order, are the text: nothing is
  lost or repeated at a break. With a budget of four bytes or more every piece fits it, the lines that reopen and close a
  code fence included.
\<close>

theorem pieces_end_and_fit:
  "length (pieces body budget) \<le> length body \<and> concat (map pe_body (pieces body budget)) = body
   \<and> list_all (\<lambda>p. pe_body p \<noteq> [] \<and> (budget < 4 \<or> piece_len p \<le> budget)) (pieces body budget)"
  using pieces_text(1,2)[of body budget] pieces_text(3)[of budget body] pieces_count[of body budget]
  by (cases "budget < 4") (auto simp: list_all_iff)

section \<open>Every part fits the limit\<close>

lemma ascii_len: "list_all (\<lambda>c. c < 128) s \<Longrightarrow> utf8_len s = length s"
  by (induction s) (auto simp: utf8_char_def)

lemma decimal_len: "utf8_len (decimal n) = length (nat_digits n)"
proof -
  have "list_all (\<lambda>c. c < 128) (decimal n)" using digits_decimal(2)[of n] by (auto simp: list_all_iff is_digit_def)
  then show ?thesis by (simp add: ascii_len) (simp add: decimal_def points_def)
qed

lemma nat_digits_length: "n < 10 ^ k \<Longrightarrow> 0 < k \<Longrightarrow> length (nat_digits n) \<le> k"
proof (induction k arbitrary: n)
  case (Suc k)
  show ?case
  proof (cases "n < 10")
    case True
    then show ?thesis by (simp add: nat_digits.simps[of n])
  next
    case False
    then have "0 < k" using Suc.prems by (cases k) auto
    moreover have "n div 10 < 10 ^ k" using Suc.prems(1) by (simp add: less_mult_imp_div_less mult.commute)
    ultimately show ?thesis using Suc.IH[of "n div 10"] False by (simp add: nat_digits.simps[of n])
  qed
qed simp

lemma utf8_len_rev: "utf8_len (rev s) = utf8_len s"
  by (induction s) auto

lemma trim_end_len: "utf8_len (text_trim_end s) \<le> utf8_len s"
  using utf8_len_dropWhile[of is_whitespace "rev s"] by (simp add: text_trim_end_def utf8_len_rev)

lemma points_len: "list_all (\<lambda>c. (of_char c :: nat) < 128) s \<Longrightarrow> utf8_len (points s) = length s"
  using ascii_len[of "points s"] by (auto simp: points_def list_all_iff)

lemma part_marker_len:
  assumes "i < n" "n < 10 ^ 9"
  shows "utf8_len (part_marker i n) \<le> 23"
proof -
  have "length (nat_digits (i + 1)) \<le> 9" "length (nat_digits n) \<le> 9"
    using nat_digits_length[of _ 9] assms by simp_all
  then show ?thesis by (simp add: part_marker_def decimal_len points_def utf8_char_def newline_def)
qed

lemma truncated_note_len:
  assumes "n < 10 ^ 9"
  shows "utf8_len (truncated_note n) \<le> 40"
  using nat_digits_length[of n 9] assms
  by (cases "n = 1") (simp_all add: truncated_note_def decimal_len points_def utf8_char_def newline_def)

lemma chunks_fit:
  assumes "4 \<le> budget" "p \<in> set (chunks body budget)"
  shows "utf8_len p \<le> budget"
  using pieces_text(3)[OF assms(1), of body] assms(2)
  by (auto simp: chunks_def piece_len_def list_all_iff Let_def add.assoc split: if_splits)

lemma chunks_count: "length (chunks body budget) \<le> max (length body) 1"
  using pieces_count[of body budget] by (simp add: chunks_def Let_def max_def)


text \<open>The parts kept of the chunks: past \<open>m\<close> they are dropped, and the last one kept says so.\<close>

lemma kept_parts:
  fixes cs :: "ustr list" and m :: nat
  defines "n \<equiv> truncated_note (length cs - m)"
  defines "parts \<equiv> (if length cs > m then butlast (take m cs) @ [last (take m cs) @ n] else cs)"
  assumes fit: "\<And>p. p \<in> set cs \<Longrightarrow> utf8_len p + 64 \<le> limit" and few: "length cs < 10 ^ 9"
    and some: "0 < m" "cs \<noteq> []"
  shows "length parts \<le> m" "length parts \<le> length cs" "p \<in> set parts \<Longrightarrow> utf8_len p + 24 \<le> limit"
proof -
  have ne: "take m cs \<noteq> []" using some by auto
  then show "length parts \<le> m" "length parts \<le> length cs" by (auto simp: parts_def min_def)
  have short: "utf8_len n \<le> 40" unfolding n_def using few by (intro truncated_note_len) simp
  have "last (take m cs) \<in> set cs" using ne by (meson in_set_takeD last_in_set)
  moreover have "set (butlast (take m cs)) \<subseteq> set cs" by (meson in_set_butlastD in_set_takeD subsetI)
  ultimately show "utf8_len p + 24 \<le> limit" if "p \<in> set parts"
    using that fit[of "last (take m cs)"] fit[of p] short by (cases "length cs > m") (auto simp: parts_def)
qed

lemma marked_part_fits:
  assumes "(i, p) \<in> set (List.enumerate 0 parts)" "length parts < 10 ^ 9"
    and "\<And>p. p \<in> set parts \<Longrightarrow> utf8_len p + 24 \<le> limit"
  shows "utf8_len (text_trim_end p @ part_marker i (length parts)) \<le> limit"
proof -
  have "p \<in> set parts" "i < length parts" using assms(1) by (auto simp: in_set_enumerate_eq)
  then show ?thesis using assms(2,3) part_marker_len[of i "length parts"] trim_end_len[of p] by fastforce
qed

text \<open>
  No message is refused for its length: whatever the body, each part \<open>split\<close> gives fits the limit, markers, fence
  lines and the note about dropped parts included, for any limit of at least 68 bytes and any body shorter than a
  billion characters; there are at most \<open>max_parts\<close> of them, and a body that fits is posted as it is.
\<close>

theorem split_parts_fit:
  assumes "68 \<le> limit" "length body < 10 ^ 9"
  shows "list_all (\<lambda>part. utf8_len part \<le> limit) (split_body body limit max_parts)
    \<and> length (split_body body limit max_parts) \<le> max max_parts 1
    \<and> (utf8_len body \<le> limit \<longrightarrow> split_body body limit max_parts = [body])"
proof (cases "utf8_len body \<le> limit")
  case True
  then show ?thesis by (simp add: split_body_def)
next
  case False
  let ?budget = "max (limit - PART_OVERHEAD) 1"
  let ?chunks = "chunks body ?budget" and ?max = "max max_parts 1"
  have budget: "4 \<le> ?budget" "?budget + 64 \<le> limit" using assms(1) by (auto simp: PART_OVERHEAD_def)
  have fit: "utf8_len p + 64 \<le> limit" if "p \<in> set ?chunks" for p
    using chunks_fit[OF budget(1) that] budget(2) by simp
  show ?thesis
  proof (cases "length ?chunks \<le> 1")
    case True
    then have "split_body body limit max_parts = ?chunks" using False by (simp add: split_body_def Let_def)
    with True False fit show ?thesis by (fastforce simp: list_all_iff)
  next
    case more: False
    have "body \<noteq> []" using False by auto
    then have few: "length ?chunks < 10 ^ 9" using chunks_count[of body ?budget] assms(2) by (cases body) auto
    define parts where "parts = (if length ?chunks > ?max
      then butlast (take ?max ?chunks) @ [last (take ?max ?chunks) @ truncated_note (length ?chunks - ?max)] else ?chunks)"
    have split: "split_body body limit max_parts
        = map (\<lambda>(i, p). text_trim_end p @ part_marker i (length parts)) (List.enumerate 0 parts)"
      using False more unfolding parts_def by (simp add: split_body_def Let_def)
    have "0 < ?max" "?chunks \<noteq> []" using more by auto
    note kept = kept_parts[where cs = ?chunks and m = ?max, OF fit few this, folded parts_def]
    have "utf8_len (text_trim_end p @ part_marker i (length parts)) \<le> limit"
      if "(i, p) \<in> set (List.enumerate 0 parts)" for i p
      by (rule marked_part_fits[OF that]) (use kept(2,3) few in auto)
    with False kept(1) show ?thesis unfolding split by (auto simp: list_all_iff)
  qed
qed

theorem split_parts_fit_witness:
  "list_all (\<lambda>part. utf8_len part \<le> 4000) (split_body (replicate 9000 97) 4000 2)
   \<and> length (split_body (replicate 9000 97) 4000 2) \<le> 2"
  using split_parts_fit[of 4000 "replicate 9000 97" 2] by simp

end
