(* ===== verification/Blocks.thy ===== *)
theory Blocks
  imports Delivery Plugin
begin

text \<open>
  The configuration helpers the chat plugins share (plugins/common/src/config.rs): the reader that attaches
  serde's path to its error, the filter of hook events, the bounds of the key delay and the grammar of
  durations. serde's typing of a block is a parameter; an error message is carried as the data it prints.
  The lemmas show which durations are read, and to what.
\<close>

datatype block_message =
    TypingText string
  | UnknownEvent string
  | BadKeyDelay u64
  | BadDuration string
  | BadCommand ustr
  | FixedText string

record block_error =
  be_path :: string
  be_message :: block_message

definition kind_name :: "json \<Rightarrow> string" where
  "kind_name v =
     (case v of JNull \<Rightarrow> ''null'' | JBool _ \<Rightarrow> ''boolean'' | JNumber _ \<Rightarrow> ''number'' | JString _ \<Rightarrow> ''string''
      | JArray _ \<Rightarrow> ''array'' | JObject _ \<Rightarrow> ''object'')"

text \<open>serde's own error is its path and its text.\<close>

definition typing_error :: "string \<times> string \<Rightarrow> block_error" where
  "typing_error e =
     (let path = (if fst e = ''.'' then [] else fst e);
          message = str_before '', expected `'' (str_before '', expected one of'' (snd e));
          path = (if path = []
                  then (case Option.bind (strip_prefix ''missing field `'' message) (strip_suffix ''`'') of
                          Some field \<Rightarrow> field | None \<Rightarrow> path)
                  else path)
      in \<lparr>be_path = path, be_message = TypingText message\<rparr>)"

definition deserialize :: "(json \<Rightarrow> (string \<times> string) + 'c) \<Rightarrow> json \<Rightarrow> block_error + 'c" where
  "deserialize typed config =
     (if \<not> is_object config
      then Inl \<lparr>be_path = [], be_message = TypingText (''invalid type: '' @ kind_name config @ '', expected a map'')\<rparr>
      else map_err typing_error (typed config))"

definition DEFAULT_EVENTS :: "string list" where
  "DEFAULT_EVENTS = [''SessionStart'', ''Notification'', ''Stop'', ''SessionEnd'']"

definition LIFECYCLE :: "string list" where
  "LIFECYCLE = [''SessionStart'', ''SessionEnd'']"

definition filter_wants :: "string list \<Rightarrow> string \<Rightarrow> bool" where
  "filter_wants events event \<longleftrightarrow> event \<in> set LIFECYCLE \<or> event \<in> set events"

definition filter_validate :: "string list \<Rightarrow> block_error + unit" where
  "filter_validate events =
     rfold (\<lambda>e _.
         if snd e \<notin> set HOOK_EVENTS
         then Inl \<lparr>be_path = ''events['' @ nat_digits (fst e) @ '']'', be_message = UnknownEvent (snd e)\<rparr>
         else Inr ())
       (List.enumerate 0 events) ()"

definition validate_key_delay :: "u64 \<Rightarrow> block_error + unit" where
  "validate_key_delay ms =
     (if \<not> (MIN_KEY_DELAY_MS \<le> ms \<and> ms \<le> MAX_KEY_DELAY_MS)
      then Inl \<lparr>be_path = ''keyDelayMs'', be_message = BadKeyDelay ms\<rparr>
      else Inr ())"

text \<open>The check of the operator's slash commands, under its configuration key.\<close>

definition validate_commands :: "string \<Rightarrow> ustr list \<Rightarrow> block_error + unit" where
  "validate_commands path entries =
     map_err (\<lambda>(i, entry). \<lparr>be_path = path @ ''['' @ nat_digits i @ '']'', be_message = BadCommand entry\<rparr>)
       (allowlist_validate entries)"

definition unit_seconds :: "string \<Rightarrow> nat option" where
  "unit_seconds unit =
     (if unit = ''s'' then Some 1 else if unit = ''m'' then Some 60 else if unit = ''h'' then Some 3600 else None)"

text \<open>\<open>checked_mul\<close> on \<open>u64\<close> is the product below \<open>2^64\<close>.\<close>

definition parse_duration :: "string \<Rightarrow> string \<Rightarrow> block_error + duration" where
  "parse_duration path s =
     (let invalid = \<lparr>be_path = path, be_message = BadDuration s\<rparr>;
          t = str_trim s;
          digits = takeWhile is_ascii_digit t;
          rest = dropWhile is_ascii_digit t;
          unit = (if rest = [] then ''s'' else rest)
      in if digits = [] then Inl invalid
         else let n = digits_value 0 digits
              in if n \<ge> 2 ^ 64 then Inl invalid
                 else case unit_seconds unit of
                        None \<Rightarrow> Inl invalid
                      | Some secs \<Rightarrow> if n * secs \<ge> 2 ^ 64 then Inl invalid else Inr (from_secs (n * secs)))"

section \<open>What is read\<close>

lemma filter_validate_Inr: "filter_validate events = Inr () \<longleftrightarrow> set events \<subseteq> set HOOK_EVENTS"
  unfolding filter_validate_def rfold_unit_Inr
  by (auto simp: in_set_enumerate_eq) (metis in_set_conv_nth add.left_neutral enumerate_eq_zip in_set_zip length_upt nth_upt prod.sel diff_zero)+

text \<open>A text that begins and ends in these characters is as trimmed as it gets.\<close>

definition solid :: "char \<Rightarrow> bool" where
  "solid c \<longleftrightarrow> is_ascii_digit c \<or> c \<in> {CHR ''s'', CHR ''m'', CHR ''h''}"

lemma whitespace_not_solid:
  assumes "w \<in> set whitespace_encodings"
  shows "\<not> solid (hd w) \<and> \<not> solid (last w)"
proof -
  have "list_all (\<lambda>w. \<not> solid (hd w) \<and> \<not> solid (last w)) whitespace_encodings"
    unfolding solid_def by code_simp
  with assms show ?thesis by (simp add: list_all_iff)
qed

lemma solid_trim:
  assumes "s \<noteq> []" "solid (hd s)" "solid (last s)"
  shows "str_trim s = s"
proof -
  have "\<not> prefix w s" if "w \<in> set whitespace_encodings" for w
    using that assms whitespace_not_solid[OF that] whitespace_encodings_nonempty[OF that]
    by (cases w) (auto simp: prefix_def)
  then have "trim_start s = s" by (subst trim_start.simps) (auto simp: find_Some_iff split: option.split)
  moreover have "\<not> suffix w s" if "w \<in> set whitespace_encodings" for w
    using that assms whitespace_not_solid[OF that] whitespace_encodings_nonempty[OF that]
    by (auto simp: suffix_def)
  then have "trim_end s = s" by (subst trim_end.simps) (auto simp: find_Some_iff split: option.split)
  ultimately show ?thesis by (simp add: str_trim_def)
qed

text \<open>Every number of seconds, minutes or hours that fits 64 bits of seconds is read as it is written.\<close>

theorem duration_read:
  assumes "unit_seconds unit = Some k"
  shows "parse_duration path (nat_digits n @ unit)
    = (if n * k < 2 ^ 64 then Inr (from_secs (n * k)) else Inl \<lparr>be_path = path, be_message = BadDuration (nat_digits n @ unit)\<rparr>)"
proof -
  have shape: "nat_digits n \<noteq> []" "list_all is_ascii_digit (nat_digits n)" "digits_value 0 (nat_digits n) = n"
    using nat_digits_shape[of n] nat_digits_value[of n] by auto
  have unit: "unit \<in> {''s'', ''m'', ''h''}" and k: "0 < k" using assms by (auto simp: unit_seconds_def split: if_splits)
  have "is_ascii_digit (hd (nat_digits n))" using shape by (cases "nat_digits n") auto
  then have "str_trim (nat_digits n @ unit) = nat_digits n @ unit"
    using shape(1) unit by (intro solid_trim) (auto simp: solid_def)
  moreover have "takeWhile is_ascii_digit (nat_digits n @ unit) = nat_digits n" "dropWhile is_ascii_digit (nat_digits n @ unit) = unit"
    using shape(2) unit by (auto simp: list_all_iff is_ascii_digit_def takeWhile_append)
  moreover have "unit \<noteq> []" using unit by auto
  moreover have "2 ^ 64 \<le> n \<Longrightarrow> 2 ^ 64 \<le> n * k" using k by (rule_tac order.trans[of _ n]) simp_all
  ultimately show ?thesis using assms shape(1,3) by (auto simp: parse_duration_def Let_def not_less)
qed

end
