(* ===== verification/Dialogs.thy ===== *)
theory Dialogs
  imports Answer
begin

text \<open>
  The life of a question's dialog as the chat plugins read it from hook events (\<open>track_question\<close> in plugins/matrix/src/actor.rs and
  plugins/github/src/actor.rs), and what their proofs share: which events open and close a dialog, that the operations
  on the open questions keep each one well formed, and that a reply's keys are never text for the prompt.
\<close>

section \<open>Events about a dialog\<close>

definition closes_dialog :: "string \<Rightarrow> bool" where
  "closes_dialog name \<longleftrightarrow> name \<in> {''Stop'', ''UserPromptSubmit'', ''SessionStart'', ''SessionEnd''}"

definition about_question :: "hook_event \<Rightarrow> bool" where
  "about_question event \<longleftrightarrow> Option.bind (json_get (ev_payload event) ''tool_name'') as_str = Some TOOL"

definition closes_question :: "hook_event \<Rightarrow> bool" where
  "closes_question event \<longleftrightarrow> closes_dialog (ev_name event) \<or> about_question event \<and> ev_name event = ''PostToolUse''"

definition asks :: "string \<Rightarrow> hook_event \<Rightarrow> bool" where
  "asks g e \<longleftrightarrow>
     ev_agent e = g \<and> ev_name e = ''PreToolUse'' \<and> about_question e
     \<and> question_parse (case json_get (ev_payload e) ''tool_input'' of Some v \<Rightarrow> v | None \<Rightarrow> JNull) \<noteq> None"

section \<open>Open questions stay well formed\<close>

definition questions_ok :: "questions \<Rightarrow> bool" where
  "questions_ok qs \<longleftrightarrow> (\<forall>agent oq. bt_get qs agent = Some oq \<longrightarrow> open_ok oq)"

lemma open_ok_stage: "open_ok oq \<Longrightarrow> stage_ok (oq_questions oq) st \<Longrightarrow> open_ok (oq\<lparr>oq_stage := st\<rparr>)"
  by (simp add: open_ok_def)

lemma questions_ok_insert: "questions_ok qs \<Longrightarrow> open_ok oq \<Longrightarrow> questions_ok (bt_insert agent oq qs)"
  by (auto simp: questions_ok_def split: if_splits)

lemma is_open_insert [simp]: "is_open (bt_insert agent oq qs) g \<longleftrightarrow> g = agent \<or> is_open qs g"
  by (auto simp: is_open_def)

lemma update_open_facts:
  assumes "\<And>oq. bt_get qs agent = Some oq \<Longrightarrow> open_ok oq \<Longrightarrow> open_ok (f oq)"
  shows "questions_ok qs \<Longrightarrow> questions_ok (update_open agent f qs)"
    and "is_open (update_open agent f qs) g \<longleftrightarrow> is_open qs g"
  using assms by (auto simp: update_open_def questions_ok_def is_open_def split: option.splits if_splits)

lemma mark_posted_facts:
  "questions_ok qs \<Longrightarrow> questions_ok (mark_posted agent qs)" "is_open (mark_posted agent qs) g \<longleftrightarrow> is_open qs g"
  unfolding mark_posted_def by (auto intro!: update_open_facts simp: open_ok_def)

lemma suppress_facts:
  "questions_ok qs \<Longrightarrow> questions_ok (fst (suppress_permission_prompt agent qs))"
  "is_open (fst (suppress_permission_prompt agent qs)) g \<longleftrightarrow> is_open qs g"
  by (auto simp: suppress_permission_prompt_def questions_ok_def open_ok_def is_open_def split: option.splits if_splits)

lemma clear_facts:
  "questions_ok (fst qw) \<Longrightarrow> questions_ok (fst (fst (question_clear host agent qw)))"
  "g \<noteq> agent \<Longrightarrow> is_open (fst (fst (question_clear host agent qw))) g \<longleftrightarrow> is_open (fst qw) g"
  by (auto simp: question_clear_def questions_ok_def is_open_def split: option.splits if_splits)

lemma stage_ok_echo [simp]: "stage_ok qs (with_echo echo st) \<longleftrightarrow> stage_ok qs st"
  by (cases st) auto

lemma questions_load_ok:
  assumes "questions_load js host w = (w', Inr qs)"
  shows "questions_ok qs"
proof -
  have step: "questions_ok (snd wq')" if "rfold (load_question js host) keys wq = Inr wq'" "questions_ok (snd wq)" for keys wq wq'
    using that(1) by (rule rfold_invariant[where I = "\<lambda>wq. questions_ok (snd wq)"])
      (use that in \<open>auto simp: load_question_def bind_eq_Some_conv intro!: questions_ok_insert opened_ok
        split: prod.splits sum.splits option.splits\<close>)
  have "questions_ok []" by (simp add: questions_ok_def)
  with assms step show ?thesis by (fastforce simp: questions_load_def split: prod.splits sum.splits)
qed

section \<open>A reply's keys are keys\<close>

definition sends_keys :: "decision \<Rightarrow> bool" where
  "sends_keys d \<longleftrightarrow> (\<forall>action. dn_send d = Some action \<longrightarrow> (\<exists>keys delay. action = SendKeys keys delay))"

lemma send_plan_keys:
  assumes "send_plan questions selections delay ok err = Some d"
    and "\<And>keys. sends_keys (ok (SendKeys keys delay))" "\<And>m. sends_keys (err m)"
  shows "sends_keys d"
  using assms plan_action_Inr by (fastforce simp: send_plan_Some)

lemma refused_keys [simp]: "sends_keys (refused st m)" "sends_keys (declining now st (SendKeys keys delay))"
  by (simp_all add: sends_keys_def refused_def declining_def)

lemma fresh_keys:
  assumes "fresh_answer uc questions reply delay now commands = Some d"
  shows "sends_keys d"
proof (cases "match_reply uc questions reply")
  case (Inl r)
  with assms show ?thesis by (cases r) (auto simp: fresh_answer_def)
next
  case (Inr m)
  with assms show ?thesis
    by (cases m) (auto simp: fresh_answer_def Let_def elim!: send_plan_keys split: if_splits, auto simp: sends_keys_def)
qed

lemma reply_keys:
  assumes "on_reply uc oq reply delay now commands = Some d"
  shows "sends_keys d"
proof (cases "oq_stage oq")
  case Open
  with assms show ?thesis by (auto simp: on_reply_def intro: fresh_keys)
next
  case (Confirming ss echo)
  with assms show ?thesis
    by (auto simp: on_reply_def Let_def intro: fresh_keys elim!: send_plan_keys split: if_splits) (auto simp: sends_keys_def)
next
  case (Sent ss echo since)
  with assms show ?thesis
    by (auto simp: on_reply_def Let_def elim!: send_plan_keys split: if_splits)
qed

section \<open>A sample\<close>

definition sample_asks :: hook_event where
  "sample_asks =
     \<lparr>ev_agent = ''f/c/a'', ev_name = ''PreToolUse'', ev_session_id = Some ''s'', ev_received_at = [],
      ev_payload = JObject [(''tool_name'', JString TOOL),
        (''tool_input'', JObject [(''questions'', JArray [JObject
          [(''question'', JString ''which''), (''options'', JArray [JObject [(''label'', JString ''red'')]])]])])]\<rparr>"

lemma sample_asks_ok: "asks ''f/c/a'' sample_asks"
  by (simp add: asks_def sample_asks_def about_question_def question_parse_def parse_question_def
      parse_opt_def as_array_def text_trim_def text_trim_start_def text_trim_end_def is_whitespace_def
      text_of_def as_bool_def bt_get_def)

end
