(* ===== verification/Matrix.thy ===== *)
theory Matrix
  imports Dialogs Rooms Render Lanes Blocks
begin

text \<open>
  The actor of the Matrix plugin (plugins/matrix/src/actor.rs, config.rs, matrix.rs): the one task that owns the
  plugin's state. A command runs to its end before the next is popped, so each is one function of the state here.
  The homeserver, the daemon and the clock are functions of a world behind the ports, and every call may fail;
  the state carries, beside the source's fields, the list of calls made so far, which the properties speak of. Metrics and log
  lines are not modelled. The lemmas show what may ever be sent to an agent: a reply only in a live thread of its own,
  never while a question is open, and keys only after the thread was shown what they answer.
\<close>

section \<open>Configuration\<close>

definition DEFAULT_MAX_PARTS :: nat where
  "DEFAULT_MAX_PARTS = 10"

definition BODY_LIMIT :: nat where
  "BODY_LIMIT = 4000"

definition DEFAULT_CONFIRM_WINDOW :: duration where
  "DEFAULT_CONFIRM_WINDOW = from_secs 30"

record matrix_daemon_config =
  md_homeserver :: string
  md_user_id :: string
  md_invite :: "string list"
  md_rooms :: "(string, string) btree"
  md_max_parts :: nat
  md_slash_commands :: "ustr list"

record matrix_agent_config =
  mc_enabled :: bool
  mc_events :: "string list"
  mc_phases :: bool
  mc_key_delay_ms :: u64
  mc_confirm_window :: duration

definition mc_wants :: "matrix_agent_config \<Rightarrow> string \<Rightarrow> bool" where
  "mc_wants c event = filter_wants (mc_events c) event"

text \<open>The two blocks read and checked; what serde makes of a block is a parameter.\<close>

definition matrix_parse_daemon ::
  "(json \<Rightarrow> (string \<times> string) + matrix_daemon_config) \<Rightarrow> json \<Rightarrow> block_error + matrix_daemon_config" where
  "matrix_parse_daemon typed config =
     rbind (deserialize typed config) (\<lambda>c.
       if \<not> (str_starts_with (md_homeserver c) ''https://'' \<or> str_starts_with (md_homeserver c) ''http://'')
       then Inl \<lparr>be_path = ''homeserver'', be_message = FixedText ''must start with https:// or http://''\<rparr>
       else if \<not> str_starts_with (md_user_id c) ''@''
       then Inl \<lparr>be_path = ''userId'', be_message = FixedText ''must be a full Matrix id starting with @''\<rparr>
       else rbind (validate_commands ''slashCommands'' (md_slash_commands c)) (\<lambda>_.
         if md_max_parts c = 0 then Inl \<lparr>be_path = ''maxParts'', be_message = FixedText ''must be at least 1''\<rparr>
         else Inr c))"

definition matrix_parse_agent ::
  "(json \<Rightarrow> (string \<times> string) + matrix_agent_config) \<Rightarrow> json \<Rightarrow> block_error + matrix_agent_config" where
  "matrix_parse_agent typed config =
     rbind (deserialize typed config) (\<lambda>c.
     rbind (filter_validate (mc_events c)) (\<lambda>_.
     rbind (validate_key_delay (mc_key_delay_ms c)) (\<lambda>_. Inr c)))"

section \<open>Ports\<close>

datatype matrix_error = RateLimited nat | AuthError string | OtherError string

record inbound =
  ib_room :: string
  ib_event_id :: string
  ib_sender :: string
  ib_thread_root :: "string option"
  ib_body :: ustr
  ib_history :: bool

record 'w matrix_ports =
  mt_host :: "'w host"
  mt_user_id :: string
  mt_create_room :: "string \<Rightarrow> string list \<Rightarrow> 'w \<Rightarrow> 'w \<times> (matrix_error + string)"
  mt_send :: "string \<Rightarrow> string option \<Rightarrow> ustr \<Rightarrow> 'w \<Rightarrow> 'w \<times> (matrix_error + string)"
  mt_react :: "string \<Rightarrow> string \<Rightarrow> string \<Rightarrow> 'w \<Rightarrow> 'w \<times> (matrix_error + unit)"
  mt_now :: "'w \<Rightarrow> 'w \<times> instant"
  mt_sleep :: "duration \<Rightarrow> 'w \<Rightarrow> 'w"
  mt_rooms_text :: room_text
  mt_json :: json_text
  mt_unicode :: unicode
  mt_error_text :: "matrix_error \<Rightarrow> string"

text \<open>The reactions, in UTF-8.\<close>

definition ACK :: string where "ACK = utf8 [0x1F44D]"
definition REFUSED :: string where "REFUSED = utf8 [0x1F6AB]"
definition FAILED :: string where "FAILED = utf8 [0x2757]"
definition CONFIRMED :: string where "CONFIRMED = utf8 [0x2705]"
definition SENT :: string where "SENT = utf8 [0x1F4E8]"

section \<open>State\<close>

definition CREATE_COOLDOWN_MIN :: duration where
  "CREATE_COOLDOWN_MIN = from_secs 5"

definition CREATE_COOLDOWN_MAX :: duration where
  "CREATE_COOLDOWN_MAX = from_secs 300"

definition MAX_INLINE_RETRY :: duration where
  "MAX_INLINE_RETRY = from_secs 3"

definition UNTRACKED :: ustr where
  "UNTRACKED = points ''the plugin is not following this agent right now (it is stopping, or starting again); send it once more shortly.''"

record cooldown =
  cd_until :: instant
  cd_wait :: duration

record sent_prompt =
  sp_room :: string
  sp_root :: string
  sp_event_id :: string
  sp_agent :: string

datatype unconfirmed_reason = ExpiredPrompt | SkippedPrompt | EvictedPrompt

datatype tracking = OtherEvent | OpenedQuestion "question list" | UnparsedQuestion | ClosedQuestion "open_question option"

datatype matrix_command =
    Configure matrix_daemon_config
  | Activate string matrix_agent_config
  | Deactivate string
  | Events u64 "hook_event list"
  | Phases "phase_change list"
  | InboundMessage inbound
  | Tick

definition command_lane :: "matrix_command \<Rightarrow> lane" where
  "command_lane c =
     (case c of
        Configure _ \<Rightarrow> Control | Activate _ _ \<Rightarrow> Control | Deactivate _ \<Rightarrow> Control
      | InboundMessage _ \<Rightarrow> Inbound
      | Events _ _ \<Rightarrow> Lossy | Phases _ \<Rightarrow> Lossy
      | Tick \<Rightarrow> Latest)"

definition command_bytes :: "matrix_command \<Rightarrow> nat" where
  "command_bytes c =
     (case c of
        InboundMessage m \<Rightarrow>
          length (ib_room m) + length (ib_event_id m) + length (ib_sender m)
          + (case ib_thread_root m of Some r \<Rightarrow> length r | None \<Rightarrow> 0) + utf8_len (ib_body m)
      | _ \<Rightarrow> 0)"

text \<open>A call made through a port, with whether it succeeded.\<close>

datatype call =
    Acted string plugin_action bool
  | Posted string "string option" ustr "string option"
  | Reacted string string string
  | Panicked

record 'w matrix =
  mx_config :: "matrix_daemon_config option"
  mx_pending :: "matrix_command list"
  mx_agents :: "(string, matrix_agent_config) btree"
  mx_maps :: maps
  mx_questions :: questions
  mx_cooldowns :: "(string, cooldown) btree"
  mx_deliveries :: "sent_prompt deliveries"
  mx_marks :: marks
  mx_health :: health
  mx_world :: 'w
  mx_calls :: "call list"

definition new_matrix :: "'w \<Rightarrow> 'w matrix" where
  "new_matrix w =
     \<lparr>mx_config = None, mx_pending = [], mx_agents = [], mx_maps = new_maps, mx_questions = [], mx_cooldowns = [],
      mx_deliveries = [], mx_marks = [], mx_health = None, mx_world = w, mx_calls = []\<rparr>"

definition matrix_now :: "'w matrix_ports \<Rightarrow> 'w matrix \<Rightarrow> 'w matrix \<times> instant" where
  "matrix_now ports a = (case mt_now ports (mx_world a) of (w, now) \<Rightarrow> (a\<lparr>mx_world := w\<rparr>, now))"

text \<open>The maps, the questions and the handled ids with their store calls.\<close>

definition on_maps :: "(maps \<times> 'w \<Rightarrow> (maps \<times> 'w) \<times> 'r) \<Rightarrow> 'w matrix \<Rightarrow> 'w matrix \<times> 'r" where
  "on_maps f a = (case f (mx_maps a, mx_world a) of ((m, w), r) \<Rightarrow> (a\<lparr>mx_maps := m, mx_world := w\<rparr>, r))"

definition on_questions :: "(questions \<times> 'w \<Rightarrow> (questions \<times> 'w) \<times> 'r) \<Rightarrow> 'w matrix \<Rightarrow> 'w matrix \<times> 'r" where
  "on_questions f a = (case f (mx_questions a, mx_world a) of ((q, w), r) \<Rightarrow> (a\<lparr>mx_questions := q, mx_world := w\<rparr>, r))"

definition on_marks :: "(marks \<times> 'w \<Rightarrow> (marks \<times> 'w) \<times> 'r) \<Rightarrow> 'w matrix \<Rightarrow> 'w matrix \<times> 'r" where
  "on_marks f a = (case f (mx_marks a, mx_world a) of ((m, w), r) \<Rightarrow> (a\<lparr>mx_marks := m, mx_world := w\<rparr>, r))"

definition cooling_down :: "string \<Rightarrow> instant \<Rightarrow> 'w matrix \<Rightarrow> bool" where
  "cooling_down crew now a \<longleftrightarrow> (case bt_get (mx_cooldowns a) crew of Some c \<Rightarrow> now < cd_until c | None \<Rightarrow> False)"

definition cool_down :: "string \<Rightarrow> instant \<Rightarrow> 'w matrix \<Rightarrow> 'w matrix" where
  "cool_down crew now a =
     (let wait = (case bt_get (mx_cooldowns a) crew of
            Some c \<Rightarrow> min (cd_wait c * 2) CREATE_COOLDOWN_MAX
          | None \<Rightarrow> CREATE_COOLDOWN_MIN)
      in a\<lparr>mx_cooldowns := bt_insert crew \<lparr>cd_until = now + wait, cd_wait = wait\<rparr> (mx_cooldowns a)\<rparr>)"

definition matrix_load :: "'w matrix_ports \<Rightarrow> 'w matrix \<Rightarrow> 'w matrix" where
  "matrix_load ports a =
     (let (w, r) = maps_load (mt_rooms_text ports) (mt_host ports) (mx_world a);
          a = a\<lparr>mx_world := w, mx_maps := (case r of Inr m \<Rightarrow> m | Inl _ \<Rightarrow> mx_maps a)\<rparr>;
          (w, r) = questions_load (mt_json ports) (mt_host ports) (mx_world a);
          a = a\<lparr>mx_world := w, mx_questions := (case r of Inr q \<Rightarrow> q | Inl _ \<Rightarrow> mx_questions a)\<rparr>;
          (w, r) = marks_load (mt_rooms_text ports) (mt_host ports) (mx_world a)
      in a\<lparr>mx_world := w, mx_marks := (case r of Inr m \<Rightarrow> m | Inl _ \<Rightarrow> mx_marks a)\<rparr>)"

section \<open>Calls\<close>

definition retry_once ::
  "'w matrix_ports \<Rightarrow> ('w \<Rightarrow> 'w \<times> (matrix_error + 'r)) \<Rightarrow> 'w \<Rightarrow> 'w \<times> (matrix_error + 'r)" where
  "retry_once ports call w =
     (case call w of
        (w, Inl (RateLimited ms)) \<Rightarrow>
          if from_millis ms > MAX_INLINE_RETRY then (w, Inl (RateLimited ms)) else call (mt_sleep ports (from_millis ms) w)
      | r \<Rightarrow> r)"

definition log_call :: "call \<Rightarrow> 'w matrix \<Rightarrow> 'w matrix" where
  "log_call c a = a\<lparr>mx_calls := mx_calls a @ [c]\<rparr>"

definition act :: "'w matrix_ports \<Rightarrow> string \<Rightarrow> plugin_action \<Rightarrow> 'w matrix \<Rightarrow> 'w matrix \<times> (string + unit)" where
  "act ports agent action a =
     (case host_action (mt_host ports) agent action (mx_world a) of (w, r) \<Rightarrow>
        (log_call (Acted agent action (is_ok r)) (a\<lparr>mx_world := w\<rparr>), r))"

fun send_parts ::
  "'w matrix_ports \<Rightarrow> string \<Rightarrow> string option \<Rightarrow> ustr list \<Rightarrow> string option \<Rightarrow> 'w matrix \<Rightarrow> 'w matrix \<times> string option" where
  "send_parts ports room root [] first a = (a, first)"
| "send_parts ports room root (part # parts) first a =
     (case retry_once ports (mt_send ports room root part) (mx_world a) of
        (w, Inr i) \<Rightarrow>
          send_parts ports room root parts (case first of None \<Rightarrow> Some i | Some _ \<Rightarrow> first)
            (log_call (Posted room root part (Some i)) (a\<lparr>mx_world := w\<rparr>))
      | (w, Inl _) \<Rightarrow> (log_call (Posted room root part None) (a\<lparr>mx_world := w\<rparr>), first))"

definition send_message ::
  "'w matrix_ports \<Rightarrow> string \<Rightarrow> string option \<Rightarrow> ustr \<Rightarrow> 'w matrix \<Rightarrow> 'w matrix \<times> string option" where
  "send_message ports room root body a =
     (let max_parts = (case mx_config a of Some c \<Rightarrow> md_max_parts c | None \<Rightarrow> DEFAULT_MAX_PARTS)
      in send_parts ports room root (split_body body BODY_LIMIT max_parts) None a)"

definition react_to :: "'w matrix_ports \<Rightarrow> string \<Rightarrow> string \<Rightarrow> string \<Rightarrow> 'w matrix \<Rightarrow> 'w matrix" where
  "react_to ports room event_id key a =
     (case mt_react ports room event_id key (mx_world a) of (w, _) \<Rightarrow>
        log_call (Reacted room event_id key) (a\<lparr>mx_world := w\<rparr>))"

definition react :: "'w matrix_ports \<Rightarrow> inbound \<Rightarrow> string \<Rightarrow> 'w matrix \<Rightarrow> 'w matrix" where
  "react ports message key = react_to ports (ib_room message) (ib_event_id message) key"

text \<open>The room an operator mapped for the crew, or else a room created for it, unless it is cooling down.\<close>

definition find_room :: "'w matrix_ports \<Rightarrow> matrix_daemon_config \<Rightarrow> string \<Rightarrow> 'w matrix \<Rightarrow> 'w matrix \<times> string option" where
  "find_room ports config crew a =
     (case bt_get (md_rooms config) crew of
        Some room \<Rightarrow> (a, Some room)
      | None \<Rightarrow>
          let (a, now) = matrix_now ports a
          in if cooling_down crew now a then (a, None)
             else case retry_once ports (mt_create_room ports (''balerix '' @ crew) (md_invite config)) (mx_world a) of
                    (w, Inr room) \<Rightarrow>
                      (a\<lparr>mx_world := w, mx_cooldowns := bt_remove crew (mx_cooldowns a),
                         mx_health := health_ok (mx_health a)\<rparr>, Some room)
                  | (w, Inl e) \<Rightarrow>
                      let (a, now) = matrix_now ports (a\<lparr>mx_world := w\<rparr>)
                      in ((cool_down crew now a)\<lparr>mx_health :=
                            health_fail (''create room for '' @ crew @ '': '' @ mt_error_text ports e) (mx_health a)\<rparr>, None))"

definition room_for :: "'w matrix_ports \<Rightarrow> string \<Rightarrow> 'w matrix \<Rightarrow> 'w matrix \<times> string option" where
  "room_for ports agent a =
     (case crew_of agent of
        None \<Rightarrow> (a, None)
      | Some crew \<Rightarrow>
          (case maps_room (mx_maps a) crew of
             Some room \<Rightarrow> (a, Some room)
           | None \<Rightarrow>
               (case mx_config a of
                  None \<Rightarrow> (a, None)
                | Some config \<Rightarrow>
                    (case find_room ports config crew a of
                       (a, None) \<Rightarrow> (a, None)
                     | (a, Some room) \<Rightarrow> (fst (on_maps (set_room (mt_host ports) crew room) a), Some room)))))"

definition key_delay :: "string \<Rightarrow> 'w matrix \<Rightarrow> u64" where
  "key_delay agent a = (case bt_get (mx_agents a) agent of Some c \<Rightarrow> mc_key_delay_ms c | None \<Rightarrow> DEFAULT_KEY_DELAY_MS)"

definition confirm_window :: "string \<Rightarrow> 'w matrix \<Rightarrow> duration" where
  "confirm_window agent a = (case bt_get (mx_agents a) agent of Some c \<Rightarrow> mc_confirm_window c | None \<Rightarrow> DEFAULT_CONFIRM_WINDOW)"

definition press_enter :: "'w matrix_ports \<Rightarrow> string \<Rightarrow> 'w matrix \<Rightarrow> 'w matrix" where
  "press_enter ports agent a = fst (act ports agent (SendKeys [KeyPress Enter] (key_delay agent a)) a)"

definition unconfirmed_body :: "sent_prompt \<Rightarrow> unconfirmed_reason \<Rightarrow> 'w matrix \<Rightarrow> ustr" where
  "unconfirmed_body sp why a =
     points ''**not confirmed by '' @ chars (sp_agent sp)
     @ (case why of
          ExpiredPrompt \<Rightarrow> points '' after '' @ decimal (confirm_window (sp_agent sp) a div from_secs 1)
            @ points ''s**: Claude did not take the prompt (a dialog may be open, or the text may have been swallowed)''
        | SkippedPrompt \<Rightarrow> points ''**: Claude took a later prompt first, so this one was swallowed''
        | EvictedPrompt \<Rightarrow> points ''**: too many prompts are waiting on this agent, so this one is no longer tracked'')"

definition unconfirmed :: "'w matrix_ports \<Rightarrow> unconfirmed_reason \<Rightarrow> sent_prompt \<Rightarrow> 'w matrix \<Rightarrow> 'w matrix" where
  "unconfirmed ports why sp a =
     fst (send_message ports (sp_room sp) (Some (sp_root sp)) (unconfirmed_body sp why a) a)"

definition on_tick :: "'w matrix_ports \<Rightarrow> 'w matrix \<Rightarrow> 'w matrix" where
  "on_tick ports a =
     (let (a, now) = matrix_now ports a;
          (d, gone) = expire (mx_deliveries a) now;
          a = fold (unconfirmed ports ExpiredPrompt) gone (a\<lparr>mx_deliveries := d\<rparr>);
          (a, now) = matrix_now ports a;
          (d, agents) = nudge (mx_deliveries a) now
      in fold (press_enter ports) agents (a\<lparr>mx_deliveries := d\<rparr>))"

section \<open>Events\<close>

text \<open>The lifecycle of a question, which runs for every event of a known agent.\<close>

definition track_question :: "'w matrix_ports \<Rightarrow> hook_event \<Rightarrow> 'w matrix \<Rightarrow> 'w matrix \<times> tracking" where
  "track_question ports event a =
     (let agent = ev_agent event; name = ev_name event
      in if closes_dialog name
         then (fst (on_questions (question_clear (mt_host ports) agent) a), OtherEvent)
         else if \<not> about_question event then (a, OtherEvent)
         else if name = ''PreToolUse''
         then
           let input = (case json_get (ev_payload event) ''tool_input'' of Some v \<Rightarrow> v | None \<Rightarrow> JNull)
           in case question_parse input of
                Some questions \<Rightarrow>
                  (fst (on_questions (\<lambda>qw. (question_open (mt_json ports) (mt_host ports) agent input questions qw, ())) a),
                   OpenedQuestion questions)
              | None \<Rightarrow> (a, UnparsedQuestion)
         else if name = ''PostToolUse''
         then case on_questions (question_clear (mt_host ports) agent) a of (a, was) \<Rightarrow> (a, ClosedQuestion was)
         else (a, OtherEvent))"

definition thread_root_of :: "string \<Rightarrow> 'w matrix \<Rightarrow> string option" where
  "thread_root_of agent a = map_option th_root (maps_thread (mx_maps a) agent)"

definition on_question_event ::
  "'w matrix_ports \<Rightarrow> matrix_agent_config \<Rightarrow> string \<Rightarrow> hook_event \<Rightarrow> tracking \<Rightarrow> 'w matrix \<Rightarrow> 'w matrix \<times> bool" where
  "on_question_event ports config room event tracking a =
     (let agent = ev_agent event;
          shown = (mc_wants config ''Notification'' \<or> mc_wants config ''PreToolUse'');
          root = thread_root_of agent a
      in case tracking of
           OpenedQuestion questions \<Rightarrow>
             (case (shown, root) of
                (True, Some root) \<Rightarrow>
                  (case send_message ports room (Some root) (question_message (mt_unicode ports) questions) a of
                     (a, Some _) \<Rightarrow> (a\<lparr>mx_questions := mark_posted agent (mx_questions a)\<rparr>, True)
                   | (a, None) \<Rightarrow> (a, True))
              | _ \<Rightarrow> (a, True))
         | UnparsedQuestion \<Rightarrow> (a, False)
         | ClosedQuestion None \<Rightarrow> (a, False)
         | ClosedQuestion (Some oq) \<Rightarrow>
             let answers = (case json_at (ev_payload event) ''/tool_response/answers'' of Some v \<Rightarrow> v | None \<Rightarrow> JNull);
                 post = (\<lambda>message a. case root of Some root \<Rightarrow> fst (send_message ports room (Some root) message a) | None \<Rightarrow> a)
             in (case on_closed oq answers of
                   ConfirmedAnswer echo \<Rightarrow> (case echo of Some e \<Rightarrow> react_to ports room e CONFIRMED a | None \<Rightarrow> a)
                 | Mismatch message \<Rightarrow> post message a
                 | AnsweredAtTerminal message \<Rightarrow> if shown then post message a else a
                 | Nothing \<Rightarrow> a, True)
         | OtherEvent \<Rightarrow>
             if ev_name event = ''Notification''
                \<and> Option.bind (json_get (ev_payload event) ''notification_type'') as_str = Some ''permission_prompt''
             then case suppress_permission_prompt agent (mx_questions a) of
                    (q, suppressed) \<Rightarrow> (a\<lparr>mx_questions := q\<rparr>, suppressed)
             else (a, False))"

text \<open>The thread of the event's session: opened, reopened, or as it is. \<open>True\<close> when the event is done with.\<close>

definition open_event_thread :: "'w matrix_ports \<Rightarrow> string \<Rightarrow> hook_event \<Rightarrow> 'w matrix \<Rightarrow> 'w matrix \<times> bool" where
  "open_event_thread ports room event a =
     (let agent = ev_agent event;
          session = (case ev_session_id event of Some s \<Rightarrow> s | None \<Rightarrow> []);
          opening = (case maps_thread (mx_maps a) agent of
              None \<Rightarrow> True
            | Some thread \<Rightarrow> session \<noteq> [] \<and> th_session_id thread \<noteq> session)
      in if opening
         then
           let source = (case Option.bind (json_get (ev_payload event) ''source'') as_str of
                 Some s \<Rightarrow> chars s | None \<Rightarrow> points ''already running'')
           in case send_message ports room None (thread_root (chars agent) (chars session) source) a of
                (a, None) \<Rightarrow> (a, True)
              | (a, Some root) \<Rightarrow>
                  (case on_maps (set_thread (mt_rooms_text ports) (mt_host ports) agent
                          \<lparr>th_session_id = session, th_root = root, th_room = room, th_closed = False\<rparr>) a of
                     (a, Inl _) \<Rightarrow> (a, True)
                   | (a, Inr _) \<Rightarrow> (a, ev_name event = ''SessionStart''))
         else
           case maps_thread (mx_maps a) agent of
             Some thread \<Rightarrow>
               if th_closed thread
               then (fst (on_maps (set_thread (mt_rooms_text ports) (mt_host ports) agent (thread\<lparr>th_closed := False\<rparr>)) a), False)
               else (a, False)
           | None \<Rightarrow> (a, False))"

definition settle_deliveries :: "'w matrix_ports \<Rightarrow> hook_event \<Rightarrow> 'w matrix \<Rightarrow> 'w matrix" where
  "settle_deliveries ports event a =
     (let (a, now) = matrix_now ports a;
          (d, out) = on_event (mx_deliveries a) event now;
          a = fold (unconfirmed ports SkippedPrompt) (oc_skipped out) (a\<lparr>mx_deliveries := d\<rparr>)
      in case oc_confirmed out of
           Some sp \<Rightarrow> react_to ports (sp_room sp) (sp_event_id sp) ACK a
         | None \<Rightarrow> a)"

definition post_event :: "'w matrix_ports \<Rightarrow> matrix_agent_config \<Rightarrow> string \<Rightarrow> hook_event \<Rightarrow> 'w matrix \<Rightarrow> 'w matrix" where
  "post_event ports config room event a =
     (if \<not> mc_wants config (ev_name event) then a
      else case thread_root_of (ev_agent event) a of
             None \<Rightarrow> a
           | Some root \<Rightarrow>
               let a = fst (send_message ports room (Some root) (event_message event) a)
               in if ev_name event = ''SessionEnd''
                  then fst (on_maps (close_thread (mt_rooms_text ports) (mt_host ports) (ev_agent event)) a)
                  else a)"

definition matrix_event :: "'w matrix_ports \<Rightarrow> hook_event \<Rightarrow> 'w matrix \<Rightarrow> 'w matrix" where
  "matrix_event ports event a =
     (case bt_get (mx_agents a) (ev_agent event) of
        None \<Rightarrow> a
      | Some config \<Rightarrow>
          let a = settle_deliveries ports event a;
              (a, tracking) = track_question ports event a
          in if \<not> mc_enabled config then a
             else case room_for ports (ev_agent event) a of
                    (a, None) \<Rightarrow> a
                  | (a, Some room) \<Rightarrow>
                      (case open_event_thread ports room event a of
                         (a, True) \<Rightarrow> a
                       | (a, False) \<Rightarrow>
                           (case on_question_event ports config room event tracking a of
                              (a, True) \<Rightarrow> a
                            | (a, False) \<Rightarrow> post_event ports config room event a)))"

definition on_phase :: "'w matrix_ports \<Rightarrow> phase_change \<Rightarrow> 'w matrix \<Rightarrow> 'w matrix" where
  "on_phase ports change a =
     (case bt_get (mx_agents a) (pc_agent change) of
        None \<Rightarrow> a
      | Some config \<Rightarrow>
          if \<not> mc_enabled config \<or> \<not> mc_phases config then a
          else case room_for ports (pc_agent change) a of
                 (a, None) \<Rightarrow> a
               | (a, Some room) \<Rightarrow>
                   fst (send_message ports room (thread_root_of (pc_agent change) a) (phase_message change) a))"

section \<open>Replies\<close>

definition live_rooms :: "'w matrix \<Rightarrow> string list" where
  "live_rooms a =
     bs_collect (thread_rooms (mx_maps a)
       @ (case mx_config a of Some c \<Rightarrow> map snd (md_rooms c) | None \<Rightarrow> [])
       @ List.map_filter (\<lambda>agent. Option.bind (crew_of agent) (maps_room (mx_maps a))) (bt_keys (mx_agents a)))"

definition is_live :: "'w matrix \<Rightarrow> string \<Rightarrow> bool" where
  "is_live a room \<longleftrightarrow>
     list_ex (\<lambda>r. r = room) (thread_rooms (mx_maps a))
     \<or> (case mx_config a of Some c \<Rightarrow> list_ex (\<lambda>(_, r). r = room) (md_rooms c) | None \<Rightarrow> False)
     \<or> list_ex (\<lambda>r. r = room)
         (List.map_filter (\<lambda>agent. Option.bind (crew_of agent) (maps_room (mx_maps a))) (bt_keys (mx_agents a)))"

definition prune_marks :: "'w matrix_ports \<Rightarrow> 'w matrix \<Rightarrow> 'w matrix" where
  "prune_marks ports a = fst (on_marks (marks_retain (mt_rooms_text ports) (mt_host ports) (live_rooms a)) a)"

definition allowlist :: "'w matrix \<Rightarrow> ustr list" where
  "allowlist a = (case mx_config a of Some c \<Rightarrow> allowlist_with (md_slash_commands c) | None \<Rightarrow> allowlist_with [])"

definition reaction_key :: "reaction \<Rightarrow> string" where
  "reaction_key r =
     (case r of reaction.Ack \<Rightarrow> ACK | reaction.Refused \<Rightarrow> REFUSED | reaction.Failed \<Rightarrow> FAILED | reaction.Confirmed \<Rightarrow> CONFIRMED)"

definition not_delivered :: "string \<Rightarrow> ustr \<Rightarrow> ustr" where
  "not_delivered agent why = points ''**not delivered to '' @ chars agent @ points '':** '' @ why"

text \<open>The executor of a decision, under the contract its documentation states.\<close>

definition commit_decision :: "'w matrix_ports \<Rightarrow> string \<Rightarrow> inbound \<Rightarrow> decision \<Rightarrow> string option \<Rightarrow> 'w matrix \<Rightarrow> 'w matrix" where
  "commit_decision ports agent message d echo a =
     (let st = (if gates_on_post d then with_echo echo (dn_stage d) else dn_stage d);
          a = a\<lparr>mx_questions := set_stage agent st (mx_questions a)\<rparr>
      in case dn_react d of Some r \<Rightarrow> react ports message (reaction_key r) a | None \<Rightarrow> a)"

definition send_decision ::
  "'w matrix_ports \<Rightarrow> string \<Rightarrow> string \<Rightarrow> inbound \<Rightarrow> decision \<Rightarrow> string option \<Rightarrow> 'w matrix \<Rightarrow> 'w matrix" where
  "send_decision ports agent root message d echo a =
     (case dn_send d of
        None \<Rightarrow> commit_decision ports agent message d echo a
      | Some action \<Rightarrow>
          (case act ports agent action a of
             (a, Inr _) \<Rightarrow> commit_decision ports agent message d echo a
           | (a, Inl e) \<Rightarrow>
               let a = a\<lparr>mx_questions := set_stage agent (dn_fallback d) (mx_questions a)\<rparr>;
                   a = fst (send_message ports (ib_room message) (Some root) (not_delivered agent (chars e)) a)
               in react ports message FAILED a))"

definition execute_decision ::
  "'w matrix_ports \<Rightarrow> string \<Rightarrow> string \<Rightarrow> inbound \<Rightarrow> decision \<Rightarrow> 'w matrix \<Rightarrow> 'w matrix" where
  "execute_decision ports agent root message d a =
     (case dn_post d of
        None \<Rightarrow> send_decision ports agent root message d None a
      | Some body \<Rightarrow>
          (case send_message ports (ib_room message) (Some root) body a of
             (a, Some i) \<Rightarrow> send_decision ports agent root message d (Some i) a
           | (a, None) \<Rightarrow>
               if gates_on_post d
               then react ports message FAILED (a\<lparr>mx_questions := set_stage agent (dn_fallback d) (mx_questions a)\<rparr>)
               else send_decision ports agent root message d None a))"

definition on_answer :: "'w matrix_ports \<Rightarrow> string \<Rightarrow> string \<Rightarrow> inbound \<Rightarrow> 'w matrix \<Rightarrow> 'w matrix" where
  "on_answer ports agent root message a =
     (case bt_get (mx_questions a) agent of
        None \<Rightarrow> a
      | Some oq \<Rightarrow>
          let (a, now) = matrix_now ports a
          in case on_reply (mt_unicode ports) oq (ib_body message) (key_delay agent a) now (allowlist a) of
               None \<Rightarrow> log_call Panicked a
             | Some d \<Rightarrow> execute_decision ports agent root message d a)"

text \<open>A reply that is a prompt: sent as text, and tracked until the agent is seen to take it.\<close>

definition route_prompt :: "'w matrix_ports \<Rightarrow> string \<Rightarrow> string \<Rightarrow> inbound \<Rightarrow> 'w matrix \<Rightarrow> 'w matrix" where
  "route_prompt ports agent root message a =
     (let text = as_prompt (ib_body message)
      in if classify text = Command \<and> \<not> allows (allowlist a) text
         then
           let body = points ''**not sent to '' @ chars agent @ points '':** '' @ COMMAND_REFUSED;
               a = fst (send_message ports (ib_room message) (Some root) body a)
           in react ports message REFUSED a
         else
           case act ports agent (SendText (utf8 text) True) a of
             (a, Inr _) \<Rightarrow>
               let a = react ports message SENT a
               in (case classify text of
                     Command \<Rightarrow> a
                   | Prompt \<Rightarrow>
                       let sp = \<lparr>sp_room = ib_room message, sp_root = root, sp_event_id = ib_event_id message, sp_agent = agent\<rparr>;
                           (a, now) = matrix_now ports a;
                           (d, evicted) = sent (mx_deliveries a) agent text sp now (confirm_window agent a);
                           a = a\<lparr>mx_deliveries := d\<rparr>
                       in case evicted of Some e \<Rightarrow> unconfirmed ports EvictedPrompt e a | None \<Rightarrow> a)
           | (a, Inl e) \<Rightarrow>
               let a = fst (send_message ports (ib_room message) (Some root) (not_delivered agent (chars e)) a)
               in react ports message FAILED a)"

definition on_inbound :: "'w matrix_ports \<Rightarrow> inbound \<Rightarrow> 'w matrix \<Rightarrow> 'w matrix" where
  "on_inbound ports message a =
     (if ib_sender message = mt_user_id ports then a
      else if ib_history message then a
      else if seen (mx_marks a) (ib_room message) (ib_event_id message) then a
      else
        let a = (if is_live a (ib_room message)
                 then fst (on_marks (marks_record (mt_rooms_text ports) (mt_host ports) (ib_room message) (ib_event_id message)) a)
                 else a)
        in case ib_thread_root message of
             None \<Rightarrow> react ports message REFUSED a
           | Some root \<Rightarrow>
               (case maps_route (mx_maps a) (ib_room message) root of
                  None \<Rightarrow> a
                | Some agent \<Rightarrow>
                    if (case maps_thread (mx_maps a) agent of Some t \<Rightarrow> th_closed t | None \<Rightarrow> False)
                    then react ports message REFUSED a
                    else if \<not> bt_contains (mx_agents a) agent
                    then
                      let a = fst (send_message ports (ib_room message) (Some root) (not_delivered agent UNTRACKED) a)
                      in react ports message FAILED a
                    else if is_open (mx_questions a) agent then on_answer ports agent root message a
                    else route_prompt ports agent root message a))"

section \<open>Commands\<close>

definition run_command :: "'w matrix_ports \<Rightarrow> matrix_command \<Rightarrow> 'w matrix \<Rightarrow> 'w matrix" where
  "run_command ports c a =
     (case c of
        Configure _ \<Rightarrow> a
      | Activate agent config \<Rightarrow>
          let held = bt_contains (mx_agents a) agent;
              a = a\<lparr>mx_agents := bt_insert agent config (mx_agents a)\<rparr>
          in if held then a\<lparr>mx_deliveries := lose_track_agent (mx_deliveries a) agent\<rparr> else a
      | Deactivate agent \<Rightarrow>
          let a = a\<lparr>mx_agents := bt_remove agent (mx_agents a)\<rparr>;
              a = fst (on_questions (question_clear (mt_host ports) agent) a);
              a = a\<lparr>mx_deliveries := fst (forget (mx_deliveries a) agent)\<rparr>;
              a = fst (on_maps (maps_forget (mt_host ports) agent) a)
          in prune_marks ports a
      | Events dropped events \<Rightarrow>
          let a = (if dropped > 0 then a\<lparr>mx_deliveries := lose_track (mx_deliveries a)\<rparr> else a)
          in fold (matrix_event ports) events a
      | Phases changes \<Rightarrow> fold (on_phase ports) changes a
      | InboundMessage message \<Rightarrow> on_inbound ports message a
      | Tick \<Rightarrow> on_tick ports a)"

definition matrix_handle :: "'w matrix_ports \<Rightarrow> matrix_command \<Rightarrow> 'w matrix \<Rightarrow> 'w matrix" where
  "matrix_handle ports c a =
     (case c of
        Configure config \<Rightarrow>
          let buffered = mx_pending a
          in fold (run_command ports) buffered (a\<lparr>mx_config := Some config, mx_pending := []\<rparr>)
      | _ \<Rightarrow>
          if mx_config a = None then a\<lparr>mx_pending := mx_pending a @ [c]\<rparr>
          else run_command ports c a)"

text \<open>One turn of the actor's loop: the queue's gap is asked before the command is handled.\<close>

definition matrix_turn ::
  "'w matrix_ports \<Rightarrow> matrix_command queue \<times> 'w matrix \<Rightarrow> matrix_command queue \<times> 'w matrix" where
  "matrix_turn ports qa =
     (case try_pop \<lparr>ln_lane = command_lane, ln_bytes = command_bytes\<rparr> (fst qa) of
        (q, None) \<Rightarrow> (q, snd qa)
      | (q, Some c) \<Rightarrow>
          (case take_gap q of (q, gap) \<Rightarrow>
             let a = (if gap then (snd qa)\<lparr>mx_deliveries := lose_track (mx_deliveries (snd qa))\<rparr> else snd qa)
             in (q, matrix_handle ports c a)))"

section \<open>What a step may do\<close>

fun harmless :: "call \<Rightarrow> bool" where
  "harmless (Posted _ _ _ _) = True"
| "harmless (Reacted _ _ _) = True"
| "harmless _ = False"

text \<open>A step that only posts and reacts.\<close>

definition talks :: "'w matrix \<Rightarrow> 'w matrix \<Rightarrow> bool" where
  "talks a a' \<longleftrightarrow> (\<exists>w es. a' = a\<lparr>mx_world := w, mx_calls := mx_calls a @ es\<rparr> \<and> list_all harmless es)"

lemma talks_refl [simp]: "talks a a"
  unfolding talks_def by (rule exI[of _ "mx_world a"], rule exI[of _ "[]"]) simp

lemma talks_trans: "talks a b \<Longrightarrow> talks b c \<Longrightarrow> talks a c"
  unfolding talks_def by (auto simp: list_all_append) (metis append.assoc list_all_append)

lemma talks_world: "talks a (a\<lparr>mx_world := w\<rparr>)"
  unfolding talks_def by (rule exI[of _ w], rule exI[of _ "[]"]) simp

lemma talks_log: "harmless c \<Longrightarrow> talks a (log_call c (a\<lparr>mx_world := w\<rparr>))"
  unfolding talks_def log_call_def by (rule exI[of _ w], rule exI[of _ "[c]"]) simp

lemma talks_now: "talks a (fst (matrix_now ports a))"
  by (simp add: matrix_now_def case_prod_beta talks_world)

lemma talks_send_parts: "talks a (fst (send_parts ports room root parts first a))"
proof (induction parts arbitrary: first a)
  case (Cons part parts)
  obtain w r where call: "retry_once ports (mt_send ports room root part) (mx_world a) = (w, r)" by fastforce
  show ?case
  proof (cases r)
    case (Inl e)
    with call show ?thesis by (simp add: talks_log)
  next
    case (Inr i)
    with call show ?thesis
      using talks_trans[OF talks_log[of "Posted room root part (Some i)" a w] Cons.IH] by simp
  qed
qed simp

lemma talks_send [simp]: "talks a (fst (send_message ports room root body a))"
  by (simp add: send_message_def talks_send_parts Let_def)

lemma talks_react_to [simp]: "talks a (react_to ports room event_id key a)"
  by (simp add: react_to_def talks_log case_prod_beta)

lemma talks_react [simp]: "talks a (react ports message key a)"
  by (simp add: react_def)

lemma talks_unconfirmed: "talks a (unconfirmed ports why sp a)"
  by (simp add: unconfirmed_def)

interpretation talk: composable talks
  by unfold_locales (auto intro: talks_trans)

text \<open>Nothing of it is text for the agent, and nothing is a panic.\<close>

fun quiet :: "string \<Rightarrow> call \<Rightarrow> bool" where
  "quiet g (Acted h (SendText _ _) _) \<longleftrightarrow> h \<noteq> g"
| "quiet g Panicked \<longleftrightarrow> False"
| "quiet g _ \<longleftrightarrow> True"

definition matrix_ok :: "'w matrix \<Rightarrow> bool" where
  "matrix_ok a \<longleftrightarrow> routes_sound (mx_maps a) \<and> questions_ok (mx_questions a)"

text \<open>
  A good step keeps the invariant, never panics, and, while the agent's question is open, leaves it
  open and types no text for it.
\<close>

definition good_step :: "string \<Rightarrow> 'w matrix \<Rightarrow> 'w matrix \<Rightarrow> bool" where
  "good_step g a a' \<longleftrightarrow>
     (matrix_ok a \<longrightarrow>
        matrix_ok a' \<and> (mx_config a' = None \<longleftrightarrow> mx_config a = None) \<and> mx_pending a' = mx_pending a
        \<and> (\<exists>es. mx_calls a' = mx_calls a @ es \<and> Panicked \<notin> set es
             \<and> (is_open (mx_questions a) g \<longrightarrow> is_open (mx_questions a') g \<and> list_all (quiet g) es)))"

lemma good_refl [simp]: "good_step g a a"
  by (simp add: good_step_def)

lemma good_trans:
  assumes "good_step g a b" "good_step g b c"
  shows "good_step g a c"
  unfolding good_step_def
proof
  assume ok: "matrix_ok a"
  then obtain es where ab: "matrix_ok b" "mx_config b = None \<longleftrightarrow> mx_config a = None" "mx_pending b = mx_pending a"
      "mx_calls b = mx_calls a @ es" "Panicked \<notin> set es"
      "is_open (mx_questions a) g \<longrightarrow> is_open (mx_questions b) g \<and> list_all (quiet g) es"
    using assms(1) by (auto simp: good_step_def)
  then obtain fs where bc: "matrix_ok c" "mx_config c = None \<longleftrightarrow> mx_config b = None" "mx_pending c = mx_pending b"
      "mx_calls c = mx_calls b @ fs" "Panicked \<notin> set fs"
      "is_open (mx_questions b) g \<longrightarrow> is_open (mx_questions c) g \<and> list_all (quiet g) fs"
    using assms(2) by (auto simp: good_step_def)
  from ab bc show "matrix_ok c \<and> (mx_config c = None \<longleftrightarrow> mx_config a = None) \<and> mx_pending c = mx_pending a
      \<and> (\<exists>es. mx_calls c = mx_calls a @ es \<and> Panicked \<notin> set es
           \<and> (is_open (mx_questions a) g \<longrightarrow> is_open (mx_questions c) g \<and> list_all (quiet g) es))"
    by (intro conjI exI[of _ "es @ fs"]) auto
qed

lemma harmless_quiet: "harmless c \<Longrightarrow> quiet g c \<and> c \<noteq> Panicked"
  by (cases c) auto

lemma talks_good: "talks a a' \<Longrightarrow> good_step g a a'"
  unfolding talks_def good_step_def matrix_ok_def
  by (auto simp: list_all_iff) (metis harmless_quiet)+

interpretation good: composable "good_step g" for g
  by unfold_locales (auto intro: good_trans)

text \<open>A step that changes the state beside the calls, the questions and the maps.\<close>

lemma good_frame:
  assumes "mx_maps a' = mx_maps a" "mx_questions a' = mx_questions a" "mx_calls a' = mx_calls a"
    "mx_config a' = mx_config a" "mx_pending a' = mx_pending a"
  shows "good_step g a a'"
  using assms by (simp add: good_step_def matrix_ok_def)

lemma good_maps:
  assumes "\<And>mw. routes_sound (fst mw) \<Longrightarrow> routes_sound (fst (fst (f mw)))"
  shows "good_step g a (fst (on_maps f a))"
  using assms[of "(mx_maps a, mx_world a)"] by (auto simp: good_step_def on_maps_def matrix_ok_def split: prod.split)

lemma good_questions:
  assumes "questions_ok (mx_questions a) \<Longrightarrow> questions_ok q" "is_open (mx_questions a) g \<Longrightarrow> is_open q g"
    "mx_questions a' = q" "mx_maps a' = mx_maps a" "mx_calls a' = mx_calls a" "mx_config a' = mx_config a"
    "mx_pending a' = mx_pending a"
  shows "good_step g a a'"
  using assms by (simp add: good_step_def matrix_ok_def)


section \<open>Every operation is a good step\<close>

lemma good_clear:
  "g \<noteq> agent \<Longrightarrow> good_step g a (fst (on_questions (question_clear host agent) a))"
  by (rule good_questions[where q = "fst (fst (question_clear host agent (mx_questions a, mx_world a)))"])
    (use clear_facts[where qw = "(mx_questions a, mx_world a)" and host = host and agent = agent] in
      \<open>auto simp: on_questions_def split: prod.splits\<close>)

lemma good_now: "good_step g a (fst (matrix_now ports a))"
  by (rule talks_good[OF talks_now])

lemma good_unconfirmed: "good_step g a (unconfirmed ports why sp a)"
  by (rule talks_good[OF talks_unconfirmed])

lemma good_send: "good_step g a (fst (send_message ports room root body a))"
  by (rule talks_good) simp

lemma good_react: "good_step g a (react ports message key a)"
  by (rule talks_good) simp

lemma good_act:
  assumes "\<And>t s. action = SendText t s \<Longrightarrow> \<not> is_open (mx_questions a) g \<or> agent \<noteq> g"
  shows "good_step g a (fst (act ports agent action a))"
  using assms
  by (cases action) (auto simp: good_step_def act_def log_call_def matrix_ok_def case_prod_beta)

lemma good_find_room: "good_step g a (fst (find_room ports config crew a))"
  by (rule good_frame)
    (auto simp: find_room_def matrix_now_def cool_down_def Let_def split: prod.split sum.split option.split)

lemma good_room_for: "good_step g a (fst (room_for ports agent a))"
proof -
  have set: "good_step g b (fst (on_maps (set_room host crew room) b))" for b :: "'a matrix" and host crew room
    by (rule good_maps) (rule set_room_sound)
  have "good_step g a (fst (case find_room ports config crew a of
                       (a, None) \<Rightarrow> (a, None)
                     | (a, Some room) \<Rightarrow> (fst (on_maps (set_room (mt_host ports) crew room) a), Some room)))" for config crew
    using good_find_room[of g a ports config crew] good_trans[OF _ set]
    by (auto split: prod.split option.split)
  then show ?thesis by (auto simp: room_for_def split: option.split)
qed

lemma good_deliveries: "good_step g a (a\<lparr>mx_deliveries := d\<rparr>)"
  by (rule good_frame) simp_all

lemma good_settle: "good_step g a (settle_deliveries ports event a)"
proof -
  obtain b now where b: "matrix_now ports a = (b, now)" by fastforce
  obtain d out where d: "on_event (mx_deliveries b) event now = (d, out)" by fastforce
  let ?c = "fold (unconfirmed ports SkippedPrompt) (oc_skipped out) (b\<lparr>mx_deliveries := d\<rparr>)"
  have "good_step g a b" using good_now[of g a ports] b by simp
  moreover have "good_step g b (b\<lparr>mx_deliveries := d\<rparr>)" by (rule good_deliveries)
  moreover have "good_step g (b\<lparr>mx_deliveries := d\<rparr>) ?c" by (rule good.fold_steps) (rule good_unconfirmed)
  moreover have "good_step g ?c (case oc_confirmed out of Some sp \<Rightarrow> react_to ports (sp_room sp) (sp_event_id sp) ACK ?c | None \<Rightarrow> ?c)"
    by (auto intro: talks_good split: option.split)
  ultimately have "good_step g a (case oc_confirmed out of Some sp \<Rightarrow> react_to ports (sp_room sp) (sp_event_id sp) ACK ?c | None \<Rightarrow> ?c)"
    by (meson good_trans)
  then show ?thesis by (simp add: settle_deliveries_def b d Let_def)
qed

lemma good_open:
  assumes "question_parse input = Some qs"
  shows "good_step g a (fst (on_questions (\<lambda>qw. (question_open js host agent input qs qw, ())) a))"
  by (rule good_questions[where q = "bt_insert agent (opened qs) (mx_questions a)"])
    (use opened_ok[OF assms] in \<open>auto simp: on_questions_def question_open_def questions_ok_insert\<close>)

lemma good_track:
  assumes "closes_question event \<Longrightarrow> ev_agent event \<noteq> g"
  shows "good_step g a (fst (track_question ports event a))"
proof (cases "closes_question event")
  case True
  then show ?thesis
    using assms good_clear[of g "ev_agent event" a "mt_host ports"]
    by (auto simp: track_question_def closes_question_def Let_def split: prod.split)
next
  case False
  then show ?thesis
    by (auto simp: track_question_def closes_question_def Let_def good_open split: option.split)
qed

lemma good_posted: "good_step g a (a\<lparr>mx_questions := mark_posted agent (mx_questions a)\<rparr>)"
  by (rule good_questions[where q = "mark_posted agent (mx_questions a)"]) (simp_all add: mark_posted_facts)

lemma good_suppress: "good_step g a (a\<lparr>mx_questions := fst (suppress_permission_prompt agent (mx_questions a))\<rparr>)"
  by (rule good_questions[where q = "fst (suppress_permission_prompt agent (mx_questions a))"]) (simp_all add: suppress_facts)

lemma good_question_event: "good_step g a (fst (on_question_event ports config room event tracking a))"
proof (cases tracking)
  case (OpenedQuestion qs)
  have "good_step g a (fst (case send_message ports room r m a of
      (a, Some _) \<Rightarrow> (a\<lparr>mx_questions := mark_posted agent (mx_questions a)\<rparr>, True) | (a, None) \<Rightarrow> (a, True)))" for r m agent
    using good_send[of g a ports room r m] good_trans[OF _ good_posted] by (auto split: prod.split option.split)
  with OpenedQuestion show ?thesis by (auto simp: on_question_event_def Let_def split: option.split bool.split)
next
  case (ClosedQuestion was)
  then show ?thesis
    by (auto simp: on_question_event_def Let_def intro: talks_good split: option.split verdict.split)
next
  case OtherEvent
  then show ?thesis
    using good_suppress[of g a "ev_agent event"] by (auto simp: on_question_event_def Let_def split: prod.split)
qed (simp add: on_question_event_def Let_def)

lemma good_set_thread: "good_step g a (fst (on_maps (set_thread rt host agent t) a))"
  by (rule good_maps) (rule set_thread_sound)

lemma good_open_thread: "good_step g a (fst (open_event_thread ports room event a))"
proof -
  have "good_step g a (fst (case send_message ports room None m a of
                (a, None) \<Rightarrow> (a, True)
              | (a, Some root) \<Rightarrow>
                  (case on_maps (set_thread rt host agent (t root)) a of
                     (a, Inl _) \<Rightarrow> (a, True)
                   | (a, Inr _) \<Rightarrow> (a, fin))))" for m rt host agent t fin
  proof -
    obtain b r where send: "send_message ports room None m a = (b, r)" by fastforce
    then have ab: "good_step g a b" using good_send[of g a ports room None m] by simp
    have "good_step g b c" if "on_maps (set_thread rt host agent u) b = (c, x)" for u c x
      using good_set_thread[of g b rt host agent u] that by simp
    with ab send good_trans[OF ab] show ?thesis by (auto split: option.split prod.split sum.split)
  qed
  then show ?thesis
    by (auto simp: open_event_thread_def Let_def good_set_thread split: option.split)
qed

lemma good_close: "good_step g a (fst (on_maps (close_thread rt host agent) a))"
  by (rule good_maps) (rule close_thread_sound)

lemma good_post_event: "good_step g a (post_event ports config room event a)"
  by (auto simp: post_event_def Let_def good_send good_trans[OF good_send good_close] split: option.split)

text \<open>What an event does after its question was tracked.\<close>

definition event_rest ::
  "'w matrix_ports \<Rightarrow> matrix_agent_config \<Rightarrow> hook_event \<Rightarrow> 'w matrix \<times> tracking \<Rightarrow> 'w matrix" where
  "event_rest ports config event at =
     (if \<not> mc_enabled config then fst at
      else case room_for ports (ev_agent event) (fst at) of
             (a, None) \<Rightarrow> a
           | (a, Some room) \<Rightarrow>
               (case open_event_thread ports room event a of
                  (a, True) \<Rightarrow> a
                | (a, False) \<Rightarrow>
                    (case on_question_event ports config room event (snd at) a of
                       (a, True) \<Rightarrow> a
                     | (a, False) \<Rightarrow> post_event ports config room event a)))"

lemma matrix_event_rest:
  "bt_get (mx_agents a) (ev_agent event) = Some config \<Longrightarrow>
     matrix_event ports event a = event_rest ports config event (track_question ports event (settle_deliveries ports event a))"
  by (simp add: matrix_event_def event_rest_def Let_def case_prod_beta)

lemma good_rest: "good_step g (fst at) (event_rest ports config event at)"
proof -
  obtain b r where b: "room_for ports (ev_agent event) (fst at) = (b, r)" by fastforce
  have ab: "good_step g (fst at) b" using good_room_for[of g "fst at" ports "ev_agent event"] b by simp
  have "good_step g b (case open_event_thread ports room event b of
                         (a, True) \<Rightarrow> a
                       | (a, False) \<Rightarrow>
                           (case on_question_event ports config room event (snd at) a of
                              (a, True) \<Rightarrow> a
                            | (a, False) \<Rightarrow> post_event ports config room event a))" for room
  proof -
    obtain d x where d: "open_event_thread ports room event b = (d, x)" by fastforce
    obtain e y where e: "on_question_event ports config room event (snd at) d = (e, y)" by fastforce
    have bd: "good_step g b d" using good_open_thread[of g b ports room event] d by simp
    have "good_step g d e" using good_question_event[of g d ports config room event "snd at"] e by simp
    with bd have "good_step g b e" "good_step g b (post_event ports config room event e)"
      by (meson good_trans good_post_event)+
    with bd d e show ?thesis by (simp split: bool.split)
  qed
  note rest = good_trans[OF ab this]
  with ab b show ?thesis by (simp add: event_rest_def split: option.split)
qed

lemma good_event:
  assumes "closes_question event \<Longrightarrow> ev_agent event \<noteq> g"
  shows "good_step g a (matrix_event ports event a)"
proof (cases "bt_get (mx_agents a) (ev_agent event)")
  case (Some config)
  then show ?thesis
    using good_trans[OF good_trans[OF good_settle good_track[OF assms]] good_rest] by (simp add: matrix_event_rest)
qed (simp add: matrix_event_def)

lemma good_phase: "good_step g a (on_phase ports change a)"
proof -
  obtain b r where b: "room_for ports (pc_agent change) a = (b, r)" by fastforce
  then have "good_step g a b" using good_room_for[of g a ports "pc_agent change"] by simp
  with b show ?thesis
    using good_trans[OF _ good_send] by (auto simp: on_phase_def split: option.split)
qed

lemma good_enter: "good_step g a (press_enter ports agent a)"
  unfolding press_enter_def by (rule good_act) simp

lemma good_tick: "good_step g a (on_tick ports a)"
proof -
  obtain b now where b: "matrix_now ports a = (b, now)" by fastforce
  obtain d gone where d: "expire (mx_deliveries b) now = (d, gone)" by fastforce
  let ?c = "fold (unconfirmed ports ExpiredPrompt) gone (b\<lparr>mx_deliveries := d\<rparr>)"
  obtain e now' where e: "matrix_now ports ?c = (e, now')" by fastforce
  obtain f agents where f: "nudge (mx_deliveries e) now' = (f, agents)" by fastforce
  have "good_step g a b" using good_now[of g a ports] b by simp
  moreover have "good_step g b (b\<lparr>mx_deliveries := d\<rparr>)" by (rule good_deliveries)
  moreover have "good_step g (b\<lparr>mx_deliveries := d\<rparr>) ?c" by (rule good.fold_steps) (rule good_unconfirmed)
  moreover have "good_step g ?c e" using good_now[of g ?c ports] e by simp
  moreover have "good_step g e (e\<lparr>mx_deliveries := f\<rparr>)" by (rule good_deliveries)
  moreover have "good_step g (e\<lparr>mx_deliveries := f\<rparr>) (fold (press_enter ports) agents (e\<lparr>mx_deliveries := f\<rparr>))"
    by (rule good.fold_steps) (rule good_enter)
  ultimately have "good_step g a (fold (press_enter ports) agents (e\<lparr>mx_deliveries := f\<rparr>))"
    by (meson good_trans)
  with b d e f show ?thesis by (simp add: on_tick_def Let_def)
qed

text \<open>A decision that fits the agent's open question.\<close>

definition fits :: "string \<Rightarrow> decision \<Rightarrow> 'w matrix \<Rightarrow> bool" where
  "fits agent d a \<longleftrightarrow> sends_keys d \<and> (\<forall>oq. bt_get (mx_questions a) agent = Some oq \<longrightarrow> keeps_ok (oq_questions oq) d)"

lemma good_stage:
  assumes "\<And>oq. bt_get (mx_questions a) agent = Some oq \<Longrightarrow> stage_ok (oq_questions oq) st"
  shows "good_step g a (a\<lparr>mx_questions := set_stage agent st (mx_questions a)\<rparr>)"
proof -
  have "open_ok (oq\<lparr>oq_stage := st\<rparr>)" if "bt_get (mx_questions a) agent = Some oq" "open_ok oq" for oq
    using that assms by (intro open_ok_stage) auto
  note facts = update_open_facts[where f = "\<lambda>oq. oq\<lparr>oq_stage := st\<rparr>" and qs = "mx_questions a" and agent = agent, OF this]
  show ?thesis
    by (rule good_questions[where q = "set_stage agent st (mx_questions a)"]) (simp_all add: set_stage_def facts)
qed

lemma good_commit: "fits agent d a \<Longrightarrow> good_step g a (commit_decision ports agent message d echo a)"
  using good_stage[of a agent "if gates_on_post d then with_echo echo (dn_stage d) else dn_stage d" g] good_trans[OF _ good_react]
  by (auto simp: commit_decision_def fits_def keeps_ok_def Let_def split: option.split)

lemma good_fallback:
  "fits agent d a \<Longrightarrow> good_step g a (a\<lparr>mx_questions := set_stage agent (dn_fallback d) (mx_questions a)\<rparr>)"
  by (rule good_stage) (auto simp: fits_def keeps_ok_def)

lemma fits_cong: "mx_questions b = mx_questions a \<Longrightarrow> fits agent d a \<Longrightarrow> fits agent d b"
  by (simp add: fits_def)

lemma act_questions: "mx_questions (fst (act ports agent action a)) = mx_questions a"
  by (simp add: act_def log_call_def case_prod_beta)

lemma talks_keeps:
  "talks a b \<Longrightarrow> mx_questions b = mx_questions a \<and> mx_maps b = mx_maps a \<and> mx_agents b = mx_agents a \<and> mx_config b = mx_config a"
  by (auto simp: talks_def)

lemma good_send_decision:
  assumes "fits agent d a"
  shows "good_step g a (send_decision ports agent root message d echo a)"
proof (cases "dn_send d")
  case (Some action)
  obtain b r where act: "act ports agent action a = (b, r)" by fastforce
  have keys: "good_step g a (fst (act ports agent action a))"
    using Some assms by (intro good_act) (auto simp: fits_def sends_keys_def)
  have fits: "fits agent d b" using fits_cong[OF act_questions assms] act by (metis fst_conv)
  have "good_step g b (commit_decision ports agent message d echo b)" by (rule good_commit[OF fits])
  moreover have "good_step g b (react ports message FAILED (fst (send_message ports (ib_room message) (Some root) m
      (b\<lparr>mx_questions := set_stage agent (dn_fallback d) (mx_questions b)\<rparr>))))" for m
    by (rule good_trans[OF good_trans[OF good_fallback[OF fits] good_send] good_react])
  ultimately show ?thesis
    using Some keys act by (auto simp: send_decision_def Let_def intro: good_trans split: sum.split)
qed (use good_commit[OF assms] in \<open>simp add: send_decision_def\<close>)

lemma good_execute:
  assumes "fits agent d a"
  shows "good_step g a (execute_decision ports agent root message d a)"
proof (cases "dn_post d")
  case (Some body)
  obtain b r where send: "send_message ports (ib_room message) (Some root) body a = (b, r)" by fastforce
  have ab: "good_step g a b" using good_send[of g a ports "ib_room message" "Some root" body] send by simp
  have "talks a b" using talks_send[of a ports "ib_room message" "Some root" body] send by simp
  then have fits: "fits agent d b" using assms by (auto intro: fits_cong dest: talks_keeps)
  note ac = good_trans[OF ab good_send_decision[OF fits]] and af = good_trans[OF good_trans[OF ab good_fallback[OF fits]] good_react]
  show ?thesis using Some send ac af by (auto simp: execute_decision_def split: option.split)
qed (use good_send_decision[OF assms] in \<open>simp add: execute_decision_def\<close>)

lemma good_answer: "good_step g a (on_answer ports agent root message a)"
proof (cases "matrix_ok a")
  case True
  show ?thesis
  proof (cases "bt_get (mx_questions a) agent")
    case (Some oq)
    obtain b now where b: "matrix_now ports a = (b, now)" by fastforce
    then have q: "mx_questions b = mx_questions a" using talks_keeps[OF talks_now[of a ports]] by simp
    have "open_ok oq" using True Some by (simp add: matrix_ok_def questions_ok_def)
    then obtain d where d: "on_reply (mt_unicode ports) oq (ib_body message) (key_delay agent b) now (allowlist b) = Some d"
      "keeps_ok (oq_questions oq) d" using on_reply_total_lemma by blast
    then have "fits agent d b" using Some q reply_keys by (auto simp: fits_def)
    then have "good_step g a (execute_decision ports agent root message d b)"
      using good_now[of g a ports] b good_trans good_execute by (metis fst_conv)
    with Some b d show ?thesis by (simp add: on_answer_def)
  qed (simp add: on_answer_def)
qed (simp add: good_step_def)

lemma good_prompt:
  assumes "\<not> is_open (mx_questions a) agent"
  shows "good_step g a (route_prompt ports agent root message a)"
proof -
  define body where "body = as_prompt (ib_body message)"
  obtain b r where act: "act ports agent (SendText (utf8 body) True) a = (b, r)" by fastforce
  have "good_step g a (fst (act ports agent (SendText (utf8 body) True) a))"
    by (rule good_act) (use assms in auto)
  then have ab: "good_step g a b" using act by simp
  obtain c now where c: "matrix_now ports (react ports message SENT b) = (c, now)" by fastforce
  have bc: "good_step g b (react ports message SENT b)" by (rule good_react)
  moreover have "good_step g (react ports message SENT b) c" using good_now[of g _ ports] c by (metis fst_conv)
  ultimately have ac: "good_step g a c" using ab by (meson good_trans)
  have "good_step g c (case x of Some e \<Rightarrow> unconfirmed ports EvictedPrompt e (c\<lparr>mx_deliveries := d\<rparr>) | None \<Rightarrow> c\<lparr>mx_deliveries := d\<rparr>)" for x d
    using good_trans[OF good_deliveries good_unconfirmed] by (auto simp: good_deliveries split: option.split)
  note ad = good_trans[OF ac this]
  have "good_step g a (react ports message FAILED (fst (send_message ports (ib_room message) (Some root) m b)))"
    "good_step g a (react ports message REFUSED (fst (send_message ports (ib_room message) (Some root) m a)))" for m
    by (meson ab good_trans good_send good_react)+
  with ad good_trans[OF ab bc] act c show ?thesis
    by (auto simp: route_prompt_def body_def[symmetric] Let_def split: sum.split body_kind.split prod.split)
qed

lemma good_marks: "good_step g a (fst (on_marks f a))"
  by (rule good_frame) (auto simp: on_marks_def split: prod.split)

lemma good_inbound: "good_step g a (on_inbound ports message a)"
proof -
  define b where "b = (if is_live a (ib_room message)
                 then fst (on_marks (marks_record (mt_rooms_text ports) (mt_host ports) (ib_room message) (ib_event_id message)) a)
                 else a)"
  have ab: "good_step g a b" by (simp add: b_def good_marks)
  note steps = good_trans[OF ab good_react] good_trans[OF ab good_trans[OF good_send good_react]]
    good_trans[OF ab good_answer] good_trans[OF ab good_prompt] ab
  show ?thesis unfolding on_inbound_def b_def[symmetric] Let_def by (auto simp: steps split: option.split)
qed

text \<open>A command that does not end the agent's question.\<close>

definition leaves_open :: "string \<Rightarrow> matrix_command \<Rightarrow> bool" where
  "leaves_open g c \<longleftrightarrow>
     (case c of
        Deactivate agent \<Rightarrow> agent \<noteq> g
      | Events _ events \<Rightarrow> list_all (\<lambda>e. ev_agent e = g \<longrightarrow> \<not> closes_question e) events
      | _ \<Rightarrow> True)"

lemma good_forget: "good_step g a (fst (on_maps (maps_forget host agent) a))"
  by (rule good_maps) (rule forget_sound)

lemma good_agents: "good_step g a (a\<lparr>mx_agents := agents\<rparr>)"
  by (rule good_frame) simp_all

lemma good_deactivate: "agent \<noteq> g \<Longrightarrow> good_step g a (run_command ports (Deactivate agent) a)"
  unfolding run_command_def prune_marks_def Let_def matrix_command.case
  by (rule good_trans[OF good_trans[OF good_trans[OF good_trans[OF good_agents good_clear] good_deliveries] good_forget] good_marks]) auto

lemma good_command:
  assumes "leaves_open g c"
  shows "good_step g a (run_command ports c a)"
proof (cases c)
  case (Activate agent config)
  then show ?thesis by (auto simp: run_command_def Let_def intro!: good_frame)
next
  case (Deactivate agent)
  with assms show ?thesis by (simp add: leaves_open_def good_deactivate)
next
  case (Events n events)
  have fold: "good_step g b (fold (matrix_event ports) events b)" for b
    using Events assms by (intro good.fold_steps good_event) (auto simp: leaves_open_def list_all_iff)
  from fold good_trans[OF good_deliveries fold] Events show ?thesis by (simp add: run_command_def Let_def)
next
  case (Phases changes)
  then show ?thesis by (auto simp: run_command_def intro: good.fold_steps good_phase)
qed (auto simp: run_command_def good_inbound good_tick)

lemma good_handle:
  assumes "leaves_open g c" "mx_config a \<noteq> None" "mx_pending a = []"
  shows "good_step g a (matrix_handle ports c a)"
proof (cases "\<exists>config. c = Configure config")
  case True
  with assms(2,3) show ?thesis by (auto simp: matrix_handle_def good_step_def matrix_ok_def)
next
  case False
  with assms(2) have "matrix_handle ports c a = run_command ports c a" by (auto simp: matrix_handle_def split: matrix_command.split)
  with good_command[OF assms(1)] show ?thesis by simp
qed

section \<open>The invariant of the actor\<close>

definition matrix_inv :: "'w matrix \<Rightarrow> bool" where
  "matrix_inv a \<longleftrightarrow> matrix_ok a \<and> Panicked \<notin> set (mx_calls a) \<and> (mx_config a \<noteq> None \<longrightarrow> mx_pending a = [])"

lemma good_keeps: "good_step g a a' \<Longrightarrow> matrix_inv a \<Longrightarrow> matrix_inv a'"
  by (auto simp: good_step_def matrix_inv_def)

text \<open>Every command leaves some agent's question open: there are always more names than it speaks of.\<close>

lemma some_agent_left: "\<exists>g. leaves_open g c"
proof -
  let ?names = "(case c of Deactivate agent \<Rightarrow> {agent} | Events _ events \<Rightarrow> ev_agent ` set events | _ \<Rightarrow> {})"
  have "finite ?names" by (auto split: matrix_command.split)
  moreover have "infinite (UNIV :: string set)" by (rule infinite_UNIV_listI)
  ultimately obtain g where "g \<notin> ?names" using ex_new_if_finite by blast
  then have "leaves_open g c" by (cases c) (auto simp: leaves_open_def list_all_iff)
  then show ?thesis ..
qed

lemma run_command_inv: "matrix_inv a \<Longrightarrow> matrix_inv (run_command ports c a)"
  using some_agent_left[of c] good_command good_keeps by blast

lemma run_commands_inv: "matrix_inv a \<Longrightarrow> matrix_inv (fold (run_command ports) cs a)"
  by (induction cs arbitrary: a) (auto intro: run_command_inv)

lemma handle_inv:
  assumes "matrix_inv a"
  shows "matrix_inv (matrix_handle ports c a)"
proof (cases "\<exists>config. c = Configure config")
  case True
  then obtain config where c: "c = Configure config" ..
  have "matrix_inv (a\<lparr>mx_config := Some config, mx_pending := []\<rparr>)"
    using assms by (simp add: matrix_inv_def matrix_ok_def)
  with c show ?thesis by (simp add: matrix_handle_def run_commands_inv Let_def)
next
  case False
  then have "matrix_handle ports c a = (if mx_config a = None then a\<lparr>mx_pending := mx_pending a @ [c]\<rparr> else run_command ports c a)"
    by (auto simp: matrix_handle_def split: matrix_command.split)
  with assms show ?thesis by (auto simp: run_command_inv) (simp add: matrix_inv_def matrix_ok_def)
qed

lemma handles_inv: "matrix_inv a \<Longrightarrow> matrix_inv (fold (matrix_handle ports) cs a)"
  by (induction cs arbitrary: a) (auto intro: handle_inv)

lemma load_inv: "matrix_inv (matrix_load ports (new_matrix w))"
proof -
  have "routes_sound new_maps" by (simp add: routes_sound_def new_maps_def maps_route_def)
  moreover have "questions_ok []" by (simp add: questions_ok_def)
  ultimately show ?thesis
    by (auto simp: matrix_load_def new_matrix_def matrix_inv_def matrix_ok_def Let_def
        dest: load_sound questions_load_ok split: prod.split sum.split)
qed

text \<open>The states the plugin can be in: the store read, and then any commands.\<close>

definition matrix_run :: "'w matrix_ports \<Rightarrow> matrix_command list \<Rightarrow> 'w \<Rightarrow> 'w matrix" where
  "matrix_run ports cs w = fold (matrix_handle ports) cs (matrix_load ports (new_matrix w))"

lemma matrix_run_inv: "matrix_inv (matrix_run ports cs w)"
  by (simp add: matrix_run_def handles_inv load_inv)

section \<open>An open question is never typed over\<close>

lemma track_opens: "asks g e \<Longrightarrow> is_open (mx_questions (fst (track_question ports e a))) g"
  by (auto simp: asks_def track_question_def closes_dialog_def on_questions_def question_open_def Let_def)

lemma event_opens:
  assumes "matrix_inv a" "asks g e" "bt_get (mx_agents a) g = Some config"
  shows "is_open (mx_questions (matrix_event ports e a)) g"
proof -
  have not: "\<not> closes_question e" and agent: "ev_agent e = g" using assms(2) by (auto simp: asks_def closes_question_def closes_dialog_def)
  let ?b = "track_question ports e (settle_deliveries ports e a)"
  have "matrix_inv (fst ?b)"
    by (rule good_keeps[OF good_trans[OF good_settle good_track] assms(1)]) (use not in auto)
  then have "is_open (mx_questions (event_rest ports config e ?b)) g"
    using good_rest[of g ?b ports config e] track_opens[OF assms(2)] by (auto simp: good_step_def matrix_inv_def)
  with assms(3) agent show ?thesis by (simp add: matrix_event_rest)
qed

lemma run_append: "matrix_run ports (xs @ ys) w = fold (matrix_handle ports) ys (matrix_run ports xs w)"
  by (simp add: matrix_run_def)

lemma good_handles:
  assumes "list_all (leaves_open g) cs" "matrix_inv a" "mx_config a \<noteq> None"
  shows "good_step g a (fold (matrix_handle ports) cs a)"
  using assms
proof (induction cs arbitrary: a)
  case (Cons c cs)
  have step: "good_step g a (matrix_handle ports c a)"
    using Cons.prems by (intro good_handle) (auto simp: matrix_inv_def)
  moreover have "mx_config (matrix_handle ports c a) \<noteq> None"
    using step Cons.prems by (auto simp: good_step_def matrix_inv_def)
  ultimately have "good_step g (matrix_handle ports c a) (fold (matrix_handle ports) cs (matrix_handle ports c a))"
    using Cons.prems handle_inv by (intro Cons.IH) auto
  from good_trans[OF step this] show ?case by simp
qed simp

text \<open>
  C5. Once a tracked agent asks a question, no message is typed into its dialog as text, whatever happens next. From the event
  that asks, for as long as no event of that agent closes the dialog and the agent is not deactivated,
  and over every order of other events, phases, replies, ticks and configurations, with any of
  the calls to the homeserver and to the daemon failing, the question stays open and no text is sent to that agent; and
  the plugin never panics.
\<close>

theorem open_question_never_typed_over:
  assumes "mx_config (matrix_run ports before w) \<noteq> None"
    and "bt_get (mx_agents (matrix_run ports before w)) g \<noteq> None"
    and "asks g e" and "list_all (leaves_open g) after"
  shows "is_open (mx_questions (matrix_run ports (before @ [Events n [e]] @ after) w)) g
    \<and> Panicked \<notin> set (mx_calls (matrix_run ports (before @ [Events n [e]] @ after) w))
    \<and> (\<exists>es. mx_calls (matrix_run ports (before @ [Events n [e]] @ after) w)
              = mx_calls (matrix_run ports (before @ [Events n [e]]) w) @ es \<and> list_all (quiet g) es)"
proof -
  let ?a = "matrix_run ports before w" and ?b = "matrix_run ports (before @ [Events n [e]]) w"
  obtain config where config: "bt_get (mx_agents ?a) g = Some config" using assms(2) by auto
  define a' where "a' = (if n > 0 then ?a\<lparr>mx_deliveries := lose_track (mx_deliveries ?a)\<rparr> else ?a)"
  have b: "?b = matrix_event ports e a'"
    using assms(1) by (auto simp: run_append matrix_handle_def run_command_def a'_def Let_def)
  have "matrix_inv a'" using matrix_run_inv[of ports before w] by (simp add: a'_def matrix_inv_def matrix_ok_def)
  moreover have "bt_get (mx_agents a') g = Some config" using config by (simp add: a'_def)
  ultimately have opened: "is_open (mx_questions ?b) g" unfolding b by (rule event_opens[OF _ assms(3)])
  have "leaves_open g (Events n [e])" using assms(3) by (auto simp: leaves_open_def asks_def closes_question_def closes_dialog_def)
  then have "good_step g ?a ?b"
    using good_handles[of g "[Events n [e]]" ?a ports] assms(1) matrix_run_inv[of ports before w] by (simp add: run_append)
  then have configured: "mx_config ?b \<noteq> None" using assms(1) matrix_run_inv[of ports before w] by (auto simp: good_step_def matrix_inv_def)
  have "matrix_run ports (before @ [Events n [e]] @ after) w = fold (matrix_handle ports) after ?b"
    by (simp add: run_append)
  moreover have "good_step g ?b (fold (matrix_handle ports) after ?b)" by (rule good_handles[OF assms(4) matrix_run_inv configured])
  ultimately show ?thesis
    using opened matrix_run_inv[of ports "before @ [Events n [e]]" w] matrix_run_inv[of ports "before @ [Events n [e]] @ after" w]
    by (auto simp: good_step_def matrix_inv_def)
qed

definition sample_ports :: "unit matrix_ports" where
  "sample_ports =
     \<lparr>mt_host = \<lparr>port_get = (\<lambda>k w. (w, Inr None)), port_put = (\<lambda>k v w. (w, Inr ())), port_delete = (\<lambda>k w. (w, Inr ())),
                 host_list = (\<lambda>p w. (w, Inr [])), host_action = (\<lambda>g x w. (w, Inr ()))\<rparr>,
      mt_user_id = ''@bot:hs'',
      mt_create_room = (\<lambda>n i w. (w, Inr ''!room'')), mt_send = (\<lambda>r t b w. (w, Inr ''$root'')), mt_react = (\<lambda>r e k w. (w, Inr ())),
      mt_now = (\<lambda>w. (w, 0)), mt_sleep = (\<lambda>d w. w),
      mt_rooms_text = \<lparr>rt_thread_print = (\<lambda>_. []), rt_thread_parse = (\<lambda>_. None), rt_marks_print = (\<lambda>_. []), rt_marks_parse = (\<lambda>_. None)\<rparr>,
      mt_json = \<lparr>js_print = (\<lambda>_. []), js_parse = (\<lambda>_. None)\<rparr>, mt_unicode = sample_unicode, mt_error_text = (\<lambda>_. [])\<rparr>"

definition sample_daemon_config :: matrix_daemon_config where
  "sample_daemon_config =
     \<lparr>md_homeserver = [], md_user_id = ''@bot:hs'', md_invite = [], md_rooms = [], md_max_parts = 10, md_slash_commands = []\<rparr>"

definition sample_agent_config :: matrix_agent_config where
  "sample_agent_config = \<lparr>mc_enabled = True, mc_events = [], mc_phases = True, mc_key_delay_ms = 100, mc_confirm_window = from_secs 30\<rparr>"

definition sample_start :: "matrix_command list" where
  "sample_start = [Configure sample_daemon_config, Activate ''f/c/a'' sample_agent_config]"

lemma sample_started:
  "mx_config (matrix_run sample_ports sample_start ()) = Some sample_daemon_config"
  "mx_agents (matrix_run sample_ports sample_start ()) = [(''f/c/a'', sample_agent_config)]"
  by (simp_all add: matrix_run_def sample_start_def matrix_handle_def run_command_def matrix_load_def new_matrix_def
      maps_load_def questions_load_def marks_load_def sample_ports_def Let_def bt_contains_def bt_get_def)

definition sample_reply :: inbound where
  "sample_reply = \<lparr>ib_room = ''!room'', ib_event_id = ''$1'', ib_sender = ''@me:hs'', ib_thread_root = Some ''$root'',
     ib_body = points ''hello'', ib_history = False\<rparr>"

theorem open_question_never_typed_over_witness:
  "is_open (mx_questions (matrix_run sample_ports (sample_start @ [Events 0 [sample_asks]]
       @ [InboundMessage sample_reply, Tick, InboundMessage sample_reply]) ())) ''f/c/a''"
  using open_question_never_typed_over[where ports = sample_ports and before = sample_start and w = "()" and g = "''f/c/a''"
      and e = sample_asks and after = "[InboundMessage sample_reply, Tick, InboundMessage sample_reply]" and n = 0]
    sample_asks_ok by (simp add: sample_started leaves_open_def bt_get_def)

section \<open>What a reply may do\<close>

fun acts :: "call list \<Rightarrow> (string \<times> plugin_action) list" where
  "acts [] = []"
| "acts (Acted agent action _ # es) = (agent, action) # acts es"
| "acts (_ # es) = acts es"

lemma acts_append [simp]: "acts (xs @ ys) = acts xs @ acts ys"
  by (induction xs rule: acts.induct) auto

lemma harmless_acts: "list_all harmless es \<Longrightarrow> acts es = []"
  by (induction es rule: acts.induct) auto

lemma talks_acts: "talks a b \<Longrightarrow> acts (mx_calls b) = acts (mx_calls a)"
  by (auto simp: talks_def harmless_acts)

lemma acts_act: "acts (mx_calls (fst (act ports agent action a))) = acts (mx_calls a) @ [(agent, action)]"
  by (simp add: act_def log_call_def case_prod_beta)

lemma acts_send [simp]: "acts (mx_calls (fst (send_message ports room root body a))) = acts (mx_calls a)"
  by (rule talks_acts) simp

lemma acts_react [simp]: "acts (mx_calls (react ports message key a)) = acts (mx_calls a)"
  by (rule talks_acts) simp

lemma acts_unconfirmed [simp]: "acts (mx_calls (unconfirmed ports why sp a)) = acts (mx_calls a)"
  by (rule talks_acts[OF talks_unconfirmed])

lemma acts_now [simp]: "acts (mx_calls (fst (matrix_now ports a))) = acts (mx_calls a)"
  by (rule talks_acts[OF talks_now])

lemma acts_marks [simp]: "mx_calls (fst (on_marks f a)) = mx_calls a"
  by (simp add: on_marks_def case_prod_beta)

lemma acts_commit [simp]: "acts (mx_calls (commit_decision ports agent message d echo a)) = acts (mx_calls a)"
  by (simp add: commit_decision_def Let_def split: option.split)

lemma acts_send_decision:
  "acts (mx_calls (send_decision ports agent root message d echo a))
     = acts (mx_calls a) @ (case dn_send d of Some action \<Rightarrow> [(agent, action)] | None \<Rightarrow> [])"
proof (cases "dn_send d")
  case (Some action)
  obtain b r where act: "act ports agent action a = (b, r)" by fastforce
  then have "acts (mx_calls b) = acts (mx_calls a) @ [(agent, action)]" using acts_act[of ports agent action a] by simp
  with Some act show ?thesis by (simp add: send_decision_def Let_def split: sum.split)
qed (simp add: send_decision_def)

lemma acts_execute:
  "acts (mx_calls (execute_decision ports agent root message d a)) = acts (mx_calls a)
   \<or> acts (mx_calls (execute_decision ports agent root message d a))
       = acts (mx_calls a) @ (case dn_send d of Some action \<Rightarrow> [(agent, action)] | None \<Rightarrow> [])"
proof (cases "dn_post d")
  case (Some body)
  obtain b r where send: "send_message ports (ib_room message) (Some root) body a = (b, r)" by fastforce
  then have "acts (mx_calls b) = acts (mx_calls a)" using acts_send[of ports "ib_room message" "Some root" body a] by simp
  with Some send show ?thesis by (auto simp: execute_decision_def acts_send_decision split: option.split)
qed (simp add: execute_decision_def acts_send_decision)

lemma acts_answer:
  assumes "bt_get (mx_questions a) agent = Some oq"
  shows "acts (mx_calls (on_answer ports agent root message a)) = acts (mx_calls a)
   \<or> (\<exists>keys delay. acts (mx_calls (on_answer ports agent root message a)) = acts (mx_calls a) @ [(agent, SendKeys keys delay)])"
proof -
  obtain b now where b: "matrix_now ports a = (b, now)" by fastforce
  then have eq: "acts (mx_calls b) = acts (mx_calls a)" using acts_now[of ports a] by simp
  show ?thesis
  proof (cases "on_reply (mt_unicode ports) oq (ib_body message) (key_delay agent b) now (allowlist b)")
    case None
    with assms b eq show ?thesis by (simp add: on_answer_def log_call_def)
  next
    case (Some d)
    with assms b eq acts_execute[of ports agent root message d b] reply_keys[OF Some] show ?thesis
      by (auto simp: on_answer_def sends_keys_def split: option.splits)
  qed
qed

lemma acts_prompt:
  "acts (mx_calls (route_prompt ports agent root message a))
     = acts (mx_calls a)
       @ (if classify (as_prompt (ib_body message)) = Command \<and> \<not> allows (allowlist a) (as_prompt (ib_body message)) then []
          else [(agent, SendText (utf8 (as_prompt (ib_body message))) True)])"
proof -
  define body where "body = as_prompt (ib_body message)"
  obtain b r where act: "act ports agent (SendText (utf8 body) True) a = (b, r)" by fastforce
  then have b: "acts (mx_calls b) = acts (mx_calls a) @ [(agent, SendText (utf8 body) True)]"
    using acts_act[of ports agent "SendText (utf8 body) True" a] by simp
  obtain c now where c: "matrix_now ports (react ports message SENT b) = (c, now)" by fastforce
  then have "acts (mx_calls c) = acts (mx_calls b)" using acts_now[of ports "react ports message SENT b"] by simp
  with act b c show ?thesis
    by (auto simp: route_prompt_def body_def[symmetric] Let_def split: sum.split body_kind.split prod.split option.split)
qed

text \<open>The thread a message answers in: live, open, and its agent's own.\<close>

definition in_live_thread :: "'w matrix \<Rightarrow> inbound \<Rightarrow> string \<Rightarrow> bool" where
  "in_live_thread a message agent \<longleftrightarrow>
     (\<exists>t. maps_thread (mx_maps a) agent = Some t \<and> \<not> th_closed t
        \<and> th_room t = ib_room message \<and> ib_thread_root message = Some (th_root t))"

text \<open>
  C6. A message from the homeserver makes the plugin act on an agent at most once, and only on the agent whose own
  thread it answers. When it acts, the message is not the bot's own, not history and not one already
  handled; it is a reply in the thread that agent has in that room, which is not closed, and the agent
  is tracked; and it is typed as a prompt, whole and submitted, exactly when the agent has no open question and
  the text is no slash command beyond the allowed ones, and otherwise only keys are sent.
\<close>

theorem replies_routed_safely:
  assumes "a = matrix_run ports cs w"
    and "acts (mx_calls (on_inbound ports message a)) \<noteq> acts (mx_calls a)"
  shows "\<exists>agent action. acts (mx_calls (on_inbound ports message a)) = acts (mx_calls a) @ [(agent, action)]
    \<and> ib_sender message \<noteq> mt_user_id ports \<and> \<not> ib_history message
    \<and> \<not> seen (mx_marks a) (ib_room message) (ib_event_id message)
    \<and> in_live_thread a message agent \<and> bt_contains (mx_agents a) agent
    \<and> (if is_open (mx_questions a) agent then \<exists>keys delay. action = SendKeys keys delay
       else action = SendText (utf8 (as_prompt (ib_body message))) True
          \<and> (classify (as_prompt (ib_body message)) = Command \<longrightarrow> allows (allowlist a) (as_prompt (ib_body message))))"
proof -
  define b where "b = (if is_live a (ib_room message)
                 then fst (on_marks (marks_record (mt_rooms_text ports) (mt_host ports) (ib_room message) (ib_event_id message)) a)
                 else a)"
  have same: "mx_calls b = mx_calls a" "mx_maps b = mx_maps a" "mx_agents b = mx_agents a" "mx_questions b = mx_questions a"
    "allowlist b = allowlist a"
    by (simp_all add: b_def on_marks_def case_prod_beta allowlist_def)
  note unfolded = assms(2)[unfolded on_inbound_def Let_def, folded b_def]
  have own: "ib_sender message \<noteq> mt_user_id ports" "\<not> ib_history message" "\<not> seen (mx_marks a) (ib_room message) (ib_event_id message)"
    using unfolded by (auto split: if_splits)
  obtain root agent where root: "ib_thread_root message = Some root" and agent: "maps_route (mx_maps a) (ib_room message) root = Some agent"
    using unfolded own same by (auto split: option.splits)
  have live: "\<not> (case maps_thread (mx_maps a) agent of Some t \<Rightarrow> th_closed t | None \<Rightarrow> False)" "bt_contains (mx_agents a) agent"
    using unfolded own same root agent by (auto split: if_splits)
  have "routes_sound (mx_maps a)" using matrix_run_inv[of ports cs w] assms(1) by (simp add: matrix_inv_def matrix_ok_def)
  then have thread: "in_live_thread a message agent"
    using agent root live(1) by (fastforce simp: routes_sound_def in_live_thread_def)
  have run: "on_inbound ports message a
      = (if is_open (mx_questions b) agent then on_answer ports agent root message b else route_prompt ports agent root message b)"
    unfolding on_inbound_def Let_def b_def[symmetric] using own root agent live same by simp
  show ?thesis
  proof (cases "is_open (mx_questions a) agent")
    case True
    then obtain oq where "bt_get (mx_questions b) agent = Some oq" by (auto simp: is_open_def same)
    with acts_answer[of b agent oq ports root message] run True same assms(2) own thread live show ?thesis by auto
  next
    case False
    with acts_prompt[of ports agent root message b] run same assms(2) own thread live show ?thesis by (auto split: if_splits)
  qed
qed

text \<open>A daemon that holds one thread.\<close>

definition stored_ports :: "unit matrix_ports" where
  "stored_ports = sample_ports
     \<lparr>mt_host := (mt_host sample_ports)
        \<lparr>host_list := (\<lambda>p w. (w, Inr (if p = THREAD_PREFIX then [thread_key ''f/c/a''] else []))),
         port_get := (\<lambda>k w. (w, Inr (if k = thread_key ''f/c/a'' then Some ''t'' else None)))\<rparr>,
      mt_rooms_text := (mt_rooms_text sample_ports)
        \<lparr>rt_thread_parse := (\<lambda>_. Some \<lparr>th_session_id = ''s'', th_root = ''$root'', th_room = ''!room'', th_closed = False\<rparr>)\<rparr>\<rparr>"

lemma stored_state:
  "matrix_run stored_ports sample_start ()
     = (new_matrix ())\<lparr>mx_config := Some sample_daemon_config, mx_agents := [(''f/c/a'', sample_agent_config)],
         mx_maps := \<lparr>mp_rooms = [], mp_threads = [(''f/c/a'', \<lparr>th_session_id = ''s'', th_root = ''$root'', th_room = ''!room'', th_closed = False\<rparr>)],
                     mp_routes = [((''!room'', ''$root''), ''f/c/a'')]\<rparr>\<rparr>"
  by (simp add: matrix_run_def sample_start_def matrix_handle_def run_command_def matrix_load_def new_matrix_def new_maps_def
      maps_load_def questions_load_def marks_load_def stored_ports_def sample_ports_def Let_def bt_contains_def bt_get_def
      load_thread_def insert_thread_def thread_key_def THREAD_PREFIX_def ROOM_PREFIX_def QUESTION_PREFIX_def ROUTED_KEY_def)

lemma stored_acts:
  "acts (mx_calls (on_inbound stored_ports sample_reply (matrix_run stored_ports sample_start ())))
     \<noteq> acts (mx_calls (matrix_run stored_ports sample_start ()))"
proof -
  let ?a = "matrix_run stored_ports sample_start ()"
  define b where "b = (if is_live ?a (ib_room sample_reply)
                 then fst (on_marks (marks_record (mt_rooms_text stored_ports) (mt_host stored_ports) (ib_room sample_reply) (ib_event_id sample_reply)) ?a)
                 else ?a)"
  have b: "mx_calls b = mx_calls ?a" "mx_maps b = mx_maps ?a" "mx_agents b = mx_agents ?a" "mx_questions b = mx_questions ?a"
    by (simp_all add: b_def on_marks_def case_prod_beta)
  have user: "mt_user_id stored_ports = ''@bot:hs''" by (simp add: stored_ports_def sample_ports_def)
  have "on_inbound stored_ports sample_reply ?a = route_prompt stored_ports ''f/c/a'' ''$root'' sample_reply b"
    unfolding on_inbound_def Let_def b_def[symmetric]
    by (simp add: b user stored_state sample_reply_def new_matrix_def seen_def maps_route_def
        maps_thread_def bt_get_def bt_contains_def is_open_def)
  moreover have "classify (as_prompt (ib_body sample_reply)) = Prompt"
    by (simp add: sample_reply_def points_def as_prompt_def classify_def prompt_text_eq is_terminal_control_def is_control_def
        is_blank_def MODE_CHARS_def starts_with_any_def text_trim_start_def is_whitespace_def Let_def)
  ultimately show ?thesis using acts_prompt[of stored_ports "''f/c/a''" "''$root''" sample_reply b] b(1) by simp
qed

theorem replies_routed_safely_witness:
  "\<exists>agent. in_live_thread (matrix_run stored_ports sample_start ()) sample_reply agent"
  using replies_routed_safely[OF refl stored_acts] by blast

section \<open>Keys follow the post\<close>

lemma send_parts_landed:
  assumes "send_parts ports room root parts first a = (b, Some i)"
  shows "first = Some i \<or> (\<exists>part es. mx_calls b = mx_calls a @ es \<and> Posted room root part (Some i) \<in> set es)"
  using assms
proof (induction parts arbitrary: first a)
  case (Cons part parts)
  obtain w r where call: "retry_once ports (mt_send ports room root part) (mx_world a) = (w, r)" by fastforce
  show ?case
  proof (cases r)
    case (Inl e)
    with Cons.prems call show ?thesis by simp
  next
    case (Inr j)
    let ?a = "log_call (Posted room root part (Some j)) (a\<lparr>mx_world := w\<rparr>)"
    from Inr Cons.prems call
    have "(case first of None \<Rightarrow> Some j | Some _ \<Rightarrow> first) = Some i
        \<or> (\<exists>part es. mx_calls b = mx_calls ?a @ es \<and> Posted room root part (Some i) \<in> set es)"
      by (intro Cons.IH) simp
    moreover have "talks ?a b"
      using Inr Cons.prems call talks_send_parts[of ?a ports room root parts "case first of None \<Rightarrow> Some j | Some _ \<Rightarrow> first"] by simp
    then obtain es where "mx_calls b = mx_calls ?a @ es" by (auto simp: talks_def)
    ultimately show ?thesis by (auto simp: log_call_def split: option.splits)
  qed
qed simp

lemma send_landed:
  "send_message ports room root body a = (b, Some i) \<Longrightarrow>
     \<exists>part es. mx_calls b = mx_calls a @ es \<and> Posted room root part (Some i) \<in> set es"
  using send_parts_landed by (fastforce simp: send_message_def Let_def)

text \<open>The calls of a step, where they include one on the agent: what came before it, it, and what came after.\<close>

definition acts_after :: "(call list \<Rightarrow> bool) \<Rightarrow> string \<Rightarrow> 'w matrix \<Rightarrow> 'w matrix \<Rightarrow> bool" where
  "acts_after P agent a b \<longleftrightarrow>
     (\<exists>pre action ok rest. mx_calls b = mx_calls a @ pre @ Acted agent action ok # rest \<and> P pre)"

definition landed :: "inbound \<Rightarrow> string \<Rightarrow> call list \<Rightarrow> bool" where
  "landed message root es \<longleftrightarrow> (\<exists>part i. Posted (ib_room message) (Some root) part (Some i) \<in> set es)"

lemma send_decision_calls:
  assumes "dn_send d = Some action"
  shows "acts_after (\<lambda>pre. pre = []) agent a (send_decision ports agent root message d echo a)"
proof -
  obtain b r where act: "act ports agent action a = (b, r)" by fastforce
  then have b: "mx_calls b = mx_calls a @ [Acted agent action (is_ok r)]"
    by (auto simp: act_def log_call_def split: prod.splits)
  have "\<exists>es. mx_calls (send_decision ports agent root message d echo a) = mx_calls b @ es"
  proof (cases r)
    case (Inl e)
    let ?b = "b\<lparr>mx_questions := set_stage agent (dn_fallback d) (mx_questions b)\<rparr>"
    have "talks ?b (send_decision ports agent root message d echo a)"
      using assms act Inl talks_trans[OF talks_send talks_react] by (simp add: send_decision_def Let_def)
    then show ?thesis by (auto simp: talks_def)
  next
    case (Inr u)
    let ?b = "b\<lparr>mx_questions := set_stage agent (if gates_on_post d then with_echo echo (dn_stage d) else dn_stage d) (mx_questions b)\<rparr>"
    have "talks ?b (commit_decision ports agent message d echo b)"
      by (simp add: commit_decision_def Let_def split: option.split)
    with assms act Inr show ?thesis by (auto simp: talks_def send_decision_def)
  qed
  with b show ?thesis by (auto simp: acts_after_def)
qed

lemma gated_calls:
  assumes "gates_on_post d" "acts (mx_calls (execute_decision ports agent root message d a)) \<noteq> acts (mx_calls a)"
  shows "acts_after (landed message root) agent a (execute_decision ports agent root message d a)"
proof -
  obtain body where body: "dn_post d = Some body" using assms(1) by (auto simp: gates_on_post_def)
  obtain b r where send: "send_message ports (ib_room message) (Some root) body a = (b, r)" by fastforce
  then have same: "acts (mx_calls b) = acts (mx_calls a)" using acts_send[of ports "ib_room message" "Some root" body a] by simp
  obtain i where r: "r = Some i" and run: "execute_decision ports agent root message d a = send_decision ports agent root message d (Some i) b"
    using assms body send same by (cases r) (auto simp: execute_decision_def)
  obtain part es where es: "mx_calls b = mx_calls a @ es" "Posted (ib_room message) (Some root) part (Some i) \<in> set es"
    using send_landed send unfolding r by meson
  obtain action where "dn_send d = Some action"
    using assms(2) same unfolding run acts_send_decision by (auto split: option.splits)
  from send_decision_calls[OF this, of agent b ports root message "Some i"] es show ?thesis
    unfolding run acts_after_def landed_def by fastforce
qed


definition confirming_state :: "unit matrix" where
  "confirming_state = (new_matrix ())
     \<lparr>mx_questions := [(''f/c/a'', sample_open (Confirming [sample_reading] (Some ''e'')))],
      mx_agents := [(''f/c/a'', sample_agent_config)]\<rparr>"

lemma confirming_acts:
  "acts (mx_calls (on_answer sample_ports ''f/c/a'' ''$root'' (sample_reply\<lparr>ib_body := points ''Yes''\<rparr>) confirming_state))
     \<noteq> acts (mx_calls confirming_state)"
proof -
  let ?message = "sample_reply\<lparr>ib_body := points ''Yes''\<rparr>"
  obtain d where d: "on_reply (mt_unicode sample_ports) (sample_open (Confirming [sample_reading] (Some ''e''))) (ib_body ?message)
      (key_delay ''f/c/a'' confirming_state) 0 (allowlist confirming_state) = Some d" "dn_post d = None" "dn_send d \<noteq> None"
    using sample_confirms[of 0 "allowlist confirming_state"]
    by (auto simp: sample_ports_def key_delay_def confirming_state_def sample_agent_config_def bt_get_def)
  have "matrix_now sample_ports confirming_state = (confirming_state, 0)" by (simp add: matrix_now_def sample_ports_def)
  moreover have "bt_get (mx_questions confirming_state) ''f/c/a'' = Some (sample_open (Confirming [sample_reading] (Some ''e'')))"
    by (simp add: confirming_state_def bt_get_def)
  ultimately have "on_answer sample_ports ''f/c/a'' ''$root'' ?message confirming_state
      = send_decision sample_ports ''f/c/a'' ''$root'' ?message d None confirming_state"
    using d by (simp add: on_answer_def execute_decision_def)
  with d(3) show ?thesis by (auto simp: acts_send_decision)
qed


section \<open>Redelivery\<close>

lemma talks_marks: "talks a b \<Longrightarrow> mx_marks b = mx_marks a"
  by (auto simp: talks_def)

lemma marks_frame [simp]:
  "mx_marks (fst (send_message ports room root body a)) = mx_marks a"
  "mx_marks (react ports message key a) = mx_marks a"
  "mx_marks (unconfirmed ports why sp a) = mx_marks a"
  "mx_marks (fst (matrix_now ports a)) = mx_marks a"
  "mx_marks (fst (act ports agent action a)) = mx_marks a"
  by (rule talks_marks; simp add: talks_unconfirmed talks_now)+ (simp add: act_def log_call_def case_prod_beta)

lemma marks_commit [simp]: "mx_marks (commit_decision ports agent message d echo a) = mx_marks a"
  by (simp add: commit_decision_def Let_def split: option.split)

lemma marks_send_decision [simp]: "mx_marks (send_decision ports agent root message d echo a) = mx_marks a"
proof (cases "dn_send d")
  case (Some action)
  obtain b r where act: "act ports agent action a = (b, r)" by fastforce
  with marks_frame(5)[of ports agent action a] Some show ?thesis by (simp add: send_decision_def Let_def split: sum.split)
qed (simp add: send_decision_def)

lemma marks_answer [simp]: "mx_marks (on_answer ports agent root message a) = mx_marks a"
proof -
  have execute: "mx_marks (execute_decision ports agent root message d b) = mx_marks b" for d b
    by (auto simp: execute_decision_def split: option.split prod.split) (metis fst_conv marks_frame(1))+
  obtain b now where "matrix_now ports a = (b, now)" by fastforce
  with marks_frame(4)[of ports a] show ?thesis by (simp add: on_answer_def log_call_def execute split: option.split)
qed

lemma marks_prompt [simp]: "mx_marks (route_prompt ports agent root message a) = mx_marks a"
proof -
  define body where "body = as_prompt (ib_body message)"
  obtain b r where act: "act ports agent (SendText (utf8 body) True) a = (b, r)" by fastforce
  then have b: "mx_marks b = mx_marks a" using marks_frame(5)[of ports agent "SendText (utf8 body) True" a] by simp
  obtain c now where c: "matrix_now ports (react ports message SENT b) = (c, now)" by fastforce
  then have "mx_marks c = mx_marks b" using marks_frame(4)[of ports "react ports message SENT b"] by simp
  with act b c show ?thesis
    by (auto simp: route_prompt_def body_def[symmetric] Let_def split: sum.split body_kind.split prod.split option.split)
qed

text \<open>The record of a message just handled, when it fits the store's limit, holds its id.\<close>

definition record_fits :: "'w matrix_ports \<Rightarrow> inbound \<Rightarrow> 'w matrix \<Rightarrow> bool" where
  "record_fits ports message a \<longleftrightarrow>
     (let ids = (case bt_get (mx_marks a) (ib_room message) of Some ids \<Rightarrow> ids | None \<Rightarrow> []) @ [ib_event_id message]
      in length (rt_marks_print (mt_rooms_text ports)
           (bt_insert (ib_room message) (drop (length ids - MAX_IDS) ids) (mx_marks a))) \<le> MAX_RECORD_BYTES)"

lemma recorded_seen:
  assumes "record_fits ports message a"
  shows "seen (mx_marks (fst (on_marks (marks_record (mt_rooms_text ports) (mt_host ports) (ib_room message) (ib_event_id message)) a)))
    (ib_room message) (ib_event_id message)"
proof -
  define ids where "ids = (case bt_get (mx_marks a) (ib_room message) of Some ids \<Rightarrow> ids | None \<Rightarrow> [])"
  have "shrink (rt_marks_print (mt_rooms_text ports)) m = (m, rt_marks_print (mt_rooms_text ports) m)"
    if "length (rt_marks_print (mt_rooms_text ports) m) \<le> MAX_RECORD_BYTES" for m
    using that by (subst shrink.simps) simp
  moreover have "ib_event_id message \<in> set (drop (Suc (length ids) - MAX_IDS) (ids @ [ib_event_id message]))"
    by (simp add: MAX_IDS_def)
  ultimately show ?thesis
    using assms by (auto simp: record_fits_def ids_def[symmetric] on_marks_def marks_record_def marks_store_def Let_def
        seen_def case_prod_beta split: option.split)
qed



end
