(* ===== verification/Mention.thy ===== *)
theory Mention
  imports Render Names
begin

text \<open>
  What the github plugin reads in an issue and in a repository's fleet file (plugins/github/src/mention.rs,
  repo_config.rs, and \<open>Kind\<close> of config.rs): whether a text mentions the App, the names the plugin builds, and the
  fleet file with the plugin's agents injected. The YAML parser and Rust's quoting of a text are
  parameters. The lemmas show that a mention is exactly the App's name at a word boundary outside code,
  that every name the plugin builds passes the daemon's rule, and what a prepared file holds.
\<close>

section \<open>Mentions\<close>

definition AT :: nat where "AT = 64"
definition BACKTICK :: nat where "BACKTICK = 96"

text \<open>A line with its inline code spans blanked.\<close>

fun blank_code :: "bool \<Rightarrow> ustr \<Rightarrow> ustr" where
  "blank_code in_code [] = []"
| "blank_code in_code (c # cs) =
     (if c = BACKTICK then 32 # blank_code (\<not> in_code) cs
      else if in_code then 32 # blank_code in_code cs
      else c # blank_code in_code cs)"

definition is_fence :: "ustr \<Rightarrow> bool" where
  "is_fence line \<longleftrightarrow>
     (let t = text_trim_start line in str_starts_with t (points ''```'') \<or> str_starts_with t (points ''~~~''))"

fun outside_fences :: "bool \<Rightarrow> ustr list \<Rightarrow> ustr list" where
  "outside_fences in_fence [] = []"
| "outside_fences in_fence (line # lines) =
     (if is_fence line then outside_fences (\<not> in_fence) lines
      else if in_fence then outside_fences in_fence lines
      else line # outside_fences in_fence lines)"

definition before_ok :: "unicode \<Rightarrow> ustr \<Rightarrow> nat \<Rightarrow> bool" where
  "before_ok uc line start \<longleftrightarrow>
     start = 0 \<or> \<not> (let c = line ! (start - 1) in uc_alphanumeric uc c \<or> c = 95 \<or> c = AT)"

definition after_ok :: "unicode \<Rightarrow> ustr \<Rightarrow> nat \<Rightarrow> bool" where
  "after_ok uc line fin \<longleftrightarrow>
     (case drop fin line of [] \<Rightarrow> True | c # _ \<Rightarrow> \<not> (uc_alphanumeric uc c \<or> c = 45 \<or> c = 95))"

text \<open>The search for the App's name from a position on; what was found and refused is stepped over.\<close>

function mention_from :: "unicode \<Rightarrow> ustr \<Rightarrow> ustr \<Rightarrow> nat \<Rightarrow> bool" where
  "mention_from uc name line pos =
     (case find_text (AT # name) (drop pos line) of
        None \<Rightarrow> False
      | Some i \<Rightarrow>
          let start = pos + i; fin = start + length (AT # name)
          in (before_ok uc line start \<and> after_ok uc line fin) \<or> mention_from uc name line fin)"
  by pat_completeness auto
termination
  by (relation "measure (\<lambda>(uc, name, line, pos). length line - pos)") (auto dest!: find_text_Some)

declare mention_from.simps [simp del]

definition mentions :: "unicode \<Rightarrow> ustr \<Rightarrow> ustr \<Rightarrow> bool" where
  "mentions uc body slug =
     list_ex (\<lambda>line. mention_from uc (map ascii_lower slug) (map ascii_lower (blank_code False line)) 0)
       (outside_fences False (text_lines body))"

section \<open>Names\<close>

definition lower :: "char \<Rightarrow> char" where
  "lower c = (if is_ascii_uppercase c then char_of (of_char c + (32::nat)) else c)"

fun dashed :: "bool \<Rightarrow> string \<Rightarrow> string" where
  "dashed dash [] = []"
| "dashed dash (c # cs) =
     (if is_ascii_alphanumeric (lower c) then lower c # dashed False cs
      else if \<not> dash then CHR ''-'' # dashed True cs
      else dashed dash cs)"

definition trim_dashes :: "string \<Rightarrow> string" where
  "trim_dashes s = rev (dropWhile (\<lambda>c. c = CHR ''-'') (rev s))"

definition fleet_name :: "string \<Rightarrow> string" where
  "fleet_name repo =
     (let s = trim_dashes (''gh-'' @ dashed False repo)
      in if length s > 63 then trim_dashes (take 63 s) else s)"

definition is_plugin_agent :: "string \<Rightarrow> bool" where
  "is_plugin_agent name \<longleftrightarrow>
     (case (case strip_prefix ''issue-'' name of Some d \<Rightarrow> Some d | None \<Rightarrow> strip_prefix ''pr-'' name) of
        Some d \<Rightarrow> d \<noteq> [] \<and> list_all is_ascii_digit d
      | None \<Rightarrow> False)"

datatype kind = Issue | Pr

definition agent_name :: "kind \<Rightarrow> u64 \<Rightarrow> string" where
  "agent_name k n = (case k of Issue \<Rightarrow> ''issue-'' | Pr \<Rightarrow> ''pr-'') @ nat_digits (unat n)"

definition kind_json :: "kind \<Rightarrow> json" where
  "kind_json k = JString (case k of Issue \<Rightarrow> ''issue'' | Pr \<Rightarrow> ''pr'')"

section \<open>The repository's fleet file\<close>

definition MAX_FILE_BYTES :: nat where
  "MAX_FILE_BYTES = 256 * 1024"

record live =
  lv_kind :: kind
  lv_number :: u64
  lv_head :: "string option"

record prepared =
  pp_file :: json
  pp_crew :: string

datatype prepare_error =
    FileTooLarge
  | InvalidYaml string
  | NotAMapping
  | WrongVersion
  | WrongKind
  | CrewsNotAMapping
  | NotOneCrew nat
  | BadCrewKey string
  | CrewNotAMapping string
  | WrongRepo string string string
  | AgentsNotAMapping string
  | TakenName string string

definition check_name :: "string \<Rightarrow> string + unit" where
  "check_name s =
     (if s = [] then Inl ''empty''
      else if length s > 63 then Inl ''longer than 63 characters''
      else if \<not> list_all (\<lambda>b. is_ascii_lowercase b \<or> is_ascii_digit b \<or> b = CHR ''-'') s
        then Inl (''characters other than a-z, 0-9 and '' @ quoted (CHR ''-''))
      else if str_starts_with s ''-'' \<or> str_ends_with s ''-'' then Inl (''starts or ends with '' @ quoted (CHR ''-''))
      else Inr ())"

definition eq_nocase :: "string \<Rightarrow> string \<Rightarrow> bool" where
  "eq_nocase a b \<longleftrightarrow> map lower a = map lower b"

definition trim_slashes :: "string \<Rightarrow> string" where
  "trim_slashes s = rev (dropWhile (\<lambda>c. c = CHR ''/'') (rev s))"

text \<open>The part after the last colon.\<close>

definition after_last_colon :: "string \<Rightarrow> string option" where
  "after_last_colon s =
     (if CHR '':'' \<in> set s then Some (rev (takeWhile (\<lambda>c. c \<noteq> CHR '':'') (rev s))) else None)"

definition names_repo :: "string \<Rightarrow> string \<Rightarrow> bool" where
  "names_repo declared repo =
     (let d = trim_slashes (str_trim declared);
          d = (case strip_suffix ''.git'' d of Some s \<Rightarrow> s | None \<Rightarrow> d);
          tail = (case (if str_starts_with d ''git@'' then after_last_colon d else None) of
                    Some t \<Rightarrow> t
                  | None \<Rightarrow> (case strip_prefix ''https://github.com/'' d of Some t \<Rightarrow> t | None \<Rightarrow> d))
      in eq_nocase tail repo)"

definition live_agent :: "live \<Rightarrow> json" where
  "live_agent s =
     (let agent = bt_insert ''plugins''
            (JObject [(''github'', JObject [(''kind'', kind_json (lv_kind s)), (''number'', JNumber (nat_digits (unat (lv_number s))))])])
            []
      in JObject (case lv_head s of Some head \<Rightarrow> bt_insert ''branch'' (JString head) agent | None \<Rightarrow> agent))"

definition live_name :: "live \<Rightarrow> string" where
  "live_name s = agent_name (lv_kind s) (lv_number s)"

definition inject :: "live list \<Rightarrow> (string, json) btree \<Rightarrow> (string, json) btree" where
  "inject live agents = fold (\<lambda>s. bt_insert (live_name s) (live_agent s)) live agents"

definition prepare_crew ::
  "string \<Rightarrow> string \<Rightarrow> live list \<Rightarrow> string \<Rightarrow> json \<Rightarrow> prepare_error + json" where
  "prepare_crew repo default_branch live crew_name v =
     (case v of
        JObject crew \<Rightarrow>
          let declared = (case Option.bind (bt_get crew ''repo'') as_str of Some r \<Rightarrow> r | None \<Rightarrow> [])
          in if \<not> names_repo declared repo then Inl (WrongRepo crew_name repo declared)
             else
               let crew = (if bt_contains crew ''ref'' then crew else bt_insert ''ref'' (JString default_branch) crew)
               in (case (case bt_get crew ''agents'' of None \<Rightarrow> JObject [] | Some a \<Rightarrow> a) of
                     JObject agents \<Rightarrow>
                       (case find is_plugin_agent (bt_keys agents) of
                          Some taken \<Rightarrow> Inl (TakenName crew_name taken)
                        | None \<Rightarrow> Inr (JObject (bt_insert ''agents'' (JObject (inject live agents)) crew)))
                   | _ \<Rightarrow> Inl (AgentsNotAMapping crew_name))
      | _ \<Rightarrow> Inl (CrewNotAMapping crew_name))"

definition prepare_file ::
  "(string \<Rightarrow> string + json) \<Rightarrow> string \<Rightarrow> string \<Rightarrow> string \<Rightarrow> string \<Rightarrow> live list \<Rightarrow> prepare_error + prepared" where
  "prepare_file yaml text repo fleet default_branch live =
     (if length text > MAX_FILE_BYTES then Inl FileTooLarge
      else case yaml text of
        Inl e \<Rightarrow> Inl (InvalidYaml e)
      | Inr (JObject root) \<Rightarrow>
          if Option.bind (bt_get root ''apiVersion'') as_str \<noteq> Some ''balerix/v1'' then Inl WrongVersion
          else if Option.bind (bt_get root ''kind'') as_str \<noteq> Some ''Fleet'' then Inl WrongKind
          else (case bt_get root ''crews'' of
                  Some (JObject crews) \<Rightarrow>
                    (case crews of
                       [(crew_name, crew)] \<Rightarrow>
                         (case check_name crew_name of
                            Inl reason \<Rightarrow> Inl (BadCrewKey reason)
                          | Inr _ \<Rightarrow>
                              rbind (prepare_crew repo default_branch live crew_name crew) (\<lambda>crew.
                                Inr \<lparr>pp_file = JObject (bt_insert ''name'' (JString fleet)
                                       (bt_insert ''crews'' (JObject [(crew_name, crew)]) root)),
                                     pp_crew = crew_name\<rparr>))
                     | _ \<Rightarrow> Inl (NotOneCrew (length crews)))
                | _ \<Rightarrow> Inl CrewsNotAMapping)
      | Inr _ \<Rightarrow> Inl NotAMapping)"

definition shown :: "ustr \<Rightarrow> ustr" where
  "shown key = (if length key > 63 then take 63 key @ [0x2026] else key)"

definition prepare_text :: "(string \<Rightarrow> string) \<Rightarrow> prepare_error \<Rightarrow> ustr" where
  "prepare_text debug e =
     points ''.balerix.yaml: '' @
     (case e of
        FileTooLarge \<Rightarrow> points ''larger than '' @ decimal MAX_FILE_BYTES @ points '' bytes''
      | InvalidYaml m \<Rightarrow> points ''invalid YAML: '' @ chars m
      | NotAMapping \<Rightarrow> points ''expected a mapping''
      | WrongVersion \<Rightarrow> points ''apiVersion: expected '' @ [34] @ points ''balerix/v1'' @ [34]
      | WrongKind \<Rightarrow> points ''kind: expected '' @ [34] @ points ''Fleet'' @ [34]
      | CrewsNotAMapping \<Rightarrow> points ''crews: expected a mapping with one entry''
      | NotOneCrew n \<Rightarrow> points ''crews: expected exactly one crew, got '' @ decimal n
      | BadCrewKey reason \<Rightarrow> points ''crews: the crew key is not a valid name ('' @ points reason
          @ points ''); use 1 to 63 of a-z, 0-9 and '' @ points (quoted (CHR ''-''))
      | CrewNotAMapping c \<Rightarrow> points ''crews.'' @ chars c @ points '': expected a mapping''
      | WrongRepo c repo declared \<Rightarrow> points ''crews.'' @ chars c @ points ''.repo: expected '' @ chars repo
          @ points '' (this repository), got '' @ chars (debug declared)
      | AgentsNotAMapping c \<Rightarrow> points ''crews.'' @ chars c @ points ''.agents: expected a mapping''
      | TakenName c taken \<Rightarrow> points ''crews.'' @ chars c @ points ''.agents.'' @ shown (chars taken)
          @ points '': issue-<n> and pr-<n> are the plugin'' @ [39] @ points ''s names'')"

definition rename_crew :: "json \<Rightarrow> string \<Rightarrow> string \<Rightarrow> json" where
  "rename_crew file src dst =
     (case file of
        JObject root \<Rightarrow>
          (case bt_get root ''crews'' of
             Some (JObject crews) \<Rightarrow>
               (case bt_get crews src of
                  Some crew \<Rightarrow> JObject (bt_insert ''crews'' (JObject (bt_insert dst crew (bt_remove src crews))) root)
                | None \<Rightarrow> file)
           | _ \<Rightarrow> file)
      | _ \<Rightarrow> file)"

section \<open>A mention is the name at a word boundary\<close>

text \<open>
  The rule the search has to keep, position by position. A line counts when it is no fence and the fences above it
  pair up. A character of it is read as a blank when it is a backtick or has an odd number of them before it. The App's
  name stands at a position when the characters from there on read as an \<open>@\<close> and the name, with no word running into
  it or on from it.
\<close>

definition open_line :: "ustr list \<Rightarrow> nat \<Rightarrow> bool" where
  "open_line lines k \<longleftrightarrow> \<not> is_fence (lines ! k) \<and> even (length (filter is_fence (take k lines)))"

definition read_char :: "ustr \<Rightarrow> nat \<Rightarrow> nat" where
  "read_char line j = (if line ! j = BACKTICK \<or> odd (count_list (take j line) BACKTICK) then 32 else ascii_lower (line ! j))"

definition mention_at :: "unicode \<Rightarrow> ustr \<Rightarrow> ustr \<Rightarrow> nat \<Rightarrow> bool" where
  "mention_at uc name line i \<longleftrightarrow>
     i + length name < length line \<and> map (\<lambda>j. read_char line (i + j)) [0..<Suc (length name)] = AT # name
     \<and> (i = 0 \<or> \<not> uc_alphanumeric uc (read_char line (i - 1)) \<and> read_char line (i - 1) \<notin> {95, AT})
     \<and> (Suc (i + length name) = length line
        \<or> \<not> uc_alphanumeric uc (read_char line (Suc (i + length name))) \<and> read_char line (Suc (i + length name)) \<notin> {45, 95})"

lemma blank_code_length [simp]: "length (blank_code b line) = length line"
  by (induction b line rule: blank_code.induct) auto

lemma blank_code_nth:
  "j < length line \<Longrightarrow> blank_code b line ! j = (if line ! j = BACKTICK \<or> odd (count_list (take j line) BACKTICK) \<noteq> b then 32 else line ! j)"
proof (induction b line arbitrary: j rule: blank_code.induct)
  case (2 in_code c cs)
  then show ?case by (cases j) auto
qed simp

lemma blanked_nth: "j < length line \<Longrightarrow> map ascii_lower (blank_code False line) ! j = read_char line j"
  by (simp add: blank_code_nth read_char_def ascii_lower_def)

lemma outside_fences_iff:
  "x \<in> set (outside_fences b lines) \<longleftrightarrow>
     (\<exists>k < length lines. lines ! k = x \<and> \<not> is_fence x \<and> (odd (length (filter is_fence (take k lines))) \<longleftrightarrow> b))"
  by (induction b lines rule: outside_fences.induct) (auto simp: Ex_less_Suc2)

lemma prefix_drop_nth:
  assumes "p \<noteq> []"
  shows "prefix p (drop i s) \<longleftrightarrow> i + length p \<le> length s \<and> map (\<lambda>j. s ! (i + j)) [0..<length p] = p"
proof -
  have "map (\<lambda>j. s ! (i + j)) [0..<length p] = take (length p) (drop i s)" if "i + length p \<le> length s"
    using that by (auto intro!: nth_equalityI)
  moreover have "prefix p (drop i s) \<longleftrightarrow> take (length p) (drop i s) = p" by (metis append_eq_conv_conj prefix_def)
  moreover have "i + length p \<le> length s" if "take (length p) (drop i s) = p"
    using arg_cong[OF that, of length] assms by (cases "i \<le> length s") auto
  ultimately show ?thesis by metis
qed

text \<open>What the search finds: the same, in the line as it was prepared for it.\<close>

definition found_at :: "unicode \<Rightarrow> ustr \<Rightarrow> ustr \<Rightarrow> nat \<Rightarrow> bool" where
  "found_at uc name line i \<longleftrightarrow>
     prefix (AT # name) (drop i line) \<and> i < length line
     \<and> before_ok uc line i \<and> after_ok uc line (i + length (AT # name))"

lemma found_mention: "found_at uc name (map ascii_lower (blank_code False line)) i \<longleftrightarrow> mention_at uc name line i"
proof (cases "i + length name < length line")
  case True
  let ?l = "map ascii_lower (blank_code False line)"
  have same: "map (\<lambda>j. ?l ! (i + j)) [0..<Suc (length name)] = map (\<lambda>j. read_char line (i + j)) [0..<Suc (length name)]"
    using True by (intro map_cong) (auto simp: blanked_nth simp del: nth_map)
  have "before_ok uc ?l i \<longleftrightarrow> i = 0 \<or> \<not> uc_alphanumeric uc (read_char line (i - 1)) \<and> read_char line (i - 1) \<notin> {95, AT}"
    using True by (simp add: before_ok_def Let_def blanked_nth del: nth_map)
  moreover have "after_ok uc ?l (Suc (i + length name)) \<longleftrightarrow> Suc (i + length name) = length line
      \<or> \<not> uc_alphanumeric uc (read_char line (Suc (i + length name))) \<and> read_char line (Suc (i + length name)) \<notin> {45, 95}"
  proof (cases "Suc (i + length name) < length line")
    case False
    with True show ?thesis by (simp add: after_ok_def)
  next
    case True
    then have "drop (Suc (i + length name)) ?l = read_char line (Suc (i + length name)) # drop (Suc (Suc (i + length name))) ?l"
      by (simp add: Cons_nth_drop_Suc[symmetric] blanked_nth del: nth_map)
    with True show ?thesis by (simp add: after_ok_def)
  qed
  moreover have "prefix (AT # name) (drop i ?l) \<longleftrightarrow> map (\<lambda>j. read_char line (i + j)) [0..<Suc (length name)] = AT # name"
    using True unfolding same[symmetric] by (subst prefix_drop_nth) (simp_all del: upt_Suc)
  ultimately show ?thesis using True by (simp add: found_at_def mention_at_def del: upt_Suc)
next
  case False
  then show ?thesis by (auto simp: found_at_def mention_at_def prefix_drop_nth simp del: upt_Suc)
qed

lemma find_text_first:
  "find_text p s = Some i \<Longrightarrow> prefix p (drop i s) \<and> (\<forall>j < i. \<not> prefix p (drop j s))"
proof (induction p s arbitrary: i rule: find_text.induct)
  case (2 p c s)
  show ?case
  proof (cases "prefix p (c # s)")
    case False
    with 2 obtain k where k: "find_text p s = Some k" "i = Suc k" by auto
    with 2(1)[OF False k(1)] False show ?thesis by (auto simp: less_Suc_eq_0_disj)
  qed (use 2 in auto)
qed (auto split: if_splits)

lemma find_text_absent: "find_text p s = None \<Longrightarrow> \<not> prefix p (drop i s)"
proof (induction p s arbitrary: i rule: find_text.induct)
  case (2 p c s)
  then show ?case by (cases i) (auto split: if_splits)
qed (auto split: if_splits)

lemma mention_from_exact:
  assumes "AT \<notin> set name"
  shows "mention_from uc name line pos \<longleftrightarrow> (\<exists>i \<ge> pos. found_at uc name line i)"
  using assms
proof (induction uc name line pos rule: mention_from.induct)
  case (1 uc name line pos)
  show ?case
  proof (cases "find_text (AT # name) (drop pos line)")
    case None
    have "\<not> found_at uc name line i" if "pos \<le> i" for i
      using find_text_absent[OF None, of "i - pos"] that by (simp add: found_at_def)
    with None show ?thesis by (subst mention_from.simps) auto
  next
    case (Some k)
    let ?start = "pos + k" and ?fin = "pos + k + length (AT # name)"
    note first = find_text_first[OF Some]
    have here: "prefix (AT # name) (drop ?start line)" using first by (simp add: add.commute)
    then have "?start < length line" by (metis drop_all leI list.distinct(1) prefix_bot.extremum_uniqueI)
    then have start: "found_at uc name line ?start \<longleftrightarrow> before_ok uc line ?start \<and> after_ok uc line ?fin"
      using here by (simp add: found_at_def)
    have "\<not> found_at uc name line i" if "pos \<le> i" "i < ?start" for i
      using first that(1) that(2) by (auto simp: found_at_def dest!: spec[of _ "i - pos"])
    moreover have "\<not> found_at uc name line i" if "?start < i" "i < ?fin" for i
    proof
      assume "found_at uc name line i"
      then have "line ! i = AT" by (auto simp: found_at_def prefix_def Cons_nth_drop_Suc[symmetric])
      moreover obtain rest where rest: "drop ?start line = AT # name @ rest" using here by (auto simp: prefix_def)
      have "line ! i = drop ?start line ! (i - ?start)" using that \<open>?start < length line\<close> by simp
      moreover have short: "i - ?start - 1 < length name" using that by auto
      ultimately have "name ! (i - ?start - 1) = AT" using that rest by (simp add: nth_Cons' nth_append)
      with short show False using 1(2) nth_mem by metis
    qed
    ultimately have "i = ?start \<or> ?fin \<le> i" if "pos \<le> i" "found_at uc name line i" for i
      using that by (metis linorder_neqE_nat not_less)
    then have "(\<exists>i \<ge> pos. found_at uc name line i) \<longleftrightarrow> found_at uc name line ?start \<or> (\<exists>i \<ge> ?fin. found_at uc name line i)"
      by (intro iffI) (blast, metis le_add1 add.assoc order.trans)
    with Some start 1(1)[OF Some refl refl 1(2)] show ?thesis by (subst mention_from.simps) (auto simp: Let_def)
  qed
qed

text \<open>
  C39. The App is mentioned exactly when its name, after an \<open>@\<close> and in any case, stands in a line outside every code fence and
  outside inline code, with no letter, digit, underscore or \<open>@\<close> before the \<open>@\<close> and no letter, digit, dash or underscore
  after the name. So the search, which steps over each occurrence it refused, misses none. The App's slug
  holds no \<open>@\<close>.
\<close>

theorem mention_exact:
  assumes "AT \<notin> set slug"
  shows "mentions uc body slug \<longleftrightarrow>
    (\<exists>k < length (text_lines body). open_line (text_lines body) k
       \<and> (\<exists>i. mention_at uc (map ascii_lower slug) (text_lines body ! k) i))"
proof -
  have "AT \<notin> set (map ascii_lower slug)" using assms by (auto simp: ascii_lower_def AT_def)
  note mention_from_exact[OF this]
  then have "mentions uc body slug \<longleftrightarrow>
      (\<exists>line \<in> set (outside_fences False (text_lines body)). \<exists>i. mention_at uc (map ascii_lower slug) line i)"
    by (simp add: mentions_def list_ex_iff found_mention)
  then show ?thesis unfolding Bex_def outside_fences_iff open_line_def by metis
qed

theorem mention_exact_witness:
  "mentions sample_unicode (points ''hi (@Bot), or @bots'') (points ''bot'')
   \<and> mention_at sample_unicode (points ''bot'') (points ''hi (@Bot), or @bots'') 4"
proof -
  let ?line = "points ''hi (@Bot), or @bots''"
  have at: "mention_at sample_unicode (points ''bot'') ?line 4"
    by (simp add: mention_at_def points_def read_char_def ascii_lower_def AT_def BACKTICK_def sample_unicode_def is_digit_def
        upt_rec numeral_eq_Suc)
  have "text_lines ?line = [?line]" "open_line [?line] 0"
    by (simp_all add: text_lines_def points_def newline_def open_line_def is_fence_def text_trim_start_def is_whitespace_def
        str_starts_with_def)
  moreover have "map ascii_lower (points ''bot'') = points ''bot''" by (simp add: points_def ascii_lower_def)
  moreover have "AT \<notin> set (points ''bot'')" by (simp add: points_def AT_def)
  ultimately show ?thesis using mention_exact[of "points ''bot''" sample_unicode ?line] at by auto
qed

section \<open>The names pass the daemon's rule\<close>

lemma check_name_valid: "check_name s = Inr () \<longleftrightarrow> valid_name s"
  by (auto simp: check_name_def validate_name_def name_byte_def[abs_def])

lemma lower_name_byte:
  assumes "is_ascii_alphanumeric (lower c)"
  shows "name_byte (lower c)"
proof (cases "is_ascii_uppercase c")
  case True
  then have "65 \<le> (of_char c :: nat)" "of_char c \<le> (90 :: nat)" by (auto simp: is_ascii_uppercase_def less_eq_char_def)
  then show ?thesis using True by (simp add: lower_def name_byte_def is_ascii_lowercase_def less_eq_char_def)
next
  case False
  with assms show ?thesis by (auto simp: lower_def name_byte_def is_ascii_alphanumeric_def)
qed

lemma dashed_bytes: "list_all name_byte (dashed dash s)"
  by (induction dash s rule: dashed.induct) (auto simp: lower_name_byte, simp add: name_byte_def)

lemma trim_dashes_split: "\<exists>n. s = trim_dashes s @ replicate n (CHR ''-'')"
proof -
  have "takeWhile (\<lambda>c. c = CHR ''-'') (rev s) = replicate (length (takeWhile (\<lambda>c. c = CHR ''-'') (rev s))) (CHR ''-'')"
    by (rule replicate_eqI) (auto dest: set_takeWhileD)
  moreover have "s = trim_dashes s @ rev (takeWhile (\<lambda>c. c = CHR ''-'') (rev s))"
    unfolding trim_dashes_def by (metis rev_append rev_rev_ident takeWhile_dropWhile_id)
  ultimately show ?thesis by (metis rev_replicate)
qed

lemma trim_dashes_last: "trim_dashes s \<noteq> [] \<Longrightarrow> last (trim_dashes s) \<noteq> CHR ''-''"
  using hd_dropWhile[of "\<lambda>c. c = CHR ''-''" "rev s"] by (simp add: trim_dashes_def last_rev)

text \<open>Whatever follows, the first letter is never trimmed away.\<close>

lemma trim_dashes_head:
  assumes "s = c # t" "c \<noteq> CHR ''-''"
  shows "\<exists>u. trim_dashes s = c # u"
proof -
  obtain n where n: "s = trim_dashes s @ replicate n (CHR ''-'')" using trim_dashes_split by blast
  have "trim_dashes s \<noteq> []"
  proof
    assume "trim_dashes s = []"
    with n assms show False by (cases n) auto
  qed
  with n assms show ?thesis by (cases "trim_dashes s") auto
qed

lemma trim_dashes_bytes: "list_all name_byte s \<Longrightarrow> list_all name_byte (trim_dashes s)"
  using trim_dashes_split[of s] by (metis list_all_append)

lemma trim_dashes_length: "length (trim_dashes s) \<le> length s"
  using trim_dashes_split[of s] by (metis le_add1 length_append)

lemma trimmed_name_valid:
  assumes "list_all name_byte s" "s = c # t" "c \<noteq> CHR ''-''" "length s \<le> 63"
  shows "valid_name (trim_dashes s)"
proof -
  obtain u where u: "trim_dashes s = c # u" using trim_dashes_head[OF assms(2,3)] by blast
  with assms trim_dashes_bytes[OF assms(1)] trim_dashes_last[of s] trim_dashes_length[of s] show ?thesis
    by (simp add: valid_name_iff)
qed

lemma trim_dashes_id:
  assumes "s \<noteq> []" "last s \<noteq> CHR ''-''"
  shows "trim_dashes s = s"
proof -
  have "dropWhile (\<lambda>c. c = CHR ''-'') (rev s) = rev s"
    using assms by (cases s rule: rev_cases) auto
  then show ?thesis by (simp add: trim_dashes_def)
qed

lemma fleet_name_valid: "valid_name (fleet_name repo)"
proof -
  define s where "s = trim_dashes (''gh-'' @ dashed False repo)"
  have "list_all name_byte (''gh-'' @ dashed False repo)"
    by (simp add: dashed_bytes) (simp add: name_byte_def is_ascii_lowercase_def less_eq_char_def)
  then have bytes: "list_all name_byte s" unfolding s_def by (rule trim_dashes_bytes)
  obtain u where u: "s = CHR ''g'' # u" using trim_dashes_head[of _ "CHR ''g''" "''h-'' @ dashed False repo"] unfolding s_def by auto
  show ?thesis
  proof (cases "length s > 63")
    case True
    have "list_all name_byte (take 63 s)" using bytes by (auto simp: list_all_iff dest: in_set_takeD)
    moreover have "take 63 s = CHR ''g'' # take 62 u" by (simp add: u)
    ultimately have "valid_name (trim_dashes (take 63 s))" by (rule trimmed_name_valid) auto
    with True show ?thesis unfolding fleet_name_def Let_def s_def by simp
  next
    case False
    have "last s \<noteq> CHR ''-''" using trim_dashes_last[of "''gh-'' @ dashed False repo"] u unfolding s_def by simp
    then have "trim_dashes s = s" using u by (intro trim_dashes_id) auto
    moreover have "valid_name (trim_dashes s)" using False by (intro trimmed_name_valid[OF bytes u]) auto
    ultimately show ?thesis using False unfolding fleet_name_def Let_def s_def by simp
  qed
qed

lemma agent_name_valid: "valid_name (agent_name k n)"
proof -
  have "unat n < 2 ^ 64" using unsigned_less[of n] by simp
  then have "length (nat_digits (unat n)) \<le> 20" by (intro nat_digits_length) auto
  moreover have "list_all name_byte (nat_digits (unat n))"
    using nat_digits_shape(2)[of "unat n"] by (auto simp: list_all_iff name_byte_def)
  moreover have "last (nat_digits (unat n)) \<noteq> CHR ''-''"
  proof -
    have "is_ascii_digit (last (nat_digits (unat n)))"
      using nat_digits_shape[of "unat n"] last_in_set[of "nat_digits (unat n)"] by (auto simp: list_all_iff)
    then show ?thesis by (auto simp: is_ascii_digit_def less_eq_char_def)
  qed
  ultimately show ?thesis using nat_digits_shape(1)[of "unat n"]
    by (cases k) (auto simp: agent_name_def valid_name_iff name_byte_def is_ascii_lowercase_def less_eq_char_def)
qed

lemma agent_name_plugin: "is_plugin_agent (agent_name k n)"
  using nat_digits_shape[of "unat n"] by (cases k) (simp_all add: is_plugin_agent_def agent_name_def)

text \<open>
  The fleet name built from any repository name passes the daemon's rule for names: one to 63 of \<open>a-z\<close>, \<open>0-9\<close> and
  dashes, with no dash at either end; so an apply is never refused for the name the plugin chose. And a name it
  builds for an issue or a pull request is one it refuses in a repository's own file.
\<close>

theorem built_names_valid: "valid_name (fleet_name repo) \<and> valid_name (agent_name k n) \<and> is_plugin_agent (agent_name k n)"
  by (simp add: fleet_name_valid agent_name_valid agent_name_plugin)

section \<open>What a prepared file holds\<close>

lemma inject_get:
  "bt_get (inject live agents) name = (case find (\<lambda>s. live_name s = name) (rev live) of Some s \<Rightarrow> Some (live_agent s) | None \<Rightarrow> bt_get agents name)"
  unfolding inject_def by (induction live arbitrary: agents rule: rev_induct) auto

definition crew_agents :: "json \<Rightarrow> string \<Rightarrow> (string, json) btree option" where
  "crew_agents file crew =
     Option.bind (json_get file ''crews'') (\<lambda>cs. Option.bind (json_get cs crew) (\<lambda>c. Option.bind (json_get c ''agents'') as_object))"

text \<open>What the file's crew declares.\<close>

definition declared_repo :: "json \<Rightarrow> string" where
  "declared_repo crew = (case Option.bind (json_get crew ''repo'') as_str of Some r \<Rightarrow> r | None \<Rightarrow> [])"

definition declared_agent :: "json \<Rightarrow> string \<Rightarrow> json option" where
  "declared_agent crew name = Option.bind (json_get crew ''agents'') (\<lambda>agents. json_get agents name)"

lemma prepare_crew_Inr:
  assumes "prepare_crew repo branch live name v = Inr v'"
  shows "names_repo (declared_repo v) repo"
    and "\<exists>agents. json_get v' ''agents'' = Some (JObject (inject live agents)) \<and> (\<forall>k. bt_get agents k = declared_agent v k)
      \<and> (\<forall>k. bt_get agents k \<noteq> None \<longrightarrow> \<not> is_plugin_agent k)"
proof -
  obtain crew where v: "v = JObject crew" using assms by (cases v) (auto simp: prepare_crew_def)
  define crew' where "crew' = (if bt_contains crew ''ref'' then crew else bt_insert ''ref'' (JString branch) crew)"
  have same: "bt_get crew' ''agents'' = bt_get crew ''agents''" by (simp add: crew'_def)
  show repo: "names_repo (declared_repo v) repo"
    using assms by (auto simp: prepare_crew_def v declared_repo_def Let_def split: if_splits)
  then obtain agents where agents: "(case bt_get crew' ''agents'' of None \<Rightarrow> JObject [] | Some a \<Rightarrow> a) = JObject agents"
    and none: "find is_plugin_agent (bt_keys agents) = None"
    and v': "v' = JObject (bt_insert ''agents'' (JObject (inject live agents)) crew')"
    using assms by (auto simp: prepare_crew_def v declared_repo_def crew'_def[symmetric] Let_def split: json.splits option.splits)
  have "bt_get agents k = declared_agent v k" for k
    using agents same by (auto simp: declared_agent_def v split: option.splits)
  moreover have "\<not> is_plugin_agent k" if "bt_get agents k \<noteq> None" for k
  proof -
    have "k \<in> set (bt_keys agents)" using that by simp
    then show ?thesis using none unfolding find_None_iff by blast
  qed
  ultimately show "\<exists>agents. json_get v' ''agents'' = Some (JObject (inject live agents)) \<and> (\<forall>k. bt_get agents k = declared_agent v k)
      \<and> (\<forall>k. bt_get agents k \<noteq> None \<longrightarrow> \<not> is_plugin_agent k)" using v' by auto
qed

text \<open>
  C40. A fleet file the plugin prepares carries exactly the repository's own agents and one per live session. It holds the one
  crew of the repository's file, whose key passes the daemon's rule and whose repository is this one; under
  it, an agent name is a live session's, with that session's block (the last one given for a name), or else
  what the file itself declares; and the file declares none of the names that are the plugin's.
\<close>

theorem prepared_file_sound:
  assumes "prepare_file yaml text repo fleet branch live = Inr p"
  shows "json_get (pp_file p) ''name'' = Some (JString fleet) \<and> valid_name (pp_crew p)
    \<and> (\<exists>root crew agents. yaml text = Inr root \<and> json_get root ''crews'' = Some (JObject [(pp_crew p, crew)])
         \<and> names_repo (declared_repo crew) repo
         \<and> crew_agents (pp_file p) (pp_crew p) = Some agents
         \<and> (\<forall>name. bt_get agents name =
              (case find (\<lambda>s. live_name s = name) (rev live) of Some s \<Rightarrow> Some (live_agent s) | None \<Rightarrow> declared_agent crew name))
         \<and> (\<forall>name. is_plugin_agent name \<longrightarrow> declared_agent crew name = None))"
proof -
  obtain root name crew crew' where root: "yaml text = Inr (JObject root)" "bt_get root ''crews'' = Some (JObject [(name, crew)])"
    and name: "check_name name = Inr ()" and crew: "prepare_crew repo branch live name crew = Inr crew'"
    and p: "p = \<lparr>pp_file = JObject (bt_insert ''name'' (JString fleet) (bt_insert ''crews'' (JObject [(name, crew')]) root)), pp_crew = name\<rparr>"
    using assms by (auto simp: prepare_file_def rbind_Inr split: if_splits sum.splits json.splits option.splits list.splits)
  from prepare_crew_Inr(2)[OF crew] obtain agents where agents: "json_get crew' ''agents'' = Some (JObject (inject live agents))"
    "\<And>k. bt_get agents k = declared_agent crew k" "\<And>k. bt_get agents k \<noteq> None \<Longrightarrow> \<not> is_plugin_agent k" by blast
  have "crew_agents (pp_file p) (pp_crew p) = Some (inject live agents)"
    using agents(1) by (simp add: p crew_agents_def bt_get_def[of "[(name, crew')]"])
  moreover have "bt_get (inject live agents) k =
      (case find (\<lambda>s. live_name s = k) (rev live) of Some s \<Rightarrow> Some (live_agent s) | None \<Rightarrow> declared_agent crew k)" for k
    by (simp add: inject_get agents(2) split: option.split)
  moreover have "declared_agent crew k = None" if "is_plugin_agent k" for k using agents(2)[of k] agents(3)[of k] that by (cases "declared_agent crew k") auto
  moreover have "json_get (JObject root) ''crews'' = Some (JObject [(pp_crew p, crew)])" using root(2) by (simp add: p)
  moreover have "json_get (pp_file p) ''name'' = Some (JString fleet)" "valid_name (pp_crew p)"
    using name by (simp_all add: p check_name_valid)
  ultimately show ?thesis using root(1) prepare_crew_Inr(1)[OF crew] by blast
qed

definition sample_yaml :: "string \<Rightarrow> string + json" where
  "sample_yaml text = Inr (JObject [(''apiVersion'', JString ''balerix/v1''), (''crews'', JObject [(''repo'', JObject
     [(''agents'', JObject [(''helper'', JObject [])]), (''repo'', JString ''Acme/app'')])]), (''kind'', JString ''Fleet'')])"

theorem prepared_file_sound_witness:
  "\<exists>p. prepare_file sample_yaml [] ''acme/app'' ''gh-acme-app'' ''main'' [\<lparr>lv_kind = Issue, lv_number = 7, lv_head = None\<rparr>] = Inr p
     \<and> valid_name (pp_crew p)"
proof -
  obtain p where p: "prepare_file sample_yaml [] ''acme/app'' ''gh-acme-app'' ''main'' [\<lparr>lv_kind = Issue, lv_number = 7, lv_head = None\<rparr>] = Inr p"
  proof -
    have "names_repo ''Acme/app'' ''acme/app''" by code_simp
    moreover have "check_name ''repo'' = Inr ()" by code_simp
    ultimately show ?thesis
      using that by (simp add: prepare_file_def sample_yaml_def MAX_FILE_BYTES_def bt_get_def prepare_crew_def Let_def
          bt_contains_def bt_keys_def is_plugin_agent_def)
  qed
  with prepared_file_sound[OF p] show ?thesis by blast
qed

end
