(* ===== verification/Webhook.thy ===== *)
theory Webhook
  imports Sessions Json Question
begin

text \<open>
  The github plugin's listener (plugins/github/src/webhook.rs): a delivery is checked against the shared secret,
  dropped when its id was seen, parsed, and handed to the actor's queue. \<open>HMAC-SHA256\<close> and the JSON reader are
  parameters; the SDK's \<open>constant_time_eq\<close> is the same code as the server's and shares its definition. The queue is
  a function over a world that takes or refuses an event. A delivery is one step: the handler waits for nothing
  once the body is read. The lemmas show when an event reaches the queue, and how long an id is remembered.
\<close>

section \<open>Events\<close>

definition MAX_BODY :: nat where
  "MAX_BODY = push_bit 20 1"

definition RING :: nat where
  "RING = 4096"

record author =
  au_login :: string
  au_bot :: bool

datatype webhook_event =
    IssueOpened (ev_repo: string) (ev_installation: u64) (ev_number: u64) author
      (ev_title: string) (ev_body: string) (ev_url: string)
  | PrOpened (ev_repo: string) (ev_installation: u64) (ev_number: u64) author
      (ev_title: string) (ev_body: string) (ev_url: string) (ev_head: string) (ev_head_repo: string) (ev_base: string)
  | Comment (ev_repo: string) (ev_installation: u64) (ev_number: u64) author
      (ev_comment: u64) (ev_body: string) (ev_is_pr: bool)
  | Closed (ev_repo: string) (ev_installation: u64) (ev_number: u64) (ev_merged: bool)
  | ReviewSubmitted (ev_repo: string) (ev_installation: u64) (ev_number: u64) author
      (ev_review: u64) (ev_state: string) (ev_body: string) (ev_commit: string)

definition event_bytes :: "webhook_event \<Rightarrow> nat" where
  "event_bytes e =
     (case e of
        IssueOpened repo _ _ a title body url \<Rightarrow>
          length repo + length (au_login a) + length title + length body + length url
      | PrOpened repo _ _ a title body url head head_repo base \<Rightarrow>
          length repo + length (au_login a) + length title + length body + length url
          + length head + length head_repo + length base
      | Comment repo _ _ a _ body _ \<Rightarrow> length repo + length (au_login a) + length body
      | Closed repo _ _ _ \<Rightarrow> length repo
      | ReviewSubmitted repo _ _ a _ state body commit \<Rightarrow>
          length repo + length (au_login a) + length state + length body + length commit)"

section \<open>The signature\<close>

definition hex_digit :: "nat \<Rightarrow> char" where
  "hex_digit n = char_of (if n < 10 then 48 + n else 87 + n)"

definition hex_bytes :: "string \<Rightarrow> string" where
  "hex_bytes bs = concat (map (\<lambda>b. [hex_digit (of_char b div 16), hex_digit (of_char b mod 16)]) bs)"

text \<open>\<open>hmac\<close> takes the key, refuses it or gives the code of a body.\<close>

definition verify :: "(string \<Rightarrow> (string \<Rightarrow> string) option) \<Rightarrow> string \<Rightarrow> string \<Rightarrow> string option \<Rightarrow> bool" where
  "verify hmac secret body header =
     (case Option.bind header (strip_prefix ''sha256='') of
        None \<Rightarrow> False
      | Some hex \<Rightarrow>
          (case hmac secret of
             None \<Rightarrow> False
           | Some mac \<Rightarrow> constant_time_eq (hex_bytes (mac body)) (str_trim hex)))"

section \<open>Parsing\<close>

text \<open>\<open>Value::as_u64\<close>: a number written without sign, point or exponent that fits.\<close>

definition as_u64 :: "json \<Rightarrow> u64 option" where
  "as_u64 v =
     (case v of
        JNumber t \<Rightarrow> (case array_index t of Some n \<Rightarrow> if n < 2 ^ 64 then Some (of_nat n) else None | None \<Rightarrow> None)
      | _ \<Rightarrow> None)"

definition str_at :: "json \<Rightarrow> string \<Rightarrow> string" where
  "str_at v ptr = (case Option.bind (json_at v ptr) as_str of Some s \<Rightarrow> s | None \<Rightarrow> [])"

definition u64_at :: "json \<Rightarrow> string \<Rightarrow> u64 option" where
  "u64_at v ptr = Option.bind (json_at v ptr) as_u64"

definition author_at :: "json \<Rightarrow> string \<Rightarrow> author" where
  "author_at v ptr =
     \<lparr>au_login = str_at v (ptr @ ''/login''),
      au_bot = (Option.bind (json_at v (ptr @ ''/type'')) as_str = Some ''Bot'')\<rparr>"

definition parse_event :: "string \<Rightarrow> json \<Rightarrow> webhook_event option" where
  "parse_event event p =
     (let repo = str_at p ''/repository/full_name''
      in case u64_at p ''/installation/id'' of
        None \<Rightarrow> None
      | Some installation \<Rightarrow>
          if repo = [] then None
          else
            let action = str_at p ''/action''
            in if event = ''issues'' \<and> action = ''opened'' then
                 Option.bind (u64_at p ''/issue/number'') (\<lambda>number.
                   Some (IssueOpened repo installation number (author_at p ''/issue/user'')
                     (str_at p ''/issue/title'') (str_at p ''/issue/body'') (str_at p ''/issue/html_url'')))
               else if event = ''issues'' \<and> action = ''closed'' then
                 Option.bind (u64_at p ''/issue/number'') (\<lambda>number. Some (Closed repo installation number False))
               else if event = ''pull_request'' \<and> action = ''opened'' then
                 Option.bind (u64_at p ''/pull_request/number'') (\<lambda>number.
                   Some (PrOpened repo installation number (author_at p ''/pull_request/user'')
                     (str_at p ''/pull_request/title'') (str_at p ''/pull_request/body'')
                     (str_at p ''/pull_request/html_url'') (str_at p ''/pull_request/head/ref'')
                     (str_at p ''/pull_request/head/repo/full_name'') (str_at p ''/pull_request/base/ref'')))
               else if event = ''pull_request'' \<and> action = ''closed'' then
                 Option.bind (u64_at p ''/pull_request/number'') (\<lambda>number.
                   Some (Closed repo installation number
                     (case Option.bind (json_at p ''/pull_request/merged'') as_bool of Some b \<Rightarrow> b | None \<Rightarrow> False)))
               else if event = ''issue_comment'' \<and> action = ''created'' then
                 Option.bind (u64_at p ''/issue/number'') (\<lambda>number.
                 Option.bind (u64_at p ''/comment/id'') (\<lambda>comment_id.
                   Some (Comment repo installation number (author_at p ''/comment/user'') comment_id
                     (str_at p ''/comment/body'') (json_at p ''/issue/pull_request'' \<noteq> None))))
               else if event = ''pull_request_review'' \<and> action = ''submitted'' then
                 Option.bind (u64_at p ''/pull_request/number'') (\<lambda>number.
                 Option.bind (u64_at p ''/review/id'') (\<lambda>review_id.
                   Some (ReviewSubmitted repo installation number (author_at p ''/review/user'') review_id
                     (str_at p ''/review/state'') (str_at p ''/review/body'') (str_at p ''/review/commit_id''))))
               else None)"

section \<open>The listener\<close>

text \<open>The delivery ids, oldest first, with the set that answers for them; and a counter per event and outcome.\<close>

record listener =
  ln_order :: "string list"
  ln_ids :: "string set"
  ln_counters :: "string \<times> string \<Rightarrow> nat"

definition new_listener :: listener where
  "new_listener = \<lparr>ln_order = [], ln_ids = {}, ln_counters = (\<lambda>_. 0)\<rparr>"

definition count_up :: "string \<Rightarrow> string \<Rightarrow> listener \<Rightarrow> listener" where
  "count_up event outcome l = l\<lparr>ln_counters := (ln_counters l)((event, outcome) := ln_counters l (event, outcome) + 1)\<rparr>"

function shrink :: "string list \<times> string set \<Rightarrow> string list \<times> string set" where
  "shrink (order, ids) =
     (if length order > RING
      then (case order of old # rest \<Rightarrow> shrink (rest, ids - {old}) | [] \<Rightarrow> shrink (order, ids))
      else (order, ids))"
  by pat_completeness auto
termination
  by (relation "measure (length \<circ> fst)") (auto simp: RING_def)

declare shrink.simps [simp del]

definition replayed :: "string \<Rightarrow> listener \<Rightarrow> bool \<times> listener" where
  "replayed i l =
     (if i \<in> ln_ids l then (True, l)
      else
        let (order, ids) = shrink (ln_order l @ [i], insert i (ln_ids l))
        in (False, l\<lparr>ln_order := order, ln_ids := ids\<rparr>))"

definition forget :: "string \<Rightarrow> listener \<Rightarrow> listener" where
  "forget i l =
     (if i \<in> ln_ids l
      then l\<lparr>ln_order := filter (\<lambda>s. s \<noteq> i) (ln_order l), ln_ids := ln_ids l - {i}\<rparr>
      else l)"

definition event_label :: "string \<Rightarrow> string" where
  "event_label event =
     (if event = ''issues'' then ''issues''
      else if event = ''pull_request'' then ''pull_request''
      else if event = ''issue_comment'' then ''issue_comment''
      else if event = ''pull_request_review'' then ''pull_request_review''
      else if event = ''ping'' then ''ping''
      else ''other'')"

record delivery =
  dv_headers :: header_map
  dv_body :: string

text \<open>What the listener is built with: the signing code, the secret, the JSON reader, and the queue.\<close>

record 'w webhook_env =
  we_hmac :: "string \<Rightarrow> (string \<Rightarrow> string) option"
  we_secret :: string
  we_json :: "string \<Rightarrow> json option"
  we_sink :: "webhook_event \<Rightarrow> 'w \<Rightarrow> bool \<times> 'w"

definition dv_event :: "delivery \<Rightarrow> string" where
  "dv_event d = (case header_get (dv_headers d) ''x-github-event'' of Some e \<Rightarrow> e | None \<Rightarrow> [])"

definition dv_id :: "delivery \<Rightarrow> string option" where
  "dv_id d = header_get (dv_headers d) ''x-github-delivery''"

definition deliver :: "'w webhook_env \<Rightarrow> delivery \<Rightarrow> listener \<times> 'w \<Rightarrow> nat \<times> listener \<times> 'w" where
  "deliver env d s =
     (let (l, w) = s
      in if \<not> verify (we_hmac env) (we_secret env) (dv_body d) (header_get (dv_headers d) ''x-hub-signature-256'')
         then (401, count_up ''unverified'' ''bad_signature'' l, w)
         else
           let event = dv_event d; label = event_label event
           in if event = ''ping'' then (200, count_up label ''handled'' l, w)
              else
                let (again, l) = (case dv_id d of Some i \<Rightarrow> replayed i l | None \<Rightarrow> (False, l))
                in if again then (202, count_up label ''duplicate'' l, w)
                   else (case we_json env (dv_body d) of
                           None \<Rightarrow> (202, count_up label ''ignored'' l, w)
                         | Some payload \<Rightarrow>
                             (case parse_event event payload of
                                Some ev \<Rightarrow>
                                  let (taken, w) = we_sink env ev w
                                  in if \<not> taken then
                                       let l = (case dv_id d of Some i \<Rightarrow> forget i l | None \<Rightarrow> l)
                                       in (503, count_up label ''refused'' l, w)
                                     else (202, count_up label ''handled'' l, w)
                              | None \<Rightarrow> (202, count_up label ''ignored'' l, w))))"

fun deliveries :: "'w webhook_env \<Rightarrow> delivery list \<Rightarrow> listener \<times> 'w \<Rightarrow> listener \<times> 'w" where
  "deliveries env [] s = s"
| "deliveries env (d # ds) s = deliveries env ds (snd (deliver env d s))"

section \<open>What reaches the queue\<close>

definition genuine :: "'w webhook_env \<Rightarrow> delivery \<Rightarrow> bool" where
  "genuine env d =
     (case header_get (dv_headers d) ''x-hub-signature-256'' of
        None \<Rightarrow> False
      | Some h \<Rightarrow>
          (case we_hmac env (we_secret env) of
             None \<Rightarrow> False
           | Some mac \<Rightarrow> \<exists>hex. h = ''sha256='' @ hex \<and> str_trim hex = hex_bytes (mac (dv_body d))))"

definition fresh_id :: "listener \<Rightarrow> delivery \<Rightarrow> bool" where
  "fresh_id l d \<longleftrightarrow> (case dv_id d of Some i \<Rightarrow> i \<notin> ln_ids l | None \<Rightarrow> True)"

text \<open>The event a delivery carries to the queue.\<close>

definition carried :: "'w webhook_env \<Rightarrow> delivery \<Rightarrow> listener \<Rightarrow> webhook_event option" where
  "carried env d l =
     (if genuine env d \<and> dv_event d \<noteq> ''ping'' \<and> fresh_id l d
      then Option.bind (we_json env (dv_body d)) (parse_event (dv_event d)) else None)"

lemma verify_genuine:
  "verify (we_hmac env) (we_secret env) (dv_body d) (header_get (dv_headers d) ''x-hub-signature-256'') = genuine env d"
proof (cases "header_get (dv_headers d) ''x-hub-signature-256''")
  case (Some h)
  show ?thesis
  proof (cases "strip_prefix ''sha256='' h")
    case None
    then have "h \<noteq> ''sha256='' @ hex" for hex by (metis strip_prefix_None prefixI)
    with Some None show ?thesis by (auto simp: verify_def genuine_def split: option.splits)
  next
    case hex: (Some hex)
    then have "h = ''sha256='' @ hex" by (simp only: strip_prefix_Some)
    with Some hex show ?thesis by (auto simp: verify_def genuine_def split: option.splits)
  qed
qed (simp add: verify_def genuine_def)

lemma replayed_again: "fst (replayed i l) \<longleftrightarrow> i \<in> ln_ids l"
  by (simp add: replayed_def split: prod.split)

lemma counted [simp]:
  "ln_ids (count_up e out l) = ln_ids l" "ln_order (count_up e out l) = ln_order l"
  by (simp_all add: count_up_def)

lemma deliver_cases:
  "deliver env d (l, w) =
     (if \<not> genuine env d then (401, count_up ''unverified'' ''bad_signature'' l, w)
      else if dv_event d = ''ping'' then (200, count_up ''ping'' ''handled'' l, w)
      else if \<not> fresh_id l d then (202, count_up (event_label (dv_event d)) ''duplicate'' l, w)
      else
        let l' = (case dv_id d of Some i \<Rightarrow> snd (replayed i l) | None \<Rightarrow> l)
        in case carried env d l of
             None \<Rightarrow> (202, count_up (event_label (dv_event d)) ''ignored'' l', w)
           | Some ev \<Rightarrow>
               if fst (we_sink env ev w) then (202, count_up (event_label (dv_event d)) ''handled'' l', snd (we_sink env ev w))
               else (503, count_up (event_label (dv_event d)) ''refused''
                       (case dv_id d of Some i \<Rightarrow> forget i l' | None \<Rightarrow> l'), snd (we_sink env ev w)))"
proof -
  define again where "again = (case dv_id d of Some i \<Rightarrow> replayed i l | None \<Rightarrow> (False, l))"
  have again: "fst again \<longleftrightarrow> \<not> fresh_id l d" by (simp add: again_def fresh_id_def replayed_again split: option.split)
  have same: "again = (True, l)" if "\<not> fresh_id l d"
    using that by (auto simp: again_def fresh_id_def replayed_def split: option.splits)
  have new: "again = (False, case dv_id d of Some i \<Rightarrow> snd (replayed i l) | None \<Rightarrow> l)" if "fresh_id l d"
    using that by (auto simp: again_def fresh_id_def replayed_again prod_eq_iff split: option.splits)
  have ping: "event_label ''ping'' = ''ping''" by (simp add: event_label_def)
  consider "\<not> genuine env d" | "genuine env d" "dv_event d = ''ping''"
    | "genuine env d" "dv_event d \<noteq> ''ping''" "\<not> fresh_id l d" | "genuine env d" "dv_event d \<noteq> ''ping''" "fresh_id l d"
    by blast
  then show ?thesis
  proof cases
    case 4
    have carry: "carried env d l = Option.bind (we_json env (dv_body d)) (parse_event (dv_event d))"
      using 4 by (simp add: carried_def)
    have first: False if "dv_id d = Some i" "replayed i l = (True, l')" for i l'
      using replayed_again[of i l] 4 that by (simp add: fresh_id_def)
    show ?thesis
      unfolding deliver_def verify_genuine Let_def carry
      using 4 by (cases "we_json env (dv_body d)") (auto dest: first split: option.split prod.split)
  qed (simp_all add: deliver_def verify_genuine Let_def ping same flip: again_def)
qed

text \<open>
  C37. An event reaches the queue exactly when its delivery carries the secret's signature over the body, is no ping, has no id
  still remembered, and parses; it is then that event and no other. Every other delivery leaves the queue as it
  was, and an unsigned one changes nothing but a counter that no header value names. The answer is 401 to an
  unsigned delivery only, and 503 exactly when the queue refused the event.
\<close>

theorem webhook_delivery_exact:
  "(let (status, l', w') = deliver env d (l, w)
    in w' = (case carried env d l of Some ev \<Rightarrow> snd (we_sink env ev w) | None \<Rightarrow> w)
       \<and> (status = 401 \<longleftrightarrow> \<not> genuine env d)
       \<and> (status = 503 \<longleftrightarrow> (case carried env d l of Some ev \<Rightarrow> \<not> fst (we_sink env ev w) | None \<Rightarrow> False))
       \<and> (if genuine env d then True else l' = count_up ''unverified'' ''bad_signature'' l))"
  by (auto simp: deliver_cases carried_def Let_def split: option.splits if_splits)

section \<open>How long an id is remembered\<close>

definition ring_ok :: "listener \<Rightarrow> bool" where
  "ring_ok l \<longleftrightarrow> distinct (ln_order l) \<and> ln_ids l = set (ln_order l) \<and> length (ln_order l) \<le> RING"

lemma shrink_suffix:
  assumes "distinct order" "ids = set order" "shrink (order, ids) = (order', ids')"
  shows "order' = drop (length order - RING) order" "ids' = set order'"
proof -
  have "order' = drop (length order - RING) order \<and> ids' = set order'" using assms
  proof (induction order arbitrary: ids)
    case Nil
    then show ?case by (subst (asm) shrink.simps) auto
  next
    case (Cons a order)
    show ?case
    proof (cases "length (a # order) > RING")
      case True
      then have "shrink (order, set order) = (order', ids')"
        using Cons.prems by (subst (asm) shrink.simps) auto
      then have "order' = drop (length order - RING) order \<and> ids' = set order'" using Cons by auto
      with True show ?thesis by (simp add: Suc_diff_le)
    next
      case False
      with Cons.prems show ?thesis by (subst (asm) shrink.simps) auto
    qed
  qed
  then show "order' = drop (length order - RING) order" "ids' = set order'" by auto
qed

lemma replayed_new:
  assumes "ring_ok l" "i \<notin> ln_ids l"
  shows "ln_order (snd (replayed i l)) = drop (Suc (length (ln_order l)) - RING) (ln_order l @ [i])"
    and "ln_ids (snd (replayed i l)) = set (ln_order (snd (replayed i l)))"
proof -
  obtain order' ids' where s: "shrink (ln_order l @ [i], insert i (ln_ids l)) = (order', ids')" by fastforce
  have "distinct (ln_order l @ [i])" "insert i (ln_ids l) = set (ln_order l @ [i])" using assms by (auto simp: ring_ok_def)
  note shrink_suffix[OF this s]
  then show "ln_order (snd (replayed i l)) = drop (Suc (length (ln_order l)) - RING) (ln_order l @ [i])"
    "ln_ids (snd (replayed i l)) = set (ln_order (snd (replayed i l)))"
    using assms s by (auto simp: replayed_def)
qed

lemma replayed_ok:
  assumes "ring_ok l" shows "ring_ok (snd (replayed i l))"
proof (cases "i \<in> ln_ids l")
  case False
  note new = replayed_new[OF assms False]
  have "distinct (ln_order l @ [i])" using assms False by (auto simp: ring_ok_def)
  then have "distinct (drop n (ln_order l @ [i]))" for n by (rule distinct_drop)
  then show ?thesis unfolding ring_ok_def new by (simp del: drop_append)
qed (use assms in \<open>simp add: replayed_def\<close>)

lemma forget_ok: "ring_ok l \<Longrightarrow> ring_ok (forget i l)"
  by (auto simp: ring_ok_def forget_def intro: order.trans[OF length_filter_le])

lemma ring_ok_counted [simp]: "ring_ok (count_up e out l) = ring_ok l"
  by (simp add: ring_ok_def)

lemma deliver_ok: "ring_ok l \<Longrightarrow> ring_ok (fst (snd (deliver env d (l, w))))"
  by (simp add: deliver_cases Let_def replayed_ok forget_ok split: option.split)

lemma deliver_order:
  "ln_order (fst (snd (deliver env d (l, w)))) =
     (case dv_id d of
        None \<Rightarrow> ln_order l
      | Some i \<Rightarrow>
          if \<not> genuine env d \<or> dv_event d = ''ping'' \<or> i \<in> ln_ids l then ln_order l
          else if fst (deliver env d (l, w)) = 503 then ln_order (forget i (snd (replayed i l)))
          else ln_order (snd (replayed i l)))"
proof (cases "genuine env d \<and> dv_event d \<noteq> ''ping'' \<and> fresh_id l d")
  case False
  then have "ln_order (fst (snd (deliver env d (l, w)))) = ln_order l"
    by (cases "genuine env d"; cases "dv_event d = ''ping''"; cases "fresh_id l d") (simp_all add: deliver_cases)
  with False show ?thesis by (cases "dv_id d") (auto simp: fresh_id_def)
next
  case True
  then have "fst (deliver env d (l, w)) = 503 \<longleftrightarrow> (case carried env d l of Some ev \<Rightarrow> \<not> fst (we_sink env ev w) | None \<Rightarrow> False)"
    by (simp add: deliver_cases Let_def split: option.split)
  moreover have "ln_order (fst (snd (deliver env d (l, w)))) =
      (let l' = (case dv_id d of Some i \<Rightarrow> snd (replayed i l) | None \<Rightarrow> l)
       in if (case carried env d l of Some ev \<Rightarrow> \<not> fst (we_sink env ev w) | None \<Rightarrow> False)
          then ln_order (case dv_id d of Some i \<Rightarrow> forget i l' | None \<Rightarrow> l') else ln_order l')"
    using True by (simp add: deliver_cases Let_def split: option.split)
  ultimately show ?thesis using True by (cases "dv_id d") (simp_all add: fresh_id_def Let_def)
qed

text \<open>An id with at most \<open>n\<close> younger ones.\<close>

definition recent :: "nat \<Rightarrow> string \<Rightarrow> listener \<Rightarrow> bool" where
  "recent n x l \<longleftrightarrow> (\<exists>older younger. ln_order l = older @ x # younger \<and> length younger \<le> n)"

lemma recent_known: "ring_ok l \<Longrightarrow> recent n x l \<Longrightarrow> x \<in> ln_ids l"
  unfolding ring_ok_def recent_def by (metis in_set_conv_decomp)

lemma recent_replayed:
  assumes "ring_ok l" "i \<notin> ln_ids l" "recent n x l" "Suc n < RING"
  shows "recent (Suc n) x (snd (replayed i l))"
proof -
  obtain older younger where l: "ln_order l = older @ x # younger" "length younger \<le> n"
    using assms(3) by (auto simp: recent_def)
  have "length (ln_order l) \<le> RING" using assms(1) by (simp add: ring_ok_def)
  then have "Suc (length (ln_order l)) - RING \<le> length older" using l assms(4) by simp
  then show ?thesis unfolding recent_def replayed_new(1)[OF assms(1,2)] l
    by (intro exI[of _ "drop (Suc (length (older @ x # younger)) - RING) older"] exI[of _ "younger @ [i]"]) (use l(2) in auto)
qed

lemma recent_forget:
  assumes "recent n x l" "i \<noteq> x"
  shows "recent n x (forget i l)"
proof -
  obtain older younger where l: "ln_order l = older @ x # younger" "length younger \<le> n"
    using assms(1) by (auto simp: recent_def)
  have "length (filter (\<lambda>s. s \<noteq> i) younger) \<le> n" using l(2) order.trans length_filter_le by blast
  then have "\<exists>a b. filter (\<lambda>s. s \<noteq> i) (ln_order l) = a @ x # b \<and> length b \<le> n"
    using assms(2) l(1) by auto
  then show ?thesis using l by (auto simp: recent_def forget_def)
qed

lemma recent_deliver:
  assumes "ring_ok l" "recent n x l" "Suc n < RING"
  shows "recent (Suc n) x (fst (snd (deliver env d (l, w))))"
proof -
  have stays: "recent (Suc n) x l" using assms(2) by (force simp: recent_def)
  have known: "x \<in> ln_ids l" using assms(1,2) by (rule recent_known)
  have "recent (Suc n) x (fst (snd (deliver env d (l, w))))" if "dv_id d = Some i" "i \<notin> ln_ids l" for i
  proof -
    note pushed = recent_replayed[OF assms(1) that(2) assms(2,3)]
    moreover have "recent (Suc n) x (forget i (snd (replayed i l)))" using pushed known that(2) by (intro recent_forget) auto
    ultimately show ?thesis using stays that unfolding recent_def deliver_order by simp
  qed
  then show ?thesis using stays by (cases "dv_id d") (auto simp: recent_def deliver_order)
qed

lemma recent_deliveries:
  assumes "ring_ok l" "recent n x l" "n + length ds < RING"
  shows "recent (n + length ds) x (fst (deliveries env ds (l, w))) \<and> ring_ok (fst (deliveries env ds (l, w)))"
  using assms
proof (induction ds arbitrary: l w n)
  case (Cons d ds)
  obtain l' w' where s: "snd (deliver env d (l, w)) = (l', w')" by fastforce
  have "recent (Suc n) x l'" "ring_ok l'"
    using recent_deliver[of l n x env d w] deliver_ok[of l env d w] Cons.prems s by auto
  then show ?case using Cons.IH[of l' "Suc n" w'] Cons.prems s by simp
qed simp

lemma deliveries_ok: "ring_ok l \<Longrightarrow> ring_ok (fst (deliveries env ds (l, w)))"
proof (induction ds arbitrary: l w)
  case (Cons d ds)
  obtain l' w' where s: "snd (deliver env d (l, w)) = (l', w')" by fastforce
  with Cons.IH[of l' w'] deliver_ok[OF Cons.prems, of env d w] show ?case by simp
qed simp

lemma new_listener_ok: "ring_ok new_listener"
  by (simp add: ring_ok_def new_listener_def)

text \<open>
  C38. After any deliveries the ring holds at most 4096 ids, each once, and exactly those its set answers for. A delivery the
  queue took, or that carried nothing, is answered as a duplicate through the next 4095 deliveries, whatever
  they are, with the queue untouched; a delivery the queue refused is forgotten, so that its redelivery is
  taken like a new one.
\<close>

theorem redelivery_window:
  assumes start: "s = deliveries env before (new_listener, w)"
    and d: "genuine env d" "dv_event d \<noteq> ''ping''" "dv_id d = Some x" "x \<notin> ln_ids (fst s)"
    and few: "length ds < RING"
    and again: "genuine env d'" "dv_event d' \<noteq> ''ping''" "dv_id d' = Some x"
  shows "length (ln_order (fst s)) \<le> RING \<and> distinct (ln_order (fst s)) \<and> ln_ids (fst s) = set (ln_order (fst s))
    \<and> (if fst (deliver env d s) = 503 then x \<notin> ln_ids (fst (snd (deliver env d s)))
       else (let (l', w') = deliveries env ds (snd (deliver env d s))
             in deliver env d' (l', w') = (202, count_up (event_label (dv_event d')) ''duplicate'' l', w')))"
proof -
  obtain l v where s: "s = (l, v)" by fastforce
  have ok: "ring_ok l" using deliveries_ok[OF new_listener_ok, of env before w] start s by (metis fst_conv)
  have new: "x \<notin> ln_ids l" using d(4) s by simp
  obtain l1 w1 where l1: "snd (deliver env d s) = (l1, w1)" by fastforce
  have ok1: "ring_ok l1" using deliver_ok[OF ok, of env d v] l1 s by simp
  have order1: "ln_order l1 = ln_order (if fst (deliver env d s) = 503 then forget x (snd (replayed x l)) else snd (replayed x l))"
    using deliver_order[of env d l v] l1 d new by (simp add: s)
  show ?thesis
  proof (cases "fst (deliver env d s) = 503")
    case True
    have "x \<notin> set (ln_order (forget x (snd (replayed x l))))"
      using replayed_new(2)[OF ok new] by (auto simp: forget_def)
    with True order1 ok1 have "x \<notin> ln_ids l1" by (simp add: ring_ok_def)
    with True ok l1 show ?thesis by (simp add: s ring_ok_def)
  next
    case False
    have "recent 0 x (snd (replayed x l))"
      unfolding recent_def replayed_new(1)[OF ok new] using ok
      by (intro exI[of _ "drop (Suc (length (ln_order l)) - RING) (ln_order l)"] exI[of _ "[]"]) (simp add: ring_ok_def RING_def)
    then have "recent 0 x l1" using False order1 by (simp add: recent_def)
    then have "recent (length ds) x (fst (deliveries env ds (l1, w1))) \<and> ring_ok (fst (deliveries env ds (l1, w1)))"
      using recent_deliveries[OF ok1, of 0 x ds env w1] few by simp
    then have known: "x \<in> ln_ids (fst (deliveries env ds (l1, w1)))" using recent_known by blast
    obtain l2 w2 where l2: "deliveries env ds (l1, w1) = (l2, w2)" by fastforce
    have "deliver env d' (l2, w2) = (202, count_up (event_label (dv_event d')) ''duplicate'' l2, w2)"
      using known again l2 by (simp add: deliver_cases fresh_id_def)
    with False ok l1 l2 show ?thesis by (simp add: s ring_ok_def)
  qed
qed

definition sample_delivery :: delivery where
  "sample_delivery = \<lparr>dv_headers = [(''x-hub-signature-256'', Some ''sha256=''), (''x-github-delivery'', Some ''id'')], dv_body = []\<rparr>"

definition sample_webhook_env :: "nat webhook_env" where
  "sample_webhook_env =
     \<lparr>we_hmac = (\<lambda>_. Some (\<lambda>_. [])), we_secret = [], we_json = (\<lambda>_. None), we_sink = (\<lambda>_ n. (True, Suc n))\<rparr>"

theorem redelivery_window_witness:
  "fst (deliver sample_webhook_env sample_delivery (snd (deliver sample_webhook_env sample_delivery (new_listener, 0)))) = 202"
proof -
  have gen: "genuine sample_webhook_env sample_delivery"
  proof -
    have "str_trim [] = []" by code_simp
    then show ?thesis
      by (simp add: genuine_def sample_webhook_env_def sample_delivery_def header_get_def hex_bytes_def)
  qed
  have dv: "dv_event sample_delivery \<noteq> ''ping''" "dv_id sample_delivery = Some ''id''"
    by (simp_all add: dv_event_def dv_id_def header_get_def sample_delivery_def)
  have first: "fst (deliver sample_webhook_env sample_delivery (new_listener, 0)) = 202"
    using gen dv by (simp add: deliver_cases fresh_id_def new_listener_def Let_def carried_def sample_webhook_env_def)
  have "(''id'' :: string) \<notin> ln_ids (fst (new_listener, 0 :: nat))" by (simp add: new_listener_def)
  from redelivery_window[of "(new_listener, 0)" sample_webhook_env "[]" 0 sample_delivery "''id''" "[]", OF _ gen dv this _ gen dv]
  show ?thesis using first by (simp add: RING_def split: prod.splits)
qed

end
