(* ===== verification/Ledger.thy ===== *)
theory Ledger
  imports Answer Mention
begin

text \<open>
  What the github plugin remembers of its sessions (plugins/github/src/session.rs) and the comment that shows one
  (status.rs): a row per agent, mirrored to the daemon's key/value store, the index from a repository's number
  to the agent, the ids a row has acted on, and the lines of a status comment. serde's text of a row is a
  parameter. The lemmas show that the index never leads to another number's agent, how long an acted-on id is
  remembered, and that a status comment stays small.
\<close>

section \<open>Rows\<close>

definition SESSION_PREFIX :: string where
  "SESSION_PREFIX = ''session/''"

definition REPO_PREFIX :: string where
  "REPO_PREFIX = ''repo/''"

definition session_key :: "string \<Rightarrow> string" where
  "session_key agent = SESSION_PREFIX @ agent"

definition repo_key :: "string \<Rightarrow> string" where
  "repo_key fleet = REPO_PREFIX @ fleet"

definition fleet_of :: "string \<Rightarrow> string" where
  "fleet_of agent = hd (split_on (CHR ''/'') agent)"

definition crew_part :: "string \<Rightarrow> string" where
  "crew_part agent = (case split_on (CHR ''/'') agent of _ # crew # _ \<Rightarrow> crew | _ \<Rightarrow> [])"

definition SEEN_LIMIT :: nat where
  "SEEN_LIMIT = 256"

datatype seen = SeenComment u64 | SeenReview u64 | SeenOpening

record session =
  gs_repo :: string
  gs_installation :: u64
  gs_kind :: kind
  gs_number :: u64
  gs_head :: "string option"
  gs_base :: "string option"
  gs_status_comment :: "u64 option"
  gs_session_id :: "string option"
  gs_last_activity :: u64
  gs_closed :: bool
  gs_seen :: "seen list"

definition has_seen :: "seen \<Rightarrow> session \<Rightarrow> bool" where
  "has_seen i s \<longleftrightarrow> i \<in> set (gs_seen s)"

definition see :: "seen \<Rightarrow> session \<Rightarrow> session \<times> bool" where
  "see i s =
     (if has_seen i s then (s, False)
      else
        let ids = gs_seen s @ [i];
            ids = (if length ids > SEEN_LIMIT then drop (length ids - SEEN_LIMIT) ids else ids)
        in (s\<lparr>gs_seen := ids\<rparr>, True))"

section \<open>The table\<close>

record ledger =
  ld_rows :: "(string, session) btree"
  ld_by_number :: "(string \<times> u64, string) btree"

record row_text =
  rw_print :: "session \<Rightarrow> string"
  rw_parse :: "string \<Rightarrow> session option"

definition new_ledger :: ledger where
  "new_ledger = \<lparr>ld_rows = [], ld_by_number = []\<rparr>"

definition row_key :: "session \<Rightarrow> string \<times> u64" where
  "row_key r = (gs_repo r, gs_number r)"

definition unmap :: "string \<Rightarrow> string \<times> u64 \<Rightarrow> ledger \<Rightarrow> ledger" where
  "unmap agent key s =
     (if bt_get (ld_by_number s) key = Some agent
      then s\<lparr>ld_by_number := bt_remove key (ld_by_number s)\<rparr> else s)"

definition insert_row :: "string \<Rightarrow> session \<Rightarrow> ledger \<Rightarrow> ledger" where
  "insert_row agent row s =
     (let s = (case bt_get (ld_rows s) agent of Some old \<Rightarrow> unmap agent (row_key old) s | None \<Rightarrow> s)
      in s\<lparr>ld_by_number := bt_insert (row_key row) agent (ld_by_number s),
           ld_rows := bt_insert agent row (ld_rows s)\<rparr>)"

definition load_row :: "row_text \<Rightarrow> 'w host \<Rightarrow> string \<Rightarrow> 'w \<times> ledger \<Rightarrow> ('w \<times> string) + 'w \<times> ledger" where
  "load_row rt host key ws =
     (case strip_prefix SESSION_PREFIX key of
        None \<Rightarrow> Inr ws
      | Some agent \<Rightarrow>
          (case port_get host key (fst ws) of
             (w, Inl e) \<Rightarrow> Inl (w, e)
           | (w, Inr None) \<Rightarrow> Inr (w, snd ws)
           | (w, Inr (Some bytes)) \<Rightarrow>
               Inr (w, case rw_parse rt bytes of Some row \<Rightarrow> insert_row agent row (snd ws) | None \<Rightarrow> snd ws)))"

definition ledger_load :: "row_text \<Rightarrow> 'w host \<Rightarrow> 'w \<Rightarrow> 'w \<times> (string + ledger)" where
  "ledger_load rt host w =
     (case host_list host SESSION_PREFIX w of
        (w, Inl e) \<Rightarrow> (w, Inl e)
      | (w, Inr keys) \<Rightarrow>
          (case rfold (load_row rt host) keys (w, new_ledger) of
             Inl (w, e) \<Rightarrow> (w, Inl e)
           | Inr (w, s) \<Rightarrow> (w, Inr s)))"

definition row_of :: "ledger \<Rightarrow> string \<Rightarrow> session option" where
  "row_of s agent = bt_get (ld_rows s) agent"

text \<open>\<open>get_mut\<close>, with the change made through it.\<close>

definition update_row :: "string \<Rightarrow> (session \<Rightarrow> session) \<Rightarrow> ledger \<Rightarrow> ledger" where
  "update_row agent f s =
     (case bt_get (ld_rows s) agent of Some r \<Rightarrow> s\<lparr>ld_rows := bt_insert agent (f r) (ld_rows s)\<rparr> | None \<Rightarrow> s)"

definition by_number :: "ledger \<Rightarrow> string \<Rightarrow> u64 \<Rightarrow> string option" where
  "by_number s repo number = bt_get (ld_by_number s) (repo, number)"

definition set_row :: "row_text \<Rightarrow> 'w host \<Rightarrow> string \<Rightarrow> session \<Rightarrow> ledger \<times> 'w \<Rightarrow> (ledger \<times> 'w) \<times> (string + unit)" where
  "set_row rt host agent row sw =
     (case port_put host (session_key agent) (rw_print rt row) (snd sw) of
        (w, Inl e) \<Rightarrow> ((fst sw, w), Inl e)
      | (w, Inr _) \<Rightarrow> ((insert_row agent row (fst sw), w), Inr ()))"

definition remove_row :: "'w host \<Rightarrow> string \<Rightarrow> ledger \<times> 'w \<Rightarrow> (ledger \<times> 'w) \<times> (string + unit)" where
  "remove_row host agent sw =
     (case port_delete host (session_key agent) (snd sw) of
        (w, Inl e) \<Rightarrow> ((fst sw, w), Inl e)
      | (w, Inr _) \<Rightarrow>
          ((case bt_get (ld_rows (fst sw)) agent of
              Some old \<Rightarrow> unmap agent (row_key old) ((fst sw)\<lparr>ld_rows := bt_remove agent (ld_rows (fst sw))\<rparr>)
            | None \<Rightarrow> fst sw, w), Inr ()))"

definition live_in :: "string \<Rightarrow> ledger \<Rightarrow> live list" where
  "live_in fleet s =
     map (\<lambda>(_, r). \<lparr>lv_kind = gs_kind r, lv_number = gs_number r, lv_head = gs_head r\<rparr>)
       (filter (\<lambda>(a, r). fleet_of a = fleet \<and> \<not> gs_closed r) (ld_rows s))"

definition agents_in :: "string \<Rightarrow> ledger \<Rightarrow> string list" where
  "agents_in fleet s = filter (\<lambda>a. fleet_of a = fleet) (bt_keys (ld_rows s))"

definition open_count :: "ledger \<Rightarrow> nat" where
  "open_count s = length (filter (\<lambda>(_, r). \<not> gs_closed r) (ld_rows s))"

definition ledger_agents :: "ledger \<Rightarrow> string list" where
  "ledger_agents s = bt_keys (ld_rows s)"

section \<open>The repository of a fleet\<close>

text \<open>
  \<open>String::from_utf8_lossy\<close>: the bytes of a character stay, and the longest start of one that breaks off
  becomes the replacement character.
\<close>

definition seq_width :: "nat \<Rightarrow> nat" where
  "seq_width b =
     (if b < 0x80 then 1 else if 0xC2 \<le> b \<and> b \<le> 0xDF then 2 else if 0xE0 \<le> b \<and> b \<le> 0xEF then 3
      else if 0xF0 \<le> b \<and> b \<le> 0xF4 then 4 else 0)"

definition is_cont :: "nat \<Rightarrow> bool" where
  "is_cont b \<longleftrightarrow> 0x80 \<le> b \<and> b \<le> 0xBF"

definition second_ok :: "nat \<Rightarrow> nat \<Rightarrow> bool" where
  "second_ok b c \<longleftrightarrow>
     is_cont c \<and> (b = 0xE0 \<longrightarrow> 0xA0 \<le> c) \<and> (b = 0xED \<longrightarrow> c \<le> 0x9F) \<and> (b = 0xF0 \<longrightarrow> 0x90 \<le> c) \<and> (b = 0xF4 \<longrightarrow> c \<le> 0x8F)"

definition utf8_head :: "nat \<Rightarrow> nat list \<Rightarrow> nat \<times> bool" where
  "utf8_head b rest =
     (let width = seq_width b;
          more = (case take (width - 1) rest of
              [] \<Rightarrow> 0
            | c # cs \<Rightarrow> if second_ok b c then Suc (length (takeWhile is_cont cs)) else 0)
      in (Suc more, width = Suc more))"

function lossy_bytes :: "nat list \<Rightarrow> nat list" where
  "lossy_bytes [] = []"
| "lossy_bytes (b # rest) =
     (let (n, whole) = utf8_head b rest
      in (if whole then take n (b # rest) else [0xEF, 0xBF, 0xBD]) @ lossy_bytes (drop n (b # rest)))"
  by pat_completeness auto
termination
  by (relation "measure length") (auto simp: utf8_head_def Let_def split: list.splits if_splits)

definition from_utf8_lossy :: "string \<Rightarrow> string" where
  "from_utf8_lossy s = map char_of (lossy_bytes (map of_char s))"

definition repo_of_fleet :: "'w host \<Rightarrow> string \<Rightarrow> 'w \<Rightarrow> 'w \<times> (string + string option)" where
  "repo_of_fleet host fleet w =
     (case port_get host (repo_key fleet) w of
        (w, Inl e) \<Rightarrow> (w, Inl e)
      | (w, Inr b) \<Rightarrow> (w, Inr (map_option from_utf8_lossy b)))"

definition set_repo_of_fleet :: "'w host \<Rightarrow> string \<Rightarrow> string \<Rightarrow> 'w \<Rightarrow> 'w \<times> (string + unit)" where
  "set_repo_of_fleet host fleet repo w = port_put host (repo_key fleet) repo w"

section \<open>The status comment\<close>

definition MAX_LINES :: nat where
  "MAX_LINES = 20"

definition MAX_LINE_CHARS :: nat where
  "MAX_LINE_CHARS = 200"

record status_post =
  sc_agent :: string
  sc_session :: "string option"
  sc_phase :: ustr
  sc_lines :: "(u64 \<times> ustr) list"

definition new_status :: "string \<Rightarrow> status_post" where
  "new_status agent = \<lparr>sc_agent = agent, sc_session = None, sc_phase = points ''starting'', sc_lines = []\<rparr>"

definition push_line :: "u64 \<Rightarrow> ustr \<Rightarrow> status_post \<Rightarrow> status_post" where
  "push_line at text s =
     (let first = text_trim (case text_lines text of [] \<Rightarrow> [] | l # _ \<Rightarrow> l);
          first = (if length first > MAX_LINE_CHARS then take MAX_LINE_CHARS first @ [0x2026] else first);
          lines = sc_lines s @ [(at, first)]
      in s\<lparr>sc_lines := drop (length lines - MAX_LINES) lines\<rparr>)"

definition two_digits :: "nat \<Rightarrow> ustr" where
  "two_digits n = (if n < 10 then points ''0'' else []) @ decimal n"

definition hhmm :: "u64 \<Rightarrow> ustr" where
  "hhmm secs = two_digits (unat (secs div 3600 mod 24)) @ points '':'' @ two_digits (unat (secs div 60 mod 60))"

definition render_status :: "status_post \<Rightarrow> ustr" where
  "render_status s =
     (let dot = points '' '' @ [0xB7] @ points '' '';
          session = (case sc_session s of
              Some i \<Rightarrow> dot @ points ''session `'' @ short_session (chars i) @ points ''`'' | None \<Rightarrow> [])
      in points ''**balerix**'' @ dot @ points ''`'' @ chars (sc_agent s) @ points ''`'' @ session @ dot
         @ points ''**'' @ sc_phase s @ points ''**'' @ [newline]
         @ concat (map (\<lambda>(at, line). [newline] @ points ''- '' @ hhmm at @ points '' '' @ line) (sc_lines s)))"

section \<open>The index is sound\<close>

definition index_sound :: "ledger \<Rightarrow> bool" where
  "index_sound s \<longleftrightarrow>
     (\<forall>key agent. bt_get (ld_by_number s) key = Some agent \<longrightarrow> (\<exists>r. bt_get (ld_rows s) agent = Some r \<and> row_key r = key))"

lemma index_soundD:
  assumes "index_sound s" "bt_get (ld_by_number s) key = Some agent"
  obtains r where "bt_get (ld_rows s) agent = Some r" "row_key r = key"
  using assms unfolding index_sound_def by blast

lemma index_sound_new [simp]: "index_sound new_ledger"
  by (simp add: index_sound_def new_ledger_def)

lemma unmap_rows [simp]: "ld_rows (unmap agent key s) = ld_rows s"
  by (simp add: unmap_def)

lemma unmap_get: "bt_get (ld_by_number (unmap agent key s)) k = Some g
    \<longleftrightarrow> bt_get (ld_by_number s) k = Some g \<and> \<not> (k = key \<and> g = agent)"
  by (auto simp: unmap_def)

lemma insert_row_rows [simp]: "bt_get (ld_rows (insert_row agent row s)) g = (if g = agent then Some row else bt_get (ld_rows s) g)"
  by (simp add: insert_row_def Let_def split: option.split)

lemma index_sound_insert [simp]:
  assumes "index_sound s"
  shows "index_sound (insert_row agent row s)"
  unfolding index_sound_def
proof (intro allI impI)
  fix key g
  let ?s = "case bt_get (ld_rows s) agent of Some old \<Rightarrow> unmap agent (row_key old) s | None \<Rightarrow> s"
  assume "bt_get (ld_by_number (insert_row agent row s)) key = Some g"
  then consider "key = row_key row" "g = agent" | "bt_get (ld_by_number ?s) key = Some g"
    by (cases "key = row_key row") (simp_all add: insert_row_def Let_def)
  then show "\<exists>r. bt_get (ld_rows (insert_row agent row s)) g = Some r \<and> row_key r = key"
  proof cases
    case 2
    then have "bt_get (ld_by_number s) key = Some g" by (cases "bt_get (ld_rows s) agent") (simp_all add: unmap_get)
    from index_soundD[OF assms this] obtain r where r: "bt_get (ld_rows s) g = Some r" "row_key r = key" .
    with 2 have "g \<noteq> agent" by (cases "bt_get (ld_rows s) agent") (auto simp: unmap_get)
    with r show ?thesis by simp
  qed simp
qed

lemma index_sound_update [simp]:
  assumes "index_sound s" "\<And>r. row_key (f r) = row_key r"
  shows "index_sound (update_row agent f s)"
proof (cases "bt_get (ld_rows s) agent")
  case (Some old)
  show ?thesis unfolding index_sound_def
  proof (intro allI impI)
    fix key g assume "bt_get (ld_by_number (update_row agent f s)) key = Some g"
    then have "bt_get (ld_by_number s) key = Some g" using Some by (simp add: update_row_def)
    from index_soundD[OF assms(1) this] obtain r where "bt_get (ld_rows s) g = Some r" "row_key r = key" .
    then show "\<exists>r. bt_get (ld_rows (update_row agent f s)) g = Some r \<and> row_key r = key"
      using Some assms(2) by (auto simp: update_row_def)
  qed
qed (use assms in \<open>simp add: update_row_def\<close>)

lemma index_sound_set [simp]: "index_sound (fst sw) \<Longrightarrow> index_sound (fst (fst (set_row rt host agent row sw)))"
  by (simp add: set_row_def split: prod.split sum.split)

lemma index_sound_dropped:
  assumes "index_sound s" "bt_get (ld_rows s) agent = Some old"
  shows "index_sound (unmap agent (row_key old) (s\<lparr>ld_rows := bt_remove agent (ld_rows s)\<rparr>))"
  unfolding index_sound_def
proof (intro allI impI)
  fix key g assume g: "bt_get (ld_by_number (unmap agent (row_key old) (s\<lparr>ld_rows := bt_remove agent (ld_rows s)\<rparr>))) key = Some g"
  then have "bt_get (ld_by_number s) key = Some g" by (simp add: unmap_get)
  from index_soundD[OF assms(1) this] obtain r where r: "bt_get (ld_rows s) g = Some r" "row_key r = key" .
  with g assms(2) have "g \<noteq> agent" by (auto simp: unmap_get)
  with r show "\<exists>r. bt_get (ld_rows (unmap agent (row_key old) (s\<lparr>ld_rows := bt_remove agent (ld_rows s)\<rparr>))) g = Some r \<and> row_key r = key"
    by simp
qed

lemma index_sound_remove [simp]: "index_sound (fst sw) \<Longrightarrow> index_sound (fst (fst (remove_row host agent sw)))"
  by (auto simp: remove_row_def index_sound_dropped split: prod.split sum.split option.split)

lemma ledger_load_sound:
  assumes "ledger_load rt host w = (w', Inr s)"
  shows "index_sound s"
proof -
  have "index_sound (snd ws')" if "rfold (load_row rt host) keys ws = Inr ws'" "index_sound (snd ws)" for keys ws ws'
    using that(1) by (rule rfold_invariant[where I = "\<lambda>ws. index_sound (snd ws)"])
      (use that in \<open>auto simp: load_row_def split: prod.splits sum.splits option.splits\<close>)
  with assms show ?thesis by (fastforce simp: ledger_load_def split: prod.splits sum.splits)
qed

lemma by_number_row:
  assumes "index_sound s" "by_number s repo number = Some agent"
  shows "\<exists>r. row_of s agent = Some r \<and> gs_repo r = repo \<and> gs_number r = number"
  using assms unfolding by_number_def row_of_def by (elim index_soundD) (auto simp: row_key_def)

section \<open>How long an acted-on id is remembered\<close>

lemma see_same [simp]:
  "gs_repo (fst (see i r)) = gs_repo r" "gs_number (fst (see i r)) = gs_number r" "gs_closed (fst (see i r)) = gs_closed r"
  "gs_kind (fst (see i r)) = gs_kind r" "row_key (fst (see i r)) = row_key r"
  by (simp_all add: see_def Let_def row_key_def)

lemma see_ids:
  "gs_seen (fst (see i r)) = (if i \<in> set (gs_seen r) then gs_seen r
     else drop (Suc (length (gs_seen r)) - SEEN_LIMIT) (gs_seen r @ [i]))"
  by (simp add: see_def has_seen_def Let_def)

definition youngest :: "nat \<Rightarrow> seen \<Rightarrow> session \<Rightarrow> bool" where
  "youngest n i r \<longleftrightarrow> (\<exists>older younger. gs_seen r = older @ i # younger \<and> length younger \<le> n)"

lemma see_bound: "length (gs_seen r) \<le> SEEN_LIMIT \<Longrightarrow> length (gs_seen (fst (see i r))) \<le> SEEN_LIMIT"
  unfolding see_ids by (auto simp del: drop_append)

lemma youngest_see:
  assumes "length (gs_seen r) \<le> SEEN_LIMIT" "youngest n i r" "Suc n < SEEN_LIMIT"
  shows "youngest (Suc n) i (fst (see j r))"
proof -
  obtain older younger where r: "gs_seen r = older @ i # younger" "length younger \<le> n"
    using assms(2) by (auto simp: youngest_def)
  show ?thesis
  proof (cases "j \<in> set (gs_seen r)")
    case True
    have "youngest (Suc n) i r" unfolding youngest_def using r by (intro exI[of _ older] exI[of _ younger]) simp
    with True show ?thesis by (simp add: youngest_def see_ids)
  next
    case False
    have "Suc (length (gs_seen r)) - SEEN_LIMIT \<le> length older" using r assms by simp
    then show ?thesis unfolding youngest_def see_ids r
      using False r by (intro exI[of _ "drop (Suc (length (older @ i # younger)) - SEEN_LIMIT) older"] exI[of _ "younger @ [j]"]) auto
  qed
qed

lemma youngest_sees:
  assumes "length (gs_seen r) \<le> SEEN_LIMIT" "youngest n i r" "n + length js < SEEN_LIMIT"
  shows "youngest (n + length js) i (fold (\<lambda>j r. fst (see j r)) js r)"
  using assms
proof (induction js arbitrary: r n)
  case (Cons j js)
  have "youngest (Suc n) i (fst (see j r))" using Cons.prems by (intro youngest_see) auto
  with Cons.IH[of "fst (see j r)" "Suc n"] Cons.prems show ?case by (simp add: see_bound)
qed simp

text \<open>
  A row that acts on an id for the first time knows it through the next 255 ids it records, whatever they are, so each of
  their redeliveries in that time is recognised; and a row never keeps more than 256 ids.
\<close>

theorem acted_on_remembered:
  assumes "length (gs_seen r) \<le> SEEN_LIMIT" "\<not> has_seen i r" "length js < SEEN_LIMIT"
  shows "snd (see i r) \<and> has_seen i (fold (\<lambda>j r. fst (see j r)) js (fst (see i r)))
    \<and> length (gs_seen (fold (\<lambda>j r. fst (see j r)) js (fst (see i r)))) \<le> SEEN_LIMIT"
proof -
  let ?r = "fst (see i r)"
  have "gs_seen ?r = drop (Suc (length (gs_seen r)) - SEEN_LIMIT) (gs_seen r) @ [i]"
    using assms(1,2) by (simp add: see_ids has_seen_def SEEN_LIMIT_def)
  then have "youngest 0 i ?r" by (auto simp: youngest_def)
  then have "youngest (length js) i (fold (\<lambda>j r. fst (see j r)) js ?r)"
    using youngest_sees[OF see_bound[OF assms(1)], of 0 i i js] assms(3) by simp
  then have "has_seen i (fold (\<lambda>j r. fst (see j r)) js ?r)" unfolding youngest_def has_seen_def by (metis in_set_conv_decomp)
  moreover have "length (gs_seen (fold (\<lambda>j r. fst (see j r)) js r')) \<le> SEEN_LIMIT" if "length (gs_seen r') \<le> SEEN_LIMIT" for r' :: session
    using that by (induction js arbitrary: r') (auto simp: see_bound)
  ultimately show ?thesis using assms(1,2) see_bound by (simp add: see_def Let_def)
qed

definition sample_row :: session where
  "sample_row =
     \<lparr>gs_repo = ''acme/app'', gs_installation = 1, gs_kind = Issue, gs_number = 7, gs_head = None, gs_base = None,
      gs_status_comment = None, gs_session_id = None, gs_last_activity = 0, gs_closed = False, gs_seen = []\<rparr>"

theorem acted_on_remembered_witness:
  "has_seen (SeenComment 5) (fst (see (SeenReview 5) (fst (see (SeenComment 5) sample_row))))"
  using acted_on_remembered[of sample_row "SeenComment 5" "[SeenReview 5]"]
  by (simp add: sample_row_def has_seen_def SEEN_LIMIT_def)

section \<open>A status comment stays small\<close>

lemma two_digits_length: "n < 100 \<Longrightarrow> length (two_digits n) = 2"
proof -
  assume n: "n < 100"
  then have "length (nat_digits n) \<le> 2" by (intro nat_digits_length) auto
  moreover have "length (nat_digits n) \<ge> 2" if "10 \<le> n" 
    using that nat_digits_shape(1)[of "n div 10"] by (subst nat_digits.simps) (cases "nat_digits (n div 10)", auto)
  moreover have "length (nat_digits n) = 1" if "n < 10" using that by (subst nat_digits.simps) simp
  ultimately show ?thesis by (cases "n < 10") (auto simp: two_digits_def decimal_def points_def)
qed

lemma hhmm_length: "length (hhmm secs) = 5"
proof -
  have "unat (secs div 3600 mod 24) < 24" "unat (secs div 60 mod 60) < 60"
    by (simp_all add: unat_mod unat_div)
  then show ?thesis by (simp add: hhmm_def two_digits_length points_def)
qed

definition lines_ok :: "status_post \<Rightarrow> bool" where
  "lines_ok s \<longleftrightarrow> length (sc_lines s) \<le> MAX_LINES \<and> list_all (\<lambda>(_, l). length l \<le> Suc MAX_LINE_CHARS) (sc_lines s)"

lemma lines_ok_push [simp]: "lines_ok s \<Longrightarrow> lines_ok (push_line at text s)"
  by (auto simp: lines_ok_def push_line_def Let_def list_all_iff dest: in_set_dropD)

lemma pushed_same [simp]: "sc_agent (push_line at text s) = sc_agent s" "sc_phase (push_line at text s) = sc_phase s"
  by (simp_all add: push_line_def Let_def)

lemma lines_length:
  assumes "list_all (\<lambda>(_, l). length l \<le> n) lines"
  shows "length (concat (map (\<lambda>(at, line). [newline] @ points ''- '' @ hhmm at @ points '' '' @ line) lines)) \<le> length lines * (9 + n)"
  using assms by (induction lines) (auto simp: hhmm_length points_def)

text \<open>
  Whatever lines a status comment is given, it shows the last twenty at most, and its text is no longer than the agent's
  name and its phase plus 4300 characters: far inside the 65 536 a comment takes.
\<close>

theorem status_comment_small:
  "length (render_status ((fold (\<lambda>(at, text). push_line at text) lines (new_status agent))\<lparr>sc_session := session, sc_phase := phase\<rparr>))
     \<le> length (chars agent) + length phase + 4300
   \<and> length (sc_lines (fold (\<lambda>(at, text). push_line at text) lines (new_status agent))) \<le> 20"
proof -
  let ?s = "fold (\<lambda>(at, text). push_line at text) lines (new_status agent)"
  have "lines_ok (fold (\<lambda>(at, text). push_line at text) lines s) \<and> sc_agent (fold (\<lambda>(at, text). push_line at text) lines s) = sc_agent s"
    if "lines_ok s" for s
    using that by (induction lines arbitrary: s) auto
  then have ok: "lines_ok ?s" "sc_agent ?s = agent" by (auto simp: lines_ok_def new_status_def)
  then have "length (concat (map (\<lambda>(at, line). [newline] @ points ''- '' @ hhmm at @ points '' '' @ line) (sc_lines ?s))) \<le> length (sc_lines ?s) * (9 + 201)"
    by (intro lines_length) (simp add: lines_ok_def MAX_LINE_CHARS_def)
  also have "\<dots> \<le> 20 * 210" using ok(1) by (simp add: lines_ok_def MAX_LINES_def)
  finally show ?thesis using ok
    by (cases session) (simp_all add: render_status_def Let_def points_def short_session_def lines_ok_def MAX_LINES_def)
qed

end
