(* ===== verification/Reviews.thy ===== *)
theory Reviews
  imports Ledger
begin

text \<open>
  What an agent is told (plugins/github/src/prompt.rs and plugins/common/src/review.rs): the first prompt of a session, and
  a submitted review as one message, with the limits a review is held to. The lemmas show that a review within
  the limits renders to a text without NUL in which a file name never breaks its line.
\<close>

section \<open>Reviews\<close>

definition MAX_COMMENTS :: nat where "MAX_COMMENTS = 200"
definition MAX_BODY_BYTES :: nat where "MAX_BODY_BYTES = push_bit 10 64"
definition MAX_TEXT_BYTES :: nat where "MAX_TEXT_BYTES = 4096"
definition MAX_REF_BYTES :: nat where "MAX_REF_BYTES = 256"
definition MAX_PATH_BYTES :: nat where "MAX_PATH_BYTES = 4096"

datatype side = Old | New

definition side_text :: "side \<Rightarrow> ustr" where
  "side_text s = (case s of Old \<Rightarrow> points ''old'' | New \<Rightarrow> points ''new'')"

record line_comment =
  lc_path :: ustr
  lc_side :: side
  lc_line :: u64
  lc_text :: ustr
  lc_body :: ustr

record review =
  rv_head :: ustr
  rv_base_ref :: ustr
  rv_summary :: ustr
  rv_comments :: "line_comment list"

definition no_nul :: "ustr \<Rightarrow> ustr \<Rightarrow> ustr + unit" where
  "no_nul field v = (if 0 \<in> set v then Inl (field @ points '': contains NUL'') else Inr ())"

definition check_comment_path :: "ustr \<Rightarrow> ustr \<Rightarrow> ustr + unit" where
  "check_comment_path field path =
     (if path = [] then Inl (field @ points '': empty'')
      else if utf8_len path > MAX_PATH_BYTES
      then Inl (field @ points '': longer than '' @ decimal MAX_PATH_BYTES @ points '' bytes'')
      else no_nul field path)"

text \<open>\<open>escape_debug\<close> of a control character.\<close>

fun hex_text :: "nat \<Rightarrow> ustr" where
  "hex_text n =
     (let d = (if n mod 16 < 10 then 48 + n mod 16 else 87 + n mod 16)
      in if n < 16 then [d] else hex_text (n div 16) @ [d])"

declare hex_text.simps [simp del]

definition escape_control :: "nat \<Rightarrow> ustr" where
  "escape_control c =
     (if c = 0 then [92, 48] else if c = 10 then [92, 110] else if c = 13 then [92, 114]
      else [92, 117, 123] @ hex_text c @ [125])"

definition breaks_line :: "nat \<Rightarrow> bool" where
  "breaks_line c \<longleftrightarrow> is_control c \<and> c \<noteq> 9"

definition quoted_path :: "ustr \<Rightarrow> ustr" where
  "quoted_path path =
     (if \<not> list_ex breaks_line path then path
      else concat (map (\<lambda>c. if breaks_line c then escape_control c else [c]) path))"

definition indexed_field :: "nat \<Rightarrow> string \<Rightarrow> ustr" where
  "indexed_field i f = points ''comments['' @ decimal i @ points ''].'' @ points f"

definition validate_comment :: "nat \<times> line_comment \<Rightarrow> nat \<Rightarrow> ustr + nat" where
  "validate_comment ic bytes =
     (let (i, c) = ic
      in rbind (check_comment_path (indexed_field i ''path'') (lc_path c)) (\<lambda>_.
           if text_trim (lc_body c) = [] then Inl (indexed_field i ''body'' @ points '': empty'')
           else if utf8_len (lc_text c) > MAX_TEXT_BYTES
           then Inl (indexed_field i ''text'' @ points '': longer than '' @ decimal MAX_TEXT_BYTES @ points '' bytes'')
           else
             rbind (no_nul (indexed_field i ''text'') (lc_text c)) (\<lambda>_.
             rbind (no_nul (indexed_field i ''body'') (lc_body c)) (\<lambda>_.
               Inr (bytes + utf8_len (lc_body c))))))"

definition validate_review :: "review \<Rightarrow> ustr + unit" where
  "validate_review r =
     (if rv_comments r = [] \<and> text_trim (rv_summary r) = [] then Inl (points ''nothing to send'')
      else if length (rv_comments r) > MAX_COMMENTS then Inl (points ''comments: more than '' @ decimal MAX_COMMENTS)
      else if utf8_len (rv_head r) > MAX_REF_BYTES
      then Inl (points ''head: longer than '' @ decimal MAX_REF_BYTES @ points '' bytes'')
      else if utf8_len (rv_base_ref r) > MAX_REF_BYTES
      then Inl (points ''base_ref: longer than '' @ decimal MAX_REF_BYTES @ points '' bytes'')
      else
        rbind (no_nul (points ''head'') (rv_head r)) (\<lambda>_.
        rbind (no_nul (points ''base_ref'') (rv_base_ref r)) (\<lambda>_.
        rbind (no_nul (points ''summary'') (rv_summary r)) (\<lambda>_.
        rbind (rfold validate_comment (enumerate 0 (rv_comments r)) (utf8_len (rv_summary r))) (\<lambda>bytes.
          if bytes > MAX_BODY_BYTES
          then Inl (points ''summary and comment bodies: longer than '' @ decimal MAX_BODY_BYTES @ points '' bytes together'')
          else Inr ())))))"

definition comment_order :: "line_comment \<Rightarrow> ustr \<times> u64 \<times> nat" where
  "comment_order c = (lc_path c, lc_line c, case lc_side c of Old \<Rightarrow> 0 | New \<Rightarrow> 1)"

definition render_comment :: "line_comment \<Rightarrow> ustr" where
  "render_comment c =
     [newline] @ quoted_path (lc_path c) @ points '' line '' @ decimal (unat (lc_line c)) @ points '' ('' @ side_text (lc_side c)
     @ points ''):'' @ [newline] @ points ''> '' @ lc_text c @ [newline] @ text_trim_end (lc_body c) @ [newline]"

definition render_message :: "review \<Rightarrow> ustr" where
  "render_message r =
     (let comments = sort_key comment_order (rv_comments r);
          n = length comments;
          short = take 7 (rv_head r);
          summary = text_trim (rv_summary r)
      in text_trim_end
           (points ''Review''
            @ (if rv_base_ref r \<noteq> [] then points '' against '' @ rv_base_ref r else [])
            @ (if short \<noteq> [] then points '' at '' @ short else [])
            @ points '' ('' @ decimal n @ points '' comment'' @ (if n = 1 then [] else points ''s'') @ points '')'' @ [newline]
            @ concat (map render_comment comments)
            @ (if summary \<noteq> [] then [newline] @ points ''Overall:'' @ [newline] @ summary @ [newline] else [])))"

section \<open>Prompts\<close>

record review_comment =
  rc_path :: string
  rc_side :: string
  rc_line :: "u64 option"
  rc_original_line :: "u64 option"
  rc_diff_hunk :: string
  rc_body :: string

record prompt_start =
  ps_repo :: string
  ps_kind :: kind
  ps_number :: u64
  ps_title :: string
  ps_url :: string
  ps_body :: string
  ps_branch :: string
  ps_base :: string
  ps_asker :: string
  ps_comment :: "string option"
  ps_resumed :: bool

definition first_prompt :: "prompt_start \<Rightarrow> ustr" where
  "first_prompt s =
     (let what = (case ps_kind s of Issue \<Rightarrow> points ''issue'' | Pr \<Rightarrow> points ''pull request'');
          branch = (case ps_kind s of
              Issue \<Rightarrow> points ''Branch: '' @ chars (ps_branch s) @ points '' (from '' @ chars (ps_base s) @ points '')''
            | Pr \<Rightarrow> points ''Branch: '' @ chars (ps_branch s) @ points '' (into '' @ chars (ps_base s) @ points '')'')
      in points ''You are attached to '' @ chars (ps_repo s) @ points '' '' @ what @ points '' #'' @ decimal (unat (ps_number s))
         @ points '': '' @ text_trim (chars (ps_title s)) @ [newline] @ chars (ps_url s) @ [newline, newline] @ branch @ [newline]
         @ (if ps_resumed s
            then [newline] @ points ''Earlier work on this '' @ what @ points '' is on branch '' @ chars (ps_branch s)
                 @ points ''; continue from it.'' @ [newline]
            else [])
         @ [newline] @ text_trim (chars (ps_body s)) @ [newline]
         @ (case ps_comment s of
              Some c \<Rightarrow> [newline] @ points ''---'' @ [newline] @ points ''@'' @ chars (ps_asker s) @ points '' asked:'' @ [newline]
                @ text_trim (chars c) @ [newline]
            | None \<Rightarrow> []))"

text \<open>\<open>commit.get(..7)\<close>, when byte seven is the start of a character.\<close>

definition short_commit :: "string \<Rightarrow> string" where
  "short_commit commit =
     (if length commit = 7 \<or> (length commit > 7 \<and> \<not> is_cont (of_char (commit ! 7))) then take 7 commit else commit)"

definition verdict_text :: "string \<Rightarrow> string" where
  "verdict_text state =
     (let s = map lower state
      in if s = ''approved'' then ''approved'' else if s = ''changes_requested'' then ''changes requested''
         else if s = ''commented'' then ''commented'' else s)"

definition map_comment :: "review_comment \<Rightarrow> line_comment" where
  "map_comment c =
     \<lparr>lc_path = chars (rc_path c), lc_side = (if eq_nocase (rc_side c) ''LEFT'' then Old else New),
      lc_line = (case rc_line c of Some n \<Rightarrow> n | None \<Rightarrow> (case rc_original_line c of Some n \<Rightarrow> n | None \<Rightarrow> 0)),
      lc_text = (case text_lines (chars (rc_diff_hunk c)) of [] \<Rightarrow> [] | ls \<Rightarrow> last ls),
      lc_body = chars (rc_body c)\<rparr>"

definition review_prompt ::
  "string \<Rightarrow> string \<Rightarrow> string \<Rightarrow> string \<Rightarrow> review_comment list \<Rightarrow> bool \<Rightarrow> string \<Rightarrow> ustr option" where
  "review_prompt reviewer state commit body comments has_more base =
     (if text_trim (chars body) = [] \<and> comments = [] then None
      else
        let short = short_commit commit;
            r = \<lparr>rv_head = chars short, rv_base_ref = chars base, rv_summary = text_trim (chars body),
                 rv_comments = map map_comment comments\<rparr>;
            top = points ''Review by @'' @ chars reviewer @ points '': '' @ chars (verdict_text state) @ points '', at '' @ chars short @ [newline]
        in (case validate_review r of
              Inl e \<Rightarrow> Some (top @ points ''(not rendered: '' @ e @ points '')'')
            | Inr _ \<Rightarrow>
                let out = top @ render_message r
                in Some (if has_more
                         then text_trim_end out @ [newline, newline] @ points ''(the first '' @ decimal (length comments)
                              @ points '' inline comments; the rest are on GitHub)''
                         else out)))"

section \<open>A rendered review is clean\<close>

lemma hex_text_digits: "d \<in> set (hex_text n) \<Longrightarrow> 48 \<le> d \<and> d < 103"
proof (induction n rule: hex_text.induct)
  case (1 n)
  then show ?case by (subst (asm) (2) hex_text.simps) (auto simp: Let_def split: if_splits)
qed

lemma escape_control_clean: "d \<in> set (escape_control c) \<Longrightarrow> \<not> is_control d"
  by (auto simp: escape_control_def is_control_def dest!: hex_text_digits split: if_splits)

lemma quoted_path_clean: "d \<in> set (quoted_path path) \<Longrightarrow> \<not> breaks_line d"
  by (auto simp: quoted_path_def list_ex_iff breaks_line_def dest: escape_control_clean split: if_splits)

lemma decimal_no_nul [simp]: "0 \<notin> set (decimal n)"
proof -
  have "list_all is_ascii_digit (nat_digits n)" by (rule nat_digits_shape)
  then show ?thesis by (auto simp: decimal_def points_def list_all_iff is_ascii_digit_def less_eq_char_def dest!: bspec)
qed

lemma trim_end_subset: "set (text_trim_end s) \<subseteq> set s"
  by (auto simp: text_trim_end_def dest: set_dropWhileD)

lemma trim_subset: "set (text_trim s) \<subseteq> set s"
  using trim_end_subset by (fastforce simp: text_trim_def text_trim_start_def dest: set_dropWhileD)

lemma validate_comment_clean:
  assumes "validate_comment ic bytes = Inr n"
  shows "0 \<notin> set (lc_text (snd ic)) \<and> 0 \<notin> set (lc_body (snd ic))"
  using assms by (auto simp: validate_comment_def no_nul_def rbind_Inr split: prod.splits if_splits)

lemma validate_comments_clean:
  assumes "rfold validate_comment ics bytes = Inr n" "ic \<in> set ics"
  shows "0 \<notin> set (lc_text (snd ic)) \<and> 0 \<notin> set (lc_body (snd ic))"
  using assms by (induction ics arbitrary: bytes) (auto simp: rbind_Inr dest: validate_comment_clean)

lemma render_comment_no_nul:
  assumes "0 \<notin> set (lc_text c)" "0 \<notin> set (lc_body c)"
  shows "0 \<notin> set (render_comment c)"
proof -
  have "0 \<notin> set (quoted_path (lc_path c))" using quoted_path_clean[of 0] by (auto simp: breaks_line_def is_control_def)
  moreover have "0 \<notin> set (text_trim_end (lc_body c))" using assms trim_end_subset by blast
  ultimately show ?thesis using assms by (cases "lc_side c") (auto simp: render_comment_def points_def side_text_def newline_def)
qed

text \<open>
  A review within the limits renders to a message without NUL, whatever its comments quote; and whatever a comment's
  file is called, its name in the message holds no line break and no control character but tab, so it stays on its
  line.
\<close>

theorem review_message_clean:
  assumes "validate_review r = Inr ()"
  shows "0 \<notin> set (render_message r)
    \<and> list_all (\<lambda>c. list_all (\<lambda>d. \<not> breaks_line d) (quoted_path (lc_path c))) (rv_comments r)"
proof -
  obtain n where parts: "0 \<notin> set (rv_head r)" "0 \<notin> set (rv_base_ref r)" "0 \<notin> set (rv_summary r)"
    and n: "rfold validate_comment (enumerate 0 (rv_comments r)) (utf8_len (rv_summary r)) = Inr n"
    using assms by (auto simp: validate_review_def no_nul_def rbind_Inr split: if_splits)
  have "0 \<notin> set (render_comment c)" if "c \<in> set (rv_comments r)" for c
  proof -
    from that obtain i where i: "i < length (rv_comments r)" "rv_comments r ! i = c" by (auto simp: in_set_conv_nth)
    then have "(i, c) \<in> set (enumerate 0 (rv_comments r))" by (simp add: in_set_enumerate_eq)
    from validate_comments_clean[OF n this] show ?thesis by (simp add: render_comment_no_nul)
  qed
  then have comments: "0 \<notin> set (concat (map render_comment (sort_key comment_order (rv_comments r))))" by auto
  have "0 \<notin> set (take 7 (rv_head r))" "0 \<notin> set (text_trim (rv_summary r))"
    using parts trim_subset by (auto dest: in_set_takeD)
  with parts comments have "0 \<notin> set (render_message r)"
    unfolding render_message_def Let_def by (intro notI) (drule subsetD[OF trim_end_subset], auto simp: points_def newline_def split: if_splits)
  then show ?thesis using quoted_path_clean by (simp add: list_all_iff)
qed

definition sample_review :: review where
  "sample_review = \<lparr>rv_head = [], rv_base_ref = [], rv_summary = [],
     rv_comments = [\<lparr>lc_path = [97, 10, 98], lc_side = New, lc_line = 3, lc_text = [], lc_body = [111, 107]\<rparr>]\<rparr>"

theorem review_message_clean_witness: "0 \<notin> set (render_message sample_review)"
proof -
  have "validate_review sample_review = Inr ()"
    by (simp add: validate_review_def sample_review_def validate_comment_def check_comment_path_def no_nul_def utf8_len_def utf8_def
        utf8_char_def MAX_COMMENTS_def MAX_REF_BYTES_def MAX_PATH_BYTES_def MAX_TEXT_BYTES_def MAX_BODY_BYTES_def
        text_trim_def text_trim_start_def text_trim_end_def is_whitespace_def push_bit_eq_mult)
  from review_message_clean[OF this] show ?thesis by simp
qed

end
