(* ===== verification/Github.thy ===== *)
theory Github
  imports Dialogs Webhook Reviews Lanes Blocks
begin

text \<open>
  The actor of the github plugin (plugins/github/src/actor.rs, config.rs, github.rs): the one task that owns the plugin's
  state, and turns issues, pull requests, comments and reviews into agents, prompts and posts. A command runs to its end
  before the next is popped, so each is one function of the state here. GitHub, the daemon and the clocks are
  functions of a world behind the ports, every call may fail, and the order in which a hash map is walked is a
  parameter. The state carries, beside the source's fields, the list of calls made so far; an action is listed with
  whether the agent's question was open when it was sent. Metrics and log lines are not modelled.
\<close>

section \<open>Configuration\<close>

definition DEFAULT_MAX_PARTS :: nat where "DEFAULT_MAX_PARTS = 10"
definition COMMENT_LIMIT :: nat where "COMMENT_LIMIT = 65536"
definition DEFAULT_CONFIRM_WINDOW :: duration where "DEFAULT_CONFIRM_WINDOW = from_secs 30"

record github_daemon_config =
  gd_app_id :: u64
  gd_private_key :: string
  gd_webhook_secret :: string
  gd_listen :: string
  gd_config_path :: string
  gd_idle_timeout :: duration
  gd_max_parts :: nat
  gd_slash_commands :: "ustr list"

record github_agent_config =
  gc_enabled :: bool
  gc_events :: "string list"
  gc_phases :: bool
  gc_key_delay_ms :: u64
  gc_confirm_window :: duration
  gc_kind :: "kind option"
  gc_number :: "u64 option"

definition gc_wants :: "github_agent_config \<Rightarrow> string \<Rightarrow> bool" where
  "gc_wants c event = filter_wants (gc_events c) event"

definition github_parse_daemon ::
  "(json \<Rightarrow> (string \<times> string) + github_daemon_config) \<Rightarrow> json \<Rightarrow> block_error + github_daemon_config" where
  "github_parse_daemon typed config =
     rbind (deserialize typed config) (\<lambda>c.
     rbind (validate_commands ''slashCommands'' (gd_slash_commands c)) (\<lambda>_.
       if gd_max_parts c = 0 then Inl \<lparr>be_path = ''maxParts'', be_message = FixedText ''must be at least 1''\<rparr>
       else if gd_config_path c = [] \<or> str_starts_with (gd_config_path c) ''/'' \<or> str_contains (gd_config_path c) ''..''
       then Inl \<lparr>be_path = ''configPath'', be_message = FixedText ''a relative path inside the repository''\<rparr>
       else if str_trim (gd_private_key c) = []
       then Inl \<lparr>be_path = ''privateKey'', be_message = FixedText ''must not be empty''\<rparr>
       else if gd_webhook_secret c = []
       then Inl \<lparr>be_path = ''webhookSecret'', be_message = FixedText ''must not be empty''\<rparr>
       else Inr c))"

definition github_parse_agent ::
  "(json \<Rightarrow> (string \<times> string) + github_agent_config) \<Rightarrow> json \<Rightarrow> block_error + github_agent_config" where
  "github_parse_agent typed config =
     rbind (deserialize typed config) (\<lambda>c.
     rbind (filter_validate (gc_events c)) (\<lambda>_.
     rbind (validate_key_delay (gc_key_delay_ms c)) (\<lambda>_.
       if gc_kind c = None then Inl \<lparr>be_path = ''kind'', be_message = FixedText ''missing''\<rparr>
       else (case gc_number c of
               None \<Rightarrow> Inl \<lparr>be_path = ''number'', be_message = FixedText ''missing''\<rparr>
             | Some n \<Rightarrow>
                 if n = 0 then Inl \<lparr>be_path = ''number'', be_message = FixedText ''must be at least 1''\<rparr> else Inr c))))"

section \<open>Ports\<close>

definition EYES :: string where "EYES = ''eyes''"
definition PLUS_ONE :: string where "PLUS_ONE = ''+1''"
definition MINUS_ONE :: string where "MINUS_ONE = ''-1''"
definition CONFUSED :: string where "CONFUSED = ''confused''"
definition HOORAY :: string where "HOORAY = ''hooray''"

datatype github_error = RateLimited u64 | AuthError string | NotFound | OtherError string

datatype permission = Admin | Maintain | Write | Triage | ReadOnly | NoPermission

definition may_prompt :: "permission \<Rightarrow> bool" where
  "may_prompt p \<longleftrightarrow> p = Admin \<or> p = Maintain \<or> p = Write"

definition permission_parse :: "string option \<Rightarrow> string option \<Rightarrow> permission" where
  "permission_parse role_name permission =
     (let name = (case role_name of Some r \<Rightarrow> r | None \<Rightarrow> (case permission of Some p \<Rightarrow> p | None \<Rightarrow> ''none''))
      in if name = ''admin'' then Admin else if name = ''maintain'' then Maintain else if name = ''write'' then Write
         else if name = ''triage'' then Triage else if name = ''read'' then ReadOnly else NoPermission)"

datatype target = OnIssue u64 | OnComment u64

record review_comments =
  rs_comments :: "review_comment list"
  rs_more :: bool

record issue_info =
  ii_title :: string
  ii_body :: string
  ii_url :: string
  ii_pr :: "(string \<times> string \<times> string) option"

text \<open>An apply the daemon refused: the status it answered with, if it answered, and the error's text.\<close>

record 'w github_ports =
  gp_host :: "'w host"
  gp_apply :: "string \<Rightarrow> json \<Rightarrow> 'w \<Rightarrow> 'w \<times> ((nat option \<times> string) + unit)"
  gp_default_branch :: "u64 \<Rightarrow> string \<Rightarrow> 'w \<Rightarrow> 'w \<times> (github_error + string)"
  gp_read_file :: "u64 \<Rightarrow> string \<Rightarrow> string \<Rightarrow> string \<Rightarrow> 'w \<Rightarrow> 'w \<times> (github_error + string option)"
  gp_permission :: "u64 \<Rightarrow> string \<Rightarrow> string \<Rightarrow> 'w \<Rightarrow> 'w \<times> (github_error + permission)"
  gp_comment :: "u64 \<Rightarrow> string \<Rightarrow> u64 \<Rightarrow> ustr \<Rightarrow> 'w \<Rightarrow> 'w \<times> (github_error + u64)"
  gp_edit_comment :: "u64 \<Rightarrow> string \<Rightarrow> u64 \<Rightarrow> ustr \<Rightarrow> 'w \<Rightarrow> 'w \<times> (github_error + unit)"
  gp_react :: "u64 \<Rightarrow> string \<Rightarrow> target \<Rightarrow> string \<Rightarrow> 'w \<Rightarrow> 'w \<times> (github_error + unit)"
  gp_review_comments :: "u64 \<Rightarrow> string \<Rightarrow> u64 \<Rightarrow> u64 \<Rightarrow> 'w \<Rightarrow> 'w \<times> (github_error + review_comments)"
  gp_issue :: "u64 \<Rightarrow> string \<Rightarrow> u64 \<Rightarrow> 'w \<Rightarrow> 'w \<times> (github_error + issue_info)"
  gp_now :: "'w \<Rightarrow> 'w \<times> instant"
  gp_now_secs :: "'w \<Rightarrow> 'w \<times> u64"
  gp_sleep :: "duration \<Rightarrow> 'w \<Rightarrow> 'w"
  gp_walk :: "string list \<Rightarrow> string list"
  gp_yaml :: "string \<Rightarrow> string + json"
  gp_debug :: "string \<Rightarrow> string"
  gp_rows :: row_text
  gp_json :: json_text
  gp_unicode :: unicode
  gp_error_text :: "github_error \<Rightarrow> string"

section \<open>State\<close>

definition CLOSED_RETENTION :: duration where "CLOSED_RETENTION = from_secs (7 * 24 * 3600)"
definition STATUS_COALESCE :: duration where "STATUS_COALESCE = from_secs 2"
definition START_UP_ALLOWANCE :: duration where "START_UP_ALLOWANCE = from_secs 60"
definition PERMISSION_TTL :: duration where "PERMISSION_TTL = from_secs 300"
definition MAX_INLINE_RETRY :: duration where "MAX_INLINE_RETRY = from_secs 3"

record sent_prompt =
  sp_repo :: string
  sp_installation :: u64
  sp_number :: u64
  sp_target :: target
  sp_agent :: string
  sp_asker :: string
  sp_window :: duration

datatype unconfirmed_reason = ExpiredPrompt | SkippedPrompt | EvictedPrompt

record held_review =
  hr_reviewer :: string
  hr_message :: ustr

datatype tracking = OtherEvent | OpenedQuestion "question list" | UnparsedQuestion | ClosedQuestion "open_question option"

record first_prompt_facts =
  fp_title :: string
  fp_body :: string
  fp_url :: string
  fp_branch :: string
  fp_base :: string
  fp_asker :: string
  fp_comment :: "string option"
  fp_resumed :: bool
  fp_target :: target

datatype expectation = ExpectActivate | ExpectDeactivate

datatype github_command =
    Configure github_daemon_config
  | Activate string github_agent_config
  | Deactivate string
  | Events u64 "hook_event list"
  | Phases "phase_change list"
  | WebhookCommand webhook_event
  | Tick
  | ListenerFailed string

definition command_lane :: "github_command \<Rightarrow> lane" where
  "command_lane c =
     (case c of
        Configure _ \<Rightarrow> Control | Activate _ _ \<Rightarrow> Control | Deactivate _ \<Rightarrow> Control | ListenerFailed _ \<Rightarrow> Control
      | WebhookCommand _ \<Rightarrow> Inbound
      | Events _ _ \<Rightarrow> Lossy | Phases _ \<Rightarrow> Lossy
      | Tick \<Rightarrow> Latest)"

definition command_bytes :: "github_command \<Rightarrow> nat" where
  "command_bytes c = (case c of WebhookCommand ev \<Rightarrow> event_bytes ev | _ \<Rightarrow> 0)"

text \<open>The last failure of each kind, numbered, and the health cell derived from them.\<close>

datatype fault = TokenFault | ListenerFault | ApplyFault

record faults =
  ft_token :: "(nat \<times> string) option"
  ft_listener :: "(nat \<times> string) option"
  ft_apply :: "(nat \<times> string) option"
  ft_seq :: nat
  ft_cell :: health

definition new_faults :: faults where
  "new_faults = \<lparr>ft_token = None, ft_listener = None, ft_apply = None, ft_seq = 0, ft_cell = None\<rparr>"

definition set_fault :: "fault \<Rightarrow> (nat \<times> string) option \<Rightarrow> faults \<Rightarrow> faults" where
  "set_fault kind v f =
     (case kind of TokenFault \<Rightarrow> f\<lparr>ft_token := v\<rparr> | ListenerFault \<Rightarrow> f\<lparr>ft_listener := v\<rparr> | ApplyFault \<Rightarrow> f\<lparr>ft_apply := v\<rparr>)"

definition last_faults :: "faults \<Rightarrow> (nat \<times> string) list" where
  "last_faults f = List.map_filter id [ft_token f, ft_listener f, ft_apply f]"

definition newest :: "(nat \<times> string) list \<Rightarrow> (nat \<times> string) option" where
  "newest xs = fold (\<lambda>x best. case best of None \<Rightarrow> Some x | Some y \<Rightarrow> if fst y \<le> fst x then Some x else Some y) xs None"

definition derive :: "faults \<Rightarrow> faults" where
  "derive f =
     f\<lparr>ft_cell := (case newest (last_faults f) of
         Some (_, message) \<Rightarrow> health_fail message (ft_cell f) | None \<Rightarrow> health_ok (ft_cell f))\<rparr>"

definition fault_fail :: "fault \<Rightarrow> string \<Rightarrow> faults \<Rightarrow> faults" where
  "fault_fail kind message f =
     (let f = f\<lparr>ft_seq := ft_seq f + 1\<rparr> in derive (set_fault kind (Some (ft_seq f, message)) f))"

definition fault_ok :: "fault \<Rightarrow> faults \<Rightarrow> faults" where
  "fault_ok kind f = derive (set_fault kind None f)"

text \<open>A call made through a port; an action carries whether it succeeded and whether the agent's question was open.\<close>

datatype call =
    Acted string plugin_action bool bool
  | Commented string u64 ustr "u64 option"
  | Edited string u64 ustr bool
  | Reacted string target string
  | Applied string json bool
  | Panicked

record 'w github =
  gh_config :: "github_daemon_config option"
  gh_slug :: string
  gh_pending :: "github_command list"
  gh_agents :: "(string, github_agent_config) btree"
  gh_ledger :: ledger
  gh_questions :: questions
  gh_deliveries :: "sent_prompt deliveries"
  gh_statuses :: "(string, status_post) btree"
  gh_status_dirty :: "(string, instant) btree"
  gh_rows_dirty :: "(string, unit) btree"
  gh_permissions :: "(string \<times> string, permission \<times> instant) btree"
  gh_held :: "(string, held_review list) btree"
  gh_ended_notice :: "(string, unit) btree"
  gh_first_prompts :: "(string, first_prompt_facts) btree"
  gh_expected :: "(string, expectation list) btree"
  gh_crew_notices :: "(string, string) btree"
  gh_unconfirmed :: "(sent_prompt \<times> unconfirmed_reason) list"
  gh_faults :: faults
  gh_world :: 'w
  gh_calls :: "call list"

definition new_github :: "string \<Rightarrow> 'w \<Rightarrow> 'w github" where
  "new_github slug w =
     \<lparr>gh_config = None, gh_slug = slug, gh_pending = [], gh_agents = [], gh_ledger = new_ledger, gh_questions = [],
      gh_deliveries = [], gh_statuses = [], gh_status_dirty = [], gh_rows_dirty = [], gh_permissions = [], gh_held = [],
      gh_ended_notice = [], gh_first_prompts = [], gh_expected = [], gh_crew_notices = [], gh_unconfirmed = [],
      gh_faults = new_faults, gh_world = w, gh_calls = []\<rparr>"

definition github_load :: "'w github_ports \<Rightarrow> 'w github \<Rightarrow> 'w github" where
  "github_load ports a =
     (let (w, r) = ledger_load (gp_rows ports) (gp_host ports) (gh_world a);
          a = a\<lparr>gh_world := w, gh_ledger := (case r of Inr s \<Rightarrow> s | Inl _ \<Rightarrow> gh_ledger a)\<rparr>;
          (w, r) = questions_load (gp_json ports) (gp_host ports) (gh_world a)
      in a\<lparr>gh_world := w, gh_questions := (case r of Inr q \<Rightarrow> q | Inl _ \<Rightarrow> gh_questions a)\<rparr>)"

definition gh_now :: "'w github_ports \<Rightarrow> 'w github \<Rightarrow> 'w github \<times> instant" where
  "gh_now ports a = (case gp_now ports (gh_world a) of (w, now) \<Rightarrow> (a\<lparr>gh_world := w\<rparr>, now))"

definition gh_now_secs :: "'w github_ports \<Rightarrow> 'w github \<Rightarrow> 'w github \<times> u64" where
  "gh_now_secs ports a = (case gp_now_secs ports (gh_world a) of (w, now) \<Rightarrow> (a\<lparr>gh_world := w\<rparr>, now))"

definition on_ledger :: "(ledger \<times> 'w \<Rightarrow> (ledger \<times> 'w) \<times> 'r) \<Rightarrow> 'w github \<Rightarrow> 'w github \<times> 'r" where
  "on_ledger f a = (case f (gh_ledger a, gh_world a) of ((s, w), r) \<Rightarrow> (a\<lparr>gh_ledger := s, gh_world := w\<rparr>, r))"

definition on_questions :: "(questions \<times> 'w \<Rightarrow> (questions \<times> 'w) \<times> 'r) \<Rightarrow> 'w github \<Rightarrow> 'w github \<times> 'r" where
  "on_questions f a = (case f (gh_questions a, gh_world a) of ((q, w), r) \<Rightarrow> (a\<lparr>gh_questions := q, gh_world := w\<rparr>, r))"

definition log_call :: "call \<Rightarrow> 'w github \<Rightarrow> 'w github" where
  "log_call c a = a\<lparr>gh_calls := gh_calls a @ [c]\<rparr>"

text \<open>A call to GitHub with the world it leaves.\<close>

definition retry_once ::
  "'w github_ports \<Rightarrow> ('w \<Rightarrow> 'w \<times> (github_error + 'r)) \<Rightarrow> 'w github \<Rightarrow> 'w github \<times> (github_error + 'r)" where
  "retry_once ports f a =
     (case f (gh_world a) of
        (w, Inl (RateLimited ms)) \<Rightarrow>
          if from_millis (unat ms) > MAX_INLINE_RETRY then (a\<lparr>gh_world := w\<rparr>, Inl (RateLimited ms))
          else (case f (gp_sleep ports (from_millis (unat ms)) w) of (w, r) \<Rightarrow> (a\<lparr>gh_world := w\<rparr>, r))
      | (w, r) \<Rightarrow> (a\<lparr>gh_world := w\<rparr>, r))"

text \<open>\<open>cfg\<close>: what runs only once configured; anything else would panic.\<close>

definition with_cfg :: "(github_daemon_config \<Rightarrow> 'w github \<Rightarrow> 'w github) \<Rightarrow> 'w github \<Rightarrow> 'w github" where
  "with_cfg f a = (case gh_config a of Some c \<Rightarrow> f c a | None \<Rightarrow> log_call Panicked a)"

section \<open>Posting\<close>

definition github_failed :: "'w github_ports \<Rightarrow> github_error \<Rightarrow> 'w github \<Rightarrow> 'w github" where
  "github_failed ports e a =
     (case e of
        AuthError _ \<Rightarrow> a\<lparr>gh_faults := fault_fail TokenFault (''github: '' @ gp_error_text ports e) (gh_faults a)\<rparr>
      | _ \<Rightarrow> a)"

fun post_parts ::
  "'w github_ports \<Rightarrow> u64 \<Rightarrow> string \<Rightarrow> u64 \<Rightarrow> ustr list \<Rightarrow> u64 option \<Rightarrow> 'w github \<Rightarrow> 'w github \<times> u64 option" where
  "post_parts ports installation repo number [] first a = (a, first)"
| "post_parts ports installation repo number (part # parts) first a =
     (case retry_once ports (gp_comment ports installation repo number part) a of
        (a, Inr i) \<Rightarrow>
          post_parts ports installation repo number parts (case first of None \<Rightarrow> Some i | Some _ \<Rightarrow> first)
            ((log_call (Commented repo number part (Some i)) a)\<lparr>gh_faults := fault_ok TokenFault (gh_faults a)\<rparr>)
      | (a, Inl e) \<Rightarrow> (github_failed ports e (log_call (Commented repo number part None) a), first))"

definition post :: "'w github_ports \<Rightarrow> u64 \<Rightarrow> string \<Rightarrow> u64 \<Rightarrow> ustr \<Rightarrow> 'w github \<Rightarrow> 'w github \<times> u64 option" where
  "post ports installation repo number body a =
     (let max_parts = (case gh_config a of Some c \<Rightarrow> gd_max_parts c | None \<Rightarrow> DEFAULT_MAX_PARTS)
      in post_parts ports installation repo number (split_body body COMMENT_LIMIT max_parts) None a)"

definition react :: "'w github_ports \<Rightarrow> u64 \<Rightarrow> string \<Rightarrow> target \<Rightarrow> string \<Rightarrow> 'w github \<Rightarrow> 'w github" where
  "react ports installation repo target content a =
     (case gp_react ports installation repo target content (gh_world a) of (w, _) \<Rightarrow>
        log_call (Reacted repo target content) (a\<lparr>gh_world := w\<rparr>))"

definition act :: "'w github_ports \<Rightarrow> string \<Rightarrow> plugin_action \<Rightarrow> 'w github \<Rightarrow> 'w github \<times> (string + unit)" where
  "act ports agent action a =
     (case host_action (gp_host ports) agent action (gh_world a) of (w, r) \<Rightarrow>
        (log_call (Acted agent action (is_ok r) (is_open (gh_questions a) agent)) (a\<lparr>gh_world := w\<rparr>), r))"

definition apply_fleet :: "'w github_ports \<Rightarrow> string \<Rightarrow> json \<Rightarrow> 'w github \<Rightarrow> 'w github \<times> ((nat option \<times> string) + unit)" where
  "apply_fleet ports fleet file a =
     (case gp_apply ports fleet file (gh_world a) of (w, r) \<Rightarrow>
        (log_call (Applied fleet file (is_ok r)) (a\<lparr>gh_world := w\<rparr>), r))"

definition REFUSED :: ustr where
  "REFUSED = points ''the daemon refused the message''"

definition not_delivered :: "string \<Rightarrow> ustr" where
  "not_delivered agent = points ''not delivered to '' @ chars agent @ points '': '' @ REFUSED"

definition apply_refusal :: "nat option \<times> string \<Rightarrow> ustr" where
  "apply_refusal e =
     (if fst e = Some 400 then chars (snd e) else points ''the daemon refused the apply; see the plugin log'')"

definition github_refusal :: "string \<Rightarrow> ustr" where
  "github_refusal kind = points ''github: '' @ points kind @ points '' failed; see the plugin log''"

definition idle_wording :: "duration \<Rightarrow> ustr" where
  "idle_wording d =
     (let secs = d div from_secs 1
      in if secs \<ge> 3600 \<and> secs mod 3600 = 0 then decimal (secs div 3600) @ points ''h''
         else if secs \<ge> 60 \<and> secs mod 60 = 0 then decimal (secs div 60) @ points ''m''
         else decimal secs @ points ''s'')"

fun strip_bold :: "ustr \<Rightarrow> ustr" where
  "strip_bold (c # d # s) = (if c = 42 \<and> d = 42 then strip_bold s else c # strip_bold (d # s))"
| "strip_bold s = s"

definition status_line :: "hook_event \<Rightarrow> ustr" where
  "status_line event = strip_bold (event_message event)"

definition head_or_default :: "string \<Rightarrow> string \<Rightarrow> kind \<Rightarrow> u64 \<Rightarrow> (string \<times> string \<times> string) option \<Rightarrow> string" where
  "head_or_default fleet crew kind number pr =
     (case pr of
        Some (h, _, _) \<Rightarrow> h
      | None \<Rightarrow> ''balerix/'' @ fleet @ ''/'' @ crew @ ''/'' @ Mention.agent_name kind number)"

section \<open>Rows and the status comment\<close>

definition touch :: "'w github_ports \<Rightarrow> string \<Rightarrow> 'w github \<Rightarrow> 'w github" where
  "touch ports agent a =
     (let a = (case row_of (gh_ledger a) agent of
            Some _ \<Rightarrow>
              (case gh_now_secs ports a of (a, now) \<Rightarrow>
                 a\<lparr>gh_ledger := update_row agent (\<lambda>r. r\<lparr>gs_last_activity := now\<rparr>) (gh_ledger a)\<rparr>)
          | None \<Rightarrow> a)
      in a\<lparr>gh_rows_dirty := bt_insert agent () (gh_rows_dirty a)\<rparr>)"

definition status_of :: "string \<Rightarrow> 'w github \<Rightarrow> status_post" where
  "status_of agent a = (case bt_get (gh_statuses a) agent of Some s \<Rightarrow> s | None \<Rightarrow> new_status agent)"

definition mark_status :: "'w github_ports \<Rightarrow> string \<Rightarrow> 'w github \<Rightarrow> 'w github" where
  "mark_status ports agent a =
     (if bt_contains (gh_status_dirty a) agent then a
      else case gh_now ports a of (a, now) \<Rightarrow> a\<lparr>gh_status_dirty := bt_insert agent now (gh_status_dirty a)\<rparr>)"

definition line :: "'w github_ports \<Rightarrow> string \<Rightarrow> ustr \<Rightarrow> 'w github \<Rightarrow> 'w github" where
  "line ports agent text a =
     (let (a, now) = gh_now_secs ports a;
          a = a\<lparr>gh_statuses := bt_insert agent (push_line now text (status_of agent a)) (gh_statuses a)\<rparr>
      in mark_status ports agent a)"

text \<open>A comment under the row's number, posted when there is none to edit.\<close>

definition repost_status :: "'w github_ports \<Rightarrow> string \<Rightarrow> session \<Rightarrow> ustr \<Rightarrow> 'w github \<Rightarrow> 'w github" where
  "repost_status ports agent row body a =
     (case retry_once ports (gp_comment ports (gs_installation row) (gs_repo row) (gs_number row) body) a of
        (a, Inr i) \<Rightarrow>
          let a = log_call (Commented (gs_repo row) (gs_number row) body (Some i)) a
          in a\<lparr>gh_ledger := update_row agent (\<lambda>r. r\<lparr>gs_status_comment := Some i\<rparr>) (gh_ledger a),
               gh_rows_dirty := bt_insert agent () (gh_rows_dirty a)\<rparr>
      | (a, Inl e) \<Rightarrow> github_failed ports e (log_call (Commented (gs_repo row) (gs_number row) body None) a))"

definition flush_status :: "'w github_ports \<Rightarrow> string \<Rightarrow> 'w github \<Rightarrow> 'w github" where
  "flush_status ports agent a =
     (let a = a\<lparr>gh_status_dirty := bt_remove agent (gh_status_dirty a)\<rparr>
      in case (row_of (gh_ledger a) agent, bt_get (gh_statuses a) agent) of
           (Some row, Some status) \<Rightarrow>
             let body = render_status status
             in (case gs_status_comment row of
                   Some i \<Rightarrow>
                     (case retry_once ports (gp_edit_comment ports (gs_installation row) (gs_repo row) i body) a of
                        (a, Inr _) \<Rightarrow> log_call (Edited (gs_repo row) i body True) a
                      | (a, Inl NotFound) \<Rightarrow> repost_status ports agent row body (log_call (Edited (gs_repo row) i body False) a)
                      | (a, Inl e) \<Rightarrow> github_failed ports e (log_call (Edited (gs_repo row) i body False) a))
                 | None \<Rightarrow> repost_status ports agent row body a)
         | _ \<Rightarrow> a)"

definition refresh_installation :: "string \<Rightarrow> u64 \<Rightarrow> 'w github \<Rightarrow> 'w github" where
  "refresh_installation agent installation a =
     (case row_of (gh_ledger a) agent of
        Some r \<Rightarrow>
          if gs_installation r \<noteq> installation
          then a\<lparr>gh_ledger := update_row agent (\<lambda>r. r\<lparr>gs_installation := installation\<rparr>) (gh_ledger a),
                 gh_rows_dirty := bt_insert agent () (gh_rows_dirty a)\<rparr>
          else a
      | None \<Rightarrow> a)"

definition redelivered :: "string \<Rightarrow> u64 \<Rightarrow> seen \<Rightarrow> 'w github \<Rightarrow> bool" where
  "redelivered repo number i a =
     (case Option.bind (by_number (gh_ledger a) repo number) (row_of (gh_ledger a)) of Some r \<Rightarrow> has_seen i r | None \<Rightarrow> False)"

definition remember :: "'w github_ports \<Rightarrow> string \<Rightarrow> seen \<Rightarrow> 'w github \<Rightarrow> 'w github" where
  "remember ports agent i a =
     (case row_of (gh_ledger a) agent of
        None \<Rightarrow> a
      | Some row \<Rightarrow>
          (case see i row of
             (row, False) \<Rightarrow> a
           | (row, True) \<Rightarrow>
               (case on_ledger (set_row (gp_rows ports) (gp_host ports) agent row) a of
                  (a, Inr _) \<Rightarrow> a\<lparr>gh_rows_dirty := bt_remove agent (gh_rows_dirty a)\<rparr>
                | (a, Inl _) \<Rightarrow>
                    a\<lparr>gh_ledger := update_row agent (\<lambda>r. fst (see i r)) (gh_ledger a),
                      gh_rows_dirty := bt_insert agent () (gh_rows_dirty a)\<rparr>)))"

section \<open>What the daemon's calls were expected\<close>

definition expect :: "string \<Rightarrow> expectation \<Rightarrow> 'w github \<Rightarrow> 'w github" where
  "expect agent c a =
     a\<lparr>gh_expected := bt_insert agent
         ((case bt_get (gh_expected a) agent of Some l \<Rightarrow> l | None \<Rightarrow> []) @ [c]) (gh_expected a)\<rparr>"

definition arrived :: "string \<Rightarrow> expectation \<Rightarrow> 'w github \<Rightarrow> 'w github \<times> bool" where
  "arrived agent c a =
     (case bt_get (gh_expected a) agent of
        None \<Rightarrow> (a, False)
      | Some l \<Rightarrow>
          if c \<notin> set l then (a, False)
          else
            let rest = tl (dropWhile (\<lambda>x. x \<noteq> c) l);
                stale = (c = ExpectDeactivate \<and> ExpectActivate \<in> set rest)
            in (a\<lparr>gh_expected := (if rest = [] then bt_remove agent (gh_expected a)
                                 else bt_insert agent rest (gh_expected a))\<rparr>, stale))"

section \<open>Who is heard\<close>

definition is_self :: "author \<Rightarrow> 'w github \<Rightarrow> bool" where
  "is_self author a \<longleftrightarrow> au_bot author \<or> eq_nocase (au_login author) (gh_slug a @ ''[bot]'')"

definition ask_permission ::
  "'w github_ports \<Rightarrow> u64 \<Rightarrow> string \<times> string \<Rightarrow> instant \<Rightarrow> 'w github \<Rightarrow> 'w github \<times> bool" where
  "ask_permission ports installation key now a =
     (let known = (\<lambda>p a. (a\<lparr>gh_permissions := bt_insert key (p, now + PERMISSION_TTL) (gh_permissions a)\<rparr>, may_prompt p))
      in case retry_once ports (gp_permission ports installation (fst key) (snd key)) a of
           (a, Inr p) \<Rightarrow> known p a
         | (a, Inl NotFound) \<Rightarrow> known NoPermission a
         | (a, Inl e) \<Rightarrow> (github_failed ports e a, False))"

definition permitted :: "'w github_ports \<Rightarrow> u64 \<Rightarrow> string \<Rightarrow> author \<Rightarrow> 'w github \<Rightarrow> 'w github \<times> bool" where
  "permitted ports installation repo author a =
     (if is_self author a \<or> eq_nocase (au_login author) (gh_slug a) then (a, False)
      else
        let key = (repo, au_login author);
            (a, now) = gh_now ports a
        in (case bt_get (gh_permissions a) key of
              Some (p, until) \<Rightarrow>
                if until > now then (a, may_prompt p) else ask_permission ports installation key now a
            | None \<Rightarrow> ask_permission ports installation key now a))"

section \<open>Prompts and answers\<close>

definition key_delay :: "string \<Rightarrow> 'w github \<Rightarrow> u64" where
  "key_delay agent a = (case bt_get (gh_agents a) agent of Some c \<Rightarrow> gc_key_delay_ms c | None \<Rightarrow> DEFAULT_KEY_DELAY_MS)"

definition track ::
  "'w github_ports \<Rightarrow> string \<Rightarrow> u64 \<Rightarrow> string \<Rightarrow> u64 \<Rightarrow> string \<Rightarrow> target \<Rightarrow> ustr \<Rightarrow> duration \<Rightarrow> 'w github \<Rightarrow> 'w github" where
  "track ports agent installation repo number asker target body allowance a =
     (case classify body of
        Command \<Rightarrow> a
      | Prompt \<Rightarrow>
          let window = (case bt_get (gh_agents a) agent of Some c \<Rightarrow> gc_confirm_window c | None \<Rightarrow> DEFAULT_CONFIRM_WINDOW);
              window = (if window = 0 then window else window + allowance);
              sp = \<lparr>sp_repo = repo, sp_installation = installation, sp_number = number, sp_target = target,
                    sp_agent = agent, sp_asker = asker, sp_window = window\<rparr>;
              (a, now) = gh_now ports a;
              (d, evicted) = sent (gh_deliveries a) agent body sp now window;
              a = a\<lparr>gh_deliveries := d\<rparr>
          in (case evicted of
                Some e \<Rightarrow> a\<lparr>gh_unconfirmed := gh_unconfirmed a @ [(e, EvictedPrompt)]\<rparr>
              | None \<Rightarrow> a))"

definition press_enter :: "'w github_ports \<Rightarrow> string \<Rightarrow> 'w github \<Rightarrow> 'w github" where
  "press_enter ports agent a = fst (act ports agent (SendKeys [KeyPress Enter] (key_delay agent a)) a)"

definition unconfirmed_line :: "sent_prompt \<Rightarrow> unconfirmed_reason \<Rightarrow> ustr" where
  "unconfirmed_line sp why =
     points ''prompt from @'' @ chars (sp_asker sp)
     @ (case why of
          ExpiredPrompt \<Rightarrow> points '' not confirmed after '' @ decimal (sp_window sp div from_secs 1) @ points ''s''
        | SkippedPrompt \<Rightarrow> points '' skipped: Claude took a later one first''
        | EvictedPrompt \<Rightarrow> points '' dropped: too many pending'')"

definition unconfirmed :: "'w github_ports \<Rightarrow> unconfirmed_reason \<Rightarrow> sent_prompt \<Rightarrow> 'w github \<Rightarrow> 'w github" where
  "unconfirmed ports why sp a =
     line ports (sp_agent sp) (unconfirmed_line sp why)
       (react ports (sp_installation sp) (sp_repo sp) (sp_target sp) CONFUSED a)"

definition reaction_content :: "reaction \<Rightarrow> string" where
  "reaction_content r =
     (case r of reaction.Ack \<Rightarrow> PLUS_ONE | reaction.Refused \<Rightarrow> CONFUSED | reaction.Failed \<Rightarrow> MINUS_ONE | reaction.Confirmed \<Rightarrow> HOORAY)"

text \<open>Where a comment came from, for the posts and reactions that answer it.\<close>

record comment_place =
  cp_installation :: u64
  cp_repo :: string
  cp_number :: u64
  cp_comment :: u64

definition post_at :: "'w github_ports \<Rightarrow> comment_place \<Rightarrow> ustr \<Rightarrow> 'w github \<Rightarrow> 'w github \<times> u64 option" where
  "post_at ports p body = post ports (cp_installation p) (cp_repo p) (cp_number p) body"

definition react_at :: "'w github_ports \<Rightarrow> comment_place \<Rightarrow> string \<Rightarrow> 'w github \<Rightarrow> 'w github" where
  "react_at ports p content = react ports (cp_installation p) (cp_repo p) (OnComment (cp_comment p)) content"

definition commit_decision ::
  "'w github_ports \<Rightarrow> string \<Rightarrow> comment_place \<Rightarrow> decision \<Rightarrow> string option \<Rightarrow> 'w github \<Rightarrow> 'w github" where
  "commit_decision ports agent p d echo a =
     (let st = (if gates_on_post d then with_echo echo (dn_stage d) else dn_stage d);
          a = a\<lparr>gh_questions := set_stage agent st (gh_questions a)\<rparr>
      in case dn_react d of Some r \<Rightarrow> react_at ports p (reaction_content r) a | None \<Rightarrow> a)"

definition send_decision ::
  "'w github_ports \<Rightarrow> string \<Rightarrow> comment_place \<Rightarrow> decision \<Rightarrow> string option \<Rightarrow> 'w github \<Rightarrow> 'w github" where
  "send_decision ports agent p d echo a =
     (case dn_send d of
        None \<Rightarrow> commit_decision ports agent p d echo a
      | Some action \<Rightarrow>
          (case act ports agent action a of
             (a, Inr _) \<Rightarrow> commit_decision ports agent p d echo a
           | (a, Inl _) \<Rightarrow>
               let a = a\<lparr>gh_questions := set_stage agent (dn_fallback d) (gh_questions a)\<rparr>
               in react_at ports p MINUS_ONE (fst (post_at ports p (not_delivered agent) a))))"

definition execute_decision :: "'w github_ports \<Rightarrow> string \<Rightarrow> comment_place \<Rightarrow> decision \<Rightarrow> 'w github \<Rightarrow> 'w github" where
  "execute_decision ports agent p d a =
     (case dn_post d of
        None \<Rightarrow> send_decision ports agent p d None a
      | Some body \<Rightarrow>
          (case post_at ports p body a of
             (a, Some i) \<Rightarrow> send_decision ports agent p d (Some (nat_digits (unat i))) a
           | (a, None) \<Rightarrow>
               if gates_on_post d
               then react_at ports p MINUS_ONE (a\<lparr>gh_questions := set_stage agent (dn_fallback d) (gh_questions a)\<rparr>)
               else send_decision ports agent p d None a))"

definition on_answer :: "'w github_ports \<Rightarrow> string \<Rightarrow> comment_place \<Rightarrow> ustr \<Rightarrow> 'w github \<Rightarrow> 'w github" where
  "on_answer ports agent p body a =
     (case bt_get (gh_questions a) agent of
        None \<Rightarrow> a
      | Some oq \<Rightarrow>
          (case gh_now ports a of (a, now) \<Rightarrow>
             with_cfg (\<lambda>c a.
               case on_reply (gp_unicode ports) oq body (key_delay agent a) now (allowlist_with (gd_slash_commands c)) of
                 None \<Rightarrow> log_call Panicked a
               | Some d \<Rightarrow> execute_decision ports agent p d a) a))"

definition route_prompt :: "'w github_ports \<Rightarrow> string \<Rightarrow> comment_place \<Rightarrow> string \<Rightarrow> ustr \<Rightarrow> 'w github \<Rightarrow> 'w github" where
  "route_prompt ports agent p asker body a =
     with_cfg (\<lambda>c a.
       let text = as_prompt body
       in if classify text = Command \<and> \<not> allows (allowlist_with (gd_slash_commands c)) text
          then
            let a = fst (post_at ports p (points ''not sent to '' @ chars agent @ points '': '' @ COMMAND_REFUSED) a)
            in react_at ports p CONFUSED a
          else
            case act ports agent (SendText (utf8 text) True) a of
              (a, Inr _) \<Rightarrow>
                track ports agent (cp_installation p) (cp_repo p) (cp_number p) asker (OnComment (cp_comment p)) text 0
                  (react_at ports p EYES a)
            | (a, Inl _) \<Rightarrow> react_at ports p MINUS_ONE (fst (post_at ports p (not_delivered agent) a))) a"

definition on_message :: "'w github_ports \<Rightarrow> string \<Rightarrow> comment_place \<Rightarrow> string \<Rightarrow> ustr \<Rightarrow> 'w github \<Rightarrow> 'w github" where
  "on_message ports agent p asker body a =
     (let a = touch ports agent a
      in if is_open (gh_questions a) agent then on_answer ports agent p body a
         else route_prompt ports agent p asker body a)"

section \<open>Reviews\<close>

definition deliver_review :: "'w github_ports \<Rightarrow> string \<Rightarrow> held_review \<Rightarrow> 'w github \<Rightarrow> 'w github" where
  "deliver_review ports agent h a =
     (case act ports agent (SendText (utf8 (hr_message h)) True) a of
        (a, Inr _) \<Rightarrow> line ports agent (points ''review from @'' @ chars (hr_reviewer h) @ points '' delivered'') a
      | (a, Inl _) \<Rightarrow>
          line ports agent (points ''review from @'' @ chars (hr_reviewer h) @ points '' not delivered: '' @ REFUSED) a)"

definition release_held :: "'w github_ports \<Rightarrow> string \<Rightarrow> 'w github \<Rightarrow> 'w github" where
  "release_held ports agent a =
     (if is_open (gh_questions a) agent then a
      else fold (deliver_review ports agent) (case bt_get (gh_held a) agent of Some hs \<Rightarrow> hs | None \<Rightarrow> [])
             (a\<lparr>gh_held := bt_remove agent (gh_held a)\<rparr>))"

definition hold_review :: "'w github_ports \<Rightarrow> string \<Rightarrow> held_review \<Rightarrow> 'w github \<Rightarrow> 'w github" where
  "hold_review ports agent h a =
     (let held = (case bt_get (gh_held a) agent of Some hs \<Rightarrow> hs | None \<Rightarrow> []);
          a = a\<lparr>gh_held := bt_insert agent (held @ [h]) (gh_held a)\<rparr>
      in if is_open (gh_questions a) agent
         then line ports agent (points ''review from @'' @ chars (hr_reviewer h) @ points '' held'') a
         else release_held ports agent a)"

definition on_review ::
  "'w github_ports \<Rightarrow> u64 \<Rightarrow> string \<Rightarrow> u64 \<Rightarrow> author \<Rightarrow> u64 \<Rightarrow> string \<Rightarrow> string \<Rightarrow> string \<Rightarrow> 'w github \<Rightarrow> 'w github" where
  "on_review ports installation repo number author review_id state body commit a =
     (case by_number (gh_ledger a) repo number of
        None \<Rightarrow> a
      | Some agent \<Rightarrow>
          let a = refresh_installation agent installation a
          in (case row_of (gh_ledger a) agent of
                None \<Rightarrow> a
              | Some row \<Rightarrow>
                  if redelivered repo number (SeenReview review_id) a then a
                  else if gs_closed row \<or> gs_kind row \<noteq> Pr then a
                  else (case permitted ports installation repo author a of
                          (a, False) \<Rightarrow> a
                        | (a, True) \<Rightarrow>
                            (case retry_once ports (gp_review_comments ports installation repo number review_id) a of
                               (a, Inl e) \<Rightarrow> github_failed ports e a
                             | (a, Inr rs) \<Rightarrow>
                                 let a = remember ports agent (SeenReview review_id) a;
                                     base = (case gs_base row of Some b \<Rightarrow> b | None \<Rightarrow> ''main'')
                                 in (case review_prompt (au_login author) state commit body (rs_comments rs) (rs_more rs) base of
                                       None \<Rightarrow> a
                                     | Some message \<Rightarrow>
                                         hold_review ports agent \<lparr>hr_reviewer = au_login author, hr_message = message\<rparr> a)))))"

section \<open>Hook events\<close>

definition track_question :: "'w github_ports \<Rightarrow> hook_event \<Rightarrow> 'w github \<Rightarrow> 'w github \<times> tracking" where
  "track_question ports event a =
     (let agent = ev_agent event; name = ev_name event
      in if closes_dialog name
         then
           let a = fst (on_questions (question_clear (gp_host ports) agent) a)
           in (if name = ''Stop'' \<or> name = ''UserPromptSubmit'' then release_held ports agent a else a, OtherEvent)
         else if \<not> about_question event then (a, OtherEvent)
         else if name = ''PreToolUse''
         then
           let input = (case json_get (ev_payload event) ''tool_input'' of Some v \<Rightarrow> v | None \<Rightarrow> JNull)
           in case question_parse input of
                Some questions \<Rightarrow>
                  (fst (on_questions (\<lambda>qw. (question_open (gp_json ports) (gp_host ports) agent input questions qw, ())) a),
                   OpenedQuestion questions)
              | None \<Rightarrow> (a, UnparsedQuestion)
         else if name = ''PostToolUse''
         then case on_questions (question_clear (gp_host ports) agent) a of
                (a, was) \<Rightarrow> (release_held ports agent a, ClosedQuestion was)
         else (a, OtherEvent))"

function replace_text :: "ustr \<Rightarrow> ustr \<Rightarrow> ustr \<Rightarrow> ustr" where
  "replace_text p r s =
     (case s of
        [] \<Rightarrow> []
      | c # cs \<Rightarrow> if p \<noteq> [] \<and> prefix p s then r @ replace_text p r (drop (length p) s) else c # replace_text p r cs)"
  by pat_completeness auto
termination
  by (relation "measure (\<lambda>(p, r, s). length s)") (auto simp: prefix_def)

declare replace_text.simps [simp del]

definition question_comment :: "unicode \<Rightarrow> question list \<Rightarrow> ustr" where
  "question_comment uc questions =
     replace_text (points ''Reply with one line per question, in order: a number or a label.'')
       (points ''Reply with a comment, one line per question, in order: a number or a label.'')
       (replace_text (points ''Reply with a number or a label.'') (points ''Reply with a comment: a number or a label.'')
          (question_message uc questions))"

definition parse_u64 :: "string \<Rightarrow> u64 option" where
  "parse_u64 s =
     (let d = (case strip_prefix ''+'' s of Some r \<Rightarrow> r | None \<Rightarrow> s)
      in if d = [] \<or> \<not> list_all is_ascii_digit d then None
         else let n = digits_value 0 d in if n < 2 ^ 64 then Some (of_nat n) else None)"

definition on_question_event ::
  "'w github_ports \<Rightarrow> u64 \<Rightarrow> string \<Rightarrow> u64 \<Rightarrow> hook_event \<Rightarrow> tracking \<Rightarrow> 'w github \<Rightarrow> 'w github \<times> bool" where
  "on_question_event ports installation repo number event tracking a =
     (case tracking of
        OpenedQuestion questions \<Rightarrow>
          (case post ports installation repo number (question_comment (gp_unicode ports) questions) a of
             (a, Some _) \<Rightarrow> (a\<lparr>gh_questions := mark_posted (ev_agent event) (gh_questions a)\<rparr>, True)
           | (a, None) \<Rightarrow> (a, True))
      | UnparsedQuestion \<Rightarrow> (a, False)
      | ClosedQuestion None \<Rightarrow> (a, False)
      | ClosedQuestion (Some oq) \<Rightarrow>
          let answers = (case json_at (ev_payload event) ''/tool_response/answers'' of Some v \<Rightarrow> v | None \<Rightarrow> JNull)
          in (case on_closed oq answers of
                ConfirmedAnswer echo \<Rightarrow>
                  (case Option.bind echo parse_u64 of
                     Some i \<Rightarrow> react ports installation repo (OnComment i) HOORAY a | None \<Rightarrow> a)
              | Mismatch message \<Rightarrow> fst (post ports installation repo number message a)
              | AnsweredAtTerminal message \<Rightarrow> fst (post ports installation repo number message a)
              | Nothing \<Rightarrow> a, True)
      | OtherEvent \<Rightarrow>
          if ev_name event = ''Notification''
             \<and> Option.bind (json_get (ev_payload event) ''notification_type'') as_str = Some ''permission_prompt''
          then case suppress_permission_prompt (ev_agent event) (gh_questions a) of
                 (q, suppressed) \<Rightarrow> (a\<lparr>gh_questions := q\<rparr>, suppressed)
          else (a, False))"

definition settle_deliveries :: "'w github_ports \<Rightarrow> hook_event \<Rightarrow> 'w github \<Rightarrow> 'w github" where
  "settle_deliveries ports event a =
     (let (a, now) = gh_now ports a;
          (d, out) = on_event (gh_deliveries a) event now;
          a = fold (unconfirmed ports SkippedPrompt) (oc_skipped out) (a\<lparr>gh_deliveries := d\<rparr>)
      in case oc_confirmed out of
           Some sp \<Rightarrow> react ports (sp_installation sp) (sp_repo sp) (sp_target sp) PLUS_ONE a
         | None \<Rightarrow> a)"

definition send_first_prompt ::
  "'w github_ports \<Rightarrow> string \<Rightarrow> u64 \<Rightarrow> string \<Rightarrow> u64 \<Rightarrow> kind \<Rightarrow> first_prompt_facts \<Rightarrow> 'w github \<Rightarrow> 'w github" where
  "send_first_prompt ports agent installation repo number kind fp a =
     (let text = first_prompt
            \<lparr>ps_repo = repo, ps_kind = kind, ps_number = number, ps_title = fp_title fp, ps_url = fp_url fp,
             ps_body = fp_body fp, ps_branch = fp_branch fp, ps_base = fp_base fp, ps_asker = fp_asker fp,
             ps_comment = fp_comment fp, ps_resumed = fp_resumed fp\<rparr>
      in case act ports agent (SendText (utf8 text) True) a of
           (a, Inr _) \<Rightarrow> track ports agent installation repo number (fp_asker fp) (fp_target fp) text START_UP_ALLOWANCE a
         | (a, Inl _) \<Rightarrow>
             react ports installation repo (fp_target fp) MINUS_ONE
               (fst (post ports installation repo number (not_delivered agent) a)))"

definition note_session :: "hook_event \<Rightarrow> session \<Rightarrow> 'w github \<Rightarrow> 'w github" where
  "note_session event row a =
     (case ev_session_id event of
        None \<Rightarrow> a
      | Some session \<Rightarrow>
          if gs_session_id row = Some session then a
          else
            let agent = ev_agent event
            in a\<lparr>gh_ledger := update_row agent (\<lambda>r. r\<lparr>gs_session_id := Some session\<rparr>) (gh_ledger a),
                 gh_rows_dirty := bt_insert agent () (gh_rows_dirty a),
                 gh_statuses := bt_insert agent ((status_of agent a)\<lparr>sc_session := Some session\<rparr>) (gh_statuses a)\<rparr>)"

definition post_event ::
  "'w github_ports \<Rightarrow> github_agent_config \<Rightarrow> session \<Rightarrow> hook_event \<Rightarrow> tracking \<Rightarrow> 'w github \<Rightarrow> 'w github" where
  "post_event ports config row event tracking a =
     (let agent = ev_agent event; installation = gs_installation row; repo = gs_repo row; number = gs_number row
      in if ev_name event = ''SessionStart'' then
           let source = (case Option.bind (json_get (ev_payload event) ''source'') as_str of Some s \<Rightarrow> s | None \<Rightarrow> ''unknown'');
               a = line ports agent (points ''session started ('' @ chars source @ points '')'') a
           in (case bt_get (gh_first_prompts a) agent of
                 Some fp \<Rightarrow>
                   send_first_prompt ports agent installation repo number (gs_kind row) fp
                     (a\<lparr>gh_first_prompts := bt_remove agent (gh_first_prompts a)\<rparr>)
               | None \<Rightarrow> a)
         else if ev_name event = ''SessionEnd'' then line ports agent (status_line event) a
         else if ev_name event = ''Stop'' then
           let message = text_trim (chars (case Option.bind (json_get (ev_payload event) ''last_assistant_message'') as_str of
                 Some s \<Rightarrow> s | None \<Rightarrow> []))
           in if message = [] then line ports agent (points ''turn finished'') a
              else
                let a = fst (post ports installation repo number message a)
                in if gc_wants config ''Stop'' then line ports agent (points ''turn finished'') a else a
         else (case on_question_event ports installation repo number event tracking a of
                 (a, True) \<Rightarrow> a
               | (a, False) \<Rightarrow> if gc_wants config (ev_name event) then line ports agent (status_line event) a else a))"

definition github_event :: "'w github_ports \<Rightarrow> hook_event \<Rightarrow> 'w github \<Rightarrow> 'w github" where
  "github_event ports event a =
     (case (bt_get (gh_agents a) (ev_agent event), row_of (gh_ledger a) (ev_agent event)) of
        (Some config, Some row) \<Rightarrow>
          let a = touch ports (ev_agent event) a;
              a = settle_deliveries ports event a;
              (a, tracking) = track_question ports event a
          in if gs_closed row \<or> \<not> gc_enabled config then a
             else post_event ports config row event tracking (note_session event row a)
      | _ \<Rightarrow> a)"

definition on_phase :: "'w github_ports \<Rightarrow> phase_change \<Rightarrow> 'w github \<Rightarrow> 'w github" where
  "on_phase ports change a =
     (case (bt_get (gh_agents a) (pc_agent change), row_of (gh_ledger a) (pc_agent change)) of
        (Some config, Some _) \<Rightarrow>
          let agent = pc_agent change;
              phase = points (map lower (phase_debug (pc_to change)));
              a = a\<lparr>gh_statuses := bt_insert agent ((status_of agent a)\<lparr>sc_phase := phase\<rparr>) (gh_statuses a)\<rparr>
          in if gc_phases config then line ports agent (phase_message change) a else mark_status ports agent a
      | _ \<Rightarrow> a)"

section \<open>Ending\<close>

definition refile_failed :: "'w github_ports \<Rightarrow> string \<Rightarrow> session \<Rightarrow> ustr \<Rightarrow> 'w github \<Rightarrow> 'w github" where
  "refile_failed ports agent row message a =
     touch ports agent (fst (post ports (gs_installation row) (gs_repo row) (gs_number row) message a))"

text \<open>The crew the fleet's other open rows run under stays while they do.\<close>

definition keep_crew :: "string \<Rightarrow> u64 \<Rightarrow> prepared \<Rightarrow> 'w github \<Rightarrow> json \<times> string" where
  "keep_crew fleet except prepared a =
     (let runs = (\<lambda>agent. case row_of (gh_ledger a) agent of Some r \<Rightarrow> \<not> gs_closed r \<and> gs_number r \<noteq> except | None \<Rightarrow> False)
      in case find runs (agents_in fleet (gh_ledger a)) of
           Some agent \<Rightarrow>
             let old = crew_part agent
             in if old \<noteq> pp_crew prepared then (rename_crew (pp_file prepared) (pp_crew prepared) old, old)
                else (pp_file prepared, pp_crew prepared)
         | None \<Rightarrow> (pp_file prepared, pp_crew prepared))"

definition close_row :: "'w github_ports \<Rightarrow> string \<Rightarrow> 'w github \<Rightarrow> 'w github" where
  "close_row ports agent a =
     (case gh_now_secs ports a of (a, now) \<Rightarrow>
        (case row_of (gh_ledger a) agent of
           None \<Rightarrow> a
         | Some row \<Rightarrow>
             let shut = (\<lambda>r. r\<lparr>gs_closed := True, gs_last_activity := now\<rparr>);
                 a = a\<lparr>gh_rows_dirty := bt_remove agent (gh_rows_dirty a)\<rparr>
             in (case on_ledger (set_row (gp_rows ports) (gp_host ports) agent (shut row)) a of
                   (a, Inr _) \<Rightarrow> a
                 | (a, Inl _) \<Rightarrow>
                     a\<lparr>gh_ledger := update_row agent shut (gh_ledger a),
                       gh_rows_dirty := bt_insert agent () (gh_rows_dirty a)\<rparr>)))"

definition ended :: "'w github_ports \<Rightarrow> string \<Rightarrow> ustr \<Rightarrow> 'w github \<Rightarrow> 'w github" where
  "ended ports agent reason a =
     (let a = a\<lparr>gh_faults := fault_ok ApplyFault (gh_faults a)\<rparr>;
          a = expect agent ExpectDeactivate a;
          a = line ports agent reason a;
          a = flush_status ports agent a;
          a = close_row ports agent a;
          a = a\<lparr>gh_deliveries := fst (Delivery.forget (gh_deliveries a) agent), gh_held := bt_remove agent (gh_held a)\<rparr>
      in fst (on_questions (question_clear (gp_host ports) agent) a))"

definition end_with :: "'w github_ports \<Rightarrow> string \<Rightarrow> session \<Rightarrow> string \<Rightarrow> ustr \<Rightarrow> string \<Rightarrow> string \<Rightarrow> 'w github \<Rightarrow> 'w github" where
  "end_with ports agent row fleet reason text default_branch a =
     (let live = filter (\<lambda>l. lv_number l \<noteq> gs_number row) (live_in fleet (gh_ledger a))
      in case prepare_file (gp_yaml ports) text (gs_repo row) fleet default_branch live of
           Inl m \<Rightarrow> refile_failed ports agent row (prepare_text (gp_debug ports) m) a
         | Inr p \<Rightarrow>
             (case apply_fleet ports fleet (fst (keep_crew fleet (gs_number row) p a)) a of
                (a, Inl e) \<Rightarrow>
                  refile_failed ports agent row (apply_refusal e)
                    (a\<lparr>gh_faults := fault_fail ApplyFault (''github: applying '' @ fleet @ '': '' @ snd e) (gh_faults a)\<rparr>)
              | (a, Inr _) \<Rightarrow> ended ports agent reason a))"

definition end_session :: "'w github_ports \<Rightarrow> u64 \<Rightarrow> ustr \<Rightarrow> string \<Rightarrow> 'w github \<Rightarrow> 'w github" where
  "end_session ports installation reason agent a =
     (case row_of (gh_ledger a) agent of
        None \<Rightarrow> a
      | Some row \<Rightarrow>
          if gs_closed row then a
          else
            let fleet = fleet_of agent
            in (case retry_once ports (gp_default_branch ports installation (gs_repo row)) a of
                  (a, Inl e) \<Rightarrow> refile_failed ports agent row (github_refusal ''default_branch'') (github_failed ports e a)
                | (a, Inr default_branch) \<Rightarrow>
                    with_cfg (\<lambda>c a.
                      case retry_once ports (gp_read_file ports installation (gs_repo row) (gd_config_path c) default_branch) a of
                        (a, Inl e) \<Rightarrow> refile_failed ports agent row (github_refusal ''read_file'') (github_failed ports e a)
                      | (a, Inr t) \<Rightarrow>
                          end_with ports agent row fleet reason (case t of Some t \<Rightarrow> t | None \<Rightarrow> []) default_branch a) a))"

section \<open>The tick\<close>

definition tick_deliveries :: "'w github_ports \<Rightarrow> 'w github \<Rightarrow> 'w github" where
  "tick_deliveries ports a =
     (let queue = gh_unconfirmed a;
          a = fold (\<lambda>(sp, why). unconfirmed ports why sp) queue (a\<lparr>gh_unconfirmed := []\<rparr>);
          (a, now) = gh_now ports a;
          (d, gone) = expire (gh_deliveries a) now;
          a = fold (unconfirmed ports ExpiredPrompt) gone (a\<lparr>gh_deliveries := d\<rparr>);
          (a, now) = gh_now ports a;
          (d, agents) = nudge (gh_deliveries a) now
      in fold (press_enter ports) agents (a\<lparr>gh_deliveries := d\<rparr>))"

definition idle_reason :: "duration \<Rightarrow> 'w github \<Rightarrow> ustr" where
  "idle_reason timeout a =
     points ''stopped after '' @ idle_wording timeout @ points '' idle '' @ [0x2014] @ points '' mention @'' @ chars (gh_slug a)
     @ points '' to resume''"

definition tick_idle :: "'w github_ports \<Rightarrow> 'w github \<Rightarrow> 'w github" where
  "tick_idle ports a =
     with_cfg (\<lambda>c a.
       if gd_idle_timeout c = 0 then a
       else
         let (a, now) = gh_now_secs ports a;
             stale = List.map_filter (\<lambda>agent.
               Option.bind (row_of (gh_ledger a) agent) (\<lambda>r.
                 if \<not> gs_closed r \<and> unat now - unat (gs_last_activity r) > gd_idle_timeout c div from_secs 1
                 then Some (agent, gs_installation r) else None)) (gp_walk ports (ledger_agents (gh_ledger a)))
         in fold (\<lambda>(agent, installation) a.
                    end_session ports installation (idle_reason (gd_idle_timeout c) a) agent a) stale a) a"

definition prune_row :: "'w github_ports \<Rightarrow> string \<Rightarrow> 'w github \<Rightarrow> 'w github" where
  "prune_row ports agent a =
     (case on_ledger (remove_row (gp_host ports) agent) a of
        (a, Inl _) \<Rightarrow> a
      | (a, Inr _) \<Rightarrow>
          a\<lparr>gh_statuses := bt_remove agent (gh_statuses a), gh_status_dirty := bt_remove agent (gh_status_dirty a),
            gh_ended_notice := bt_remove agent (gh_ended_notice a), gh_rows_dirty := bt_remove agent (gh_rows_dirty a)\<rparr>)"

definition tick_prune :: "'w github_ports \<Rightarrow> 'w github \<Rightarrow> 'w github" where
  "tick_prune ports a =
     (let (a, now) = gh_now_secs ports a;
          gone = filter (\<lambda>agent. case row_of (gh_ledger a) agent of
              Some r \<Rightarrow> gs_closed r \<and> unat now - unat (gs_last_activity r) > CLOSED_RETENTION div from_secs 1
            | None \<Rightarrow> False) (gp_walk ports (ledger_agents (gh_ledger a)))
      in fold (prune_row ports) gone a)"

definition tick_statuses :: "'w github_ports \<Rightarrow> 'w github \<Rightarrow> 'w github" where
  "tick_statuses ports a =
     (let (a, now) = gh_now ports a;
          due = filter (\<lambda>agent. case bt_get (gh_status_dirty a) agent of
              Some since \<Rightarrow> now - since \<ge> STATUS_COALESCE | None \<Rightarrow> False) (gp_walk ports (bt_keys (gh_status_dirty a)))
      in fold (flush_status ports) due a)"

definition write_row :: "'w github_ports \<Rightarrow> string \<Rightarrow> 'w github \<Rightarrow> 'w github" where
  "write_row ports agent a =
     (case row_of (gh_ledger a) agent of
        Some row \<Rightarrow> fst (on_ledger (set_row (gp_rows ports) (gp_host ports) agent row) a)
      | None \<Rightarrow> a)"

definition tick_rows :: "'w github_ports \<Rightarrow> 'w github \<Rightarrow> 'w github" where
  "tick_rows ports a =
     (let dirty = gp_walk ports (bt_keys (gh_rows_dirty a))
      in fold (write_row ports) dirty (a\<lparr>gh_rows_dirty := []\<rparr>))"

definition on_tick :: "'w github_ports \<Rightarrow> 'w github \<Rightarrow> 'w github" where
  "on_tick ports a =
     tick_rows ports (tick_statuses ports (tick_prune ports (tick_idle ports (tick_deliveries ports a))))"

section \<open>Starting\<close>

text \<open>What a session is started from.\<close>

record start_facts =
  op_installation :: u64
  op_repo :: string
  op_kind :: kind
  op_number :: u64
  op_asker :: string
  op_title :: string
  op_body :: string
  op_url :: string
  op_pr :: "(string \<times> string \<times> string) option"
  op_target :: target
  op_comment :: "string option"

definition post_op :: "'w github_ports \<Rightarrow> start_facts \<Rightarrow> ustr \<Rightarrow> 'w github \<Rightarrow> 'w github" where
  "post_op ports p body a = fst (post ports (op_installation p) (op_repo p) (op_number p) body a)"

definition react_op :: "'w github_ports \<Rightarrow> start_facts \<Rightarrow> string \<Rightarrow> 'w github \<Rightarrow> 'w github" where
  "react_op ports p content = react ports (op_installation p) (op_repo p) (op_target p) content"

definition refuse :: "'w github_ports \<Rightarrow> start_facts \<Rightarrow> ustr \<Rightarrow> 'w github \<Rightarrow> 'w github" where
  "refuse ports p message a = react_op ports p CONFUSED (post_op ports p message a)"

definition note_crew :: "'w github_ports \<Rightarrow> start_facts \<Rightarrow> string \<Rightarrow> string \<Rightarrow> string \<Rightarrow> string \<Rightarrow> 'w github \<Rightarrow> 'w github" where
  "note_crew ports p config_path fleet declared crew a =
     (if crew = declared then a\<lparr>gh_crew_notices := bt_remove fleet (gh_crew_notices a)\<rparr>
      else if bt_get (gh_crew_notices a) fleet \<noteq> Some declared
      then
        post_op ports p (chars config_path @ points '' names crew '' @ chars declared @ points '', but sessions are running in crew ''
            @ chars crew @ points ''; the new key takes effect once they end'')
          (a\<lparr>gh_crew_notices := bt_insert fleet declared (gh_crew_notices a)\<rparr>)
      else a)"

text \<open>The status comment of a session that starts: kept when it resumes one, else posted.\<close>

definition start_status ::
  "'w github_ports \<Rightarrow> start_facts \<Rightarrow> string \<Rightarrow> bool \<Rightarrow> u64 option \<Rightarrow> 'w github \<Rightarrow> 'w github \<times> u64 option" where
  "start_status ports p agent resumed old_status_comment a =
     (let status = (status_of agent a)\<lparr>sc_phase := points ''starting''\<rparr>;
          a = a\<lparr>gh_statuses := bt_remove agent (gh_statuses a)\<rparr>;
          (a, now) = gh_now_secs ports a;
          status = push_line now (points (if resumed then ''resuming'' else ''starting'')) status;
          body = render_status status;
          (a, status_comment) =
            (case old_status_comment of
               Some i \<Rightarrow> (mark_status ports agent a, Some i)
             | None \<Rightarrow>
                 (case retry_once ports (gp_comment ports (op_installation p) (op_repo p) (op_number p) body) a of
                    (a, Inr i) \<Rightarrow> (log_call (Commented (op_repo p) (op_number p) body (Some i)) a, Some i)
                  | (a, Inl e) \<Rightarrow> (github_failed ports e (log_call (Commented (op_repo p) (op_number p) body None) a), None)))
      in (a\<lparr>gh_statuses := bt_insert agent status (gh_statuses a)\<rparr>, status_comment))"

definition drop_prior :: "'w github_ports \<Rightarrow> string \<Rightarrow> 'w github \<Rightarrow> 'w github" where
  "drop_prior ports prior a =
     (let a = fst (on_ledger (remove_row (gp_host ports) prior) a)
      in a\<lparr>gh_statuses := bt_remove prior (gh_statuses a), gh_status_dirty := bt_remove prior (gh_status_dirty a),
           gh_rows_dirty := bt_remove prior (gh_rows_dirty a), gh_ended_notice := bt_remove prior (gh_ended_notice a)\<rparr>)"

definition seen_of_target :: "target \<Rightarrow> seen" where
  "seen_of_target t = (case t of OnComment i \<Rightarrow> SeenComment i | OnIssue _ \<Rightarrow> SeenOpening)"

text \<open>The row, the status and the first prompt of the session the apply just started.\<close>

definition started ::
  "'w github_ports \<Rightarrow> start_facts \<Rightarrow> string \<Rightarrow> string \<Rightarrow> string \<Rightarrow> string \<Rightarrow> 'w github \<Rightarrow> 'w github" where
  "started ports p fleet crew agent default_branch a =
     (let prior = (case by_number (gh_ledger a) (op_repo p) (op_number p) of
            Some g \<Rightarrow> if g \<noteq> agent then Some g else None | None \<Rightarrow> None);
          old = row_of (gh_ledger a) agent;
          old_status_comment = Option.bind old gs_status_comment;
          resumed = (old \<noteq> None);
          ids = (case (case old of Some r \<Rightarrow> Some r | None \<Rightarrow> Option.bind prior (row_of (gh_ledger a))) of
            Some r \<Rightarrow> gs_seen r | None \<Rightarrow> []);
          a = a\<lparr>gh_faults := fault_ok ApplyFault (gh_faults a)\<rparr>;
          a = expect agent ExpectActivate a;
          a = a\<lparr>gh_world := fst (set_repo_of_fleet (gp_host ports) fleet (op_repo p) (gh_world a))\<rparr>;
          (a, status_comment) = start_status ports p agent resumed old_status_comment a;
          base = map_option (\<lambda>(_, _, b). b) (op_pr p);
          (a, now) = gh_now_secs ports a;
          row = \<lparr>gs_repo = op_repo p, gs_installation = op_installation p, gs_kind = op_kind p, gs_number = op_number p,
                 gs_head = map_option (\<lambda>(h, _, _). h) (op_pr p), gs_base = base, gs_status_comment = status_comment,
                 gs_session_id = None, gs_last_activity = now, gs_closed = False, gs_seen = ids\<rparr>;
          row = fst (see (seen_of_target (op_target p)) row);
          a = fst (on_ledger (set_row (gp_rows ports) (gp_host ports) agent row) a);
          a = (case prior of Some g \<Rightarrow> drop_prior ports g a | None \<Rightarrow> a)
      in a\<lparr>gh_ended_notice := bt_remove agent (gh_ended_notice a),
           gh_first_prompts := bt_insert agent
             \<lparr>fp_title = op_title p, fp_body = op_body p, fp_url = op_url p,
              fp_branch = head_or_default fleet crew (op_kind p) (op_number p) (op_pr p),
              fp_base = (case base of Some b \<Rightarrow> b | None \<Rightarrow> default_branch), fp_asker = op_asker p,
              fp_comment = op_comment p, fp_resumed = resumed, fp_target = op_target p\<rparr> (gh_first_prompts a)\<rparr>)"

definition start_with ::
  "'w github_ports \<Rightarrow> start_facts \<Rightarrow> string \<Rightarrow> string \<Rightarrow> string \<Rightarrow> string \<Rightarrow> 'w github \<Rightarrow> 'w github" where
  "start_with ports p config_path fleet default_branch text a =
     (let live = filter (\<lambda>l. lv_number l \<noteq> op_number p) (live_in fleet (gh_ledger a))
            @ [\<lparr>lv_kind = op_kind p, lv_number = op_number p, lv_head = map_option (\<lambda>(h, _, _). h) (op_pr p)\<rparr>]
      in case prepare_file (gp_yaml ports) text (op_repo p) fleet default_branch live of
           Inl m \<Rightarrow> refuse ports p (prepare_text (gp_debug ports) m) a
         | Inr prepared \<Rightarrow>
             let (file, crew) = keep_crew fleet (op_number p) prepared a;
                 a = note_crew ports p config_path fleet (pp_crew prepared) crew a;
                 agent = fleet @ ''/'' @ crew @ ''/'' @ Mention.agent_name (op_kind p) (op_number p)
             in (case apply_fleet ports fleet file a of
                   (a, Inl e) \<Rightarrow> refuse ports p (apply_refusal e) a
                 | (a, Inr _) \<Rightarrow> started ports p fleet crew agent default_branch a))"

definition start_file :: "'w github_ports \<Rightarrow> start_facts \<Rightarrow> string \<Rightarrow> 'w github \<Rightarrow> 'w github" where
  "start_file ports p fleet a =
     (case retry_once ports (gp_default_branch ports (op_installation p) (op_repo p)) a of
        (a, Inl e) \<Rightarrow> github_failed ports e a
      | (a, Inr default_branch) \<Rightarrow>
          with_cfg (\<lambda>c a.
            case retry_once ports (gp_read_file ports (op_installation p) (op_repo p) (gd_config_path c) default_branch) a of
              (a, Inl e) \<Rightarrow> github_failed ports e a
            | (a, Inr None) \<Rightarrow>
                refuse ports p (chars (gd_config_path c) @ points '' not found on '' @ chars default_branch) a
            | (a, Inr (Some text)) \<Rightarrow> start_with ports p (gd_config_path c) fleet default_branch text a) a)"

definition from_fork :: "start_facts \<Rightarrow> bool" where
  "from_fork p \<longleftrightarrow> (case op_pr p of Some (_, head_repo, _) \<Rightarrow> \<not> eq_nocase head_repo (op_repo p) | None \<Rightarrow> False)"

definition start_session :: "'w github_ports \<Rightarrow> start_facts \<Rightarrow> 'w github \<Rightarrow> 'w github" where
  "start_session ports p a =
     (let a = react_op ports p EYES a
      in if from_fork p
         then refuse ports p (points ''sessions on pull requests from forks are not supported'') a
         else
           let fleet = Mention.fleet_name (op_repo p);
               (w, r) = repo_of_fleet (gp_host ports) fleet (gh_world a);
               a = a\<lparr>gh_world := w\<rparr>
           in (case r of
                 Inl _ \<Rightarrow> a
               | Inr other \<Rightarrow>
                   (case other of
                      Some other \<Rightarrow>
                        if \<not> eq_nocase other (op_repo p)
                        then refuse ports p (points ''fleet name '' @ chars fleet @ points '' already stands for '' @ chars other
                               @ points ''; clear the plugin'' @ [39] @ points ''s KV key repo/'' @ chars fleet
                               @ points '' (plugins/github/kv/repo/'' @ chars fleet @ points '' under the daemon'' @ [39]
                               @ points ''s state root) to reuse it'') a
                        else start_file ports p fleet a
                    | None \<Rightarrow> start_file ports p fleet a)))"

section \<open>Webhooks\<close>

definition on_opening :: "'w github_ports \<Rightarrow> author \<Rightarrow> start_facts \<Rightarrow> 'w github \<Rightarrow> 'w github" where
  "on_opening ports author p a =
     (let mentioned = (\<lambda>text. mentions (gp_unicode ports) (chars text) (chars (gh_slug a)))
      in if \<not> mentioned (op_body p) \<and> \<not> (case op_comment p of Some c \<Rightarrow> mentioned c | None \<Rightarrow> False) then a
         else (case permitted ports (op_installation p) (op_repo p) author a of
                 (a, False) \<Rightarrow> a
               | (a, True) \<Rightarrow>
                   let live = by_number (gh_ledger a) (op_repo p) (op_number p)
                   in if live \<noteq> None \<and> redelivered (op_repo p) (op_number p) SeenOpening a then a
                      else (case live of
                              Some agent \<Rightarrow>
                                if (case row_of (gh_ledger a) agent of Some r \<Rightarrow> \<not> gs_closed r | None \<Rightarrow> False)
                                then refresh_installation agent (op_installation p) a
                                else start_session ports p a
                            | None \<Rightarrow> start_session ports p a)))"

definition ended_reply :: "'w github_ports \<Rightarrow> string \<Rightarrow> comment_place \<Rightarrow> 'w github \<Rightarrow> 'w github" where
  "ended_reply ports agent p a =
     (let a = react_at ports p CONFUSED a
      in if bt_contains (gh_ended_notice a) agent then a
         else fst (post_at ports p
                (points ''this session has ended; mention @'' @ chars (gh_slug a) @ points '' to start a new one'')
                (a\<lparr>gh_ended_notice := bt_insert agent () (gh_ended_notice a)\<rparr>)))"

definition start_from_comment :: "'w github_ports \<Rightarrow> string \<Rightarrow> comment_place \<Rightarrow> string \<Rightarrow> bool \<Rightarrow> 'w github \<Rightarrow> 'w github" where
  "start_from_comment ports asker p body is_pr a =
     (case retry_once ports (gp_issue ports (cp_installation p) (cp_repo p) (cp_number p)) a of
        (a, Inl e) \<Rightarrow> github_failed ports e a
      | (a, Inr info) \<Rightarrow>
          start_session ports
            \<lparr>op_installation = cp_installation p, op_repo = cp_repo p,
             op_kind = (if is_pr \<or> ii_pr info \<noteq> None then Pr else Issue), op_number = cp_number p, op_asker = asker,
             op_title = ii_title info, op_body = ii_body info, op_url = ii_url info, op_pr = ii_pr info,
             op_target = OnComment (cp_comment p), op_comment = Some body\<rparr> a)"

definition row_closed :: "string \<Rightarrow> 'w github \<Rightarrow> bool" where
  "row_closed agent a = (case row_of (gh_ledger a) agent of Some r \<Rightarrow> gs_closed r | None \<Rightarrow> False)"

definition on_comment ::
  "'w github_ports \<Rightarrow> author \<Rightarrow> comment_place \<Rightarrow> string \<Rightarrow> bool \<Rightarrow> 'w github \<Rightarrow> 'w github" where
  "on_comment ports author p body is_pr a =
     (if is_self author a then a
      else if redelivered (cp_repo p) (cp_number p) (SeenComment (cp_comment p)) a then a
      else (case permitted ports (cp_installation p) (cp_repo p) author a of
              (a, False) \<Rightarrow> a
            | (a, True) \<Rightarrow>
                let live = by_number (gh_ledger a) (cp_repo p) (cp_number p);
                    a = (case live of Some agent \<Rightarrow> refresh_installation agent (cp_installation p) a | None \<Rightarrow> a);
                    mentioned = mentions (gp_unicode ports) (chars body) (chars (gh_slug a));
                    a = (case live of
                           Some agent \<Rightarrow>
                             if mentioned \<and> row_closed agent a then a
                             else remember ports agent (SeenComment (cp_comment p)) a
                         | None \<Rightarrow> a)
                in (case live of
                      Some agent \<Rightarrow>
                        if \<not> row_closed agent a then on_message ports agent p (au_login author) (chars body) a
                        else if \<not> mentioned then ended_reply ports agent p a
                        else start_from_comment ports (au_login author) p body is_pr a
                    | None \<Rightarrow>
                        if mentioned then start_from_comment ports (au_login author) p body is_pr a else a)))"

definition on_webhook :: "'w github_ports \<Rightarrow> webhook_event \<Rightarrow> 'w github \<Rightarrow> 'w github" where
  "on_webhook ports ev a =
     (case ev of
        IssueOpened repo installation number author title body url \<Rightarrow>
          on_opening ports author
            \<lparr>op_installation = installation, op_repo = repo, op_kind = Issue, op_number = number, op_asker = au_login author,
             op_title = title, op_body = body, op_url = url, op_pr = None, op_target = OnIssue number, op_comment = None\<rparr> a
      | PrOpened repo installation number author title body url head head_repo base \<Rightarrow>
          on_opening ports author
            \<lparr>op_installation = installation, op_repo = repo, op_kind = Pr, op_number = number, op_asker = au_login author,
             op_title = title, op_body = body, op_url = url, op_pr = Some (head, head_repo, base), op_target = OnIssue number,
             op_comment = None\<rparr> a
      | Comment repo installation number author comment_id body is_pr \<Rightarrow>
          on_comment ports author
            \<lparr>cp_installation = installation, cp_repo = repo, cp_number = number, cp_comment = comment_id\<rparr> body is_pr a
      | Closed repo installation number merged \<Rightarrow>
          (case by_number (gh_ledger a) repo number of
             Some agent \<Rightarrow>
               end_session ports installation (points (if merged then ''merged'' else ''closed'')) agent
                 (refresh_installation agent installation a)
           | None \<Rightarrow> a)
      | ReviewSubmitted repo installation number author review_id state body commit \<Rightarrow>
          on_review ports installation repo number author review_id state body commit a)"

section \<open>Commands\<close>

definition on_activate :: "'w github_ports \<Rightarrow> string \<Rightarrow> github_agent_config \<Rightarrow> 'w github \<Rightarrow> 'w github" where
  "on_activate ports agent config a =
     (let a = (case (row_of (gh_ledger a) agent, gc_kind config, gc_number config) of
            (None, Some kind, Some number) \<Rightarrow>
              (case repo_of_fleet (gp_host ports) (fleet_of agent) (gh_world a) of
                 (w, Inr (Some repo)) \<Rightarrow>
                   (case gh_now_secs ports (a\<lparr>gh_world := w\<rparr>) of (a, now) \<Rightarrow>
                      fst (on_ledger (set_row (gp_rows ports) (gp_host ports) agent
                        \<lparr>gs_repo = repo, gs_installation = 0, gs_kind = kind, gs_number = number, gs_head = None, gs_base = None,
                         gs_status_comment = None, gs_session_id = None, gs_last_activity = now, gs_closed = False, gs_seen = []\<rparr>) a))
               | (w, _) \<Rightarrow> a\<lparr>gh_world := w\<rparr>)
          | _ \<Rightarrow> a);
          held = bt_contains (gh_agents a) agent;
          a = a\<lparr>gh_agents := bt_insert agent config (gh_agents a)\<rparr>
      in if held then a\<lparr>gh_deliveries := lose_track_agent (gh_deliveries a) agent\<rparr> else a)"

definition on_deactivate :: "'w github_ports \<Rightarrow> string \<Rightarrow> 'w github \<Rightarrow> 'w github" where
  "on_deactivate ports agent a =
     (let a = a\<lparr>gh_agents := bt_remove agent (gh_agents a)\<rparr>;
          a = fst (on_questions (question_clear (gp_host ports) agent) a);
          a = a\<lparr>gh_deliveries := fst (Delivery.forget (gh_deliveries a) agent),
                gh_statuses := bt_remove agent (gh_statuses a),
                gh_status_dirty := bt_remove agent (gh_status_dirty a),
                gh_held := bt_remove agent (gh_held a)\<rparr>
      in if (case row_of (gh_ledger a) agent of Some r \<Rightarrow> \<not> gs_closed r | None \<Rightarrow> False)
         then fst (on_ledger (remove_row (gp_host ports) agent) a) else a)"

definition run_command :: "'w github_ports \<Rightarrow> github_command \<Rightarrow> 'w github \<Rightarrow> 'w github" where
  "run_command ports c a =
     (case c of
        Configure _ \<Rightarrow> a
      | Activate agent config \<Rightarrow> on_activate ports agent config (fst (arrived agent ExpectActivate a))
      | Deactivate agent \<Rightarrow>
          (case arrived agent ExpectDeactivate a of
             (a, True) \<Rightarrow> a
           | (a, False) \<Rightarrow> on_deactivate ports agent a)
      | Events dropped events \<Rightarrow>
          let a = (if dropped > 0 then a\<lparr>gh_deliveries := lose_track (gh_deliveries a)\<rparr> else a)
          in fold (github_event ports) events a
      | Phases changes \<Rightarrow> fold (on_phase ports) changes a
      | WebhookCommand ev \<Rightarrow> on_webhook ports ev a
      | Tick \<Rightarrow> on_tick ports a
      | ListenerFailed e \<Rightarrow> a\<lparr>gh_faults := fault_fail ListenerFault (''webhook listener: '' @ e) (gh_faults a)\<rparr>)"

definition github_handle :: "'w github_ports \<Rightarrow> github_command \<Rightarrow> 'w github \<Rightarrow> 'w github" where
  "github_handle ports c a =
     (case c of
        Configure config \<Rightarrow>
          let buffered = gh_pending a
          in fold (run_command ports) buffered (a\<lparr>gh_config := Some config, gh_pending := []\<rparr>)
      | _ \<Rightarrow>
          if gh_config a = None then a\<lparr>gh_pending := gh_pending a @ [c]\<rparr>
          else run_command ports c a)"

text \<open>One turn of the actor's loop: the queue's gap is asked before the command is handled.\<close>

definition github_turn ::
  "'w github_ports \<Rightarrow> github_command queue \<times> 'w github \<Rightarrow> github_command queue \<times> 'w github" where
  "github_turn ports qa =
     (case try_pop \<lparr>ln_lane = command_lane, ln_bytes = command_bytes\<rparr> (fst qa) of
        (q, None) \<Rightarrow> (q, snd qa)
      | (q, Some c) \<Rightarrow>
          (case take_gap q of (q, gap) \<Rightarrow>
             let a = (if gap then (snd qa)\<lparr>gh_deliveries := lose_track (gh_deliveries (snd qa))\<rparr> else snd qa)
             in (q, github_handle ports c a)))"

end
