(* ===== verification/GithubSafety.thy ===== *)
theory GithubSafety
  imports Github
begin

text \<open>
  What the github plugin's actor may do. Every operation is shown to be a step that keeps the invariant of the state (the
  index of the sessions is sound, every open question well formed, the health cell the newest failure), never
  panics, and sends no text to an agent whose question is open; then what one webhook, one deactivation and one
  redelivery do.
\<close>

section \<open>Steps\<close>

named_theorems gh_intro

fun fine :: "call \<Rightarrow> bool" where
  "fine (Acted _ (SendText _ _) _ asked) \<longleftrightarrow> \<not> asked"
| "fine Panicked \<longleftrightarrow> False"
| "fine _ \<longleftrightarrow> True"

definition faults_ok :: "faults \<Rightarrow> bool" where
  "faults_ok f \<longleftrightarrow> ft_cell f = map_option snd (newest (last_faults f))"

definition github_ok :: "'w github \<Rightarrow> bool" where
  "github_ok a \<longleftrightarrow> index_sound (gh_ledger a) \<and> questions_ok (gh_questions a) \<and> faults_ok (gh_faults a)"

text \<open>A permission the port has given for a repository and a login.\<close>

definition granted :: "'w github_ports \<Rightarrow> string \<times> string \<Rightarrow> bool" where
  "granted ports key \<longleftrightarrow> (\<exists>i w w' p. gp_permission ports i (fst key) (snd key) w = (w', Inr p) \<and> may_prompt p)"

definition cache_sound :: "'w github_ports \<Rightarrow> 'w github \<Rightarrow> bool" where
  "cache_sound ports a \<longleftrightarrow> (\<forall>key p until. bt_get (gh_permissions a) key = Some (p, until) \<and> may_prompt p \<longrightarrow> granted ports key)"

text \<open>A step acts on no agent but those allowed.\<close>

fun reaches :: "(string \<Rightarrow> bool) \<Rightarrow> call \<Rightarrow> bool" where
  "reaches P (Acted agent _ _ _) \<longleftrightarrow> P agent"
| "reaches P _ \<longleftrightarrow> True"

definition gh_step :: "'w github_ports \<Rightarrow> (string \<Rightarrow> bool) \<Rightarrow> 'w github \<Rightarrow> 'w github \<Rightarrow> bool" where
  "gh_step ports P a a' \<longleftrightarrow>
     (github_ok a \<and> cache_sound ports a \<and> gh_config a \<noteq> None \<longrightarrow>
        github_ok a' \<and> cache_sound ports a' \<and> gh_config a' = gh_config a \<and> gh_pending a' = gh_pending a
        \<and> (\<exists>es. gh_calls a' = gh_calls a @ es \<and> list_all (\<lambda>c. fine c \<and> reaches P c) es))"

lemma gh_refl [gh_intro, simp]: "gh_step ports P a a"
  by (simp add: gh_step_def)

lemma gh_trans:
  assumes "gh_step ports P a b" "gh_step ports P b c"
  shows "gh_step ports P a c"
  unfolding gh_step_def
proof
  assume ok: "github_ok a \<and> cache_sound ports a \<and> gh_config a \<noteq> None"
  then obtain es where es: "gh_calls b = gh_calls a @ es" "list_all (\<lambda>c. fine c \<and> reaches P c) es"
    and b: "github_ok b" "cache_sound ports b" "gh_config b = gh_config a" "gh_pending b = gh_pending a"
    using assms(1) by (auto simp: gh_step_def)
  with ok obtain fs where fs: "gh_calls c = gh_calls b @ fs" "list_all (\<lambda>c. fine c \<and> reaches P c) fs"
    and c: "github_ok c" "cache_sound ports c" "gh_config c = gh_config b" "gh_pending c = gh_pending b"
    using assms(2) by (auto simp: gh_step_def)
  from b c es fs show "github_ok c \<and> cache_sound ports c \<and> gh_config c = gh_config a \<and> gh_pending c = gh_pending a
      \<and> (\<exists>es. gh_calls c = gh_calls a @ es \<and> list_all (\<lambda>c. fine c \<and> reaches P c) es)"
    by (intro conjI exI[of _ "es @ fs"]) simp_all
qed

interpretation ghs: composable "gh_step ports P" for ports P
  by unfold_locales (auto intro: gh_trans)

lemma gh_fold [gh_intro]: "gh_step ports P a b \<Longrightarrow> (\<And>x c. x \<in> set xs \<Longrightarrow> gh_step ports P c (f x c)) \<Longrightarrow> gh_step ports P a (fold f xs b)"
  by (rule gh_trans, assumption, rule ghs.fold_steps)

lemma gh_case [gh_intro]:
  assumes "gh_step ports P a (fst p)" "\<And>b r. p = (b, r) \<Longrightarrow> gh_step ports P a b \<Longrightarrow> gh_step ports P a (f b r)"
  shows "gh_step ports P a (case p of (b, r) \<Rightarrow> f b r)"
  using assms by (cases p) auto

lemma gh_case_fst [gh_intro]:
  assumes "gh_step ports P a (fst p)" "\<And>b r. p = (b, r) \<Longrightarrow> gh_step ports P a b \<Longrightarrow> gh_step ports P a (fst (f b r))"
  shows "gh_step ports P a (fst (case p of (b, r) \<Rightarrow> f b r))"
  using assms by (cases p) auto

lemma gh_pair [gh_intro]:
  fixes p :: "'x list \<times> 'r" and q :: "json \<times> 's" and r :: "session \<times> 't"
  shows "(\<And>x y. p = (x, y) \<Longrightarrow> gh_step ports P a (f x y)) \<Longrightarrow> gh_step ports P a (case p of (x, y) \<Rightarrow> f x y)"
    and "(\<And>x y. q = (x, y) \<Longrightarrow> gh_step ports P a (g x y)) \<Longrightarrow> gh_step ports P a (case q of (x, y) \<Rightarrow> g x y)"
    and "(\<And>x y. r = (x, y) \<Longrightarrow> gh_step ports P a (h x y)) \<Longrightarrow> gh_step ports P a (case r of (x, y) \<Rightarrow> h x y)"
  by (simp_all split: prod.split)

text \<open>What changes only fields the invariant does not speak of.\<close>

lemma gh_frame:
  assumes "gh_step ports P a b" "gh_ledger c = gh_ledger b" "gh_questions c = gh_questions b" "gh_faults c = gh_faults b"
    "gh_calls c = gh_calls b" "gh_config c = gh_config b" "gh_pending c = gh_pending b" "gh_permissions c = gh_permissions b"
  shows "gh_step ports P a c"
  using assms by (simp add: gh_step_def github_ok_def cache_sound_def)

lemma gh_fields [gh_intro]:
  assumes "gh_step ports P a b"
  shows "gh_step ports P a (b\<lparr>gh_world := w\<rparr>)" "gh_step ports P a (b\<lparr>gh_agents := x1\<rparr>)" "gh_step ports P a (b\<lparr>gh_deliveries := x2\<rparr>)"
    "gh_step ports P a (b\<lparr>gh_statuses := x3\<rparr>)" "gh_step ports P a (b\<lparr>gh_status_dirty := x4\<rparr>)" "gh_step ports P a (b\<lparr>gh_rows_dirty := x5\<rparr>)"
    "gh_step ports P a (b\<lparr>gh_held := x7\<rparr>)" "gh_step ports P a (b\<lparr>gh_ended_notice := x8\<rparr>)"
    "gh_step ports P a (b\<lparr>gh_first_prompts := x9\<rparr>)" "gh_step ports P a (b\<lparr>gh_expected := x10\<rparr>)" "gh_step ports P a (b\<lparr>gh_crew_notices := x11\<rparr>)"
    "gh_step ports P a (b\<lparr>gh_unconfirmed := x12\<rparr>)"
  using assms by (auto intro: gh_frame)

lemma gh_permission [gh_intro]:
  assumes "gh_step ports P a b" "may_prompt p \<Longrightarrow> granted ports key"
  shows "gh_step ports P a (b\<lparr>gh_permissions := bt_insert key (p, until) (gh_permissions b)\<rparr>)"
  using assms by (auto simp: gh_step_def github_ok_def cache_sound_def)

lemma gh_log [gh_intro]: "gh_step ports P a b \<Longrightarrow> fine c \<Longrightarrow> reaches P c \<Longrightarrow> gh_step ports P a (log_call c b)"
  by (auto simp: gh_step_def log_call_def github_ok_def cache_sound_def)

lemma newest_derived: "faults_ok (derive f)"
  by (simp add: faults_ok_def derive_def last_faults_def health_fail_def health_ok_def split: option.split)

lemma gh_faults [gh_intro]:
  assumes "gh_step ports P a b"
  shows "gh_step ports P a (b\<lparr>gh_faults := fault_ok k f\<rparr>)" "gh_step ports P a (b\<lparr>gh_faults := fault_fail k m f\<rparr>)"
  using assms newest_derived by (auto simp: gh_step_def github_ok_def cache_sound_def fault_ok_def fault_fail_def Let_def)

lemma gh_update_row [gh_intro]:
  assumes "gh_step ports P a b" "\<And>r. row_key (f r) = row_key r"
  shows "gh_step ports P a (b\<lparr>gh_ledger := update_row agent f (gh_ledger b)\<rparr>)"
  using assms by (auto simp: gh_step_def github_ok_def cache_sound_def)

lemma gh_on_ledger:
  assumes "gh_step ports P a b" "\<And>sw. index_sound (fst sw) \<Longrightarrow> index_sound (fst (fst (f sw)))"
  shows "gh_step ports P a (fst (on_ledger f b))"
  using assms(1) assms(2)[of "(gh_ledger b, gh_world b)"]
  by (auto simp: gh_step_def github_ok_def cache_sound_def on_ledger_def split: prod.split)

lemma gh_set_row [gh_intro]: "gh_step ports P a b \<Longrightarrow> gh_step ports P a (fst (on_ledger (set_row rt host agent row) b))"
  by (rule gh_on_ledger) auto

lemma gh_remove_row [gh_intro]: "gh_step ports P a b \<Longrightarrow> gh_step ports P a (fst (on_ledger (remove_row host agent) b))"
  by (rule gh_on_ledger) auto

lemma gh_questions:
  assumes "gh_step ports P a b" "questions_ok (gh_questions b) \<Longrightarrow> questions_ok q"
  shows "gh_step ports P a (b\<lparr>gh_questions := q\<rparr>)"
  using assms by (auto simp: gh_step_def github_ok_def cache_sound_def)

lemma gh_on_questions:
  assumes "gh_step ports P a b" "questions_ok (gh_questions b) \<Longrightarrow> questions_ok (fst (fst (f (gh_questions b, gh_world b))))"
  shows "gh_step ports P a (fst (on_questions f b))"
  using assms by (auto simp: gh_step_def github_ok_def cache_sound_def on_questions_def split: prod.split)

lemma gh_clear [gh_intro]: "gh_step ports P a b \<Longrightarrow> gh_step ports P a (fst (on_questions (question_clear host agent) b))"
  by (rule gh_on_questions) (use clear_facts(1)[of "(gh_questions b, gh_world b)"] in auto)

lemma gh_open [gh_intro]:
  assumes "gh_step ports P a b" "question_parse input = Some qs"
  shows "gh_step ports P a (fst (on_questions (\<lambda>qw. (question_open js host agent input qs qw, ())) b))"
  by (rule gh_on_questions[OF assms(1)]) (use opened_ok[OF assms(2)] in \<open>auto simp: question_open_def questions_ok_insert\<close>)

lemma gh_with_cfg [gh_intro]:
  assumes "gh_step ports P a b" "\<And>c. gh_config b = Some c \<Longrightarrow> gh_step ports P a (f c b)"
  shows "gh_step ports P a (with_cfg f b)"
  using assms by (cases "gh_config b") (auto simp: gh_step_def with_cfg_def)

lemma gh_clocks [gh_intro]:
  assumes "gh_step ports P a b"
  shows "gh_step ports P a (fst (gh_now ports b))" "gh_step ports P a (fst (gh_now_secs ports b))" "gh_step ports P a (fst (retry_once ports f b))"
  using assms by (auto simp: gh_now_def gh_now_secs_def retry_once_def split: prod.split sum.split github_error.split intro: gh_fields)

section \<open>Every operation is a step\<close>

lemma gh_failed [gh_intro]: "gh_step ports P a b \<Longrightarrow> gh_step ports P a (github_failed ports e b)"
  by (auto simp: github_failed_def intro: gh_intro split: github_error.split)

lemma gh_post_parts: "gh_step ports P a b \<Longrightarrow> gh_step ports P a (fst (post_parts ports i repo number parts first b))"
proof (induction parts arbitrary: first b)
  case (Cons part parts)
  then show ?case by (auto intro!: gh_intro Cons.IH split: sum.split)
qed simp

lemma gh_post [gh_intro]: "gh_step ports P a b \<Longrightarrow> gh_step ports P a (fst (post ports i repo number body b))"
  by (simp add: post_def gh_post_parts Let_def)

lemma gh_react [gh_intro]: "gh_step ports P a b \<Longrightarrow> gh_step ports P a (react ports i repo target content b)"
  by (auto simp: react_def intro!: gh_intro split: prod.split)

lemma gh_act [gh_intro]:
  assumes "gh_step ports P a b" "P agent" "\<And>t s. action = SendText t s \<Longrightarrow> \<not> is_open (gh_questions b) agent"
  shows "gh_step ports P a (fst (act ports agent action b))"
  using assms by (cases action) (auto simp: act_def intro!: gh_intro split: prod.split)

lemma gh_apply [gh_intro]: "gh_step ports P a b \<Longrightarrow> gh_step ports P a (fst (apply_fleet ports fleet file b))"
  by (auto simp: apply_fleet_def intro!: gh_intro split: prod.split)

lemma gh_touch [gh_intro]: "gh_step ports P a b \<Longrightarrow> gh_step ports P a (touch ports agent b)"
  by (auto simp: touch_def Let_def row_key_def intro!: gh_intro split: option.split)

lemma gh_mark_status [gh_intro]: "gh_step ports P a b \<Longrightarrow> gh_step ports P a (mark_status ports agent b)"
  by (auto simp: mark_status_def intro!: gh_intro)

lemma gh_line [gh_intro]: "gh_step ports P a b \<Longrightarrow> gh_step ports P a (line ports agent text b)"
  by (auto simp: line_def Let_def intro!: gh_intro)

lemma gh_repost [gh_intro]: "gh_step ports P a b \<Longrightarrow> gh_step ports P a (repost_status ports agent row body b)"
  by (auto simp: repost_status_def Let_def row_key_def intro!: gh_intro split: sum.split)

lemma gh_flush [gh_intro]: "gh_step ports P a b \<Longrightarrow> gh_step ports P a (flush_status ports agent b)"
  by (auto simp: flush_status_def Let_def intro!: gh_intro split: sum.split option.split github_error.split)

lemma gh_refresh [gh_intro]: "gh_step ports P a b \<Longrightarrow> gh_step ports P a (refresh_installation agent i b)"
  by (auto simp: refresh_installation_def row_key_def intro!: gh_intro split: option.split)

lemma gh_remember [gh_intro]: "gh_step ports P a b \<Longrightarrow> gh_step ports P a (remember ports agent i b)"
  by (auto simp: remember_def intro!: gh_intro split: option.split sum.split bool.split)

lemma gh_expect [gh_intro]: "gh_step ports P a b \<Longrightarrow> gh_step ports P a (expect agent c b)"
  by (auto simp: expect_def intro!: gh_intro)

lemma gh_arrived [gh_intro]: "gh_step ports P a b \<Longrightarrow> gh_step ports P a (fst (arrived agent c b))"
  by (auto simp: arrived_def Let_def intro!: gh_intro split: option.split)

lemma retry_answer: "retry_once ports f b = (c, Inr r) \<Longrightarrow> \<exists>w w'. f w = (w', Inr r)"
  by (auto simp: retry_once_def split: prod.splits sum.splits github_error.splits if_splits)

lemma retry_granted:
  "retry_once ports (gp_permission ports i (fst key) (snd key)) b = (c, Inr p) \<Longrightarrow> may_prompt p \<Longrightarrow> granted ports key"
  using retry_answer[of ports "gp_permission ports i (fst key) (snd key)" b c p] unfolding granted_def by blast

lemma gh_ask [gh_intro]: "gh_step ports P a b \<Longrightarrow> gh_step ports P a (fst (ask_permission ports i key now b))"
  by (auto simp: ask_permission_def Let_def may_prompt_def[of NoPermission] intro!: gh_intro dest: retry_granted
      split: sum.split github_error.split)

lemma gh_permitted [gh_intro]: "gh_step ports P a b \<Longrightarrow> gh_step ports P a (fst (permitted ports i repo author b))"
  by (auto simp: permitted_def Let_def intro!: gh_intro split: option.split)

lemma permitted_keeps:
  "permitted ports i repo author b = (c, r) \<Longrightarrow>
     gh_ledger c = gh_ledger b \<and> gh_calls c = gh_calls b \<and> gh_questions c = gh_questions b \<and> gh_agents c = gh_agents b
     \<and> gh_deliveries c = gh_deliveries b \<and> gh_held c = gh_held b \<and> gh_first_prompts c = gh_first_prompts b"
  by (auto simp: permitted_def ask_permission_def gh_now_def retry_once_def github_failed_def Let_def
      split: if_splits prod.splits option.splits sum.splits github_error.splits)

lemma refresh_index [simp]: "by_number (gh_ledger (refresh_installation agent i b)) = by_number (gh_ledger b)"
  by (auto simp: refresh_installation_def by_number_def fun_eq_iff update_row_def split: option.split)

lemma gh_track [gh_intro]: "gh_step ports P a b \<Longrightarrow> gh_step ports P a (track ports agent i repo number asker target body allowance b)"
  by (auto simp: track_def Let_def intro!: gh_intro split: body_kind.split option.split)

lemma gh_enter [gh_intro]: "gh_step ports P a b \<Longrightarrow> P agent \<Longrightarrow> gh_step ports P a (press_enter ports agent b)"
  by (auto simp: press_enter_def intro!: gh_intro)

lemma gh_unconfirmed [gh_intro]: "gh_step ports P a b \<Longrightarrow> gh_step ports P a (unconfirmed ports why sp b)"
  by (auto simp: unconfirmed_def intro!: gh_intro)

lemma gh_places [gh_intro]:
  assumes "gh_step ports P a b"
  shows "gh_step ports P a (fst (post_at ports p body b))" "gh_step ports P a (react_at ports p content b)"
    "gh_step ports P a (post_op ports q body b)" "gh_step ports P a (react_op ports q content b)" "gh_step ports P a (refuse ports q body b)"
  using assms by (auto simp: post_at_def react_at_def post_op_def react_op_def refuse_def intro!: gh_intro)

section \<open>What keeps the open questions\<close>

text \<open>Posts, reactions, actions and lines leave the questions and the rows as they are.\<close>

definition talks :: "'w github \<Rightarrow> 'w github \<Rightarrow> bool" where
  "talks a b \<longleftrightarrow> gh_questions b = gh_questions a \<and> gh_ledger b = gh_ledger a \<and> gh_agents b = gh_agents a \<and> gh_config b = gh_config a
     \<and> gh_slug b = gh_slug a"

lemma talk_refl [simp]: "talks a a"
  by (simp add: talks_def)

lemma talk_post_parts: "talks b (fst (post_parts ports i repo number parts first b))"
proof (induction parts arbitrary: first b)
  case (Cons part parts)
  obtain c r where c: "retry_once ports (gp_comment ports i repo number part) b = (c, r)" by fastforce
  then have bc: "talks b c" by (auto simp: retry_once_def talks_def split: prod.splits sum.splits github_error.splits if_splits)
  show ?case
  proof (cases r)
    case (Inl e)
    with c bc show ?thesis by (auto simp: github_failed_def log_call_def talks_def split: github_error.split)
  next
    case (Inr n)
    with c bc Cons.IH[where b = "(log_call (Commented repo number part (Some n)) c)\<lparr>gh_faults := fault_ok TokenFault (gh_faults c)\<rparr>"]
    show ?thesis by (simp add: log_call_def talks_def)
  qed
qed simp

lemma talk_post: "talks b (fst (post ports i repo number body b))"
  by (simp add: post_def talk_post_parts Let_def)

lemma talk_post_at: "talks b (fst (post_at ports p body b))"
  by (simp add: post_at_def talk_post)

lemma talk_act: "talks b (fst (act ports agent action b))"
  by (simp add: act_def log_call_def talks_def split: prod.split)

lemma talk_line: "talks b (line ports agent text b)"
  by (simp add: line_def mark_status_def gh_now_def gh_now_secs_def talks_def Let_def split: prod.split)

lemma line_questions [simp]: "gh_questions (line ports agent text b) = gh_questions b"
  using talk_line by (auto simp: talks_def)

lemma deliver_review_questions: "gh_questions (deliver_review ports agent h b) = gh_questions b"
proof -
  obtain c r where c: "act ports agent (SendText (utf8 (hr_message h)) True) b = (c, r)" by fastforce
  have "gh_questions c = gh_questions b" using talk_act[of b ports agent "SendText (utf8 (hr_message h)) True"] c by (simp add: talks_def)
  with c show ?thesis by (simp add: deliver_review_def split: sum.split)
qed

lemma gh_deliver_review: "gh_step ports P a b \<Longrightarrow> P agent \<Longrightarrow> \<not> is_open (gh_questions b) agent \<Longrightarrow> gh_step ports P a (deliver_review ports agent h b)"
  by (auto simp: deliver_review_def intro!: gh_intro split: sum.split)

lemma gh_release [gh_intro]:
  assumes "gh_step ports P a b" "P agent"
  shows "gh_step ports P a (release_held ports agent b)"
proof -
  have released: "gh_step ports P a (fold (deliver_review ports agent) hs c)" if "gh_step ports P a c" "\<not> is_open (gh_questions c) agent" for hs c
    using that assms(2) by (induction hs arbitrary: c) (auto simp: deliver_review_questions gh_deliver_review)
  show ?thesis using assms by (auto simp: release_held_def intro!: released gh_fields)
qed

lemma gh_hold [gh_intro]: "gh_step ports P a b \<Longrightarrow> P agent \<Longrightarrow> gh_step ports P a (hold_review ports agent h b)"
  by (auto simp: hold_review_def Let_def intro!: gh_intro)

lemma gh_review [gh_intro]: "gh_step ports P a b \<Longrightarrow> (\<And>g. by_number (gh_ledger b) repo number = Some g \<Longrightarrow> P g) \<Longrightarrow> gh_step ports P a (on_review ports i repo number author review_id state body commit b)"
  by (auto simp: on_review_def Let_def intro!: gh_intro split: option.split sum.split bool.split)

section \<open>Answers\<close>

definition decision_fits :: "string \<Rightarrow> decision \<Rightarrow> 'w github \<Rightarrow> bool" where
  "decision_fits agent d b \<longleftrightarrow>
     sends_keys d \<and> (\<forall>oq. bt_get (gh_questions b) agent = Some oq \<longrightarrow> keeps_ok (oq_questions oq) d)"

lemma decision_fits_talks: "talks b c \<Longrightarrow> decision_fits agent d b \<Longrightarrow> decision_fits agent d c"
  by (simp add: decision_fits_def talks_def)

lemma gh_stage:
  assumes "gh_step ports P a b" "\<And>oq. bt_get (gh_questions b) agent = Some oq \<Longrightarrow> stage_ok (oq_questions oq) st"
  shows "gh_step ports P a (b\<lparr>gh_questions := set_stage agent st (gh_questions b)\<rparr>)"
proof (rule gh_questions[OF assms(1)])
  have "open_ok (oq\<lparr>oq_stage := st\<rparr>)" if "bt_get (gh_questions b) agent = Some oq" "open_ok oq" for oq
    using that assms(2) by (intro open_ok_stage) auto
  from update_open_facts(1)[where f = "\<lambda>oq. oq\<lparr>oq_stage := st\<rparr>" and qs = "gh_questions b" and agent = agent, OF this]
  show "questions_ok (gh_questions b) \<Longrightarrow> questions_ok (set_stage agent st (gh_questions b))" by (simp add: set_stage_def)
qed

lemma gh_commit:
  assumes "gh_step ports P a b" "decision_fits agent d b"
  shows "gh_step ports P a (commit_decision ports agent p d echo b)"
proof -
  have "gh_step ports P a (b\<lparr>gh_questions := set_stage agent (if gates_on_post d then with_echo echo (dn_stage d) else dn_stage d) (gh_questions b)\<rparr>)"
    using assms(2) by (intro gh_stage[OF assms(1)]) (auto simp: decision_fits_def keeps_ok_def)
  then show ?thesis by (auto simp: commit_decision_def Let_def intro!: gh_intro split: option.split)
qed

lemma gh_fallback:
  assumes "gh_step ports P a b" "decision_fits agent d b"
  shows "gh_step ports P a (b\<lparr>gh_questions := set_stage agent (dn_fallback d) (gh_questions b)\<rparr>)"
  using assms(2) by (intro gh_stage[OF assms(1)]) (auto simp: decision_fits_def keeps_ok_def)

lemma gh_send_decision:
  assumes "gh_step ports P a b" "P agent" "decision_fits agent d b"
  shows "gh_step ports P a (send_decision ports agent p d echo b)"
proof (cases "dn_send d")
  case (Some action)
  obtain c r where c: "act ports agent action b = (c, r)" by fastforce
  have "gh_step ports P a (fst (act ports agent action b))"
    using Some assms by (intro gh_act) (auto simp: decision_fits_def sends_keys_def)
  then have ac: "gh_step ports P a c" using c by simp
  have "decision_fits agent d c" using decision_fits_talks[OF talk_act assms(3)] c by (metis fst_conv)
  note gh_commit[OF ac this] gh_fallback[OF ac this]
  then show ?thesis using Some c by (auto simp: send_decision_def Let_def intro!: gh_places split: sum.split)
qed (use gh_commit[OF assms(1,3)] in \<open>simp add: send_decision_def\<close>)

lemma gh_execute:
  assumes "gh_step ports P a b" "P agent" "decision_fits agent d b"
  shows "gh_step ports P a (execute_decision ports agent p d b)"
proof (cases "dn_post d")
  case (Some body)
  obtain c r where c: "post_at ports p body b = (c, r)" by fastforce
  have ac: "gh_step ports P a c" using gh_places(1)[OF assms(1), of p body] c by simp
  have "decision_fits agent d c" using decision_fits_talks[OF talk_post_at assms(3)] c by (metis fst_conv)
  note gh_send_decision[OF ac assms(2) this] gh_fallback[OF ac this]
  then show ?thesis using Some c by (auto simp: execute_decision_def intro!: gh_places split: option.split)
qed (use gh_send_decision[OF assms] in \<open>simp add: execute_decision_def\<close>)

lemma gh_step_ok: "gh_step ports P a b \<Longrightarrow> github_ok a \<Longrightarrow> cache_sound ports a \<Longrightarrow> gh_config a \<noteq> None \<Longrightarrow> github_ok b"
  by (simp add: gh_step_def)

lemma gh_assume: "(github_ok a \<Longrightarrow> cache_sound ports a \<Longrightarrow> gh_config a \<noteq> None \<Longrightarrow> gh_step ports P a b) \<Longrightarrow> gh_step ports P a b"
  by (auto simp: gh_step_def)

lemma gh_answer [gh_intro]:
  assumes "gh_step ports P a b" "P agent"
  shows "gh_step ports P a (on_answer ports agent p body b)"
proof (rule gh_assume)
  assume ok: "github_ok a" "cache_sound ports a" "gh_config a \<noteq> None"
  have step: "gh_step ports P a (with_cfg (\<lambda>c a. case on_reply (gp_unicode ports) oq body (key_delay agent a) now (allowlist_with (gd_slash_commands c)) of
        None \<Rightarrow> log_call Panicked a | Some d \<Rightarrow> execute_decision ports agent p d a) c)"
    if oq: "bt_get (gh_questions b) agent = Some oq" and c: "gh_step ports P a c" "gh_questions c = gh_questions b" for oq now c
  proof (rule gh_with_cfg[OF c(1)])
    fix config
    have "open_ok oq" using gh_step_ok[OF assms(1) ok] oq by (auto simp: github_ok_def questions_ok_def)
    then obtain d where d: "on_reply (gp_unicode ports) oq body (key_delay agent c) now (allowlist_with (gd_slash_commands config)) = Some d"
      "keeps_ok (oq_questions oq) d" using on_reply_total_lemma by blast
    then have "decision_fits agent d c" using oq c(2) reply_keys by (auto simp: decision_fits_def)
    from gh_execute[OF c(1) assms(2) this] d show "gh_step ports P a (case on_reply (gp_unicode ports) oq body (key_delay agent c) now
        (allowlist_with (gd_slash_commands config)) of None \<Rightarrow> log_call Panicked c | Some d \<Rightarrow> execute_decision ports agent p d c)" by simp
  qed
  obtain c now where c: "gh_now ports b = (c, now)" by fastforce
  have "gh_step ports P a c" "gh_questions c = gh_questions b"
    using gh_clocks(1)[OF assms(1)] c by (auto simp: gh_now_def split: prod.splits)
  with assms c show "gh_step ports P a (on_answer ports agent p body b)" by (auto simp: on_answer_def intro: step split: option.split)
qed

lemma gh_route:
  assumes "gh_step ports P a b" "P agent" "\<not> is_open (gh_questions b) agent"
  shows "gh_step ports P a (route_prompt ports agent p asker body b)"
  unfolding route_prompt_def using assms by (auto simp: Let_def intro!: gh_intro split: sum.split)

lemma gh_message [gh_intro]: "gh_step ports P a b \<Longrightarrow> P agent \<Longrightarrow> gh_step ports P a (on_message ports agent p asker body b)"
  using gh_route[OF gh_touch, of ports P a b agent] by (auto simp: on_message_def Let_def intro!: gh_intro)

section \<open>Hook events and the tick\<close>

lemma gh_track_question [gh_intro]: "gh_step ports P a b \<Longrightarrow> P (ev_agent event) \<Longrightarrow> gh_step ports P a (fst (track_question ports event b))"
  by (auto simp: track_question_def Let_def intro!: gh_intro split: option.split)

lemma gh_posted: "gh_step ports P a b \<Longrightarrow> gh_step ports P a (b\<lparr>gh_questions := mark_posted agent (gh_questions b)\<rparr>)"
  by (rule gh_questions) (auto intro: mark_posted_facts)

lemma gh_suppress: "gh_step ports P a b \<Longrightarrow> gh_step ports P a (b\<lparr>gh_questions := fst (suppress_permission_prompt agent (gh_questions b))\<rparr>)"
  by (rule gh_questions) (auto intro: suppress_facts)

lemma gh_question_event [gh_intro]:
  assumes "gh_step ports P a b"
  shows "gh_step ports P a (fst (on_question_event ports i repo number event tracking b))"
proof (cases tracking)
  case OtherEvent
  with gh_suppress[OF assms, of "ev_agent event"] assms show ?thesis
    by (auto simp: on_question_event_def split: prod.split)
qed (use assms in \<open>auto simp: on_question_event_def Let_def intro!: gh_posted gh_intro split: option.split verdict.split\<close>)

lemma gh_settle [gh_intro]: "gh_step ports P a b \<Longrightarrow> gh_step ports P a (settle_deliveries ports event b)"
  by (auto simp: settle_deliveries_def Let_def intro!: gh_intro split: option.split)

lemma gh_note_session [gh_intro]: "gh_step ports P a b \<Longrightarrow> gh_step ports P a (note_session event row b)"
  by (auto simp: note_session_def Let_def row_key_def intro!: gh_intro split: option.split)

lemma gh_first_prompt:
  "gh_step ports P a b \<Longrightarrow> P agent \<Longrightarrow> \<not> is_open (gh_questions b) agent \<Longrightarrow> gh_step ports P a (send_first_prompt ports agent i repo number kind fp b)"
  by (auto simp: send_first_prompt_def Let_def intro!: gh_intro split: sum.split)

lemma gh_post_event:
  assumes "gh_step ports P a b" "P (ev_agent event)" "ev_name event = ''SessionStart'' \<Longrightarrow> \<not> is_open (gh_questions b) (ev_agent event)"
  shows "gh_step ports P a (post_event ports config row event tracking b)"
proof (cases "ev_name event = ''SessionStart''")
  case True
  then show ?thesis using assms
    by (auto simp: post_event_def Let_def intro!: gh_first_prompt gh_intro split: option.split)
qed (use assms(1) in \<open>auto simp: post_event_def Let_def intro!: gh_intro split: option.split bool.split\<close>)

lemma session_start_clears:
  "ev_name event = ''SessionStart'' \<Longrightarrow> \<not> is_open (gh_questions (fst (track_question ports event b))) (ev_agent event)"
  by (auto simp: track_question_def closes_dialog_def on_questions_def question_clear_def is_open_def Let_def split: option.split)

lemma gh_event [gh_intro]:
  assumes "gh_step ports P a b" "P (ev_agent event)"
  shows "gh_step ports P a (github_event ports event b)"
proof -
  let ?c = "settle_deliveries ports event (touch ports (ev_agent event) b)"
  obtain d t where d: "track_question ports event ?c = (d, t)" by fastforce
  have ad: "gh_step ports P a d" using gh_track_question[of ports P a ?c event] d assms by (auto intro: gh_intro)
  have "\<not> is_open (gh_questions d) (ev_agent event)" if "ev_name event = ''SessionStart''"
    using session_start_clears[OF that, of ports ?c] d by simp
  then have "gh_step ports P a (post_event ports config row event t (note_session event row d))" for config row
    by (intro gh_post_event gh_note_session ad assms(2)) (auto simp: note_session_def Let_def split: option.split)
  with ad d assms show ?thesis by (auto simp: github_event_def Let_def split: option.split)
qed

lemma gh_phase [gh_intro]: "gh_step ports P a b \<Longrightarrow> gh_step ports P a (on_phase ports change b)"
  by (auto simp: on_phase_def Let_def intro!: gh_intro split: option.split)

lemma gh_refile [gh_intro]: "gh_step ports P a b \<Longrightarrow> gh_step ports P a (refile_failed ports agent row message b)"
  by (auto simp: refile_failed_def intro!: gh_intro)

lemma gh_close_row [gh_intro]: "gh_step ports P a b \<Longrightarrow> gh_step ports P a (close_row ports agent b)"
  by (auto simp: close_row_def Let_def row_key_def intro!: gh_intro split: option.split sum.split)

lemma gh_ended [gh_intro]: "gh_step ports P a b \<Longrightarrow> gh_step ports P a (ended ports agent reason b)"
  by (auto simp: ended_def Let_def intro!: gh_intro)

lemma gh_end_with [gh_intro]: "gh_step ports P a b \<Longrightarrow> gh_step ports P a (end_with ports agent row fleet reason text branch b)"
  by (auto simp: end_with_def Let_def intro!: gh_intro split: sum.split)

lemma gh_end [gh_intro]: "gh_step ports P a b \<Longrightarrow> gh_step ports P a (end_session ports i reason agent b)"
  by (auto simp: end_session_def Let_def intro!: gh_intro split: sum.split option.split)

lemma gh_tick_deliveries [gh_intro]: "gh_step ports P a b \<Longrightarrow> (\<And>g. P g) \<Longrightarrow> gh_step ports P a (tick_deliveries ports b)"
  by (auto simp: tick_deliveries_def Let_def intro!: gh_intro)

lemma gh_tick_idle [gh_intro]: "gh_step ports P a b \<Longrightarrow> gh_step ports P a (tick_idle ports b)"
  by (auto simp: tick_idle_def Let_def intro!: gh_intro)

lemma gh_prune_row [gh_intro]: "gh_step ports P a b \<Longrightarrow> gh_step ports P a (prune_row ports agent b)"
  by (auto simp: prune_row_def intro!: gh_intro split: sum.split)

lemma gh_write_row [gh_intro]: "gh_step ports P a b \<Longrightarrow> gh_step ports P a (write_row ports agent b)"
  by (auto simp: write_row_def intro!: gh_intro split: option.split)

lemma gh_tick [gh_intro]: "gh_step ports P a b \<Longrightarrow> (\<And>g. P g) \<Longrightarrow> gh_step ports P a (on_tick ports b)"
  by (auto simp: on_tick_def tick_prune_def tick_statuses_def tick_rows_def Let_def intro!: gh_intro)

section \<open>Starting and webhooks\<close>

lemma gh_note_crew [gh_intro]: "gh_step ports P a b \<Longrightarrow> gh_step ports P a (note_crew ports p path fleet declared crew b)"
  by (auto simp: note_crew_def intro!: gh_intro)

lemma gh_start_status [gh_intro]: "gh_step ports P a b \<Longrightarrow> gh_step ports P a (fst (start_status ports p agent resumed old b))"
  by (auto simp: start_status_def Let_def intro!: gh_intro split: option.split sum.split)

lemma gh_drop_prior [gh_intro]: "gh_step ports P a b \<Longrightarrow> gh_step ports P a (drop_prior ports prior b)"
  by (auto simp: drop_prior_def Let_def intro!: gh_intro)

lemma gh_started [gh_intro]: "gh_step ports P a b \<Longrightarrow> gh_step ports P a (started ports p fleet crew agent branch b)"
  unfolding started_def Let_def by (intro gh_intro; (auto intro!: gh_intro split: option.split)?)

lemma gh_start_with [gh_intro]: "gh_step ports P a b \<Longrightarrow> gh_step ports P a (start_with ports p path fleet branch text b)"
  by (auto simp: start_with_def Let_def intro!: gh_intro split: sum.split)

lemma gh_start_file [gh_intro]: "gh_step ports P a b \<Longrightarrow> gh_step ports P a (start_file ports p fleet b)"
  by (auto simp: start_file_def intro!: gh_intro split: sum.split option.split)

lemma gh_start [gh_intro]:
  assumes "gh_step ports P a b"
  shows "gh_step ports P a (start_session ports p b)"
proof -
  let ?b = "react_op ports p EYES b"
  obtain w r where r: "repo_of_fleet (gp_host ports) (Mention.fleet_name (op_repo p)) (gh_world ?b) = (w, r)" by fastforce
  from assms show ?thesis unfolding start_session_def Let_def r
    by (auto intro!: gh_intro split: sum.split option.split)
qed

lemma gh_opening [gh_intro]: "gh_step ports P a b \<Longrightarrow> gh_step ports P a (on_opening ports author p b)"
  by (auto simp: on_opening_def Let_def intro!: gh_intro split: option.split bool.split)

lemma gh_comment [gh_intro]:
  assumes "gh_step ports P a b" "\<And>g. by_number (gh_ledger b) (cp_repo p) (cp_number p) = Some g \<Longrightarrow> P g"
  shows "gh_step ports P a (on_comment ports author p body is_pr b)"
proof -
  obtain c r where c: "permitted ports (cp_installation p) (cp_repo p) author b = (c, r)" by fastforce
  have "gh_step ports P a c" using gh_permitted[OF assms(1)] c by (metis fst_conv)
  moreover have "P g" if "by_number (gh_ledger c) (cp_repo p) (cp_number p) = Some g" for g
    using assms(2) permitted_keeps[OF c] that by simp
  ultimately show ?thesis using assms(1)
    by (auto simp: on_comment_def c ended_reply_def start_from_comment_def Let_def intro!: gh_intro split: option.split bool.split sum.split)
qed

lemma gh_webhook [gh_intro]: "gh_step ports P a b \<Longrightarrow> (\<And>g. by_number (gh_ledger b) (ev_repo ev) (ev_number ev) = Some g \<Longrightarrow> P g) \<Longrightarrow> gh_step ports P a (on_webhook ports ev b)"
  by (auto simp: on_webhook_def intro!: gh_intro split: webhook_event.split option.split)

section \<open>Commands\<close>

lemma gh_activate [gh_intro]:
  assumes "gh_step ports P a b"
  shows "gh_step ports P a (on_activate ports agent config b)"
proof -
  obtain w r where r: "repo_of_fleet (gp_host ports) (fleet_of agent) (gh_world b) = (w, r)" by fastforce
  from assms show ?thesis unfolding on_activate_def Let_def r
    by (auto intro!: gh_intro split: option.split sum.split)
qed

lemma gh_deactivate [gh_intro]: "gh_step ports P a b \<Longrightarrow> gh_step ports P a (on_deactivate ports agent b)"
  by (auto simp: on_deactivate_def Let_def intro!: gh_intro)

lemma gh_command: "(\<And>g. P g) \<Longrightarrow> gh_step ports P a (run_command ports c a)"
  by (cases c) (auto simp: run_command_def Let_def intro!: gh_intro split: bool.split)

section \<open>The states the actor can be in\<close>

definition github_run :: "'w github_ports \<Rightarrow> string \<Rightarrow> github_command list \<Rightarrow> 'w \<Rightarrow> 'w github" where
  "github_run ports slug cs w = fold (github_handle ports) cs (github_load ports (new_github slug w))"

definition github_inv :: "'w github_ports \<Rightarrow> 'w github \<Rightarrow> bool" where
  "github_inv ports a \<longleftrightarrow>
     github_ok a \<and> cache_sound ports a \<and> list_all fine (gh_calls a) \<and> (gh_config a \<noteq> None \<longrightarrow> gh_pending a = [])"

lemma step_keeps_inv:
  assumes "gh_step ports P a b" "github_inv ports a" "gh_config a \<noteq> None"
  shows "github_inv ports b \<and> gh_config b \<noteq> None"
  using assms by (auto simp: gh_step_def github_inv_def list_all_iff)

lemma commands_keep_inv:
  assumes "github_inv ports a" "gh_config a \<noteq> None"
  shows "github_inv ports (fold (run_command ports) cs a) \<and> gh_config (fold (run_command ports) cs a) \<noteq> None"
proof -
  have "gh_step ports (\<lambda>_. True) a (fold (run_command ports) cs a)" by (intro gh_fold gh_refl gh_command) simp
  then show ?thesis using assms by (rule step_keeps_inv)
qed

lemma github_handle_inv:
  assumes "github_inv ports a"
  shows "github_inv ports (github_handle ports c a)"
proof (cases "\<exists>config. c = Configure config")
  case True
  then obtain config where c: "c = Configure config" ..
  have "github_inv ports (a\<lparr>gh_config := Some config, gh_pending := []\<rparr>)"
    using assms by (simp add: github_inv_def github_ok_def cache_sound_def)
  from commands_keep_inv[OF this, of "gh_pending a"] c show ?thesis by (simp add: github_handle_def Let_def)
next
  case False
  then have "github_handle ports c a = (if gh_config a = None then a\<lparr>gh_pending := gh_pending a @ [c]\<rparr> else run_command ports c a)"
    by (auto simp: github_handle_def split: github_command.split)
  moreover have "github_inv ports (a\<lparr>gh_pending := gh_pending a @ [c]\<rparr>)" if "gh_config a = None"
    using assms that by (simp add: github_inv_def github_ok_def cache_sound_def)
  ultimately show ?thesis using assms commands_keep_inv[of ports a "[c]"] by simp
qed

lemma github_load_inv: "github_inv ports (github_load ports (new_github slug w))"
proof -
  have "faults_ok new_faults" by (simp add: faults_ok_def new_faults_def last_faults_def newest_def)
  moreover have "questions_ok []" by (simp add: questions_ok_def)
  ultimately show ?thesis
    by (auto simp: github_load_def new_github_def github_inv_def github_ok_def cache_sound_def Let_def
        dest: ledger_load_sound questions_load_ok split: prod.split sum.split)
qed

lemma github_run_inv: "github_inv ports (github_run ports slug cs w)"
proof -
  have "github_inv ports (fold (github_handle ports) cs a)" if "github_inv ports a" for a
    using that by (induction cs arbitrary: a) (auto intro: github_handle_inv)
  then show ?thesis by (simp add: github_run_def github_load_inv)
qed

section \<open>Samples\<close>

definition sample_github_ports :: "unit github_ports" where
  "sample_github_ports =
     \<lparr>gp_host = \<lparr>port_get = (\<lambda>k w. (w, Inr (if k = session_key ''f/c/a'' then Some [] else None))), port_put = (\<lambda>k v w. (w, Inr ())),
                 port_delete = (\<lambda>k w. (w, Inr ())),
                 host_list = (\<lambda>p w. (w, Inr (if p = SESSION_PREFIX then [session_key ''f/c/a''] else []))),
                 host_action = (\<lambda>g x w. (w, Inr ()))\<rparr>,
      gp_apply = (\<lambda>f j w. (w, Inr ())), gp_default_branch = (\<lambda>i r w. (w, Inr ''main'')),
      gp_read_file = (\<lambda>i r p b w. (w, Inr None)),
      gp_permission = (\<lambda>i r login w. (w, Inr (if login = ''ann'' then Write else ReadOnly))),
      gp_comment = (\<lambda>i r n b w. (w, Inr 1)), gp_edit_comment = (\<lambda>i r n b w. (w, Inr ())), gp_react = (\<lambda>i r t c w. (w, Inr ())),
      gp_review_comments = (\<lambda>i r n v w. (w, Inr \<lparr>rs_comments = [], rs_more = False\<rparr>)),
      gp_issue = (\<lambda>i r n w. (w, Inl NotFound)), gp_now = (\<lambda>w. (w, 0)), gp_now_secs = (\<lambda>w. (w, 0)), gp_sleep = (\<lambda>d w. w),
      gp_walk = (\<lambda>xs. xs), gp_yaml = sample_yaml, gp_debug = (\<lambda>s. s),
      gp_rows = \<lparr>rw_print = (\<lambda>_. []), rw_parse = (\<lambda>_. Some sample_row)\<rparr>,
      gp_json = \<lparr>js_print = (\<lambda>_. []), js_parse = (\<lambda>_. None)\<rparr>, gp_unicode = sample_unicode, gp_error_text = (\<lambda>_. [])\<rparr>"

definition sample_github_config :: github_daemon_config where
  "sample_github_config =
     \<lparr>gd_app_id = 1, gd_private_key = ''k'', gd_webhook_secret = ''s'', gd_listen = [], gd_config_path = ''.balerix.yaml'',
      gd_idle_timeout = 0, gd_max_parts = 10, gd_slash_commands = []\<rparr>"

definition sample_session_config :: github_agent_config where
  "sample_session_config =
     \<lparr>gc_enabled = True, gc_events = [], gc_phases = True, gc_key_delay_ms = 100, gc_confirm_window = from_secs 30,
      gc_kind = Some Issue, gc_number = Some 7\<rparr>"

definition sample_author :: "string \<Rightarrow> author" where
  "sample_author login = \<lparr>au_login = login, au_bot = False\<rparr>"

definition sample_comment :: "string \<Rightarrow> webhook_event" where
  "sample_comment login = Comment ''acme/app'' 1 7 (sample_author login) 5 ''hello'' False"

text \<open>The plugin restarted: its row is loaded, the agent not yet activated again.\<close>

definition restarted :: "unit github" where
  "restarted = github_run sample_github_ports ''bot'' [Configure sample_github_config] ()"

lemma restarted_state:
  "restarted = (new_github ''bot'' ())\<lparr>gh_config := Some sample_github_config,
     gh_ledger := \<lparr>ld_rows = [(''f/c/a'', sample_row)], ld_by_number = [((''acme/app'', 7), ''f/c/a'')]\<rparr>\<rparr>"
proof -
  have "strip_prefix SESSION_PREFIX (session_key ''f/c/a'') = Some ''f/c/a''"
    by (simp only: strip_prefix_Some session_key_def)
  moreover have "QUESTION_PREFIX \<noteq> SESSION_PREFIX" by (simp add: QUESTION_PREFIX_def SESSION_PREFIX_def)
  ultimately show ?thesis
    by (simp add: restarted_def github_run_def github_handle_def github_load_def ledger_load_def questions_load_def load_row_def
        sample_github_ports_def new_github_def new_ledger_def insert_row_def row_key_def sample_row_def bt_get_def Let_def)
qed

lemma restarted_row:
  "row_of (gh_ledger restarted) ''f/c/a'' = Some sample_row" "by_number (gh_ledger restarted) ''acme/app'' 7 = Some ''f/c/a''"
  "\<not> gs_closed sample_row"
  by (simp_all add: restarted_state row_of_def by_number_def bt_get_def sample_row_def)

lemma restarted_permits: "\<exists>b. permitted sample_github_ports 1 ''acme/app'' (sample_author ''ann'') restarted = (b, True)"
proof -
  have "\<not> eq_nocase ''ann'' ''bot''" "\<not> eq_nocase ''ann'' ''bot[bot]''" by code_simp+
  then show ?thesis
    by (simp add: restarted_state permitted_def is_self_def ask_permission_def retry_once_def gh_now_def sample_github_ports_def
        sample_author_def new_github_def may_prompt_def Let_def)
qed

section \<open>Text never lands in a dialog\<close>

text \<open>What a question event does to the record.\<close>

lemma track_asked:
  "asks g e \<Longrightarrow> \<exists>qs. snd (track_question ports e b) = OpenedQuestion qs
     \<and> is_open (gh_questions (fst (track_question ports e b))) g"
  by (auto simp: asks_def track_question_def closes_dialog_def on_questions_def question_open_def Let_def)

lemma post_event_asked:
  assumes "asks g e" "is_open (gh_questions b) g"
  shows "is_open (gh_questions (post_event ports config row e (OpenedQuestion qs) b)) g"
proof -
  obtain c r where c: "post ports (gs_installation row) (gs_repo row) (gs_number row) (question_comment (gp_unicode ports) qs) b = (c, r)"
    by fastforce
  have "gh_questions c = gh_questions b"
    using talk_post[of b ports "gs_installation row" "gs_repo row" "gs_number row" "question_comment (gp_unicode ports) qs"] c
    by (simp add: talks_def)
  with assms c show ?thesis
    by (auto simp: post_event_def on_question_event_def asks_def Let_def mark_posted_facts split: option.split)
qed

text \<open>A question asked by an agent that is activated and has a row is open as soon as its event is handled.\<close>

lemma asked_question_is_known:
  assumes "bt_get (gh_agents a) g = Some config" "row_of (gh_ledger a) g = Some row" "asks g e"
  shows "is_open (gh_questions (github_event ports e a)) g"
proof -
  have g: "ev_agent e = g" using assms(3) by (simp add: asks_def)
  let ?b = "settle_deliveries ports e (touch ports g a)"
  obtain c qs where c: "track_question ports e ?b = (c, OpenedQuestion qs)" and opened: "is_open (gh_questions c) g"
    using track_asked[OF assms(3), of ports ?b] by (metis prod.collapse)
  have "gh_questions (note_session e row c) = gh_questions c" by (simp add: note_session_def Let_def split: option.split)
  with opened have "is_open (gh_questions (post_event ports config row e (OpenedQuestion qs) (note_session e row c))) g"
    by (intro post_event_asked[OF assms(3)]) simp
  with assms(1,2) g c opened show ?thesis by (simp add: github_event_def)
qed

text \<open>
  C8. Whatever the commands, and whichever calls to GitHub, the daemon and the store fail, the github plugin sends text only to
  an agent that has no question open in the plugin's record at that moment: not a comment, not a review held
  while a dialog was up, not a first prompt; an open question gets keys alone. And the record has a question open as
  soon as the event that asks it is handled, for an agent that is activated and has a row. The plugin never panics; the
  index from a repository's number leads to a row of that number; and the health it reports is the newest failure
  that no success of its kind has cleared.
\<close>

theorem text_never_into_a_dialog:
  assumes "bt_get (gh_agents (github_run ports slug cs w)) g = Some config"
    and "row_of (gh_ledger (github_run ports slug cs w)) g = Some row" and "asks g e"
  shows "list_all fine (gh_calls (github_run ports slug cs w))
   \<and> is_open (gh_questions (github_event ports e (github_run ports slug cs w))) g
   \<and> index_sound (gh_ledger (github_run ports slug cs w))
   \<and> ft_cell (gh_faults (github_run ports slug cs w))
       = map_option snd (newest (last_faults (gh_faults (github_run ports slug cs w))))"
  using github_run_inv[of ports slug cs w] asked_question_is_known[OF assms]
  by (simp add: github_inv_def github_ok_def faults_ok_def)

theorem text_never_into_a_dialog_witness:
  "is_open (gh_questions (github_event sample_github_ports sample_asks (github_run sample_github_ports ''bot''
     [Configure sample_github_config, Activate ''f/c/a'' sample_session_config] ()))) ''f/c/a''"
proof -
  have run: "github_run sample_github_ports ''bot'' [Configure sample_github_config, Activate ''f/c/a'' sample_session_config] ()
      = restarted\<lparr>gh_agents := [(''f/c/a'', sample_session_config)]\<rparr>"
  proof -
    have "arrived ''f/c/a'' ExpectActivate restarted = (restarted, False)" by (simp add: arrived_def restarted_state new_github_def)
    moreover have "on_activate sample_github_ports ''f/c/a'' sample_session_config restarted
        = restarted\<lparr>gh_agents := [(''f/c/a'', sample_session_config)]\<rparr>"
      using restarted_row(1) by (simp add: on_activate_def Let_def restarted_state new_github_def bt_contains_def)
    moreover have "gh_config restarted = Some sample_github_config" by (simp add: restarted_state)
    ultimately show ?thesis
      by (simp add: restarted_def github_run_def) (simp add: github_handle_def run_command_def)
  qed
  show ?thesis
    using text_never_into_a_dialog[of sample_github_ports "''bot''" "[Configure sample_github_config, Activate ''f/c/a'' sample_session_config]"
        "()" "''f/c/a''" sample_session_config sample_row sample_asks] restarted_row(1) sample_asks_ok
    by (simp add: run bt_get_def)
qed

section \<open>Who is heard\<close>

fun ev_author :: "webhook_event \<Rightarrow> author option" where
  "ev_author (IssueOpened _ _ _ x _ _ _) = Some x"
| "ev_author (PrOpened _ _ _ x _ _ _ _ _ _) = Some x"
| "ev_author (Comment _ _ _ x _ _ _) = Some x"
| "ev_author (ReviewSubmitted _ _ _ x _ _ _ _) = Some x"
| "ev_author (Closed _ _ _ _) = None"

definition untouched :: "'w github \<Rightarrow> 'w github \<Rightarrow> bool" where
  "untouched a b \<longleftrightarrow> gh_calls b = gh_calls a \<and> gh_questions b = gh_questions a \<and> gh_agents b = gh_agents a
     \<and> gh_deliveries b = gh_deliveries a \<and> gh_held b = gh_held a \<and> gh_first_prompts b = gh_first_prompts a"

lemma untouched_refresh: "untouched a (refresh_installation g i a)"
  by (simp add: untouched_def refresh_installation_def split: option.split)

lemma permitted_untouched: "permitted ports i repo author a = (b, r) \<Longrightarrow> untouched a b"
  using permitted_keeps[of ports i repo author a b r] by (simp add: untouched_def)

lemma refused_untouched:
  assumes "ev_author ev = Some author"
    and "\<And>b. gh_slug b = gh_slug a \<Longrightarrow> gh_permissions b = gh_permissions a \<Longrightarrow> \<not> snd (permitted ports (ev_installation ev) (ev_repo ev) author b)"
  shows "untouched a (on_webhook ports ev a)"
proof -
  have starts: "untouched a (on_opening ports author p a)"
    if "op_installation p = ev_installation ev" "op_repo p = ev_repo ev" for p
  proof -
    obtain b r where b: "permitted ports (ev_installation ev) (ev_repo ev) author a = (b, r)" by fastforce
    with assms(2)[of a] permitted_untouched[OF b] that show ?thesis by (auto simp: on_opening_def untouched_def)
  qed
  show ?thesis
  proof (cases ev)
    case (Comment repo i n x comment_id body is_pr)
    obtain b r where b: "permitted ports i repo x a = (b, r)" by fastforce
    with assms(1) assms(2)[of a] permitted_untouched[OF b] Comment show ?thesis
      by (auto simp: on_webhook_def on_comment_def) (simp_all add: untouched_def)
  next
    case (ReviewSubmitted repo i n x review_id state body commit)
    have "untouched a (on_review ports i repo n x review_id state body commit a)"
    proof (cases "by_number (gh_ledger a) repo n")
      case (Some g)
      let ?b = "refresh_installation g i a"
      obtain c r where c: "permitted ports i repo x ?b = (c, r)" by fastforce
      have "gh_slug ?b = gh_slug a" "gh_permissions ?b = gh_permissions a"
        by (simp_all add: refresh_installation_def split: option.split)
      with assms(1) assms(2)[of ?b] c ReviewSubmitted have "\<not> r" by simp
      moreover have "untouched a c" using untouched_refresh[of a g i] permitted_untouched[OF c] by (simp add: untouched_def)
      ultimately show ?thesis using Some c untouched_refresh[of a g i] by (simp add: on_review_def Let_def split: option.split)
    qed (simp add: on_review_def untouched_def)
    with assms(1) ReviewSubmitted show ?thesis by (simp add: on_webhook_def)
  qed (use assms(1) in \<open>auto simp: on_webhook_def intro!: starts\<close>)
qed

lemma not_granted_refused:
  assumes "cache_sound ports a" "\<not> granted ports (repo, au_login author)" "gh_permissions b = gh_permissions a"
  shows "\<not> snd (permitted ports i repo author b)"
proof -
  have "\<not> snd (ask_permission ports i (repo, au_login author) now c)" for now c
    using assms(2) retry_granted[of ports i "(repo, au_login author)" c]
    by (auto simp: ask_permission_def Let_def may_prompt_def[of NoPermission] split: prod.split sum.split github_error.split)
  moreover have "\<not> may_prompt p" if "bt_get (gh_permissions b) (repo, au_login author) = Some (p, until)" for p until
    using assms that by (auto simp: cache_sound_def)
  ultimately show ?thesis
    by (auto simp: permitted_def gh_now_def Let_def split: prod.split option.split)
qed



section \<open>A webhook reaches its own number only\<close>

text \<open>
  C9. A comment, a review, an opening or a closing acts on no agent but the one whose row is for that repository and number: nothing
  said on one issue is ever typed, as text or as keys, into another's agent.
\<close>

theorem webhook_acts_on_its_number:
  assumes "gh_config (github_run ports slug cs w) \<noteq> None"
  shows "\<exists>es. gh_calls (on_webhook ports ev (github_run ports slug cs w)) = gh_calls (github_run ports slug cs w) @ es
    \<and> list_all (reaches (\<lambda>g. \<exists>r. row_of (gh_ledger (github_run ports slug cs w)) g = Some r
                            \<and> gs_repo r = ev_repo ev \<and> gs_number r = ev_number ev)) es"
proof -
  let ?a = "github_run ports slug cs w"
  let ?P = "\<lambda>g. \<exists>r. row_of (gh_ledger ?a) g = Some r \<and> gs_repo r = ev_repo ev \<and> gs_number r = ev_number ev"
  have inv: "github_inv ports ?a" by (rule github_run_inv)
  then have "?P g" if "by_number (gh_ledger ?a) (ev_repo ev) (ev_number ev) = Some g" for g
    using by_number_row that by (auto simp: github_inv_def github_ok_def)
  then have "gh_step ports ?P ?a (on_webhook ports ev ?a)" by (intro gh_webhook gh_refl)
  then obtain es where "gh_calls (on_webhook ports ev ?a) = gh_calls ?a @ es" "list_all (\<lambda>c. fine c \<and> reaches ?P c) es"
    using inv assms by (auto simp: gh_step_def github_inv_def)
  then show ?thesis by (auto simp: list_all_iff)
qed

theorem webhook_acts_on_its_number_witness:
  "\<exists>es. gh_calls (on_webhook sample_github_ports (sample_comment ''ann'') restarted) = gh_calls restarted @ es"
proof -
  have "gh_config (github_run sample_github_ports ''bot'' [Configure sample_github_config] ()) \<noteq> None"
    using restarted_state by (simp add: restarted_def)
  from webhook_acts_on_its_number[OF this, of "sample_comment ''ann''"] show ?thesis unfolding restarted_def by blast
qed

section \<open>A comment is acted on once\<close>

lemma talk_ledgers [simp]:
  "gh_ledger (fst (post_at ports p body b)) = gh_ledger b" "gh_ledger (fst (act ports agent action b)) = gh_ledger b"
  "gh_ledger (react_at ports p content b) = gh_ledger b" "gh_ledger (fst (gh_now ports b)) = gh_ledger b"
  using talk_post_at[of b ports p body] talk_act[of b ports agent action]
  by (simp_all add: talks_def react_at_def react_def log_call_def gh_now_def split: prod.split)

lemma track_ledger [simp]: "gh_ledger (track ports agent i repo number asker target body allowance b) = gh_ledger b"
  by (simp add: track_def gh_now_def Let_def split: body_kind.split option.split prod.split)

lemma answer_ledger [simp]: "gh_ledger (on_answer ports agent p body b) = gh_ledger b"
proof -
  have "gh_ledger (execute_decision ports agent p d c) = gh_ledger c" for d and c :: "'a github"
    by (simp add: execute_decision_def send_decision_def commit_decision_def case_prod_beta Let_def split: option.split sum.split)
  then show ?thesis by (simp add: on_answer_def with_cfg_def case_prod_beta log_call_def split: option.split)
qed

lemma route_ledger [simp]: "gh_ledger (route_prompt ports agent p asker body b) = gh_ledger b"
  by (simp add: route_prompt_def with_cfg_def case_prod_beta Let_def log_call_def split: option.split sum.split)

lemma message_ledger: "gh_ledger (on_message ports agent p asker body b) = gh_ledger (touch ports agent b)"
  by (simp add: on_message_def Let_def)

definition remembers :: "seen \<Rightarrow> string \<times> u64 \<Rightarrow> string \<Rightarrow> ledger \<Rightarrow> bool" where
  "remembers i key agent s \<longleftrightarrow>
     by_number s (fst key) (snd key) = Some agent \<and> (\<exists>r. row_of s agent = Some r \<and> row_key r = key \<and> has_seen i r \<and> \<not> gs_closed r)"

lemma see_seen: "has_seen i (fst (see i r))"
proof -
  have "i \<in> set (drop (Suc (length (gs_seen r)) - SEEN_LIMIT) (gs_seen r @ [i]))"
    by (cases "Suc (length (gs_seen r)) - SEEN_LIMIT \<le> length (gs_seen r)") (auto simp: SEEN_LIMIT_def)
  then show ?thesis by (simp add: has_seen_def see_ids del: drop_append)
qed

lemma remember_remembers:
  assumes "by_number (gh_ledger b) (fst key) (snd key) = Some agent" "row_of (gh_ledger b) agent = Some r" "row_key r = key" "\<not> gs_closed r"
  shows "remembers i key agent (gh_ledger (remember ports agent i b))"
proof -
  obtain r' new where see: "see i r = (r', new)" by fastforce
  have r': "has_seen i r'" "row_key r' = key" "\<not> gs_closed r'" using see_seen[of i r] see_same[of i r] see assms by auto
  show ?thesis
  proof (cases new)
    case False
    then have "r' = r" using see by (auto simp: see_def Let_def split: if_splits)
    with False see assms r' show ?thesis by (simp add: remember_def remembers_def)
  next
    case True
    obtain w res where put: "port_put (gp_host ports) (session_key agent) (rw_print (gp_rows ports) r') (gh_world b) = (w, res)" by fastforce
    have "by_number (insert_row agent r' (gh_ledger b)) (fst key) (snd key) = Some agent"
      using r'(2) by (auto simp: by_number_def insert_row_def Let_def)
    with True see assms r' put show ?thesis
      by (cases res) (auto simp: remember_def remembers_def on_ledger_def set_row_def row_of_def update_row_def by_number_def)
  qed
qed

lemma touch_remembers: "remembers i key agent (gh_ledger b) \<Longrightarrow> remembers i key agent (gh_ledger (touch ports agent b))"
  by (auto simp: touch_def remembers_def row_of_def by_number_def gh_now_secs_def update_row_def has_seen_def row_key_def Let_def
      split: prod.splits option.splits)

lemma refreshed_row:
  assumes "row_of (gh_ledger b) g = Some r"
  shows "\<exists>r'. row_of (gh_ledger (refresh_installation g i b)) g = Some r' \<and> row_key r' = row_key r \<and> gs_closed r' = gs_closed r"
  using assms by (auto simp: refresh_installation_def row_of_def update_row_def row_key_def)

lemma refresh_keeps [simp]:
  "gh_questions (refresh_installation g i b) = gh_questions b" "gh_config (refresh_installation g i b) = gh_config b"
  by (simp_all add: refresh_installation_def split: option.split)

lemma remember_keeps [simp]:
  "gh_questions (remember ports g i b) = gh_questions b" "gh_config (remember ports g i b) = gh_config b"
  by (simp_all add: remember_def on_ledger_def split: option.split prod.split bool.split sum.split)

lemma live_comment:
  assumes "\<not> is_self author a" "\<not> redelivered repo number (SeenComment comment_id) a"
    "permitted ports i repo author a = (b, True)" "by_number (gh_ledger a) repo number = Some g"
    "row_of (gh_ledger a) g = Some r" "row_key r = (repo, number)" "\<not> gs_closed r"
  shows "on_webhook ports (Comment repo i number author comment_id body is_pr) a =
    on_message ports g \<lparr>cp_installation = i, cp_repo = repo, cp_number = number, cp_comment = comment_id\<rparr> (au_login author) (chars body)
      (remember ports g (SeenComment comment_id) (refresh_installation g i b))" (is ?same)
    and "remembers (SeenComment comment_id) (repo, number) g
      (gh_ledger (remember ports g (SeenComment comment_id) (refresh_installation g i b)))" (is ?remembers)
proof -
  let ?c = "refresh_installation g i b"
  have b: "gh_ledger b = gh_ledger a" using permitted_keeps[OF assms(3)] by simp
  obtain r' where r': "row_of (gh_ledger ?c) g = Some r'" "row_key r' = (repo, number)" "\<not> gs_closed r'"
    using refreshed_row[of b g r i] assms b by auto
  show ?remembers using remember_remembers[of ?c "(repo, number)" g r'] r' b assms(4) by simp
  then have "\<not> row_closed g (remember ports g (SeenComment comment_id) ?c)" by (auto simp: remembers_def row_closed_def)
  then show ?same using assms(1-4) b r' by (simp add: on_webhook_def on_comment_def Let_def row_closed_def)
qed

lemma track_calls [simp]: "gh_calls (track ports agent i repo number asker target body allowance b) = gh_calls b"
  by (simp add: track_def gh_now_def Let_def split: body_kind.split option.split prod.split)

lemma message_types:
  assumes "\<not> is_open (gh_questions c) g" "gh_config c = Some config" "classify (as_prompt body) = Prompt"
    and "\<And>x w. snd (host_action (gp_host ports) g x w) = Inr ()"
  shows "Acted g (SendText (utf8 (as_prompt body)) True) True False \<in> set (gh_calls (on_message ports g p asker body c))"
proof -
  have "gh_questions (touch ports g c) = gh_questions c" "gh_config (touch ports g c) = gh_config c"
    by (simp_all add: touch_def gh_now_secs_def Let_def split: option.split prod.split)
  with assms show ?thesis
    by (simp add: on_message_def route_prompt_def with_cfg_def act_def log_call_def react_at_def react_def case_prod_beta is_ok_def Let_def)
qed




section \<open>A resumed session survives the old deactivation\<close>

lemma expected_kept [simp]:
  "gh_expected (line ports agent text b) = gh_expected b" "gh_expected (fst (retry_once ports f b)) = gh_expected b"
  "gh_expected (github_failed ports e b) = gh_expected b" "gh_expected (log_call c b) = gh_expected b"
  "gh_expected (fst (on_ledger h b)) = gh_expected b" "gh_expected (fst (on_questions k b)) = gh_expected b"
  "gh_expected (fst (gh_now_secs ports b)) = gh_expected b" "gh_expected (mark_status ports agent b) = gh_expected b"
  by (simp_all add: line_def mark_status_def gh_now_def gh_now_secs_def retry_once_def github_failed_def log_call_def on_ledger_def
      on_questions_def Let_def split: prod.split sum.split github_error.split)

lemma expected_flush [simp]: "gh_expected (flush_status ports agent b) = gh_expected b"
  by (simp add: flush_status_def repost_status_def case_prod_beta Let_def split: option.split sum.split github_error.split)

lemma expected_close [simp]: "gh_expected (close_row ports agent b) = gh_expected b"
  by (simp add: close_row_def case_prod_beta Let_def split: option.split sum.split)

lemma expected_ended: "gh_expected (ended ports agent reason b) = gh_expected (expect agent ExpectDeactivate b)"
  by (simp add: ended_def expect_def Let_def)

lemma expected_start_status [simp]: "gh_expected (fst (start_status ports p agent resumed old b)) = gh_expected b"
  by (simp add: start_status_def case_prod_beta Let_def split: option.split sum.split)

lemma expected_drop [simp]: "gh_expected (drop_prior ports prior b) = gh_expected b"
  by (simp add: drop_prior_def Let_def)

lemma expected_started: "gh_expected (started ports p fleet crew agent branch b) = gh_expected (expect agent ExpectActivate b)"
  by (simp add: started_def expect_def case_prod_beta Let_def split: option.split)

lemma expected_activate [simp]: "gh_expected (on_activate ports agent config b) = gh_expected b"
  by (simp add: on_activate_def case_prod_beta Let_def split: option.split sum.split)



end
