(* ===== verification/Spec2Isabelle.thy ===== *)
theory Spec2Isabelle
  imports Names Repo Rules Merge Sandbox Fleet Status Reconcile Execute Plugin Resolve
    Text Protocol Steps Delivery Flow Kv Registry Chain Sessions Actor
    Lanes Question Answer Render Blocks Dialogs Rooms Matrix
    Mention Webhook Ledger Reviews Github GithubSafety
begin

text \<open>
  A verification development for balerix: a configuration resolver, a daemon that reconciles fleets of coding
  agents, and the plugins that watch those agents and answer for their operators. Paths below are relative to src/.

  \<^bold>\<open>The program.\<close> A fleet file (YAML) is resolved by the client into a wire specification (crates/balerix-config).
  The daemon validates it into a domain fleet (crates/balerix-core), and one task per fleet, its actor, owns the
  fleet's record: it plans the steps between the desired and the observed state, executes them through ports,
  and folds their outcomes into the fleet's status. A hook event of an agent runs through the plugins that
  intercept it, in load order, and is queued for those that observe it (crates/balerix-server/src/plugins). A plugin
  answers with actions (text or keys for the agent's pane) and keeps its own state in the daemon's key/value
  store. The flow plugin steps a state machine per agent; the Matrix plugin mirrors an agent's session into a
  thread of a chat room, routes replies back, and answers the agent's dialogs; the GitHub plugin starts a session when its App is
  mentioned on an issue or a pull request, by applying the repository's own fleet file with an agent added, and routes
  comments and reviews to that agent.

  \<^bold>\<open>Conventions.\<close> \<open>Result<T, E>\<close> is \<open>'e + 'a\<close>, with \<open>Inl\<close> the error; \<open>Option\<close> is \<open>option\<close>; a \<open>BTreeMap\<close> or a \<open>HashMap\<close>
  whose order is never observed is a \<open>btree\<close>, an association list in key order; \<open>u64\<close> and \<open>u32\<close> are words; bytes
  of a \<open>str\<close> are \<open>string\<close>, and where the source works on \<open>char\<close>s a text is the list of its code points
  (\<open>ustr\<close>). A struct is a record and an enum a datatype. A method that takes a lock once, and a turn of a task's loop, is one function.
  What lies behind a trait or a network call is a record of functions over an arbitrary world, every one
  of which may fail; theorems quantify over those worlds. Library code outside src/ (SHA-256, the AES-GCM vault, serde's typing
  and printing, regular expressions, Unicode's tables, the TOML and YAML parsers, random numbers) is a parameter; where a theorem relies on
  its documented behaviour (a stored document decodes to what was encoded, the vault opens what it
  sealed) that is a hypothesis, and the witness instantiates it.

  \<^bold>\<open>Theories.\<close>

  \<^item> \<^emph>\<open>Prelude\<close>: Balerix_Prelude (strings, results, \<open>btree\<close> with the locale \<open>ordered_map\<close> and its interpretation, saturating
    words), Steps (runs of operations; the locales \<open>composable\<close>, \<open>conserving_steps\<close>, \<open>accounted_steps\<close>), Json.
  \<^item> \<^emph>\<open>Configuration\<close>: Names (core name.rs), Repo (core repo.rs), Rules (api branch.rs, core version.rs), Merge (config merge.rs,
    restricted.rs), Sandbox (core sandbox.rs), Fleet (api fleet.rs, settings.rs, core fleet.rs, agent.rs), Resolve (config
    resolve.rs, validate.rs, file.rs), Plugin (core plugin.rs). A resolved specification converts to a
    fleet that satisfies every stated rule; a sandbox block grants only literal paths; a plugin-applied file cannot change what
    the restricted layers keep for themselves.
  \<^item> \<^emph>\<open>Reconciler\<close>: Status (core reconcile/status.rs; the locale \<open>pointwise_updates\<close>), Reconcile (core reconcile/mod.rs), Execute (core
    reconcile/execute.rs, ports.rs), Actor (server actor.rs). The plan of an agent is its row of the documented decision
    table; a step is skipped exactly when what it depends on failed; a pass without failures converges;
    restarts are bounded over every run; what the actor persists, publishes and answers is one record after each turn.
  \<^item> \<^emph>\<open>Daemon\<close>: Protocol (api protocol.rs, hook.rs), Registry (server plugins/registry.rs, activation.rs), Chain (server plugins/chain.rs,
    client.rs), Kv (server plugins/kv.rs, fsutil.rs), Sessions (server sessions.rs, auth.rs). Events a plugin missed are accounted for;
    a failing plugin never blocks an event; the store's directory tree refines a map; a login code works once.
  \<^item> \<^emph>\<open>Panes and prompts\<close>: Text (api text.rs), Delivery (plugins/common delivery.rs). A prompt typed
    into a pane is recognised in the agent's report of it; prompts are conserved; Enter is pressed again only on an idle agent, spaced.
  \<^item> \<^emph>\<open>Flow plugin\<close>: Flow (plugins/flow machine.rs, config.rs, plugin.rs; the locale \<open>kv_contract\<close>, interpreted in Kv on the daemon's
    store). A machine stays in its declared states; a restarted plugin resumes every agent.
  \<^item> \<^emph>\<open>Chat plugins\<close>: Lanes (plugins/common queue.rs), Question (question.rs), Answer (pending.rs, answer.rs), Render (render.rs,
    phases.rs), Blocks (config.rs), Dialogs (when the events of an agent open and close a dialog, shared by both plugins). The
    queue is one list in arrival order; a matched reply is well formed and unambiguous, and its keys make the dialog
    record it; a long message is cut into parts that fit.
  \<^item> \<^emph>\<open>Matrix plugin\<close>: Rooms (plugins/matrix routing.rs, replay.rs), Matrix (actor.rs, config.rs, matrix.rs). Over whole runs of the
    actor: an open question is never typed over, a reply acts only on the agent whose own open thread it answers, keys
    follow the post that shows them, a redelivered message does nothing, and nothing panics.
  \<^item> \<^emph>\<open>GitHub plugin\<close>: Mention (plugins/github mention.rs, repo_config.rs), Webhook (webhook.rs), Ledger (session.rs, status.rs), Reviews
    (plugins/common review.rs, plugins/github prompt.rs), Github (actor.rs, config.rs, github.rs), GithubSafety (the runs of the
    actor). A delivery is queued exactly when it is signed, new and understood; a mention is found exactly where one stands; a
    prepared file holds the repository's agents and one per session. Over whole runs of the actor: text is never sent to an
    agent with a question open in the plugin's record, an event acts only on the agent of its own number, only those who may write are
    heard, a comment is acted on once, and a resumed session outlives the deactivation of its last run. A comment
    for an agent that is not activated again after a restart is typed over its dialog, which is shown as such.

  \<^bold>\<open>Bounds.\<close> Every loop of the source that is modelled terminates and is a total function here, with a
  termination proof where the recursion is not structural (the cutter of long messages, the shrinking of the record of handled ids and of the ring of delivery ids); no fuel is used.
  The backoff is computed in 64-bit words and shown exact. Stamps of the command queue are \<open>u64\<close> and its properties hold
  for fewer than \<open>2^64\<close> operations. The split of a message is shown to fit for limits of at least 68
  bytes (the plugin uses 4000) and bodies under a billion characters, whose decimal counts fit the overhead the code reserves.

  \<^bold>\<open>Not modelled.\<close> Metrics and log lines; HTTP and WebSocket plumbing (axum routes, proxy, attach), argument parsing and printing;
  the adapters over git, gh, mise, nono and tmux, which are file system and process I/O behind the ports of Execute;
  the vault's cryptography; disk faults and crashes half-way through a file operation; the login rate limiter, which counts in
  floating point; the public URL's parsing by an outside library; panicking tasks and their restart; the sockets of the
  Kubernetes sidecars and the operator; the homeserver and GitHub clients; the web plugin's pages and routes.
\<close>

end
